(* ===== verification/Wagman_Prelude.thy ===== *)
theory Wagman_Prelude
  imports Main "HOL-Library.Word"
begin

text \<open>
  Shared vocabulary of the development: the C integer types of the ATmega32U4 as words,
  the bit macros of the AVR headers, little-endian object representations (how a
  \<^verbatim>\<open>uint16_t\<close> or \<^verbatim>\<open>uint32_t\<close> lies in memory), byte-addressed memories as functions and the
  frame lemmas about writing a block of bytes into them. The collections \<open>bit_defs\<close> and
  \<open>mem_simps\<close> carry the component proofs.
\<close>

unbundle bit_operations_syntax

named_theorems bit_defs "definitions of bit-level macros"
named_theorems mem_simps "reading and writing byte blocks"

section \<open>Machine integers\<close>

type_synonym u8 = "8 word"
type_synonym u16 = "16 word"
type_synonym u32 = "32 word"

text \<open>\<^verbatim>\<open>_BV(n)\<close>, \<^verbatim>\<open>sbi\<close> and \<^verbatim>\<open>cbi\<close>: the bit macros the AVR code is written with.\<close>

definition BV :: "nat \<Rightarrow> 'a::len word" where
  "BV n = push_bit n 1"

definition sbi :: "'a::len word \<Rightarrow> nat \<Rightarrow> 'a word" where
  "sbi r n = r OR BV n"

definition cbi :: "'a::len word \<Rightarrow> nat \<Rightarrow> 'a word" where
  "cbi r n = r AND NOT (BV n)"

lemma bit_BV [simp]: "bit (BV n :: 'a::len word) i \<longleftrightarrow> i = n \<and> n < LENGTH('a)"
  by (auto simp: BV_def bit_simps)

lemma bit_sbi: "bit (sbi r n :: 'a::len word) i \<longleftrightarrow> bit r i \<or> (i = n \<and> n < LENGTH('a))"
  by (auto simp: sbi_def bit_simps)

lemma bit_cbi: "bit (cbi r n :: 'a::len word) i \<longleftrightarrow> bit r i \<and> i \<noteq> n"
  using bit_imp_le_length by (fastforce simp: cbi_def bit_simps)

declare BV_def [bit_defs] sbi_def [bit_defs] cbi_def [bit_defs]

lemma sbi_cbi [simp]: "n < LENGTH('a) \<Longrightarrow> cbi (sbi r n) n = cbi (r :: 'a::len word) n"
  by (rule bit_word_eqI) (auto simp: bit_sbi bit_cbi)

lemma and_BV_neq_0 [simp]: "(w AND BV n \<noteq> 0) = bit (w :: 'a::len word) n"
proof -
  have "w AND BV n = (if bit w n then BV n else 0)"
    using bit_imp_le_length by (auto intro!: bit_word_eqI simp: bit_simps)
  moreover have "bit w n \<Longrightarrow> (BV n :: 'a word) \<noteq> 0"
    by (metis bit_0_eq bit_BV bit_imp_le_length bot_apply bot_bool_def)
  ultimately show ?thesis by auto
qed

lemma and_BV_eq_0 [simp]: "(w AND BV n = 0) = (\<not> bit (w :: 'a::len word) n)"
  using and_BV_neq_0 [of w n] by blast

text \<open>Unsigned subtraction of two readings of a free-running counter is their distance
  modulo the width of the counter, whether or not the counter has wrapped in between.\<close>

lemma word_elapsed: "(t + d) - t = (d :: 'a::len word)"
  by simp

lemma unat_less_256: "unat (w :: u8) < 256"
  using unsigned_less [of w, where 'a = nat] by simp

lemma unat_less_65536: "unat (w :: u16) < 65536"
  using unsigned_less [of w, where 'a = nat] by simp

lemma unat_lt2p_any: "unat (x :: 'a::len word) < 2 ^ LENGTH('a)"
  by (rule unsigned_less)

lemma unat_of_nat_below:
  fixes x :: "'a::len word"
  assumes "n \<le> unat x"
  shows "unat (of_nat n :: 'a word) = n"
proof -
  have "n < 2 ^ LENGTH('a)" using assms unat_lt2p_any by (rule le_less_trans)
  then show ?thesis by (simp add: unat_of_nat)
qed

lemma unat_diff_of_nat:
  fixes x :: "'a::len word"
  assumes "n \<le> unat x"
  shows "unat (x - of_nat n) = unat x - n"
  using unat_of_nat_below [OF assms] assms by (simp add: unat_sub word_le_nat_alt)

lemma u8_less_5: "(d :: u8) < 5 \<longleftrightarrow> d = 0 \<or> d = 1 \<or> d = 2 \<or> d = 3 \<or> d = 4"
proof
  assume "d < 5"
  then have "unat d < 5" by (simp add: word_less_nat_alt)
  then have "unat d = 0 \<or> unat d = 1 \<or> unat d = 2 \<or> unat d = 3 \<or> unat d = 4" by auto
  moreover have "d = word_of_nat (unat d)" by simp
  ultimately show "d = 0 \<or> d = 1 \<or> d = 2 \<or> d = 3 \<or> d = 4"
    by (metis of_nat_numeral semiring_1_class.of_nat_0 semiring_1_class.of_nat_1)
qed auto

lemma u8_less_2: "(d :: u8) < 2 \<longleftrightarrow> d = 0 \<or> d = 1"
proof
  assume "d < 2"
  then have "d < 5" by (simp add: word_less_nat_alt)
  with \<open>d < 2\<close> show "d = 0 \<or> d = 1" by (auto simp: u8_less_5)
qed auto

section \<open>Little-endian object representation\<close>

fun le_bytes :: "nat \<Rightarrow> 'a::len word \<Rightarrow> u8 list" where
  "le_bytes 0 w = []"
| "le_bytes (Suc n) w = ucast w # le_bytes n (drop_bit 8 w)"

fun of_le :: "u8 list \<Rightarrow> 'a::len word" where
  "of_le [] = 0"
| "of_le (b # bs) = ucast b OR push_bit 8 (of_le bs)"

lemma length_le_bytes [simp]: "length (le_bytes n w) = n"
  by (induction n arbitrary: w) auto

lemma bit_of_le: "bit (of_le bs :: 'a::len word) i \<longleftrightarrow>
    i < LENGTH('a) \<and> i div 8 < length bs \<and> bit (bs ! (i div 8)) (i mod 8)"
proof (induction bs arbitrary: i)
  case Nil
  then show ?case by simp
next
  case (Cons b bs)
  show ?case
  proof (cases "i < 8")
    case True
    then show ?thesis
      by (auto simp: bit_simps)
  next
    case False
    then have "i div 8 = Suc ((i - 8) div 8)" "i mod 8 = (i - 8) mod 8"
      by (simp_all add: le_div_geq le_mod_geq not_less)
    moreover from False have "\<not> bit b i"
      using bit_imp_le_length by fastforce
    ultimately show ?thesis
      using False Cons.IH [of "i - 8"] by (auto simp: bit_simps)
  qed
qed

lemma nth_le_bytes: "k < n \<Longrightarrow> bit (le_bytes n w ! k) j \<longleftrightarrow> j < 8 \<and> bit w (8 * k + j)"
proof (induction n arbitrary: w k)
  case 0
  then show ?case by simp
next
  case (Suc n)
  show ?case
  proof (cases k)
    case 0
    then show ?thesis
      using bit_imp_le_length by (auto simp: bit_simps)
  next
    case (Suc k')
    with Suc.prems Suc.IH [of k' "drop_bit 8 w"] show ?thesis
      by (auto simp: bit_simps ac_simps)
  qed
qed

lemma of_le_le_bytes: "LENGTH('a) \<le> 8 * n \<Longrightarrow> of_le (le_bytes n w) = (w :: 'a::len word)"
proof (rule bit_word_eqI)
  fix i assume a: "LENGTH('a) \<le> 8 * n" and i: "i < LENGTH('a)"
  then have "i div 8 < n" by auto
  then show "bit (of_le (le_bytes n w) :: 'a word) i \<longleftrightarrow> bit w i"
    using i by (simp add: bit_of_le nth_le_bytes)
qed

lemma le_bytes_of_le:
  assumes "8 * length bs \<le> LENGTH('a)"
  shows "le_bytes (length bs) (of_le bs :: 'a::len word) = bs"
proof (rule nth_equalityI)
  show "length (le_bytes (length bs) (of_le bs :: 'a word)) = length bs" by simp
next
  fix k assume "k < length (le_bytes (length bs) (of_le bs :: 'a word))"
  then have k: "k < length bs" by simp
  show "le_bytes (length bs) (of_le bs :: 'a word) ! k = bs ! k"
  proof (rule bit_word_eqI)
    fix j assume "j < LENGTH(8)"
    then have "j < 8" by simp
    moreover from k this assms have "8 * k + j < LENGTH('a)" by simp
    ultimately show "bit (le_bytes (length bs) (of_le bs :: 'a word) ! k) j \<longleftrightarrow> bit (bs ! k) j"
      using k by (simp add: nth_le_bytes bit_of_le)
  qed
qed

lemmas of_le_16 [simp] = of_le_le_bytes [where 'a = 16 and n = 2, simplified]
lemmas of_le_32 [simp] = of_le_le_bytes [where 'a = 32 and n = 4, simplified]

section \<open>Byte-addressed memory\<close>

type_synonym mem = "nat \<Rightarrow> u8"

fun read_block :: "mem \<Rightarrow> nat \<Rightarrow> nat \<Rightarrow> u8 list" where
  "read_block m a 0 = []"
| "read_block m a (Suc n) = m a # read_block m (Suc a) n"

fun write_block :: "mem \<Rightarrow> nat \<Rightarrow> u8 list \<Rightarrow> mem" where
  "write_block m a [] = m"
| "write_block m a (b # bs) = write_block (m(a := b)) (Suc a) bs"

lemma length_read_block [simp]: "length (read_block m a n) = n"
  by (induction n arbitrary: a) auto

lemma nth_read_block: "k < n \<Longrightarrow> read_block m a n ! k = m (a + k)"
  by (induction n arbitrary: a k) (auto simp: nth_Cons split: nat.splits)

lemma write_block_apply:
  "write_block m a bs x = (if a \<le> x \<and> x < a + length bs then bs ! (x - a) else m x)"
proof (induction bs arbitrary: m a)
  case Nil
  then show ?case by auto
next
  case (Cons b bs)
  then show ?case
    by (cases "x = a") (auto simp: nth_Cons' Suc_diff_Suc)
qed

lemma write_block_outside [mem_simps]:
  "x < a \<or> a + length bs \<le> x \<Longrightarrow> write_block m a bs x = m x"
  by (auto simp: write_block_apply)

lemma read_block_cong:
  "(\<And>x. a \<le> x \<Longrightarrow> x < a + n \<Longrightarrow> m x = m' x) \<Longrightarrow> read_block m a n = read_block m' a n"
  by (rule nth_equalityI) (auto simp: nth_read_block)

lemma read_write_block [mem_simps]: "n = length bs \<Longrightarrow> read_block (write_block m a bs) a n = bs"
  by (rule nth_equalityI) (auto simp: nth_read_block write_block_apply)

lemma read_write_disjoint [mem_simps]:
  "b + n \<le> a \<or> a + length bs \<le> b \<Longrightarrow> read_block (write_block m a bs) b n = read_block m b n"
  by (rule read_block_cong) (auto simp: write_block_apply)

lemma read_block_upd [mem_simps]:
  "x < b \<or> b + n \<le> x \<Longrightarrow> read_block (m(x := v)) b n = read_block m b n"
  by (rule read_block_cong) auto

end
