(* ===== verification/Usb_Core.thy ===== *)
theory Usb_Core
  imports Wagman_Prelude "HOL-Library.Monad_Syntax"
begin

text \<open>
  The USB core of the Arduino library under the sketch (\<^verbatim>\<open>USBCore.cpp\<close> with \<^verbatim>\<open>USBAPI.h\<close>, \<^verbatim>\<open>USBCore.h\<close> and
  \<^verbatim>\<open>USBDesc.h\<close>), built for the ATmega32U4 with the variant \<^verbatim>\<open>micro\<close>: the access to the endpoint registers,
  the receiving half of the endpoint interface, the control pipe with its limit \<^verbatim>\<open>_cmark\<close>/\<^verbatim>\<open>_cend\<close>, the
  clocks, the general interrupt and \<^verbatim>\<open>USBDevice\<close>. The requests of the control pipe are in
  \<open>Usb_Requests\<close>, sending and the class \<^verbatim>\<open>Serial_\<close> in \<open>Usb_Serial\<close>.

  The controller is the one of the theory \<open>Usb_Endpoint\<close>, but this code runs its bulk endpoints with two
  banks each: \<open>banks\<close> are the packets received and not yet released, the first one being the one the
  processor reads; \<open>fill\<close> is the bank the processor fills and \<open>txq\<close> the packets handed over and not yet
  collected by the host. The interrupt flags of \<^verbatim>\<open>UEINTX\<close> are functions of these.

  While the interrupt handler of the control pipe waits for the host, the host takes the next of its
  actions \<open>acts\<close> on the pipe; if there is none left the loop runs forever, which is the result \<open>None\<close>.
\<close>

section \<open>State\<close>

record uep =
  EPEN :: bool
  STALLRQ :: bool
  UECFG0X :: u8
  UECFG1X :: u8
  UEIENX :: u8
  setup_pkt :: "u8 list option"
  banks :: "u8 list list"
  fill :: "u8 list"
  txq :: "u8 list list"

datatype act = ActIn | ActOut "u8 list"

record LineInfo =
  dwDTERate :: u32
  bCharFormat :: u8
  bParityType :: u8
  bDataBits :: u8
  lineState :: u8

record ucore =
  SREG :: u8
  UENUM :: u8
  eps :: "nat \<Rightarrow> uep"
  UDADDR :: u8
  UDCON :: u8
  UDIEN :: u8
  UDINT :: u8
  USBCON :: u8
  UHWCON :: u8
  PLLCSR :: u8
  pll_locks :: bool
  PORTB :: u8
  PORTD :: u8
  DDRB :: u8
  DDRD :: u8
  TxLEDPulse :: u8
  RxLEDPulse :: u8
  usbConfiguration :: u8
  usbCurrentStatus :: u8
  usbSuspendState :: u8
  initEndpoints :: "u8 list"
  cmark :: int
  cend :: int
  cdcComposite :: u8
  usbLineInfo :: LineInfo
  breakValue :: int
  updatedLUFAbootloader :: bool
  ram :: mem
  wdt :: "u8 option"
  peek_buffer :: int
  write_error :: bool
  waited :: nat
  acts :: "act list"
  in_log :: "nat \<Rightarrow> u8 list list"

definition cur :: "ucore \<Rightarrow> nat" where
  "cur u = unat (UENUM u)"

definition sel :: "ucore \<Rightarrow> uep" where
  "sel u = eps u (cur u)"

definition on_ep :: "nat \<Rightarrow> (uep \<Rightarrow> uep) \<Rightarrow> ucore \<Rightarrow> ucore" where
  "on_ep n f u = u\<lparr>eps := (eps u)(n := f (eps u n))\<rparr>"

definition on_sel :: "(uep \<Rightarrow> uep) \<Rightarrow> ucore \<Rightarrow> ucore" where
  "on_sel f u = on_ep (cur u) f u"

text \<open>What the configuration registers mean (one bit for the second bank, three for the size).\<close>

definition ep_in :: "uep \<Rightarrow> bool" where "ep_in e \<longleftrightarrow> bit (UECFG0X e) 0"
definition ep_control :: "uep \<Rightarrow> bool" where "ep_control e \<longleftrightarrow> drop_bit 6 (UECFG0X e) = 0"
definition ep_size :: "uep \<Rightarrow> nat" where "ep_size e = 8 * 2 ^ unat (drop_bit 4 (UECFG1X e) AND 7)"
definition ep_banks :: "uep \<Rightarrow> nat" where "ep_banks e = (if bit (UECFG1X e) 2 then 2 else 1)"

definition RXSTPI :: "uep \<Rightarrow> bool" where "RXSTPI e \<longleftrightarrow> setup_pkt e \<noteq> None"
definition RXOUTI :: "uep \<Rightarrow> bool" where "RXOUTI e \<longleftrightarrow> banks e \<noteq> []"

definition TXINI :: "uep \<Rightarrow> bool" where
  "TXINI e \<longleftrightarrow> (ep_in e \<or> ep_control e) \<and> length (txq e) < ep_banks e"

definition RWAL :: "uep \<Rightarrow> bool" where
  "RWAL e \<longleftrightarrow> \<not> STALLRQ e \<and>
     (if ep_in e then TXINI e \<and> length (fill e) < ep_size e else banks e \<noteq> [] \<and> hd (banks e) \<noteq> [])"

definition UEBCLX :: "uep \<Rightarrow> u8" where
  "UEBCLX e = of_nat (if ep_in e then length (fill e) else case banks e of [] \<Rightarrow> 0 | b # _ \<Rightarrow> length b)"

text \<open>The data register: reading takes the next byte of the setup packet or of the current bank (0 when
  there is none), writing appends to the bank while the processor owns one and it is not full.\<close>

definition ep_pop :: "uep \<Rightarrow> u8 \<times> uep" where
  "ep_pop e = (case setup_pkt e of Some (b # bs) \<Rightarrow> (b, e\<lparr>setup_pkt := Some bs\<rparr>)
     | Some [] \<Rightarrow> (0, e)
     | None \<Rightarrow> (case banks e of (b # bs) # rest \<Rightarrow> (b, e\<lparr>banks := bs # rest\<rparr>) | _ \<Rightarrow> (0, e)))"

definition ep_push :: "u8 \<Rightarrow> uep \<Rightarrow> uep" where
  "ep_push b e = (if TXINI e \<and> length (fill e) < ep_size e then e\<lparr>fill := fill e @ [b]\<rparr> else e)"

definition ep_handover :: "uep \<Rightarrow> uep" where
  "ep_handover e = (if TXINI e then e\<lparr>txq := txq e @ [fill e], fill := []\<rparr> else e)"

definition ep_drop :: "uep \<Rightarrow> uep" where
  "ep_drop e = e\<lparr>banks := tl (banks e)\<rparr>"

definition ep_empty :: "uep \<Rightarrow> uep" where
  "ep_empty e = e\<lparr>setup_pkt := None, banks := [], fill := [], txq := []\<rparr>"

section \<open>Access to the endpoint registers\<close>

text \<open>The host on the control pipe while the handler waits: an IN token collects the packet that is
  ready, an OUT packet is stored if the bank is free; anything else is answered by NAK.\<close>

definition take_in :: "nat \<Rightarrow> ucore \<Rightarrow> ucore" where
  "take_in n u = (case txq (eps u n) of [] \<Rightarrow> u
     | p # q \<Rightarrow> (on_ep n (txq_update (\<lambda>_. q)) u)\<lparr>in_log := (in_log u)(n := in_log u n @ [p])\<rparr>)"

definition give_out :: "nat \<Rightarrow> u8 list \<Rightarrow> ucore \<Rightarrow> ucore" where
  "give_out n p u = (let e = eps u n in
     if EPEN e \<and> \<not> ep_in e \<and> \<not> STALLRQ e \<and> length (banks e) < ep_banks e \<and> length p \<le> ep_size e
     then on_ep n (banks_update (\<lambda>bs. bs @ [p])) u else u)"

fun act_step :: "act \<Rightarrow> ucore \<Rightarrow> ucore" where
  "act_step ActIn u = take_in 0 u"
| "act_step (ActOut p) u = give_out 0 p u"

fun wait_acts :: "(uep \<Rightarrow> bool) \<Rightarrow> act list \<Rightarrow> ucore \<Rightarrow> ucore option" where
  "wait_acts P [] u = (if P (sel u) then Some (u\<lparr>acts := []\<rparr>) else None)"
| "wait_acts P (a # as) u = (if P (sel u) then Some (u\<lparr>acts := a # as\<rparr>) else wait_acts P as (act_step a u))"

definition WaitIN :: "ucore \<Rightarrow> ucore option" where
  "WaitIN u = wait_acts TXINI (acts u) u"

text \<open>Clearing \<^verbatim>\<open>TXINI\<close> or \<^verbatim>\<open>RXOUTI\<close> gives the bank back on a control endpoint only; the other endpoints keep it
  until \<^verbatim>\<open>FIFOCON\<close> is cleared, which \<^verbatim>\<open>ReleaseTX\<close> and \<^verbatim>\<open>ReleaseRX\<close> do.\<close>

definition ClearIN :: "ucore \<Rightarrow> ucore" where
  "ClearIN u = on_sel (\<lambda>e. if ep_control e then ep_handover e else e) u"

definition WaitOUT :: "ucore \<Rightarrow> ucore option" where
  "WaitOUT u = wait_acts RXOUTI (acts u) u"

definition WaitForINOrOUT :: "ucore \<Rightarrow> (bool \<times> ucore) option" where
  "WaitForINOrOUT u =
    map_option (\<lambda>u. (\<not> RXOUTI (sel u), u)) (wait_acts (\<lambda>e. TXINI e \<or> RXOUTI e) (acts u) u)"

definition ClearOUT :: "ucore \<Rightarrow> ucore" where
  "ClearOUT u = on_sel (\<lambda>e. if ep_control e then ep_drop e else e) u"

text \<open>The lights of the variant \<^verbatim>\<open>micro\<close>.\<close>

definition TXLED0 :: "ucore \<Rightarrow> ucore" where "TXLED0 u = u\<lparr>PORTD := cbi (PORTD u) 5\<rparr>"
definition TXLED1 :: "ucore \<Rightarrow> ucore" where "TXLED1 u = u\<lparr>PORTD := sbi (PORTD u) 5\<rparr>"
definition RXLED0 :: "ucore \<Rightarrow> ucore" where "RXLED0 u = u\<lparr>PORTB := cbi (PORTB u) 0\<rparr>"
definition RXLED1 :: "ucore \<Rightarrow> ucore" where "RXLED1 u = u\<lparr>PORTB := sbi (PORTB u) 0\<rparr>"

definition TX_RX_LED_INIT :: "ucore \<Rightarrow> ucore" where
  "TX_RX_LED_INIT u = RXLED0 (TXLED0 (u\<lparr>DDRD := sbi (DDRD u) 5, DDRB := sbi (DDRB u) 0\<rparr>))"

definition TX_RX_LED_PULSE_MS :: u8 where "TX_RX_LED_PULSE_MS = 100"

definition UEDATX :: "ucore \<Rightarrow> u8 \<times> ucore" where
  "UEDATX u = (fst (ep_pop (sel u)), on_sel (\<lambda>e. snd (ep_pop e)) u)"

fun Recv_loop :: "nat \<Rightarrow> ucore \<Rightarrow> u8 list \<times> ucore" where
  "Recv_loop 0 u = ([], u)"
| "Recv_loop (Suc count) u =
    (let (b, u) = UEDATX u; (bs, u) = Recv_loop count u in (b # bs, u))"

definition Recv :: "nat \<Rightarrow> ucore \<Rightarrow> u8 list \<times> ucore" where
  "Recv count u = (let (bs, u) = Recv_loop count u in (bs, (RXLED1 u)\<lparr>RxLEDPulse := TX_RX_LED_PULSE_MS\<rparr>))"

definition Recv8 :: "ucore \<Rightarrow> u8 \<times> ucore" where
  "Recv8 u = UEDATX ((RXLED1 u)\<lparr>RxLEDPulse := TX_RX_LED_PULSE_MS\<rparr>)"

definition Send8 :: "u8 \<Rightarrow> ucore \<Rightarrow> ucore" where
  "Send8 d u = on_sel (ep_push d) u"

definition SetEP :: "u8 \<Rightarrow> ucore \<Rightarrow> ucore" where
  "SetEP ep u = u\<lparr>UENUM := ep\<rparr>"

definition FifoByteCount :: "ucore \<Rightarrow> u8" where
  "FifoByteCount u = UEBCLX (sel u)"

definition ReceivedSetupInt :: "ucore \<Rightarrow> bool" where
  "ReceivedSetupInt u = RXSTPI (sel u)"

text \<open>The code clears \<^verbatim>\<open>RXOUTI\<close> and \<^verbatim>\<open>TXINI\<close> with the same write. Both are clear while the bank holds a setup packet, so
  that only the release of the packet is left.\<close>

definition ClearSetupInt :: "ucore \<Rightarrow> ucore" where
  "ClearSetupInt u = on_sel (setup_pkt_update (\<lambda>_. None)) u"

definition Stall :: "ucore \<Rightarrow> ucore" where
  "Stall u = on_sel (\<lambda>e. e\<lparr>STALLRQ := True, EPEN := True\<rparr>) u"

definition ReadWriteAllowed :: "ucore \<Rightarrow> bool" where
  "ReadWriteAllowed u = RWAL (sel u)"

definition ReleaseRX :: "ucore \<Rightarrow> ucore" where
  "ReleaseRX u = on_sel ep_drop u"

definition ReleaseTX :: "ucore \<Rightarrow> ucore" where
  "ReleaseTX u = on_sel ep_handover u"

text \<open>\<^verbatim>\<open>LockEP\<close>: the constructor saves the status register, masks the interrupts and selects the endpoint,
  the destructor restores the status register.\<close>

definition LockEP :: "u8 \<Rightarrow> ucore \<Rightarrow> u8 \<times> ucore" where
  "LockEP ep u = (SREG u, SetEP (ep AND 7) (u\<lparr>SREG := cbi (SREG u) 7\<rparr>))"

definition UnlockEP :: "u8 \<Rightarrow> ucore \<Rightarrow> ucore" where
  "UnlockEP sreg u = u\<lparr>SREG := sreg\<rparr>"

section \<open>Receiving\<close>

definition USB_EP_SIZE :: nat where "USB_EP_SIZE = 64"
definition CDC_ENDPOINT_ACM :: u8 where "CDC_ENDPOINT_ACM = 1"
definition CDC_RX :: u8 where "CDC_RX = 2"
definition CDC_TX :: u8 where "CDC_TX = 3"

definition USB_Available :: "u8 \<Rightarrow> ucore \<Rightarrow> u8 \<times> ucore" where
  "USB_Available ep u = (let (s, u) = LockEP ep u in (FifoByteCount u, UnlockEP s u))"

fun Recv8_loop :: "nat \<Rightarrow> ucore \<Rightarrow> u8 list \<times> ucore" where
  "Recv8_loop 0 u = ([], u)"
| "Recv8_loop (Suc n) u = (let (b, u) = Recv8 u; (bs, u) = Recv8_loop n u in (b # bs, u))"

definition USB_Recv :: "u8 \<Rightarrow> int \<Rightarrow> ucore \<Rightarrow> int \<times> u8 list \<times> ucore" where
  "USB_Recv ep len u =
    (if usbConfiguration u = 0 \<or> len < 0 then (-1, [], u)
     else let (s, u) = LockEP ep u;
              len = min (uint (FifoByteCount u)) len;
              (d, u) = Recv8_loop (nat len) u;
              u = (if len \<noteq> 0 \<and> FifoByteCount u = 0 then ReleaseRX u else u)
          in (len, d, UnlockEP s u))"

definition USB_Recv1 :: "u8 \<Rightarrow> ucore \<Rightarrow> int \<times> ucore" where
  "USB_Recv1 ep u = (let (n, d, u) = USB_Recv ep 1 u in (if n \<noteq> 1 then -1 else uint (hd d), u))"

definition USB_SendSpace :: "u8 \<Rightarrow> ucore \<Rightarrow> u8 \<times> ucore" where
  "USB_SendSpace ep u = (let (s, u) = LockEP ep u in
     (if \<not> ReadWriteAllowed u then 0 else of_nat USB_EP_SIZE - 1 - FifoByteCount u, UnlockEP s u))"

definition USB_Flush :: "u8 \<Rightarrow> ucore \<Rightarrow> ucore" where
  "USB_Flush ep u = (let u = SetEP ep u in if FifoByteCount u \<noteq> 0 then ReleaseTX u else u)"

section \<open>Endpoint configuration\<close>

definition EP_TYPE_CONTROL :: u8 where "EP_TYPE_CONTROL = 0x00"
definition EP_TYPE_BULK_IN :: u8 where "EP_TYPE_BULK_IN = BV 7 OR BV 0"
definition EP_TYPE_BULK_OUT :: u8 where "EP_TYPE_BULK_OUT = BV 7"
definition EP_TYPE_INTERRUPT_IN :: u8 where "EP_TYPE_INTERRUPT_IN = BV 7 OR BV 6 OR BV 0"
definition EP_SINGLE_64 :: u8 where "EP_SINGLE_64 = 0x32"
definition EP_DOUBLE_64 :: u8 where "EP_DOUBLE_64 = 0x36"
definition USB_ENDPOINTS :: nat where "USB_ENDPOINTS = 7"

definition initEndpoints_0 :: "u8 list" where
  "initEndpoints_0 = [0, EP_TYPE_INTERRUPT_IN, EP_TYPE_BULK_OUT, EP_TYPE_BULK_IN, 0, 0, 0]"

definition InitEP :: "u8 \<Rightarrow> u8 \<Rightarrow> u8 \<Rightarrow> ucore \<Rightarrow> ucore" where
  "InitEP index typ sz u =
    on_sel (\<lambda>e. ep_empty (e\<lparr>EPEN := True, UECFG0X := typ, UECFG1X := sz\<rparr>)) (SetEP index u)"

text \<open>The loop over \<^verbatim>\<open>_initEndpoints\<close>: endpoints \<open>i\<close>, \<open>i + 1\<close>, \<open>\<dots>\<close> until the table ends or has an entry 0.\<close>

fun InitEndpoints_from :: "u8 \<Rightarrow> u8 list \<Rightarrow> ucore \<Rightarrow> ucore" where
  "InitEndpoints_from i [] u = u"
| "InitEndpoints_from i (t # ts) u =
    (if t = 0 then u else InitEndpoints_from (i + 1) ts (InitEP i t EP_DOUBLE_64 u))"

definition InitEndpoints :: "ucore \<Rightarrow> ucore" where
  "InitEndpoints u =
    (let u = InitEndpoints_from 1 (tl (initEndpoints u)) u
     in u\<lparr>eps := (\<lambda>n. if 1 \<le> n \<and> n \<le> 6 then ep_empty (eps u n) else eps u n)\<rparr>)"

section \<open>The control pipe\<close>

text \<open>\<^verbatim>\<open>_cend\<close> is a signed 16-bit integer: a length from 32768 on becomes negative. \<^verbatim>\<open>_cmark\<close>, of the same type, counts the
  bytes of one answer, which are a few hundred at most.\<close>

definition InitControl :: "int \<Rightarrow> ucore \<Rightarrow> ucore" where
  "InitControl lim u = (SetEP 0 u)\<lparr>cmark := 0, cend := lim\<rparr>"

definition SendControl :: "u8 \<Rightarrow> ucore \<Rightarrow> (bool \<times> ucore) option" where
  "SendControl d u =
    (if cmark u < cend u then
       do { (ok, u) \<leftarrow> WaitForINOrOUT u;
            if \<not> ok then Some (False, u)
            else let u = Send8 d u;
                     u = (if (cmark u + 1) mod 64 = 0 then ClearIN u else u)
                 in Some (True, u\<lparr>cmark := cmark u + 1\<rparr>) }
     else Some (True, u\<lparr>cmark := cmark u + 1\<rparr>))"

fun USB_SendControl_loop :: "u8 list \<Rightarrow> ucore \<Rightarrow> (bool \<times> ucore) option" where
  "USB_SendControl_loop [] u = Some (True, u)"
| "USB_SendControl_loop (c # data) u =
    do { (ok, u) \<leftarrow> SendControl c u;
         if ok then USB_SendControl_loop data u else Some (False, u) }"

definition USB_SendControl :: "u8 list \<Rightarrow> ucore \<Rightarrow> (int \<times> ucore) option" where
  "USB_SendControl d u =
    map_option (\<lambda>(ok, u). (if ok then int (length d) else -1, u)) (USB_SendControl_loop d u)"

fun SendString_loop :: "u8 list \<Rightarrow> ucore \<Rightarrow> (bool \<times> ucore) option" where
  "SendString_loop [] u = Some (True, u)"
| "SendString_loop (c # cs) u =
    do { (r, u) \<leftarrow> SendControl c u;
         (r', u) \<leftarrow> SendControl 0 u;
         if r \<and> r' then SendString_loop cs u else Some (False, u) }"

definition USB_SendStringDescriptor :: "u8 list \<Rightarrow> ucore \<Rightarrow> (bool \<times> ucore) option" where
  "USB_SendStringDescriptor string u =
    do { (_, u) \<leftarrow> SendControl (2 + of_nat (length string) * 2) u;
         (_, u) \<leftarrow> SendControl 3 u;
         SendString_loop string u }"

function USB_RecvControl_loop :: "nat \<Rightarrow> ucore \<Rightarrow> (u8 list \<times> ucore) option" where
  "USB_RecvControl_loop len u =
    (if len = 0 then Some ([], u)
     else let recvLength = min len 64
          in do { u \<leftarrow> WaitOUT u;
                  let (d, u) = Recv recvLength u;
                  (ds, u) \<leftarrow> USB_RecvControl_loop (len - recvLength) (ClearOUT u);
                  Some (d @ ds, u) })"
  by pat_completeness auto
termination by (relation "measure fst") auto

declare USB_RecvControl_loop.simps [simp del]

definition USB_RecvControl :: "nat \<Rightarrow> ucore \<Rightarrow> (u8 list \<times> ucore) option" where
  "USB_RecvControl len u = USB_RecvControl_loop len u"

section \<open>Clocks\<close>

definition USB_ClockDisable :: "ucore \<Rightarrow> ucore" where
  "USB_ClockDisable u = (let u = u\<lparr>USBCON := sbi (cbi (USBCON u) 4) 5\<rparr> in u\<lparr>PLLCSR := cbi (PLLCSR u) 1\<rparr>)"

text \<open>The loop that waits for the PLL ends when the PLL locks; the field \<open>pll_locks\<close> says whether it does.\<close>

definition USB_ClockEnable :: "ucore \<Rightarrow> ucore option" where
  "USB_ClockEnable u =
    (let u = u\<lparr>UHWCON := sbi (UHWCON u) 0\<rparr>;
         u = u\<lparr>USBCON := BV 7 OR BV 5\<rparr>;
         u = u\<lparr>PLLCSR := sbi (PLLCSR u) 4\<rparr>;
         u = u\<lparr>PLLCSR := sbi (PLLCSR u) 1\<rparr>
     in if \<not> pll_locks u then None
        else let u = u\<lparr>PLLCSR := sbi (PLLCSR u) 0\<rparr>;
                 u = u\<lparr>waited := waited u + 1\<rparr>;
                 u = u\<lparr>USBCON := sbi (cbi (USBCON u) 5) 4\<rparr>
             in Some (u\<lparr>UDCON := cbi (cbi (cbi (cbi (UDCON u) 3) 2) 1) 0\<rparr>))"

section \<open>The general interrupt\<close>

definition SUSPI :: nat where "SUSPI = 0"
definition SOFI :: nat where "SOFI = 2"
definition EORSTI :: nat where "EORSTI = 3"
definition WAKEUPI :: nat where "WAKEUPI = 4"

definition end_of_reset :: "ucore \<Rightarrow> ucore" where
  "end_of_reset u =
    (let u = (InitEP 0 EP_TYPE_CONTROL EP_SINGLE_64 u)\<lparr>usbConfiguration := 0\<rparr>
     in on_sel (UEIENX_update (\<lambda>_. BV 3)) u)"

definition start_of_frame :: "ucore \<Rightarrow> ucore" where
  "start_of_frame u =
    (let u = USB_Flush CDC_TX u;
         u = (if TxLEDPulse u \<noteq> 0
              then let u = u\<lparr>TxLEDPulse := TxLEDPulse u - 1\<rparr> in if TxLEDPulse u = 0 then TXLED0 u else u
              else u)
     in if RxLEDPulse u \<noteq> 0
        then let u = u\<lparr>RxLEDPulse := RxLEDPulse u - 1\<rparr> in if RxLEDPulse u = 0 then RXLED0 u else u
        else u)"

definition wake_or_suspend :: "u8 \<Rightarrow> ucore \<Rightarrow> ucore" where
  "wake_or_suspend udint u =
    (if bit udint WAKEUPI then
       let u = u\<lparr>UDIEN := sbi (cbi (UDIEN u) WAKEUPI) SUSPI\<rparr>;
           u = u\<lparr>UDINT := cbi (UDINT u) WAKEUPI\<rparr>
       in u\<lparr>usbSuspendState := sbi (cbi (usbSuspendState u) SUSPI) WAKEUPI\<rparr>
     else if bit udint SUSPI then
       let u = u\<lparr>UDIEN := sbi (cbi (UDIEN u) SUSPI) WAKEUPI\<rparr>;
           u = u\<lparr>UDINT := cbi (cbi (UDINT u) WAKEUPI) SUSPI\<rparr>
       in u\<lparr>usbSuspendState := sbi (cbi (usbSuspendState u) WAKEUPI) SUSPI\<rparr>
     else u)"

definition USB_GEN_vect :: "ucore \<Rightarrow> ucore" where
  "USB_GEN_vect u =
    (let udint = UDINT u;
         u = u\<lparr>UDINT := cbi (cbi (UDINT u) EORSTI) SOFI\<rparr>;
         u = (if bit udint EORSTI then end_of_reset u else u);
         u = (if bit udint SOFI then start_of_frame u else u)
     in wake_or_suspend udint u)"

section \<open>USBDevice\<close>

definition NEW_LUFA_SIGNATURE :: u16 where "NEW_LUFA_SIGNATURE = 0xDCFB"

text \<open>The argument is the word at the end of the flash, which the boot loader may sign.\<close>

definition USBDevice_attach :: "u16 \<Rightarrow> ucore \<Rightarrow> ucore option" where
  "USBDevice_attach flash_end u =
    do { u \<leftarrow> USB_ClockEnable (u\<lparr>usbConfiguration := 0, usbCurrentStatus := 0, usbSuspendState := 0\<rparr>);
         let u = u\<lparr>UDINT := cbi (cbi (UDINT u) WAKEUPI) SUSPI\<rparr>;
         let u = u\<lparr>UDIEN := BV EORSTI OR BV SOFI OR BV SUSPI\<rparr>;
         let u = TX_RX_LED_INIT u;
         Some (if flash_end = NEW_LUFA_SIGNATURE then u\<lparr>updatedLUFAbootloader := True\<rparr> else u) }"

definition USBDevice_configured :: "ucore \<Rightarrow> bool" where
  "USBDevice_configured u \<longleftrightarrow> usbConfiguration u \<noteq> 0"

definition USBDevice_wakeupHost :: "ucore \<Rightarrow> (bool \<times> ucore) option" where
  "USBDevice_wakeupHost u =
    (let u = u\<lparr>UDCON := cbi (UDCON u) 1\<rparr>
     in if \<not> bit (UDCON u) 1 \<and> bit (usbSuspendState u) SUSPI \<and> bit (usbCurrentStatus u) 1
        then map_option (\<lambda>u. (True, u\<lparr>UDCON := sbi (UDCON u) 1\<rparr>)) (USB_ClockEnable u)
        else Some (False, u))"

section \<open>Lemmas: endpoints\<close>

lemmas ep_defs = cur_def sel_def on_sel_def on_ep_def

lemma eps_on_sel [simp]: "eps (on_sel f u) = (eps u)(unat (UENUM u) := f (eps u (unat (UENUM u))))"
  by (simp add: ep_defs)

lemma uep_on_ep [simp]: "eps (on_ep n f u) = (eps u)(n := f (eps u n))"
  by (simp add: ep_defs)

lemma ep_config_pop [simp]:
  "UECFG0X (snd (ep_pop e)) = UECFG0X e" "UECFG1X (snd (ep_pop e)) = UECFG1X e" "EPEN (snd (ep_pop e)) = EPEN e"
  "STALLRQ (snd (ep_pop e)) = STALLRQ e" "fill (snd (ep_pop e)) = fill e" "txq (snd (ep_pop e)) = txq e"
  "UEIENX (snd (ep_pop e)) = UEIENX e"
  by (auto simp: ep_pop_def split: option.split list.split)

lemma ep_type_bits [simp]:
  "bit EP_TYPE_BULK_IN 0" "\<not> bit EP_TYPE_BULK_OUT 0" "bit EP_TYPE_INTERRUPT_IN 0" "\<not> bit EP_TYPE_CONTROL 0"
  "drop_bit 6 EP_TYPE_CONTROL = 0"
  by (simp_all add: EP_TYPE_BULK_IN_def EP_TYPE_BULK_OUT_def EP_TYPE_INTERRUPT_IN_def EP_TYPE_CONTROL_def bit_or_iff)

lemma ep_size_bits:
  "8 * 2 ^ unat (drop_bit 4 EP_SINGLE_64 AND 7) = (64 :: nat)" "8 * 2 ^ unat (drop_bit 4 EP_DOUBLE_64 AND 7) = (64 :: nat)"
  "\<not> bit EP_SINGLE_64 2" "bit EP_DOUBLE_64 2"
  by code_simp+

section \<open>Lemmas: the control pipe\<close>

text \<open>The control endpoint as the handler finds it: one bank of 64 bytes and no OUT packet.\<close>

definition ctl_ready :: "uep \<Rightarrow> bool" where
  "ctl_ready e \<longleftrightarrow> UECFG0X e = EP_TYPE_CONTROL \<and> UECFG1X e = EP_SINGLE_64 \<and> setup_pkt e = None \<and> \<not> STALLRQ e \<and>
     banks e = [] \<and> length (txq e) \<le> 1 \<and> length (fill e) < 64 \<and> (txq e \<noteq> [] \<longrightarrow> fill e = [])"

lemma ctl_ready_flags:
  assumes "ctl_ready e"
  shows "TXINI e \<longleftrightarrow> txq e = []" "\<not> RXOUTI e" "ep_size e = 64" "\<not> ep_in e" "ep_control e"
  using assms ep_size_bits
  by (auto simp: ctl_ready_def TXINI_def RXOUTI_def ep_size_def ep_in_def ep_control_def ep_banks_def)

text \<open>The packets released to the host so far, and how a stream of bytes is cut into packets.\<close>

definition released :: "ucore \<Rightarrow> u8 list list" where
  "released u = in_log u 0 @ txq (eps u 0)"

fun pack :: "u8 list list \<times> u8 list \<Rightarrow> u8 \<Rightarrow> u8 list list \<times> u8 list" where
  "pack (ps, f) d = (if length f = 63 then (ps @ [f @ [d]], []) else (ps, f @ [d]))"

definition pipe :: "ucore \<Rightarrow> u8 list list \<times> u8 list" where
  "pipe u = (released u, fill (eps u 0))"

text \<open>The fields the sending side of the control pipe may change.\<close>

definition pipe_frame :: "ucore \<Rightarrow> ucore \<Rightarrow> bool" where
  "pipe_frame u u' \<longleftrightarrow>
    (\<exists>e l a c. u' = u\<lparr>eps := (eps u)(0 := e), in_log := (in_log u)(0 := l), acts := a, cmark := c\<rparr>)"

lemma pipe_frame_refl [simp]: "pipe_frame u u"
  unfolding pipe_frame_def
  by (rule exI [of _ "eps u 0"], rule exI [of _ "in_log u 0"], rule exI [of _ "acts u"], rule exI [of _ "cmark u"]) simp

lemma pipe_frame_trans: "pipe_frame u v \<Longrightarrow> pipe_frame v w \<Longrightarrow> pipe_frame u w"
  unfolding pipe_frame_def by (elim exE) (simp, intro exI, rule refl)

lemma wait_acts_at_once: "P (sel u) \<Longrightarrow> wait_acts P (acts u) u = Some u"
  by (cases "acts u") simp_all

definition pipe_inv :: "nat \<Rightarrow> act list \<Rightarrow> ucore \<Rightarrow> bool" where
  "pipe_inv k rest u \<longleftrightarrow> UENUM u = 0 \<and> ctl_ready (eps u 0) \<and> acts u = replicate k ActIn @ rest \<and>
     length (txq (eps u 0)) \<le> k \<and> 0 \<le> cmark u \<and>
     (cmark u \<le> cend u \<longrightarrow> length (fill (eps u 0)) = nat (cmark u) mod 64)"

lemma wait_in_or_out:
  assumes "pipe_inv k rest u"
  obtains v where "WaitForINOrOUT u = Some (True, v)" "pipe_frame u v" "pipe v = pipe u"
    "pipe_inv (k - length (txq (eps u 0))) rest v" "txq (eps v 0) = []" "cmark v = cmark u"
proof (cases "txq (eps u 0)")
  case Nil
  have i: "UENUM u = 0" "ctl_ready (eps u 0)" using assms by (simp_all add: pipe_inv_def)
  have "WaitForINOrOUT u = Some (True, u)"
    unfolding WaitForINOrOUT_def
    by (subst wait_acts_at_once) (use i Nil ctl_ready_flags [OF i(2)] in \<open>simp_all add: ep_defs\<close>)
  with assms Nil show ?thesis using that [of u] by simp
next
  case (Cons p q)
  with assms have q: "q = []" and f: "fill (eps u 0) = []" by (auto simp: pipe_inv_def ctl_ready_def)
  obtain k' where k: "k = Suc k'" using assms Cons by (cases k) (auto simp: pipe_inv_def)
  let ?w = "take_in 0 u"
  have w: "?w = u\<lparr>eps := (eps u)(0 := (eps u 0)\<lparr>txq := []\<rparr>), in_log := (in_log u)(0 := in_log u 0 @ [p])\<rparr>"
    by (simp add: take_in_def Cons q ep_defs)
  have c: "ctl_ready (eps ?w 0)" using assms by (simp add: w pipe_inv_def ctl_ready_def f)
  have a: "acts u = ActIn # replicate k' ActIn @ rest" and n: "\<not> TXINI (eps u 0)" "\<not> RXOUTI (eps u 0)"
    and nw: "TXINI (eps ?w 0)" "\<not> RXOUTI (eps ?w 0)" and U: "UENUM u = 0"
    using assms ctl_ready_flags [of "eps u 0"] ctl_ready_flags [OF c]
    by (simp_all add: pipe_inv_def k Cons) (simp add: w)
  define v where "v = ?w\<lparr>acts := replicate k' ActIn @ rest\<rparr>"
  have "WaitForINOrOUT u = Some (True, v)"
    using n nw U unfolding WaitForINOrOUT_def a
    by (cases "replicate k' ActIn @ rest") (simp_all add: ep_defs v_def w)
  moreover have "pipe_frame u v" unfolding pipe_frame_def
    by (rule exI [of _ "eps ?w 0"], rule exI [of _ "in_log ?w 0"], rule exI [of _ "acts v"], rule exI [of _ "cmark u"])
       (simp add: v_def w)
  moreover have "pipe v = pipe u" by (simp add: pipe_def released_def v_def w Cons q)
  moreover have "pipe_inv (k - length (txq (eps u 0))) rest v"
    using assms c by (simp add: pipe_inv_def v_def w k Cons q)
  ultimately show ?thesis using that [of v] by (simp add: v_def w)
qed

lemma carry_64: "0 \<le> c \<Longrightarrow> (c + 1) mod 64 = (0 :: int) \<longleftrightarrow> nat c mod 64 = 63"
proof (cases c)
  case (nonneg m)
  then have "(c + 1) mod 64 = int (Suc m mod 64)" by (simp add: zmod_int ac_simps)
  then show ?thesis by (auto simp: nonneg mod_Suc)
qed simp

lemma SendControl_step:
  assumes inv: "pipe_inv k rest u" and lt: "cmark u < cend u"
  obtains v where "SendControl d u = Some (True, v)" "pipe_frame u v" "pipe v = pack (pipe u) d" "cmark v = cmark u + 1"
    "length (txq (eps v 0)) + length (txq (eps u 0)) \<le> k \<Longrightarrow> pipe_inv (k - length (txq (eps u 0))) rest v"
    "length (txq (eps v 0)) = (if length (fill (eps u 0)) = 63 then 1 else 0)"
proof -
  obtain w where w: "WaitForINOrOUT u = Some (True, w)" "pipe_frame u w" "pipe w = pipe u"
    "pipe_inv (k - length (txq (eps u 0))) rest w" "txq (eps w 0) = []" "cmark w = cmark u"
    by (rule wait_in_or_out [OF inv])
  have cw: "ctl_ready (eps w 0)" and Uw: "UENUM w = 0" using w(4) by (simp_all add: pipe_inv_def)
  note fl = ctl_ready_flags [OF cw]
  have len: "length (fill (eps w 0)) < 64" using cw by (simp add: ctl_ready_def)
  have ce: "cend w = cend u" using w(2) by (auto simp: pipe_frame_def)
  have mark: "0 \<le> cmark u" "length (fill (eps w 0)) = nat (cmark u) mod 64"
    using w(4) lt by (simp_all add: pipe_inv_def w(6) ce)
  have full: "(cmark u + 1) mod 64 = 0 \<longleftrightarrow> length (fill (eps w 0)) = 63"
    using mark carry_64 by simp
  define f where "f = fill (eps w 0)"
  let ?x = "Send8 d w"
  have x: "?x = w\<lparr>eps := (eps w)(0 := (eps w 0)\<lparr>fill := f @ [d]\<rparr>)\<rparr>"
    using fl w(5) len by (simp add: Send8_def ep_push_def ep_defs Uw f_def)
  define v where "v = (if length f = 63 then ClearIN ?x else ?x)\<lparr>cmark := cmark u + 1\<rparr>"
  have vT: "v = w\<lparr>eps := (eps w)(0 := (eps w 0)\<lparr>txq := [f @ [d]], fill := []\<rparr>), cmark := cmark u + 1\<rparr>"
    if "length f = 63"
    using that fl w(5) by (simp add: v_def ClearIN_def x ep_defs Uw ep_handover_def TXINI_def ep_control_def ep_banks_def ep_in_def)
  have vF: "v = w\<lparr>eps := (eps w)(0 := (eps w 0)\<lparr>fill := f @ [d]\<rparr>), cmark := cmark u + 1\<rparr>" if "length f \<noteq> 63"
    using that by (simp add: v_def x)
  have send: "SendControl d u = Some (True, v)"
    using lt w(1,6) full by (simp add: SendControl_def v_def x f_def ClearIN_def ep_defs)
  have "pipe_frame w v" unfolding pipe_frame_def
    by (rule exI [of _ "eps v 0"], rule exI [of _ "in_log w 0"], rule exI [of _ "acts w"], rule exI [of _ "cmark u + 1"])
       (cases "length f = 63"; simp add: vT vF)
  with w(2) have frame: "pipe_frame u v" by (rule pipe_frame_trans)
  have pk: "pipe v = pack (pipe u) d"
    unfolding w(3) [symmetric] using w(5)
    by (cases "length f = 63") (simp_all add: vT vF pipe_def released_def f_def [symmetric])
  have cv: "ctl_ready (eps v 0)" and qv: "length (txq (eps v 0)) = (if length f = 63 then 1 else 0)"
    using cw len w(5) by (cases "length f = 63"; simp add: vT vF ctl_ready_def f_def)+
  have nm: "nat (cmark u + 1) = Suc (nat (cmark u))" using mark(1) by simp
  have fv: "length (fill (eps v 0)) = nat (cmark u + 1) mod 64"
    using mark by (cases "length f = 63") (simp_all add: vT vF f_def nm mod_Suc)
  have uv: "UENUM v = UENUM w" "acts v = acts w" "cmark v = cmark u + 1"
    by (cases "length f = 63"; simp add: vT vF)+
  have fu: "f = fill (eps u 0)" using w(3) by (simp add: f_def pipe_def)
  show ?thesis
  proof (rule that [OF send frame pk uv(3)])
    show "length (txq (eps v 0)) = (if length (fill (eps u 0)) = 63 then 1 else 0)" using qv by (simp add: fu)
    show "pipe_inv (k - length (txq (eps u 0))) rest v" if "length (txq (eps v 0)) + length (txq (eps u 0)) \<le> k"
      using that w(4) cv fv mark(1) by (simp add: pipe_inv_def uv)
  qed
qed

text \<open>Sending a block: clipped at \<^verbatim>\<open>_cend\<close>, counted in full, provided the host collects the packets.\<close>

lemma SendControl_clipped:
  assumes "cend u \<le> cmark u"
  shows "USB_SendControl_loop data u = Some (True, u\<lparr>cmark := cmark u + int (length data)\<rparr>)"
  using assms
proof (induction data arbitrary: u)
  case (Cons d data)
  have "cend (u\<lparr>cmark := cmark u + 1\<rparr>) \<le> cmark (u\<lparr>cmark := cmark u + 1\<rparr>)" using Cons.prems by simp
  from Cons.IH [OF this] Cons.prems show ?case by (simp add: SendControl_def ac_simps)
qed simp

lemma SendControl_block:
  assumes "pipe_inv k rest u"
    and "length (txq (eps u 0)) + (length (fill (eps u 0)) + min (length data) (nat (cend u - cmark u))) div 64 \<le> k"
  shows "\<exists>v. USB_SendControl_loop data u = Some (True, v) \<and> pipe_frame u v \<and>
    pipe v = foldl pack (pipe u) (take (nat (cend u - cmark u)) data) \<and> cmark v = cmark u + int (length data) \<and>
    UENUM v = 0 \<and> ctl_ready (eps v 0)"
  using assms
proof (induction data arbitrary: u k)
  case Nil
  then show ?case by (auto simp: pipe_inv_def)
next
  case (Cons d data)
  show ?case
  proof (cases "cmark u < cend u")
    case False
    have "pipe_frame u (u\<lparr>cmark := c\<rparr>)" for c unfolding pipe_frame_def
      by (rule exI [of _ "eps u 0"], rule exI [of _ "in_log u 0"], rule exI [of _ "acts u"], rule exI [of _ c]) simp
    with False Cons.prems(1) SendControl_clipped [of u "d # data"] show ?thesis
      by (simp add: pipe_inv_def pipe_def released_def)
  next
    case True
    let ?m = "min (length data) (nat (cend u - (cmark u + 1)))"
    obtain v where v: "SendControl d u = Some (True, v)" "pipe_frame u v" "pipe v = pack (pipe u) d" "cmark v = cmark u + 1"
      "length (txq (eps v 0)) + length (txq (eps u 0)) \<le> k \<Longrightarrow> pipe_inv (k - length (txq (eps u 0))) rest v"
      "length (txq (eps v 0)) = (if length (fill (eps u 0)) = 63 then 1 else 0)"
      by (rule SendControl_step [OF Cons.prems(1) True, of d]) blast
    have ce: "cend v = cend u" using v(2) by (auto simp: pipe_frame_def)
    have t: "nat (cend u - cmark u) = Suc (nat (cend u - (cmark u + 1)))" using True by linarith
    have fv: "fill (eps v 0) = (if length (fill (eps u 0)) = 63 then [] else fill (eps u 0) @ [d])"
      using v(3) by (simp add: pipe_def split: if_splits)
    have b: "length (txq (eps u 0)) + (length (fill (eps u 0)) + Suc ?m) div 64 \<le> k"
      using Cons.prems(2) by (simp add: t)
    have b': "length (txq (eps u 0)) + length (txq (eps v 0)) + (length (fill (eps v 0)) + ?m) div 64 \<le> k"
      using b v(6) fv by (cases "length (fill (eps u 0)) = 63") (simp_all add: div_add_self1)
    then have i: "pipe_inv (k - length (txq (eps u 0))) rest v" using v(5) by simp
    have "length (txq (eps v 0)) + (length (fill (eps v 0)) + min (length data) (nat (cend v - cmark v))) div 64
        \<le> k - length (txq (eps u 0))" using b' by (simp add: ce v(4))
    from Cons.IH [OF i this] obtain w where "USB_SendControl_loop data v = Some (True, w)" "pipe_frame v w"
      "pipe w = foldl pack (pipe v) (take (nat (cend v - cmark v)) data)" "cmark w = cmark v + int (length data)"
      "UENUM w = 0" "ctl_ready (eps w 0)" by blast
    with v(1-4) t ce show ?thesis
      by (auto intro!: exI [of _ w] intro: pipe_frame_trans simp: algebra_simps)
  qed
qed

lemma foldl_pack:
  assumes "length f < 64" "foldl pack (ps, f) xs = (qs, g)"
  shows "\<exists>new. qs = ps @ new \<and> concat new @ g = f @ xs \<and> (\<forall>q\<in>set new. length q = 64) \<and> length g < 64"
  using assms
proof (induction xs arbitrary: ps f)
  case (Cons x xs)
  show ?case
  proof (cases "length f = 63")
    case True
    with Cons.prems(2) have "foldl pack (ps @ [f @ [x]], []) xs = (qs, g)" by simp
    from Cons.IH [OF _ this] obtain new where "qs = ps @ (f @ [x]) # new" "concat new @ g = xs"
      "\<forall>q\<in>set new. length q = 64" "length g < 64" by auto
    with True show ?thesis by (intro exI [of _ "(f @ [x]) # new"]) simp
  next
    case False
    with Cons.prems have "length (f @ [x]) < 64" "foldl pack (ps, f @ [x]) xs = (qs, g)" by simp_all
    from Cons.IH [OF this] show ?thesis by simp
  qed
qed simp

lemma SendControl_loop_append:
  "USB_SendControl_loop (a @ b) u =
    Option.bind (USB_SendControl_loop a u) (\<lambda>(ok, u). if ok then USB_SendControl_loop b u else Some (False, u))"
  by (induction a arbitrary: u) (auto split: bind_splits)

section \<open>Lemmas: the general interrupt\<close>

text \<open>\<open>gen_pending\<close>: the controller requests the general interrupt. The handler can leave one request,
  that of a suspension seen together with activity on the bus; its second run serves that.\<close>

definition gen_pending :: "ucore \<Rightarrow> bool" where
  "gen_pending u \<longleftrightarrow> UDINT u AND UDIEN u \<noteq> 0"

definition serve_gen :: "ucore \<Rightarrow> ucore" where
  "serve_gen u =
    (if gen_pending u then let u = USB_GEN_vect u in if gen_pending u then USB_GEN_vect u else u else u)"

definition udien_ok :: "ucore \<Rightarrow> bool" where
  "udien_ok u \<longleftrightarrow> (\<forall>i. bit (UDIEN u) i \<longrightarrow> i = SUSPI \<or> i = SOFI \<or> i = EORSTI \<or> i = WAKEUPI)"

lemma gen_regs_frame [simp]:
  "UDINT (end_of_reset u) = UDINT u" "UDIEN (end_of_reset u) = UDIEN u"
  "UDINT (start_of_frame u) = UDINT u" "UDIEN (start_of_frame u) = UDIEN u"
  by (simp_all add: end_of_reset_def start_of_frame_def InitEP_def SetEP_def ep_defs Let_def USB_Flush_def ReleaseTX_def
      TXLED0_def RXLED0_def)

lemma GEN_regs:
  "UDIEN (USB_GEN_vect u) = (if bit (UDINT u) WAKEUPI then sbi (cbi (UDIEN u) WAKEUPI) SUSPI
     else if bit (UDINT u) SUSPI then sbi (cbi (UDIEN u) SUSPI) WAKEUPI else UDIEN u)"
  "bit (UDINT (USB_GEN_vect u)) i \<longleftrightarrow> bit (UDINT u) i \<and> i \<noteq> EORSTI \<and> i \<noteq> SOFI \<and> i \<noteq> WAKEUPI \<and>
     (i = SUSPI \<longrightarrow> bit (UDINT u) WAKEUPI)"
  by (auto simp: USB_GEN_vect_def wake_or_suspend_def Let_def bit_cbi EORSTI_def SOFI_def WAKEUPI_def SUSPI_def
      intro!: gr0I)

lemma gen_pending_bit: "gen_pending u \<longleftrightarrow> (\<exists>i. bit (UDINT u) i \<and> bit (UDIEN u) i)"
  using bit_imp_le_length [of "UDINT u"] by (fastforce simp: gen_pending_def bit_eq_iff bit_and_iff)

lemma udien_ok_GEN: "udien_ok u \<Longrightarrow> udien_ok (USB_GEN_vect u)"
  by (auto simp: udien_ok_def GEN_regs bit_sbi bit_cbi)

lemma serve_gen_quiet:
  assumes "udien_ok u"
  shows "\<not> gen_pending (serve_gen u)" "udien_ok (serve_gen u)"
proof -
  have once: "\<not> gen_pending (USB_GEN_vect v)" if "udien_ok v" "\<not> bit (UDINT v) WAKEUPI" for v
    using udien_ok_GEN [OF that(1)] that(2) by (auto simp: gen_pending_bit GEN_regs udien_ok_def)
  have "\<not> bit (UDINT (USB_GEN_vect u)) WAKEUPI" by (simp add: GEN_regs)
  with once [OF udien_ok_GEN [OF assms]] show "\<not> gen_pending (serve_gen u)"
    by (auto simp: serve_gen_def Let_def)
  show "udien_ok (serve_gen u)" using assms by (auto simp: serve_gen_def Let_def intro: udien_ok_GEN)
qed

end
