(* ===== verification/Usb_Requests.thy ===== *)
theory Usb_Requests
  imports Usb_Core
begin

text \<open>
  The requests on the control pipe of the sketch: the descriptors and the setup handler of the serial
  port (\<^verbatim>\<open>CDC.cpp\<close>), the registry of further USB functions (\<^verbatim>\<open>PluggableUSB.cpp\<close>; the firmware plugs
  none, the functions of a node are its record fields) and the interrupt handler of endpoint 0
  (\<^verbatim>\<open>USBCore.cpp\<close>). The last section shows what the handler does: descriptors are delivered, cut at the
  length the host asks for, and the requests of the serial port drive the watchdog and the boot key.
\<close>

section \<open>Requests and descriptors\<close>

record USBSetup =
  bmRequestType :: u8
  bRequest :: u8
  wValueL :: u8
  wValueH :: u8
  wIndex :: u16
  wLength :: u16

definition setup_of :: "u8 list \<Rightarrow> USBSetup" where
  "setup_of d = \<lparr>bmRequestType = d ! 0, bRequest = d ! 1, wValueL = d ! 2, wValueH = d ! 3,
     wIndex = of_le [d ! 4, d ! 5], wLength = of_le [d ! 6, d ! 7]\<rparr>"

definition D_DEVICE :: "u8 \<Rightarrow> u8 \<Rightarrow> u8 \<Rightarrow> u8 \<Rightarrow> u16 \<Rightarrow> u16 \<Rightarrow> u16 \<Rightarrow> u8 \<Rightarrow> u8 \<Rightarrow> u8 \<Rightarrow> u8 \<Rightarrow> u8 list" where
  "D_DEVICE cl sub proto packetSize0 vid pid version im ip is configs =
    [18, 1] @ le_bytes 2 (0x200 :: u16) @ [cl, sub, proto, packetSize0] @ le_bytes 2 vid @ le_bytes 2 pid @
    le_bytes 2 version @ [im, ip, is, configs]"

definition D_CONFIG :: "u16 \<Rightarrow> u8 \<Rightarrow> u8 list" where
  "D_CONFIG totalLength interfaces = [9, 2] @ le_bytes 2 totalLength @ [interfaces, 1, 0, 0x80 OR 0x20, 250]"

definition D_INTERFACE :: "u8 \<Rightarrow> u8 \<Rightarrow> u8 \<Rightarrow> u8 \<Rightarrow> u8 \<Rightarrow> u8 list" where
  "D_INTERFACE n numEndpoints cl sub proto = [9, 4, n, 0, numEndpoints, cl, sub, proto, 0]"

definition D_ENDPOINT :: "u8 \<Rightarrow> u8 \<Rightarrow> u16 \<Rightarrow> u8 \<Rightarrow> u8 list" where
  "D_ENDPOINT addr attr packetSize interval = [7, 5, addr, attr] @ le_bytes 2 packetSize @ [interval]"

definition D_IAD :: "u8 \<Rightarrow> u8 \<Rightarrow> u8 \<Rightarrow> u8 \<Rightarrow> u8 \<Rightarrow> u8 list" where
  "D_IAD firstInterface count cl sub proto = [8, 11, firstInterface, count, cl, sub, proto, 0]"

definition D_CDCCS :: "u8 \<Rightarrow> u8 \<Rightarrow> u8 \<Rightarrow> u8 list" where
  "D_CDCCS subtype d0 d1 = [5, 0x24, subtype, d0, d1]"

definition D_CDCCS4 :: "u8 \<Rightarrow> u8 \<Rightarrow> u8 list" where
  "D_CDCCS4 subtype d0 = [4, 0x24, subtype, d0]"

definition cdcInterface :: "u8 list" where
  "cdcInterface =
    D_IAD 0 2 0x02 0x02 1 @
    D_INTERFACE 0 1 0x02 0x02 0 @
    D_CDCCS 0x00 0x10 0x01 @
    D_CDCCS 0x01 1 1 @
    D_CDCCS4 0x02 6 @
    D_CDCCS 0x06 0 1 @
    D_ENDPOINT (CDC_ENDPOINT_ACM OR 0x80) 0x03 0x10 0x40 @
    D_INTERFACE 1 2 0x0A 0 0 @
    D_ENDPOINT CDC_RX 0x02 (of_nat USB_EP_SIZE) 0 @
    D_ENDPOINT (CDC_TX OR 0x80) 0x02 (of_nat USB_EP_SIZE) 0"

definition USB_VID :: u16 where "USB_VID = 0x2341"
definition USB_PID :: u16 where "USB_PID = 0x8037"
definition IMANUFACTURER :: u8 where "IMANUFACTURER = 1"
definition IPRODUCT :: u8 where "IPRODUCT = 2"
definition ISERIAL :: u8 where "ISERIAL = 3"

definition USB_DeviceDescriptor :: "u8 list" where
  "USB_DeviceDescriptor = D_DEVICE 0x00 0x00 0x00 64 USB_VID USB_PID 0x100 IMANUFACTURER IPRODUCT ISERIAL 1"

definition USB_DeviceDescriptorB :: "u8 list" where
  "USB_DeviceDescriptorB = D_DEVICE 0xEF 0x02 0x01 64 USB_VID USB_PID 0x100 IMANUFACTURER IPRODUCT ISERIAL 1"

definition STRING_LANGUAGE :: "u8 list" where
  "STRING_LANGUAGE = le_bytes 2 (push_bit 8 3 OR (2 + 2) :: u16) @ le_bytes 2 (0x0409 :: u16)"

definition ascii :: "string \<Rightarrow> u8 list" where
  "ascii s = map (\<lambda>c. of_nat (of_char c)) s"

definition STRING_PRODUCT :: "u8 list" where "STRING_PRODUCT = ascii ''Arduino Micro''"
definition STRING_MANUFACTURER :: "u8 list" where "STRING_MANUFACTURER = ascii ''Arduino LLC''"

section \<open>The serial port's requests\<close>

definition MAGIC_KEY :: u16 where "MAGIC_KEY = 0x7777"
definition MAGIC_KEY_POS :: nat where "MAGIC_KEY_POS = 0x0800"
definition RAMEND :: nat where "RAMEND = 0x0AFF"
definition WDTO_120MS :: u8 where "WDTO_120MS = 3"
definition WDTO_8S :: u8 where "WDTO_8S = 9"

definition rd16 :: "mem \<Rightarrow> nat \<Rightarrow> u16" where "rd16 m a = of_le (read_block m a 2)"
definition wr16 :: "mem \<Rightarrow> nat \<Rightarrow> u16 \<Rightarrow> mem" where "wr16 m a v = write_block m a (le_bytes 2 v)"

definition wdt_enable :: "u8 \<Rightarrow> ucore \<Rightarrow> ucore" where "wdt_enable t u = u\<lparr>wdt := Some t\<rparr>"
definition wdt_disable :: "ucore \<Rightarrow> ucore" where "wdt_disable u = u\<lparr>wdt := None\<rparr>"

text \<open>The first seven bytes of \<^verbatim>\<open>_usbLineInfo\<close>, which the host reads and writes.\<close>

definition line_bytes :: "LineInfo \<Rightarrow> u8 list" where
  "line_bytes li = le_bytes 4 (dwDTERate li) @ [bCharFormat li, bParityType li, bDataBits li]"

definition set_line_bytes :: "u8 list \<Rightarrow> LineInfo \<Rightarrow> LineInfo" where
  "set_line_bytes d li = li\<lparr>dwDTERate := of_le (take 4 d), bCharFormat := d ! 4, bParityType := d ! 5, bDataBits := d ! 6\<rparr>"

definition CDC_GetInterface :: "u8 \<Rightarrow> ucore \<Rightarrow> (u8 \<times> ucore) option" where
  "CDC_GetInterface interfaceNum u = map_option (\<lambda>(_, u). (interfaceNum + 2, u)) (USB_SendControl cdcInterface u)"

definition CDC_touch :: "ucore \<Rightarrow> ucore" where
  "CDC_touch u =
    (let magic_key_pos = (if updatedLUFAbootloader u then RAMEND - 1 else MAGIC_KEY_POS)
     in if dwDTERate (usbLineInfo u) = 1200 \<and> lineState (usbLineInfo u) AND 0x01 = 0
        then let u = (if magic_key_pos \<noteq> RAMEND - 1
                      then u\<lparr>ram := wr16 (ram u) (RAMEND - 1) (rd16 (ram u) magic_key_pos)\<rparr> else u);
                 u = u\<lparr>ram := wr16 (ram u) magic_key_pos MAGIC_KEY\<rparr>
             in wdt_enable WDTO_120MS u
        else let u = wdt_disable u
             in if magic_key_pos \<noteq> RAMEND - 1
                then u\<lparr>ram := wr16 (ram u) magic_key_pos (rd16 (ram u) (RAMEND - 1))\<rparr>
                else u\<lparr>ram := wr16 (ram u) magic_key_pos 0x0000\<rparr>)"

definition CDC_Setup :: "USBSetup \<Rightarrow> ucore \<Rightarrow> (bool \<times> ucore) option" where
  "CDC_Setup setup u =
    (let r = bRequest setup; requestType = bmRequestType setup
     in if requestType = 0xA1 \<and> r = 0x21
        then map_option (\<lambda>(_, u). (True, u)) (USB_SendControl (line_bytes (usbLineInfo u)) u)
        else if requestType = 0x21
        then do {
          let u = (if r = 0x23 then u\<lparr>breakValue := uint (wValueH setup) * 256 + uint (wValueL setup)\<rparr> else u);
          u \<leftarrow> (if r = 0x20
                then map_option (\<lambda>(d, u). u\<lparr>usbLineInfo := set_line_bytes d (usbLineInfo u)\<rparr>) (USB_RecvControl 7 u)
                else Some u);
          let u = (if r = 0x22 then u\<lparr>usbLineInfo := (usbLineInfo u)\<lparr>lineState := wValueL setup\<rparr>\<rparr> else u);
          Some (True, if r = 0x20 \<or> r = 0x22 then CDC_touch u else u) }
        else Some (False, u))"

section \<open>Further functions\<close>

record PluggableUSBModule =
  numEndpoints :: u8
  numInterfaces :: u8
  endpointType :: "u8 list"
  pluggedInterface :: u8
  pluggedEndpoint :: u8
  node_setup :: "USBSetup \<Rightarrow> ucore \<Rightarrow> (bool \<times> ucore) option"
  node_getInterface :: "u8 \<Rightarrow> ucore \<Rightarrow> (int \<times> u8 \<times> ucore) option"
  node_getDescriptor :: "USBSetup \<Rightarrow> ucore \<Rightarrow> (int \<times> ucore) option"
  node_getShortName :: "u8 \<Rightarrow> u8 list"

record PluggableUSB =
  lastIf :: u8
  lastEp :: u8
  nodes :: "PluggableUSBModule list"

definition PluggableUSB_0 :: PluggableUSB where
  "PluggableUSB_0 = \<lparr>lastIf = 0 + 2, lastEp = 1 + 3, nodes = []\<rparr>"

fun getInterface_nodes :: "PluggableUSBModule list \<Rightarrow> int \<Rightarrow> u8 \<Rightarrow> ucore \<Rightarrow> (int \<times> u8 \<times> ucore) option" where
  "getInterface_nodes [] sent interfaceCount u = Some (sent, interfaceCount, u)"
| "getInterface_nodes (node # ns) sent interfaceCount u =
    do { (res, interfaceCount, u) \<leftarrow> node_getInterface node interfaceCount u;
         if res < 0 then Some (-1, interfaceCount, u)
         else getInterface_nodes ns (sent + res) interfaceCount u }"

fun getDescriptor_nodes :: "PluggableUSBModule list \<Rightarrow> USBSetup \<Rightarrow> ucore \<Rightarrow> (int \<times> ucore) option" where
  "getDescriptor_nodes [] setup u = Some (0, u)"
| "getDescriptor_nodes (node # ns) setup u =
    do { (ret, u) \<leftarrow> node_getDescriptor node setup u;
         if ret \<noteq> 0 then Some (ret, u) else getDescriptor_nodes ns setup u }"

definition getShortName :: "PluggableUSB \<Rightarrow> u8 list" where
  "getShortName P = concat (map (\<lambda>node. node_getShortName node (pluggedInterface node)) (nodes P))"

fun setup_nodes :: "PluggableUSBModule list \<Rightarrow> USBSetup \<Rightarrow> ucore \<Rightarrow> (bool \<times> ucore) option" where
  "setup_nodes [] setup u = Some (False, u)"
| "setup_nodes (node # ns) setup u =
    do { (handled, u) \<leftarrow> node_setup node setup u;
         if handled then Some (True, u) else setup_nodes ns setup u }"

fun plug_endpoints :: "nat \<Rightarrow> u8 list \<Rightarrow> u8 list \<Rightarrow> u8 list" where
  "plug_endpoints i [] table = table"
| "plug_endpoints i (t # ts) table = plug_endpoints (Suc i) ts (table[i := t])"

definition plug :: "PluggableUSBModule \<Rightarrow> PluggableUSB \<Rightarrow> u8 list \<Rightarrow> bool \<times> PluggableUSB \<times> u8 list" where
  "plug node P table =
    (if USB_ENDPOINTS < unat (lastEp P) + unat (numEndpoints node) then (False, P, table)
     else (True, P\<lparr>nodes := nodes P @ [node\<lparr>pluggedInterface := lastIf P, pluggedEndpoint := lastEp P\<rparr>],
                   lastIf := lastIf P + numInterfaces node, lastEp := lastEp P + numEndpoints node\<rparr>,
           plug_endpoints (unat (lastEp P)) (take (unat (numEndpoints node)) (endpointType node)) table))"

section \<open>The control endpoint's interrupt\<close>

definition ClassInterfaceRequest :: "PluggableUSB \<Rightarrow> USBSetup \<Rightarrow> ucore \<Rightarrow> (bool \<times> ucore) option" where
  "ClassInterfaceRequest P setup u =
    (if (ucast (wIndex setup) :: u8) = 0 then CDC_Setup setup u else setup_nodes (nodes P) setup u)"

definition SendInterfaces :: "PluggableUSB \<Rightarrow> ucore \<Rightarrow> (u8 \<times> ucore) option" where
  "SendInterfaces P u =
    do { (interfaces, u) \<leftarrow> CDC_GetInterface 0 u;
         (_, interfaces, u) \<leftarrow> getInterface_nodes (nodes P) 0 interfaces u;
         Some (interfaces, u) }"

definition SendConfiguration :: "PluggableUSB \<Rightarrow> int \<Rightarrow> ucore \<Rightarrow> (bool \<times> ucore) option" where
  "SendConfiguration P maxlen u =
    do { (interfaces, u) \<leftarrow> SendInterfaces P (InitControl 0 u);
         let config = D_CONFIG (of_int (cmark u + 9)) interfaces;
         let u = InitControl maxlen u;
         (_, u) \<leftarrow> USB_SendControl config u;
         (_, u) \<leftarrow> SendInterfaces P u;
         Some (True, u) }"

definition SendDescriptor :: "PluggableUSB \<Rightarrow> USBSetup \<Rightarrow> ucore \<Rightarrow> (bool \<times> ucore) option" where
  "SendDescriptor P setup u =
    (let t = wValueH setup
     in if t = 2 then SendConfiguration P (sint (wLength setup)) u
        else do {
          (ret, u) \<leftarrow> getDescriptor_nodes (nodes P) setup (InitControl (sint (wLength setup)) u);
          if ret \<noteq> 0 then Some (0 < ret, u)
          else if t = 1
          then do { let u = (if wLength setup = 8 then u\<lparr>cdcComposite := 1\<rparr> else u);
                    (_, u) \<leftarrow> USB_SendControl (if cdcComposite u \<noteq> 0 then USB_DeviceDescriptorB else USB_DeviceDescriptor) u;
                    Some (True, u) }
          else if t = 3
          then if wValueL setup = 0
               then do { (_, u) \<leftarrow> USB_SendControl STRING_LANGUAGE u; Some (True, u) }
               else if wValueL setup = IPRODUCT then USB_SendStringDescriptor STRING_PRODUCT u
               else if wValueL setup = IMANUFACTURER then USB_SendStringDescriptor STRING_MANUFACTURER u
               else if wValueL setup = ISERIAL then USB_SendStringDescriptor (getShortName P) u
               else Some (False, u)
          else Some (False, u) })"

definition standard_request :: "PluggableUSB \<Rightarrow> USBSetup \<Rightarrow> ucore \<Rightarrow> (bool \<times> ucore) option" where
  "standard_request P setup u =
    (let requestType = bmRequestType setup; r = bRequest setup;
         wValue = (ucast (wValueL setup) OR push_bit 8 (ucast (wValueH setup)) :: u16)
     in if r = 0
        then Some (True, if requestType = 0x80 then Send8 0 (Send8 (usbCurrentStatus u) u) else Send8 0 (Send8 0 u))
        else if r = 1
        then Some (True, if requestType = 0x00 \<and> wValue = 1 then u\<lparr>usbCurrentStatus := cbi (usbCurrentStatus u) 1\<rparr> else u)
        else if r = 3
        then Some (True, if requestType = 0x00 \<and> wValue = 1 then u\<lparr>usbCurrentStatus := sbi (usbCurrentStatus u) 1\<rparr> else u)
        else if r = 5
        then map_option (\<lambda>u. (True, u\<lparr>UDADDR := wValueL setup OR BV 7\<rparr>)) (WaitIN u)
        else if r = 6 then SendDescriptor P setup u
        else if r = 7 then Some (False, u)
        else if r = 8 then Some (True, Send8 1 u)
        else if r = 9
        then if requestType AND 0x03 = 0 then Some (True, (InitEndpoints u)\<lparr>usbConfiguration := wValueL setup\<rparr>)
             else Some (False, u)
        else Some (True, u))"

definition USB_COM_vect :: "PluggableUSB \<Rightarrow> ucore \<Rightarrow> ucore option" where
  "USB_COM_vect P u =
    (let u = SetEP 0 u
     in if \<not> ReceivedSetupInt u then Some u
        else let (d, u) = Recv 8 u; setup = setup_of d; u = ClearSetupInt u
             in do {
               u \<leftarrow> (if bit (bmRequestType setup) 7 then WaitIN u else Some (ClearIN u));
               (ok, u) \<leftarrow> (if bmRequestType setup AND 0x60 = 0 then standard_request P setup u
                           else ClassInterfaceRequest P setup (InitControl (sint (wLength setup)) u));
               Some (if ok then ClearIN u else Stall u) })"

text \<open>A setup packet from the host: the controller stores it whatever the state of the endpoint is, ends a
  stall and drops what was left of an earlier transfer.\<close>

definition give_setup :: "u8 list \<Rightarrow> ucore \<Rightarrow> ucore" where
  "give_setup p u = on_ep 0 (\<lambda>e. e\<lparr>setup_pkt := Some p, STALLRQ := False, banks := [], fill := [], txq := []\<rparr>) u"

section \<open>Lemmas: taking a request\<close>

lemmas led_defs = TXLED0_def TXLED1_def RXLED0_def RXLED1_def

lemma Recv_loop_setup:
  assumes "setup_pkt (sel u) = Some p" "n \<le> length p"
  shows "Recv_loop n u = (take n p, on_sel (setup_pkt_update (\<lambda>_. Some (drop n p))) u)"
  using assms
proof (induction n arbitrary: u p)
  case 0
  have "(sel u)\<lparr>setup_pkt := Some p\<rparr> = sel u" using 0 by (metis uep.surjective uep.update_convs(6))
  then show ?case by (simp add: ep_defs fun_upd_idem)
next
  case (Suc n)
  then obtain b bs where p: "p = b # bs" by (cases p) auto
  have "UEDATX u = (b, on_sel (setup_pkt_update (\<lambda>_. Some bs)) u)"
    using Suc.prems by (simp add: UEDATX_def ep_pop_def p ep_defs)
  moreover have "setup_pkt (sel (on_sel (setup_pkt_update (\<lambda>_. Some bs)) u)) = Some bs" by (simp add: ep_defs)
  ultimately show ?case using Suc.IH [of "on_sel (setup_pkt_update (\<lambda>_. Some bs)) u" bs] Suc.prems
    by (simp add: p ep_defs)
qed

text \<open>The state in which the handler looks at the request: the endpoint is empty, the light is on.\<close>

definition begun :: "ucore \<Rightarrow> ucore" where
  "begun u = u\<lparr>UENUM := 0, PORTB := sbi (PORTB u) 0, RxLEDPulse := TX_RX_LED_PULSE_MS,
     eps := (eps u)(0 := (eps u 0)\<lparr>STALLRQ := False, banks := [], fill := [], txq := [], setup_pkt := None\<rparr>)\<rparr>"

lemma COM_begins:
  assumes "length p = 8"
  shows "USB_COM_vect P (give_setup p u) =
    (let setup = setup_of p
     in do { u \<leftarrow> (if bit (bmRequestType setup) 7 then WaitIN (begun u) else Some (ClearIN (begun u)));
             (ok, u) \<leftarrow> (if bmRequestType setup AND 0x60 = 0 then standard_request P setup u
                         else ClassInterfaceRequest P setup (InitControl (sint (wLength setup)) u));
             Some (if ok then ClearIN u else Stall u) })"
proof -
  let ?u = "SetEP 0 (give_setup p u)"
  have s: "setup_pkt (sel ?u) = Some p" by (simp add: SetEP_def give_setup_def ep_defs)
  have r: "ReceivedSetupInt ?u" using s by (simp add: ReceivedSetupInt_def RXSTPI_def)
  have "Recv 8 ?u = (p, (RXLED1 (on_sel (setup_pkt_update (\<lambda>_. Some [])) ?u))\<lparr>RxLEDPulse := TX_RX_LED_PULSE_MS\<rparr>)"
    using Recv_loop_setup [OF s, of 8] assms by (simp add: Recv_def)
  moreover have "ClearSetupInt ((RXLED1 (on_sel (setup_pkt_update (\<lambda>_. Some [])) ?u))\<lparr>RxLEDPulse := TX_RX_LED_PULSE_MS\<rparr>) =
      begun u"
    by (simp add: ClearSetupInt_def led_defs SetEP_def give_setup_def ep_defs begun_def)
  ultimately show ?thesis using r by (simp add: USB_COM_vect_def Let_def)
qed

text \<open>The control endpoint as \<^verbatim>\<open>USB_GEN_vect\<close> configures it at the end of a bus reset.\<close>

definition ep0_ok :: "ucore \<Rightarrow> bool" where
  "ep0_ok u \<longleftrightarrow> UECFG0X (eps u 0) = EP_TYPE_CONTROL \<and> UECFG1X (eps u 0) = EP_SINGLE_64"

lemma begun_ready: "ep0_ok u \<Longrightarrow> ctl_ready (eps (begun u) 0)"
  by (simp add: ep0_ok_def begun_def ctl_ready_def)

lemma begun_frame [simp]:
  "UENUM (begun u) = 0" "acts (begun u) = acts u" "in_log (begun u) = in_log u" "ram (begun u) = ram u" "wdt (begun u) = wdt u"
  "usbLineInfo (begun u) = usbLineInfo u" "updatedLUFAbootloader (begun u) = updatedLUFAbootloader u"
  "cdcComposite (begun u) = cdcComposite u" "txq (eps (begun u) 0) = []" "fill (eps (begun u) 0) = []"
  "breakValue (begun u) = breakValue u" "usbConfiguration (begun u) = usbConfiguration u"
  by (simp_all add: begun_def)

lemma WaitIN_begun: "ep0_ok u \<Longrightarrow> WaitIN (begun u) = Some (begun u)"
  unfolding WaitIN_def
  by (subst wait_acts_at_once) (simp_all add: sel_def cur_def ctl_ready_flags [OF begun_ready])

section \<open>Delivering a descriptor\<close>

text \<open>What the device announces: the answer to a request for a descriptor, before it is cut.\<close>

definition string_bytes :: "u8 list \<Rightarrow> u8 list" where
  "string_bytes s = [2 + of_nat (length s) * 2, 3] @ concat (map (\<lambda>c. [c, 0]) s)"

definition config_bytes :: "u8 list" where
  "config_bytes = D_CONFIG (of_nat (length cdcInterface + 9)) 2 @ cdcInterface"

definition descriptor :: "USBSetup \<Rightarrow> bool \<Rightarrow> u8 list option" where
  "descriptor setup composite =
    (if wValueH setup = 2 then Some config_bytes
     else if wValueH setup = 1
     then Some (if composite \<or> wLength setup = 8 then USB_DeviceDescriptorB else USB_DeviceDescriptor)
     else if wValueH setup = 3
     then if wValueL setup = 0 then Some STRING_LANGUAGE
          else if wValueL setup = 1 then Some (string_bytes STRING_MANUFACTURER)
          else if wValueL setup = 2 then Some (string_bytes STRING_PRODUCT)
          else if wValueL setup = 3 then Some (string_bytes []) else None
     else None)"

lemma SendString_interleaved:
  "USB_SendControl_loop (concat (map (\<lambda>c. [c, 0]) s)) u = Some (True, v) \<Longrightarrow> SendString_loop s u = Some (True, v)"
  by (induction s arbitrary: u) (auto split: bind_splits if_splits)

lemma SendString_stream:
  "USB_SendControl_loop (string_bytes s) u = Some (True, v) \<Longrightarrow> USB_SendStringDescriptor s u = Some (True, v)"
  using SendString_interleaved by (auto simp: USB_SendStringDescriptor_def string_bytes_def split: bind_splits if_splits)

lemma config_stream:
  assumes "nodes P = []"
    and "USB_SendControl_loop config_bytes (InitControl lim u) = Some (True, v)"
  shows "SendConfiguration P lim u = Some (True, v)"
proof -
  let ?m = "(InitControl 0 u)\<lparr>cmark := int (length cdcInterface)\<rparr>"
  have 1: "SendInterfaces P (InitControl 0 u) = Some (2, ?m)"
    using SendControl_clipped [of "InitControl 0 u" cdcInterface] assms(1)
    by (simp add: SendInterfaces_def CDC_GetInterface_def USB_SendControl_def InitControl_def)
  have 2: "InitControl lim ?m = InitControl lim u" by (simp add: InitControl_def SetEP_def)
  have 3: "(of_int (cmark ?m + 9) :: u16) = of_nat (length cdcInterface + 9)" by simp
  obtain w where w: "USB_SendControl_loop (D_CONFIG (of_nat (length cdcInterface + 9)) 2) (InitControl lim u) = Some (True, w)"
    "USB_SendControl_loop cdcInterface w = Some (True, v)"
    using assms(2) by (auto simp: config_bytes_def SendControl_loop_append split: bind_splits if_splits)
  have "SendInterfaces P w = Some (2, v)"
    using w(2) assms(1) by (simp add: SendInterfaces_def CDC_GetInterface_def USB_SendControl_def)
  then show ?thesis unfolding SendConfiguration_def 1 using w(1)
    by (simp add: Let_def 2 3 USB_SendControl_def)
qed

lemma SendDescriptor_stream:
  assumes "nodes P = []" "bmRequestType setup = 0x80"
    and "descriptor setup (cdcComposite u \<noteq> 0) = Some d"
  shows "\<exists>x. \<forall>v. USB_SendControl_loop d (InitControl (sint (wLength setup)) (u\<lparr>cdcComposite := x\<rparr>)) = Some (True, v)
    \<longrightarrow> SendDescriptor P setup u = Some (True, v)"
proof (cases "wValueH setup = 2")
  case True
  then have d: "d = config_bytes" using assms(3) by (simp add: descriptor_def)
  have u: "u\<lparr>cdcComposite := cdcComposite u\<rparr> = u" by simp
  show ?thesis
    by (rule exI [of _ "cdcComposite u"])
       (use True config_stream [OF assms(1)] in \<open>simp add: SendDescriptor_def d u\<close>)
next
  case False
  note n = False
  show ?thesis
  proof (cases "wValueH setup = 1")
    case True
    let ?x = "if wLength setup = 8 then 1 else cdcComposite u"
    have u: "u\<lparr>cdcComposite := cdcComposite u\<rparr> = u" by simp
    have c: "u\<lparr>cdcComposite := x, UENUM := 0, cmark := 0, cend := l\<rparr> =
        u\<lparr>UENUM := 0, cmark := 0, cend := l, cdcComposite := x\<rparr>" for x l by simp
    show ?thesis
      by (rule exI [of _ ?x])
         (use True assms in \<open>auto simp: SendDescriptor_def descriptor_def USB_SendControl_def InitControl_def SetEP_def u c
            Let_def split: if_splits\<close>)
  next
    case False
    have u: "u\<lparr>cdcComposite := cdcComposite u\<rparr> = u" by simp
    have "wValueH setup = 3" using n False assms(3) by (auto simp: descriptor_def split: if_splits)
    with n False assms show ?thesis
      by (intro exI [of _ "cdcComposite u"])
         (auto simp: SendDescriptor_def descriptor_def u USB_SendControl_def IPRODUCT_def IMANUFACTURER_def ISERIAL_def
            getShortName_def intro!: SendString_stream split: if_splits)
  qed
qed

lemma descriptor_lengths:
  "length config_bytes = 75" "length USB_DeviceDescriptor = 18" "length USB_DeviceDescriptorB = 18" "length STRING_LANGUAGE = 4"
  "length (string_bytes STRING_PRODUCT) = 28" "length (string_bytes STRING_MANUFACTURER) = 24" "length (string_bytes []) = 2"
  by (simp_all add: config_bytes_def cdcInterface_def D_CONFIG_def D_IAD_def D_INTERFACE_def D_CDCCS_def D_CDCCS4_def
      D_ENDPOINT_def USB_DeviceDescriptor_def USB_DeviceDescriptorB_def D_DEVICE_def STRING_LANGUAGE_def string_bytes_def
      STRING_PRODUCT_def STRING_MANUFACTURER_def ascii_def)

lemma descriptor_short: "descriptor setup c = Some d \<Longrightarrow> length d \<le> 75"
  using descriptor_lengths by (auto simp: descriptor_def split: if_splits)

lemma nat_sint_u16: "nat (sint (w :: u16)) = (if unat w < 32768 then unat w else 0)"
proof -
  have b: "0 \<le> uint w" "uint w < 65536" using uint_lt2p [of w] by simp_all
  have "sint w = signed_take_bit 15 (uint w)" by (simp add: sint_uint)
  also have "\<dots> = uint w - 65536 * of_bool (bit (uint w) 15)"
    using b by (simp add: signed_take_bit_eq_take_bit_minus take_bit_int_eq_self)
  also have "bit (uint w) 15 \<longleftrightarrow> 32768 \<le> uint w"
  proof (cases "32768 \<le> uint w")
    case True
    with b have "uint w div 32768 = (uint w - 32768) div 32768 + 1" by (simp add: div_pos_geq)
    also have "(uint w - 32768) div 32768 = 0" using True b by (intro div_pos_pos_trivial) simp_all
    finally have "uint w div 32768 = 1" by simp
    with True show ?thesis by (simp add: bit_iff_odd)
  next
    case False
    with b have "uint w div 32768 = 0" by (simp add: div_pos_pos_trivial)
    with False show ?thesis by (simp add: bit_iff_odd)
  qed
  finally have s: "sint w = (if 32768 \<le> uint w then uint w - 65536 else uint w)" by simp
  obtain m where m: "uint w = int m" "unat w = m" using uint_nat by blast
  show ?thesis using b(2) unfolding s m by auto
qed

lemma dir_bits:
  "bit (0x80 :: u8) 7" "(0x80 :: u8) AND 0x60 = 0" "bit (0xA1 :: u8) 7" "(0xA1 :: u8) AND 0x60 \<noteq> 0"
  "\<not> bit (0x21 :: u8) 7" "(0x21 :: u8) AND 0x60 \<noteq> 0"
  by code_simp+

lemma descriptor_delivered:
  assumes p: "length p = 8" "p ! 0 = 0x80" "p ! 1 = 6" and u: "ep0_ok u" and P: "nodes P = []"
    and a: "acts u = ActIn # rest"
    and d: "descriptor (setup_of p) (cdcComposite u \<noteq> 0) = Some d"
  shows "\<exists>v qs. USB_COM_vect P (give_setup p u) = Some v \<and> released v = in_log u 0 @ qs \<and>
    concat qs = take (nat (sint (wLength (setup_of p)))) d \<and>
    (\<forall>q\<in>set (butlast qs). length q = 64) \<and> (\<forall>q\<in>set qs. length q \<le> 64) \<and> \<not> STALLRQ (eps v 0)"
proof -
  let ?s = "setup_of p" and ?n = "nat (sint (wLength (setup_of p)))"
  have s: "bmRequestType ?s = 0x80" "bRequest ?s = 6" using p by (simp_all add: setup_of_def)
  obtain x where x: "\<And>v. USB_SendControl_loop d (InitControl (sint (wLength ?s)) ((begun u)\<lparr>cdcComposite := x\<rparr>)) = Some (True, v)
      \<Longrightarrow> SendDescriptor P ?s (begun u) = Some (True, v)"
    using SendDescriptor_stream [OF P s(1), of "begun u"] d by auto
  define w where "w = InitControl (sint (wLength ?s)) ((begun u)\<lparr>cdcComposite := x\<rparr>)"
  have w: "eps w = eps (begun u)" "in_log w = in_log u" "UENUM w = 0" "acts w = acts u" "cmark w = 0" "nat (cend w) = ?n"
    by (simp_all add: w_def InitControl_def SetEP_def)
  have "pipe_inv 1 rest w" using a begun_ready [OF u] by (simp add: pipe_inv_def w)
  moreover have "length (txq (eps w 0)) + (length (fill (eps w 0)) + min (length d) (nat (cend w - cmark w))) div 64 \<le> 1"
    using descriptor_short [OF d] by (simp add: w)
  ultimately obtain y where y: "USB_SendControl_loop d w = Some (True, y)" "pipe_frame w y"
      "pipe y = foldl pack (pipe w) (take ?n d)" "UENUM y = 0" "ctl_ready (eps y 0)"
    using SendControl_block [of 1 rest w d] by (auto simp: w)
  have com: "USB_COM_vect P (give_setup p u) = Some (ClearIN y)"
    using x [of y] y(1) WaitIN_begun [OF u] s
    by (simp add: COM_begins [OF p(1)] Let_def standard_request_def w_def dir_bits)
  obtain qs g where q: "foldl pack (in_log u 0, []) (take ?n d) = (qs, g)" by fastforce
  then obtain new where new: "qs = in_log u 0 @ new" "concat new @ g = take ?n d" "\<forall>q\<in>set new. length q = 64" "length g < 64"
    using foldl_pack [OF _ q] by auto
  have py: "in_log y 0 @ txq (eps y 0) = in_log u 0 @ new" "fill (eps y 0) = g"
    using y(3) q by (simp_all add: pipe_def released_def w new(1))
  show ?thesis
  proof (cases "txq (eps y 0) = []")
    case True
    then have "released (ClearIN y) = in_log u 0 @ new @ [g]"
      using py ctl_ready_flags [OF y(5)] by (simp add: ClearIN_def released_def ep_handover_def ep_defs y(4))
    then show ?thesis using com new ctl_ready_flags [OF y(5)] y(4,5)
      by (intro exI [of _ "ClearIN y"] exI [of _ "new @ [g]"])
         (auto simp: ClearIN_def ep_handover_def ctl_ready_def)
  next
    case False
    then have c: "ClearIN y = y" and "g = []"
      using py y(5) ctl_ready_flags [OF y(5)]
      by (simp_all add: ClearIN_def ep_handover_def ep_defs y(4) ctl_ready_def)
    then show ?thesis using com new py y(5)
      by (intro exI [of _ y] exI [of _ new]) (auto simp: released_def ctl_ready_def dest: in_set_butlastD)
  qed
qed

lemma descriptor_refused:
  assumes p: "length p = 8" "p ! 0 = 0x80" "p ! 1 = 6" and u: "ep0_ok u" and P: "nodes P = []"
    and d: "descriptor (setup_of p) (cdcComposite u \<noteq> 0) = None"
  shows "\<exists>v. USB_COM_vect P (give_setup p u) = Some v \<and> STALLRQ (eps v 0) \<and> released v = in_log u 0"
proof -
  let ?s = "setup_of p" and ?w = "InitControl (sint (wLength (setup_of p))) (begun u)"
  have s: "bmRequestType ?s = 0x80" "bRequest ?s = 6" using p by (simp_all add: setup_of_def)
  have "SendDescriptor P ?s (begun u) = Some (False, ?w)"
    using d P by (auto simp: SendDescriptor_def descriptor_def IPRODUCT_def IMANUFACTURER_def ISERIAL_def split: if_splits)
  then have "USB_COM_vect P (give_setup p u) = Some (Stall ?w)"
    using WaitIN_begun [OF u] s by (simp add: COM_begins [OF p(1)] Let_def standard_request_def dir_bits)
  then show ?thesis
    by (intro exI [of _ "Stall ?w"]) (simp add: Stall_def InitControl_def SetEP_def ep_defs released_def)
qed

section \<open>The watchdog and the boot key\<close>

lemma ucast_of_le2 [simp]: "(ucast (of_le [a, b] :: u16) :: u8) = a"
  by (rule bit_word_eqI) (auto simp: bit_simps)

lemma and_one_bit: "(w :: u8) AND 1 = 0 \<longleftrightarrow> \<not> bit w 0"
  using and_BV_eq_0 [of w 0] by (simp add: BV_def)

lemma rd16_wr16:
  "rd16 (wr16 m a v) a = v"
  "a + 2 \<le> b \<or> b + 2 \<le> a \<Longrightarrow> rd16 (wr16 m a v) b = rd16 m b"
  unfolding rd16_def wr16_def
  by (simp add: mem_simps del: le_bytes.simps read_block.simps write_block.simps)
     (subst read_write_disjoint, auto simp del: le_bytes.simps read_block.simps write_block.simps)

definition key_pos :: "ucore \<Rightarrow> nat" where
  "key_pos u = (if updatedLUFAbootloader u then RAMEND - 1 else MAGIC_KEY_POS)"

definition touched :: "ucore \<Rightarrow> bool" where
  "touched u \<longleftrightarrow> dwDTERate (usbLineInfo u) = 1200 \<and> \<not> bit (lineState (usbLineInfo u)) 0"

lemma CDC_touch_effect:
  "wdt (CDC_touch u) = (if touched u then Some WDTO_120MS else None)"
  "rd16 (ram (CDC_touch u)) (key_pos u) =
    (if touched u then MAGIC_KEY else if updatedLUFAbootloader u then 0 else rd16 (ram u) (RAMEND - 1))"
  "\<not> updatedLUFAbootloader u \<Longrightarrow> rd16 (ram (CDC_touch u)) (RAMEND - 1) =
    (if touched u then rd16 (ram u) MAGIC_KEY_POS else rd16 (ram u) (RAMEND - 1))"
  "usbLineInfo (CDC_touch u) = usbLineInfo u" "updatedLUFAbootloader (CDC_touch u) = updatedLUFAbootloader u"
  "eps (CDC_touch u) = eps u"
  by (simp_all add: CDC_touch_def touched_def key_pos_def Let_def wdt_enable_def wdt_disable_def and_one_bit
      RAMEND_def MAGIC_KEY_POS_def rd16_wr16)

lemma ClearIN_frame [simp]:
  "usbLineInfo (ClearIN u) = usbLineInfo u" "ram (ClearIN u) = ram u" "wdt (ClearIN u) = wdt u"
  "updatedLUFAbootloader (ClearIN u) = updatedLUFAbootloader u" "acts (ClearIN u) = acts u" "in_log (ClearIN u) = in_log u"
  "UENUM (ClearIN u) = UENUM u"
  by (simp_all add: ClearIN_def ep_defs)

text \<open>A request \<^verbatim>\<open>SET_CONTROL_LINE_STATE\<close> for the serial port; its handler never waits.\<close>

definition line_state_request :: "u8 list \<Rightarrow> bool" where
  "line_state_request p \<longleftrightarrow> length p = 8 \<and> p ! 0 = 0x21 \<and> p ! 1 = 0x22 \<and> p ! 4 = 0"

lemma line_state_handled:
  assumes "line_state_request p"
  obtains v where "USB_COM_vect P (give_setup p u) = Some v"
    "usbLineInfo v = (usbLineInfo u)\<lparr>lineState := p ! 2\<rparr>" "updatedLUFAbootloader v = updatedLUFAbootloader u"
    "wdt v = (if touched v then Some WDTO_120MS else None)"
    "rd16 (ram v) (key_pos v) = (if touched v then MAGIC_KEY else if updatedLUFAbootloader u then 0 else rd16 (ram u) (RAMEND - 1))"
    "\<not> updatedLUFAbootloader u \<Longrightarrow> rd16 (ram v) (RAMEND - 1) =
       (if touched v then rd16 (ram u) MAGIC_KEY_POS else rd16 (ram u) (RAMEND - 1))"
proof -
  let ?s = "setup_of p"
  let ?w = "(InitControl (sint (wLength ?s)) (ClearIN (begun u)))\<lparr>usbLineInfo := (usbLineInfo u)\<lparr>lineState := p ! 2\<rparr>\<rparr>"
  have s: "length p = 8" "bmRequestType ?s = 0x21" "bRequest ?s = 0x22" "ucast (wIndex ?s) = (0 :: u8)" "wValueL ?s = p ! 2"
    using assms by (simp_all add: line_state_request_def setup_of_def del: of_le.simps)
  have c: "USB_COM_vect P (give_setup p u) = Some (ClearIN (CDC_touch ?w))"
    using s by (simp add: COM_begins Let_def dir_bits ClassInterfaceRequest_def CDC_Setup_def InitControl_def SetEP_def)
  have t: "touched (ClearIN (CDC_touch ?w)) = touched ?w" "key_pos (ClearIN (CDC_touch ?w)) = key_pos ?w"
    by (simp_all add: touched_def key_pos_def CDC_touch_effect)
  have w: "updatedLUFAbootloader ?w = updatedLUFAbootloader u" "ram ?w = ram u"
    by (simp_all add: InitControl_def SetEP_def)
  show ?thesis
  proof (rule that [OF c])
    assume "\<not> updatedLUFAbootloader u"
    then have "\<not> updatedLUFAbootloader ?w" by (simp add: w)
    from CDC_touch_effect(3) [OF this] show "rd16 (ram (ClearIN (CDC_touch ?w))) (RAMEND - 1) =
        (if touched (ClearIN (CDC_touch ?w)) then rd16 (ram u) MAGIC_KEY_POS else rd16 (ram u) (RAMEND - 1))"
      by (simp only: t ClearIN_frame w)
  qed (simp_all only: t ClearIN_frame CDC_touch_effect(1,2,4,5) w, simp_all)
qed

lemma line_state_touched:
  "usbLineInfo v = (usbLineInfo u)\<lparr>lineState := b\<rparr> \<Longrightarrow>
    touched v \<longleftrightarrow> dwDTERate (usbLineInfo u) = 1200 \<and> \<not> bit b 0"
  by (simp add: touched_def)

text \<open>A series of requests, each handled before the next one arrives.\<close>

fun requests :: "PluggableUSB \<Rightarrow> u8 list list \<Rightarrow> ucore \<Rightarrow> ucore option" where
  "requests P [] u = Some u"
| "requests P (p # ps) u = do { u \<leftarrow> USB_COM_vect P (give_setup p u); requests P ps u }"

definition line_state_pkt :: "u8 \<Rightarrow> u8 list" where
  "line_state_pkt b = [0x21, 0x22, b, 0, 0, 0, 0, 0]"

lemma line_state_pkt_request [simp]: "line_state_request (line_state_pkt b)" "line_state_pkt b ! 2 = b"
  by (simp_all add: line_state_request_def line_state_pkt_def)

lemma requests_append:
  "requests P (ps @ qs) u = Option.bind (requests P ps u) (requests P qs)"
  by (induction ps arbitrary: u) (auto split: bind_split)

lemma close_port:
  assumes "\<not> updatedLUFAbootloader u" "dwDTERate (usbLineInfo u) = 1200"
  obtains v where "USB_COM_vect P (give_setup (line_state_pkt 0) u) = Some v" "\<not> updatedLUFAbootloader v"
    "dwDTERate (usbLineInfo v) = 1200" "rd16 (ram v) MAGIC_KEY_POS = MAGIC_KEY"
    "rd16 (ram v) (RAMEND - 1) = rd16 (ram u) MAGIC_KEY_POS"
proof -
  obtain v where v: "USB_COM_vect P (give_setup (line_state_pkt 0) u) = Some v"
    "usbLineInfo v = (usbLineInfo u)\<lparr>lineState := 0\<rparr>" "updatedLUFAbootloader v = updatedLUFAbootloader u"
    "rd16 (ram v) (key_pos v) = (if touched v then MAGIC_KEY else if updatedLUFAbootloader u then 0 else rd16 (ram u) (RAMEND - 1))"
    "\<not> updatedLUFAbootloader u \<Longrightarrow> rd16 (ram v) (RAMEND - 1) =
       (if touched v then rd16 (ram u) MAGIC_KEY_POS else rd16 (ram u) (RAMEND - 1))"
    by (rule line_state_handled [OF line_state_pkt_request(1), of P 0 u]) simp
  have "touched v" using line_state_touched [OF v(2)] assms(2) by simp
  with v assms show ?thesis by (intro that) (auto simp: key_pos_def)
qed

lemma close_ports:
  assumes "\<not> updatedLUFAbootloader u" "dwDTERate (usbLineInfo u) = 1200"
  shows "\<exists>v. requests P (replicate n (line_state_pkt 0)) u = Some v \<and> \<not> updatedLUFAbootloader v \<and>
    dwDTERate (usbLineInfo v) = 1200 \<and>
    rd16 (ram v) (RAMEND - 1) = (if n = 0 then rd16 (ram u) (RAMEND - 1)
      else if n = 1 then rd16 (ram u) MAGIC_KEY_POS else MAGIC_KEY)"
  using assms
proof (induction n arbitrary: u)
  case 0
  then show ?case by simp
next
  case (Suc n)
  obtain v where v: "USB_COM_vect P (give_setup (line_state_pkt 0) u) = Some v" "\<not> updatedLUFAbootloader v"
    "dwDTERate (usbLineInfo v) = 1200" "rd16 (ram v) MAGIC_KEY_POS = MAGIC_KEY"
    "rd16 (ram v) (RAMEND - 1) = rd16 (ram u) MAGIC_KEY_POS"
    by (rule close_port [OF Suc.prems]) blast
  from Suc.IH [OF v(2,3)] v show ?case by auto
qed

lemma reopen_port:
  assumes "\<not> updatedLUFAbootloader u" "bit b 0"
  obtains v where "USB_COM_vect P (give_setup (line_state_pkt b) u) = Some v" "wdt v = None"
    "rd16 (ram v) MAGIC_KEY_POS = rd16 (ram u) (RAMEND - 1)"
proof -
  obtain v where v: "USB_COM_vect P (give_setup (line_state_pkt b) u) = Some v"
    "usbLineInfo v = (usbLineInfo u)\<lparr>lineState := b\<rparr>" "updatedLUFAbootloader v = updatedLUFAbootloader u"
    "wdt v = (if touched v then Some WDTO_120MS else None)"
    "rd16 (ram v) (key_pos v) = (if touched v then MAGIC_KEY else if updatedLUFAbootloader u then 0 else rd16 (ram u) (RAMEND - 1))"
    by (rule line_state_handled [OF line_state_pkt_request(1), of P b u]) simp
  have "\<not> touched v" using line_state_touched [OF v(2)] assms(2) by simp
  with v assms show ?thesis by (intro that) (auto simp: key_pos_def)
qed

section \<open>Lemmas: the line coding\<close>

lemma Recv_loop_bank:
  assumes "setup_pkt (sel u) = None" "banks (sel u) = p # rest" "n \<le> length p"
  shows "Recv_loop n u = (take n p, on_sel (banks_update (\<lambda>_. drop n p # rest)) u)"
  using assms
proof (induction n arbitrary: u p)
  case 0
  have "(sel u)\<lparr>banks := p # rest\<rparr> = sel u" using 0 by (metis uep.surjective uep.update_convs(7))
  then show ?case by (simp add: ep_defs fun_upd_idem)
next
  case (Suc n)
  then obtain b bs where p: "p = b # bs" by (cases p) auto
  let ?v = "on_sel (banks_update (\<lambda>_. bs # rest)) u"
  have "UEDATX u = (b, ?v)"
    using Suc.prems by (simp add: UEDATX_def ep_pop_def p ep_defs)
  moreover have "setup_pkt (sel ?v) = None" "banks (sel ?v) = bs # rest" using Suc.prems by (simp_all add: ep_defs)
  ultimately show ?case using Suc.IH [of ?v bs] Suc.prems by (simp add: p ep_defs)
qed

lemma RecvControl_packet:
  assumes e: "ctl_ready (eps u 0)" "EPEN (eps u 0)" and U: "UENUM u = 0"
    and a: "acts u = ActOut d # rest" and d: "length d = n" "0 < n" "n \<le> 64"
  shows "USB_RecvControl n u = Some (d, (RXLED1 u)\<lparr>acts := rest, RxLEDPulse := TX_RX_LED_PULSE_MS\<rparr>)"
proof -
  note fl = ctl_ready_flags [OF e(1)]
  let ?v = "on_ep 0 (banks_update (\<lambda>_. [d])) u"
  have b: "banks (eps u 0) = []" "setup_pkt (eps u 0) = None" "\<not> STALLRQ (eps u 0)" using e(1) by (simp_all add: ctl_ready_def)
  have bu: "banks_update (\<lambda>bs. bs @ [d]) (eps u 0) = (eps u 0)\<lparr>banks := [d]\<rparr>" using b(1) by (cases "eps u 0") simp
  have "give_out 0 d u = on_ep 0 (banks_update (\<lambda>bs. bs @ [d])) u"
    using fl b e(2) d by (simp add: give_out_def Let_def ep_banks_def)
  also have "\<dots> = ?v" unfolding on_ep_def bu by (rule refl)
  finally have g: "give_out 0 d u = ?v" .
  have w: "WaitOUT u = Some (?v\<lparr>acts := rest\<rparr>)"
    using fl U b by (cases rest) (simp_all add: WaitOUT_def a g ep_defs RXOUTI_def)
  have s: "setup_pkt (sel (?v\<lparr>acts := rest\<rparr>)) = None" "banks (sel (?v\<lparr>acts := rest\<rparr>)) = [d]"
    using b U by (simp_all add: ep_defs)
  have e0: "(eps u 0)\<lparr>banks := []\<rparr> = eps u 0" using b(1) by (metis uep.surjective uep.update_convs(7))
  have "ClearOUT ((RXLED1 (on_sel (banks_update (\<lambda>_. [[]])) (?v\<lparr>acts := rest\<rparr>)))\<lparr>RxLEDPulse := TX_RX_LED_PULSE_MS\<rparr>) =
      (RXLED1 u)\<lparr>acts := rest, RxLEDPulse := TX_RX_LED_PULSE_MS\<rparr>"
    using U fl(5) by (simp add: ClearOUT_def ep_drop_def ep_defs led_defs ep_control_def e0)
  then show ?thesis using Recv_loop_bank [OF s, of n] d
    by (simp add: USB_RecvControl_def USB_RecvControl_loop.simps [of n] USB_RecvControl_loop.simps [of 0] w Recv_def Let_def)
qed

lemma line_bytes_of: "length d = 7 \<Longrightarrow> line_bytes (set_line_bytes d li) = d"
proof -
  assume d: "length d = 7"
  then have l: "le_bytes 4 (of_le (take 4 d) :: u32) = take 4 d" using le_bytes_of_le [of "take 4 d", where 'a = 32] by simp
  have "drop 4 d = [d ! 4, d ! 5, d ! 6]"
    using d by (auto simp: list_eq_iff_nth_eq nth_Cons' less_Suc_eq numeral_eq_Suc)
  then have "take 4 d @ [d ! 4, d ! 5, d ! 6] = d" by (metis append_take_drop_id)
  with l show ?thesis by (simp add: line_bytes_def set_line_bytes_def del: le_bytes.simps of_le.simps)
qed

definition set_coding_request :: "u8 list \<Rightarrow> bool" where
  "set_coding_request p \<longleftrightarrow> length p = 8 \<and> p ! 0 = 0x21 \<and> p ! 1 = 0x20 \<and> p ! 4 = 0"

definition get_coding_request :: "u8 list \<Rightarrow> bool" where
  "get_coding_request p \<longleftrightarrow> length p = 8 \<and> p ! 0 = 0xA1 \<and> p ! 1 = 0x21 \<and> p ! 4 = 0 \<and>
     7 \<le> unat (wLength (setup_of p)) \<and> unat (wLength (setup_of p)) < 32768"

lemma set_coding_handled:
  assumes p: "set_coding_request p" and u: "ep0_ok u" "EPEN (eps u 0)" "acts u = ActOut d # rest" and d: "length d = 7"
  obtains v where "USB_COM_vect P (give_setup p u) = Some v" "usbLineInfo v = set_line_bytes d (usbLineInfo u)"
    "ep0_ok v" "wdt v = (if touched v then Some WDTO_120MS else None)"
proof -
  let ?s = "setup_of p"
  define w where "w = InitControl (sint (wLength ?s)) (ClearIN (begun u))"
  have s: "length p = 8" "bmRequestType ?s = 0x21" "bRequest ?s = 0x20" "ucast (wIndex ?s) = (0 :: u8)"
    using p by (simp_all add: set_coding_request_def setup_of_def del: of_le.simps)
  have e: "eps w 0 = (eps (begun u) 0)\<lparr>txq := [[]], fill := []\<rparr>"
    using ctl_ready_flags [OF begun_ready [OF u(1)]]
    by (simp add: w_def InitControl_def SetEP_def ClearIN_def ep_handover_def)
  have c: "ctl_ready (eps w 0)" "EPEN (eps w 0)" "UENUM w = 0" "acts w = ActOut d # rest"
    using u by (simp_all add: e begun_def ctl_ready_def ep0_ok_def) (simp_all add: w_def InitControl_def SetEP_def)
  define x where "x = (RXLED1 w)\<lparr>acts := rest, RxLEDPulse := TX_RX_LED_PULSE_MS\<rparr>"
  let ?y = "x\<lparr>usbLineInfo := set_line_bytes d (usbLineInfo x)\<rparr>"
  have r: "USB_RecvControl 7 w = Some (d, x)" unfolding x_def by (rule RecvControl_packet [OF c d]) simp_all
  have com: "USB_COM_vect P (give_setup p u) = Some (ClearIN (CDC_touch ?y))"
    using s r by (simp add: COM_begins Let_def dir_bits ClassInterfaceRequest_def CDC_Setup_def w_def [symmetric])
  have f: "eps x = eps w" "usbLineInfo x = usbLineInfo u"
    by (simp_all add: x_def led_defs) (simp add: w_def InitControl_def SetEP_def)
  show ?thesis
  proof (rule that [OF com])
    show "usbLineInfo (ClearIN (CDC_touch ?y)) = set_line_bytes d (usbLineInfo u)" by (simp add: CDC_touch_effect f)
    show "ep0_ok (ClearIN (CDC_touch ?y))"
      using c(1) by (simp add: ep0_ok_def ClearIN_def CDC_touch_effect f ctl_ready_def ep_handover_def)
    have "touched (ClearIN (CDC_touch ?y)) = touched ?y" by (simp add: touched_def CDC_touch_effect)
    then show "wdt (ClearIN (CDC_touch ?y)) = (if touched (ClearIN (CDC_touch ?y)) then Some WDTO_120MS else None)"
      by (simp only: ClearIN_frame CDC_touch_effect)
  qed
qed

lemma get_coding_handled:
  assumes p: "get_coding_request p" and u: "ep0_ok u"
  shows "\<exists>v. USB_COM_vect P (give_setup p u) = Some v \<and> released v = in_log u 0 @ [line_bytes (usbLineInfo u)]"
proof -
  let ?s = "setup_of p" and ?d = "line_bytes (usbLineInfo u)"
  have d: "length ?d = 7" by (simp add: line_bytes_def)
  have s: "length p = 8" "bmRequestType ?s = 0xA1" "bRequest ?s = 0x21" "ucast (wIndex ?s) = (0 :: u8)"
    using p by (simp_all add: get_coding_request_def setup_of_def del: of_le.simps)
  have n: "7 \<le> nat (sint (wLength ?s))" using p by (simp add: get_coding_request_def nat_sint_u16)
  define w where "w = InitControl (sint (wLength ?s)) (begun u)"
  have w: "eps w = eps (begun u)" "in_log w = in_log u" "UENUM w = 0" "acts w = acts u" "cmark w = 0"
    "nat (cend w) = nat (sint (wLength ?s))" "usbLineInfo w = usbLineInfo u"
    by (simp_all add: w_def InitControl_def SetEP_def)
  have "pipe_inv 0 (acts u) w" using begun_ready [OF u] by (simp add: pipe_inv_def w)
  then obtain y where y: "USB_SendControl_loop ?d w = Some (True, y)" "pipe y = foldl pack (pipe w) ?d"
      "UENUM y = 0" "ctl_ready (eps y 0)"
    using SendControl_block [of 0 "acts u" w ?d] n d by (auto simp: w)
  have com: "USB_COM_vect P (give_setup p u) = Some (ClearIN y)"
    using s y(1) WaitIN_begun [OF u] by (simp add: COM_begins Let_def dir_bits ClassInterfaceRequest_def CDC_Setup_def
        w_def [symmetric] w(7) USB_SendControl_def)
  have py: "foldl pack (in_log u 0, []) ?d = (in_log y 0 @ txq (eps y 0), fill (eps y 0))"
    using y(2) by (simp add: pipe_def released_def w)
  obtain new where new: "in_log y 0 @ txq (eps y 0) = in_log u 0 @ new" "concat new @ fill (eps y 0) = ?d"
      "\<forall>q\<in>set new. length q = 64" using foldl_pack [OF _ py] by auto
  have "new = []"
  proof (rule ccontr)
    assume "new \<noteq> []"
    then obtain q r where "new = q # r" by (cases new) auto
    with new(2,3) have "64 \<le> length ?d" by (metis concat.simps(2) length_append le_add1 list.set_intros(1) append.assoc)
    with d show False by simp
  qed
  with new have l: "in_log y 0 @ txq (eps y 0) = in_log u 0" "fill (eps y 0) = ?d" by simp_all
  have t: "txq (eps y 0) = []" using y(4) l(2) d by (auto simp: ctl_ready_def)
  with l have "released (ClearIN y) = in_log u 0 @ [?d]"
    using ctl_ready_flags [OF y(4)] by (simp add: ClearIN_def released_def ep_handover_def ep_defs y(3))
  with com show ?thesis by blast
qed

section \<open>Properties\<close>

definition ep_blank :: uep where
  "ep_blank = \<lparr>EPEN = False, STALLRQ = False, UECFG0X = 0, UECFG1X = 0, UEIENX = 0, setup_pkt = None, banks = [],
     fill = [], txq = []\<rparr>"

definition ucore_0 :: ucore where
  "ucore_0 = \<lparr>SREG = 0x80, UENUM = 0, eps = (\<lambda>_. ep_blank), UDADDR = 0, UDCON = 1, UDIEN = 0, UDINT = 0,
     USBCON = 0x20, UHWCON = 0, PLLCSR = 0, pll_locks = True, PORTB = 0, PORTD = 0, DDRB = 0, DDRD = 0,
     TxLEDPulse = 0, RxLEDPulse = 0, usbConfiguration = 0, usbCurrentStatus = 0, usbSuspendState = 0,
     initEndpoints = initEndpoints_0, cmark = 0, cend = 0, cdcComposite = 0,
     usbLineInfo = \<lparr>dwDTERate = 57600, bCharFormat = 0, bParityType = 0, bDataBits = 0, lineState = 0\<rparr>,
     breakValue = -1, updatedLUFAbootloader = False, ram = (\<lambda>_. 0), wdt = Some WDTO_8S, peek_buffer = -1,
     write_error = False, waited = 0, acts = [], in_log = (\<lambda>_. [])\<rparr>"

text \<open>
  C14. Enumeration. A request for a descriptor on a control endpoint configured by the bus reset, with a
  host that collects the first packet, is answered in full: the handler returns; if the device has the
  descriptor, the packets handed to the host are together the descriptor cut at the length asked for, all
  but the last of 64 bytes, and the endpoint is not stalled; otherwise the endpoint is stalled and nothing
  is sent. A length from 32768 on, which the code takes for negative, is answered by no data at all.
\<close>

theorem sketch_descriptors:
  assumes "length p = 8" "p ! 0 = 0x80" "p ! 1 = 6" "ep0_ok u" "nodes P = []" "acts u = ActIn # rest"
  shows "case descriptor (setup_of p) (cdcComposite u \<noteq> 0) of
      None \<Rightarrow> \<exists>v. USB_COM_vect P (give_setup p u) = Some v \<and> STALLRQ (eps v 0) \<and> released v = in_log u 0
    | Some d \<Rightarrow> \<exists>v qs. USB_COM_vect P (give_setup p u) = Some v \<and> released v = in_log u 0 @ qs \<and>
        concat qs = (if unat (wLength (setup_of p)) < 32768 then take (unat (wLength (setup_of p))) d else []) \<and>
        (\<forall>q\<in>set (butlast qs). length q = 64) \<and> (\<forall>q\<in>set qs. length q \<le> 64) \<and> \<not> STALLRQ (eps v 0)"
  using descriptor_delivered [OF assms] descriptor_refused [OF assms(1-5)]
  by (auto simp: nat_sint_u16 split: option.split)

theorem sketch_descriptors_witness:
  "\<exists>v qs. USB_COM_vect PluggableUSB_0 (give_setup [0x80, 6, 0, 2, 0, 0, 0xFF, 0]
       ((end_of_reset ucore_0)\<lparr>acts := [ActIn]\<rparr>)) = Some v \<and> released v = qs \<and> concat qs = config_bytes"
proof -
  let ?p = "[0x80, 6, 0, 2, 0, 0, 0xFF, 0] :: u8 list" and ?u = "(end_of_reset ucore_0)\<lparr>acts := [ActIn]\<rparr>"
  have u: "ep0_ok ?u" "nodes PluggableUSB_0 = []" "acts ?u = ActIn # []" "in_log ?u 0 = []"
    by (simp_all add: ep0_ok_def end_of_reset_def InitEP_def SetEP_def ep_defs ucore_0_def PluggableUSB_0_def ep_empty_def)
  have s: "wValueH (setup_of ?p) = 2" by (simp add: setup_of_def)
  have l: "unat (wLength (setup_of ?p)) = 255" by code_simp
  have "take 255 config_bytes = config_bytes" using descriptor_lengths(1) by simp
  then show ?thesis using sketch_descriptors [of ?p ?u PluggableUSB_0 "[]"] u
    by (auto simp: descriptor_def s l)
qed

text \<open>
  C11. Opening the serial port turns the watchdog off. The request with which the host tells the state of
  its control lines is always handled without waiting, and afterwards the watchdog runs with 120 ms (the
  comment in \<^verbatim>\<open>CDC_Setup\<close> speaks of 250 ms) and the boot key is in memory if the port is closed at 1200 baud; in
  every other case, so whenever the host opens the port, the watchdog is off, even if the sketch had it running.
\<close>

theorem line_state_watchdog:
  assumes "line_state_request p"
  shows "\<exists>v. USB_COM_vect P (give_setup p u) = Some v \<and> lineState (usbLineInfo v) = p ! 2 \<and>
    (if dwDTERate (usbLineInfo u) = 1200 \<and> \<not> bit (p ! 2) 0
     then wdt v = Some WDTO_120MS \<and> rd16 (ram v) (key_pos u) = MAGIC_KEY else wdt v = None)"
proof -
  obtain v where v: "USB_COM_vect P (give_setup p u) = Some v"
    "usbLineInfo v = (usbLineInfo u)\<lparr>lineState := p ! 2\<rparr>" "updatedLUFAbootloader v = updatedLUFAbootloader u"
    "wdt v = (if touched v then Some WDTO_120MS else None)"
    "rd16 (ram v) (key_pos v) = (if touched v then MAGIC_KEY else if updatedLUFAbootloader u then 0 else rd16 (ram u) (RAMEND - 1))"
    by (rule line_state_handled [OF assms, of P u]) blast
  have "key_pos v = key_pos u" using v(3) by (simp add: key_pos_def)
  with v line_state_touched [OF v(2)] show ?thesis by auto
qed

theorem line_state_watchdog_witness:
  "wdt ucore_0 = Some WDTO_8S \<and>
   (\<exists>v. USB_COM_vect PluggableUSB_0 (give_setup (line_state_pkt 3) ucore_0) = Some v \<and> wdt v = None)"
  using line_state_watchdog [OF line_state_pkt_request(1), of PluggableUSB_0 3 ucore_0]
  by (auto simp: ucore_0_def)

text \<open>
  C12. The boot key and the memory it is stored in. With a boot loader without the signature, a port at
  1200 baud that the host closes \<open>n\<close> times and then opens: after one closing the two bytes at 0x0800 are
  what they were; after more than one they are the boot key, since the second closing saves the key over
  the saved bytes; and after none they are overwritten with the two bytes at the end of the memory.
\<close>

theorem boot_key_withdrawn:
  assumes "\<not> updatedLUFAbootloader u" "dwDTERate (usbLineInfo u) = 1200" "bit b 0"
  shows "\<exists>v. requests P (replicate n (line_state_pkt 0) @ [line_state_pkt b]) u = Some v \<and> wdt v = None \<and>
    rd16 (ram v) MAGIC_KEY_POS = (if n = 0 then rd16 (ram u) (RAMEND - 1)
      else if n = 1 then rd16 (ram u) MAGIC_KEY_POS else MAGIC_KEY)"
proof -
  from close_ports [OF assms(1,2), of P n] obtain v where v: "requests P (replicate n (line_state_pkt 0)) u = Some v"
    "\<not> updatedLUFAbootloader v" "rd16 (ram v) (RAMEND - 1) = (if n = 0 then rd16 (ram u) (RAMEND - 1)
      else if n = 1 then rd16 (ram u) MAGIC_KEY_POS else MAGIC_KEY)" by blast
  obtain w where w: "USB_COM_vect P (give_setup (line_state_pkt b) v) = Some w" "wdt w = None"
    "rd16 (ram w) MAGIC_KEY_POS = rd16 (ram v) (RAMEND - 1)"
    by (rule reopen_port [OF v(2) assms(3)]) blast
  show ?thesis unfolding requests_append v(1) using w v(3) by simp
qed

theorem boot_key_withdrawn_witness:
  "\<exists>v. requests PluggableUSB_0 [line_state_pkt 0, line_state_pkt 0, line_state_pkt 1]
       (ucore_0\<lparr>usbLineInfo := (usbLineInfo ucore_0)\<lparr>dwDTERate := 1200\<rparr>\<rparr>) = Some v \<and>
     rd16 (ram v) MAGIC_KEY_POS = MAGIC_KEY"
proof -
  let ?u = "ucore_0\<lparr>usbLineInfo := (usbLineInfo ucore_0)\<lparr>dwDTERate := 1200\<rparr>\<rparr>"
  have "replicate 2 (line_state_pkt 0) @ [line_state_pkt 1] = [line_state_pkt 0, line_state_pkt 0, line_state_pkt 1]"
    by (simp add: numeral_2_eq_2)
  then show ?thesis using boot_key_withdrawn [of ?u 1 PluggableUSB_0 2] by (auto simp: ucore_0_def)
qed

text \<open>
  The line coding is kept. The seven bytes the host sends with \<^verbatim>\<open>SET_LINE_CODING\<close> are the seven bytes it
  reads back with \<^verbatim>\<open>GET_LINE_CODING\<close>, in one packet, whatever they are; setting them turns the watchdog off
  unless they ask for 1200 baud while the port is closed.
\<close>

theorem line_coding_roundtrip:
  assumes "set_coding_request p" "get_coding_request q" "ep0_ok u" "EPEN (eps u 0)" "acts u = ActOut d # rest" "length d = 7"
  shows "\<exists>v w. USB_COM_vect P (give_setup p u) = Some v \<and> USB_COM_vect P (give_setup q v) = Some w \<and>
    released w = in_log v 0 @ [d] \<and> wdt v = (if touched v then Some WDTO_120MS else None)"
proof -
  obtain v where v: "USB_COM_vect P (give_setup p u) = Some v" "usbLineInfo v = set_line_bytes d (usbLineInfo u)"
    "ep0_ok v" "wdt v = (if touched v then Some WDTO_120MS else None)"
    by (rule set_coding_handled [OF assms(1,3-6)]) blast
  from get_coding_handled [OF assms(2) v(3), of P] v show ?thesis
    by (auto simp: line_bytes_of [OF assms(6)])
qed

theorem line_coding_roundtrip_witness:
  "\<exists>v w. USB_COM_vect PluggableUSB_0 (give_setup [0x21, 0x20, 0, 0, 0, 0, 7, 0]
       ((end_of_reset ucore_0)\<lparr>acts := [ActOut [0, 0xC2, 1, 0, 0, 0, 8]]\<rparr>)) = Some v \<and>
     USB_COM_vect PluggableUSB_0 (give_setup [0xA1, 0x21, 0, 0, 0, 0, 7, 0] v) = Some w \<and>
     released w = in_log v 0 @ [[0, 0xC2, 1, 0, 0, 0, 8]]"
proof -
  let ?d = "[0, 0xC2, 1, 0, 0, 0, 8] :: u8 list" and ?q = "[0xA1, 0x21, 0, 0, 0, 0, 7, 0] :: u8 list"
  let ?u = "(end_of_reset ucore_0)\<lparr>acts := [ActOut ?d]\<rparr>"
  have u: "ep0_ok ?u" "EPEN (eps ?u 0)" "acts ?u = ActOut ?d # []"
    by (simp_all add: ep0_ok_def end_of_reset_def InitEP_def SetEP_def ep_defs ucore_0_def ep_empty_def)
  have "unat (wLength (setup_of ?q)) = 7" by code_simp
  then have q: "get_coding_request ?q" by (simp add: get_coding_request_def)
  show ?thesis
    using line_coding_roundtrip [OF _ q u, of "[0x21, 0x20, 0, 0, 0, 0, 7, 0]" PluggableUSB_0]
    by (auto simp: set_coding_request_def)
qed

end
