(* ===== verification/Usb_Serial.thy ===== *)
theory Usb_Serial
  imports Usb_Requests
begin

text \<open>
  Sending to the host (\<^verbatim>\<open>USB_Send\<close> of \<^verbatim>\<open>USBCore.cpp\<close>) and the class \<^verbatim>\<open>Serial_\<close> of \<^verbatim>\<open>CDC.cpp\<close>, the serial port of
  the sketch. Sending runs with the interrupts of the controller enabled: at each point where one can strike,
  the next of the lists \<open>ahead\<close> says what happens there on the bus and in the controller; when the lists
  are used up nothing happens any more. The section on receiving states the port as a queue of bytes, in a
  locale with the laws of a byte source, and proves them for the port.
\<close>

section \<open>What happens between two instructions\<close>

datatype hev =
    Out nat "u8 list"
  | InTok nat
  | Sof
  | Susp
  | Wake
  | Rst
  | Ctl "u8 list" "act list"

fun hw_event :: "hev \<Rightarrow> ucore \<Rightarrow> ucore" where
  "hw_event (Out n p) u = give_out n p u"
| "hw_event (InTok n) u = take_in n u"
| "hw_event Sof u = u\<lparr>UDINT := sbi (UDINT u) SOFI\<rparr>"
| "hw_event Susp u = u\<lparr>UDINT := sbi (UDINT u) SUSPI\<rparr>"
| "hw_event Wake u = u\<lparr>UDINT := sbi (UDINT u) WAKEUPI\<rparr>"
| "hw_event Rst u = u\<lparr>UDINT := sbi (UDINT u) EORSTI, eps := (\<lambda>n. (eps u n)\<lparr>EPEN := False\<rparr>)\<rparr>"
| "hw_event (Ctl p as) u = (if EPEN (eps u 0) then (give_setup p u)\<lparr>acts := as\<rparr> else u)"

text \<open>The interrupts: the general one, then that of the control endpoint; afterwards the host goes on with
  what is left of its transfer.\<close>

definition interrupts :: "PluggableUSB \<Rightarrow> ucore \<Rightarrow> ucore option" where
  "interrupts P u =
    (if bit (SREG u) 7
     then do { let u = serve_gen u;
               u \<leftarrow> (if RXSTPI (eps u 0) \<and> bit (UEIENX (eps u 0)) 3 then USB_COM_vect P u else Some u);
               Some ((fold act_step (acts u) u)\<lparr>acts := []\<rparr>) }
     else Some u)"

fun happen :: "PluggableUSB \<Rightarrow> hev list \<Rightarrow> ucore \<Rightarrow> ucore option" where
  "happen P [] u = Some u"
| "happen P (e # es) u = do { u \<leftarrow> interrupts P (hw_event e u); happen P es u }"

definition window :: "PluggableUSB \<Rightarrow> hev list list \<Rightarrow> ucore \<Rightarrow> ucore option" where
  "window P ahead u = happen P (case ahead of [] \<Rightarrow> [] | es # _ \<Rightarrow> es) u"

section \<open>Sending\<close>

fun Send8_loop :: "u8 list \<Rightarrow> ucore \<Rightarrow> ucore" where
  "Send8_loop [] u = u"
| "Send8_loop (b # bs) u = Send8_loop bs (Send8 b u)"

text \<open>The inner block, under the lock: \<open>None\<close> when the bank has been taken away in the meantime.\<close>

definition send_block :: "u8 \<Rightarrow> nat \<Rightarrow> u8 list \<Rightarrow> ucore \<Rightarrow> bool \<times> ucore" where
  "send_block ep n data u =
    (let (s, u) = LockEP ep u
     in if \<not> ReadWriteAllowed u then (False, UnlockEP s u)
        else let u = Send8_loop (if bit ep 5 then replicate n 0 else take n data) u;
                 u = (if \<not> ReadWriteAllowed u \<or> length data = n \<and> bit ep 6 then ReleaseTX u else u)
             in (True, UnlockEP s u))"

lemma SendSpace_RWAL:
  assumes "fst (USB_SendSpace ep u) \<noteq> 0"
  shows "fst (send_block ep n data (snd (USB_SendSpace ep u)))"
  using assms
  by (auto simp: USB_SendSpace_def send_block_def LockEP_def UnlockEP_def SetEP_def Let_def ReadWriteAllowed_def sel_def cur_def
      split: if_splits)

function USB_Send_loop :: "PluggableUSB \<Rightarrow> u8 \<Rightarrow> u8 list \<Rightarrow> u8 \<Rightarrow> hev list list \<Rightarrow> ucore \<Rightarrow>
    (bool \<times> hev list list \<times> ucore) option" where
  "USB_Send_loop P ep data timeout ahead u =
    (if data = [] then Some (True, ahead, u)
     else case window P ahead u of None \<Rightarrow> None
     | Some u \<Rightarrow>
       let space = fst (USB_SendSpace ep u); u = snd (USB_SendSpace ep u)
       in if space = 0
          then if timeout - 1 = 0 then Some (False, tl ahead, u)
               else USB_Send_loop P ep data (timeout - 1) (tl ahead) (u\<lparr>waited := waited u + 1\<rparr>)
          else case window P (tl ahead) u of None \<Rightarrow> None
          | Some u \<Rightarrow>
            let n = min (unat space) (length data); r = send_block ep n data u
            in if fst r then USB_Send_loop P ep (drop n data) timeout (tl (tl ahead)) (snd r)
               else USB_Send_loop P ep data timeout (tl (tl ahead)) (snd r))"
  by pat_completeness auto
termination
proof (relation "measures [\<lambda>(P, ep, data, timeout, ahead, u). length data,
    \<lambda>(P, ep, data, timeout, ahead, u). unat (timeout - 1), \<lambda>(P, ep, data, timeout, ahead, u). length ahead]", goal_cases)
  case 1
  then show ?case by simp
next
  case (2 P ep data timeout ahead u v space w)
  then have ne: "timeout - 1 \<noteq> 0" by simp
  then have "0 < unat (timeout - 1)" by (simp add: unat_gt_0)
  with 2 unat_minus_one [OF ne] show ?case by simp
next
  case (3 P ep data timeout ahead u v space w x n r)
  then have "0 < unat space" by (simp add: unat_gt_0)
  with 3 show ?case by auto
next
  case (4 P ep data timeout ahead u v space w x n r)
  show ?case
  proof (cases ahead)
    case Nil
    with 4 have "v = u" "x = w" by (simp_all add: window_def)
    with 4 SendSpace_RWAL [of ep u] show ?thesis by simp
  qed (use 4 in simp)
qed

declare USB_Send_loop.simps [simp del]

definition USB_Send :: "PluggableUSB \<Rightarrow> u8 \<Rightarrow> u8 list \<Rightarrow> hev list list \<Rightarrow> ucore \<Rightarrow> (int \<times> hev list list \<times> ucore) option" where
  "USB_Send P ep d ahead u =
    (if usbConfiguration u = 0 then Some (-1, ahead, u)
     else let u = (if bit (usbSuspendState u) SUSPI then u\<lparr>UDCON := sbi (UDCON u) 1\<rparr> else u)
          in map_option (\<lambda>(ok, ahead, u).
               if ok then (int (length d), ahead, (TXLED1 u)\<lparr>TxLEDPulse := TX_RX_LED_PULSE_MS\<rparr>)
               else (-1, ahead, u)) (USB_Send_loop P ep d 250 ahead u))"

section \<open>The serial port\<close>

definition Serial_begin :: "ucore \<Rightarrow> ucore" where
  "Serial_begin u = u\<lparr>peek_buffer := -1\<rparr>"

definition Serial_available :: "ucore \<Rightarrow> int \<times> ucore" where
  "Serial_available u =
    (let (n, v) = USB_Available CDC_RX u in (if 0 \<le> peek_buffer u then 1 + uint n else uint n, v))"

definition Serial_peek :: "ucore \<Rightarrow> int \<times> ucore" where
  "Serial_peek u =
    (let u = (if peek_buffer u < 0 then let (c, u) = USB_Recv1 CDC_RX u in u\<lparr>peek_buffer := c\<rparr> else u)
     in (peek_buffer u, u))"

definition Serial_read :: "ucore \<Rightarrow> int \<times> ucore" where
  "Serial_read u =
    (if 0 \<le> peek_buffer u then (peek_buffer u, u\<lparr>peek_buffer := -1\<rparr>) else USB_Recv1 CDC_RX u)"

definition Serial_availableForWrite :: "ucore \<Rightarrow> int \<times> ucore" where
  "Serial_availableForWrite u = (let (n, u) = USB_SendSpace CDC_TX u in (uint n, u))"

definition Serial_flush :: "ucore \<Rightarrow> ucore" where
  "Serial_flush u = USB_Flush CDC_TX u"

definition Serial_write :: "PluggableUSB \<Rightarrow> u8 list \<Rightarrow> hev list list \<Rightarrow> ucore \<Rightarrow> (int \<times> hev list list \<times> ucore) option" where
  "Serial_write P buffer ahead u =
    (if 0 < lineState (usbLineInfo u)
     then map_option (\<lambda>(r, ahead, u). if 0 < r then (r, ahead, u) else (0, ahead, u\<lparr>write_error := True\<rparr>))
       (USB_Send P CDC_TX buffer ahead u)
     else Some (0, ahead, u\<lparr>write_error := True\<rparr>))"

definition Serial_bool :: "ucore \<Rightarrow> bool \<times> ucore" where
  "Serial_bool u = (0 < lineState (usbLineInfo u), u\<lparr>waited := waited u + 10\<rparr>)"

definition Serial_baud :: "ucore \<Rightarrow> u32" where "Serial_baud u = dwDTERate (usbLineInfo u)"
definition Serial_stopbits :: "ucore \<Rightarrow> u8" where "Serial_stopbits u = bCharFormat (usbLineInfo u)"
definition Serial_paritytype :: "ucore \<Rightarrow> u8" where "Serial_paritytype u = bParityType (usbLineInfo u)"
definition Serial_numbits :: "ucore \<Rightarrow> u8" where "Serial_numbits u = bDataBits (usbLineInfo u)"
definition Serial_dtr :: "ucore \<Rightarrow> bool" where "Serial_dtr u \<longleftrightarrow> lineState (usbLineInfo u) AND 0x1 \<noteq> 0"
definition Serial_rts :: "ucore \<Rightarrow> bool" where "Serial_rts u \<longleftrightarrow> lineState (usbLineInfo u) AND 0x2 \<noteq> 0"

definition Serial_readBreak :: "ucore \<Rightarrow> int \<times> ucore" where
  "Serial_readBreak u = (breakValue u, u\<lparr>breakValue := -1\<rparr>)"

section \<open>Receiving as a queue of bytes\<close>

text \<open>
  What a reader of bytes relies on: \<open>avail\<close> says whether a byte is there and loses nothing, \<open>get\<close> returns
  the next byte. \<open>pend\<close> is the content, \<open>ok\<close> the invariant of the source.
\<close>

locale byte_source =
  fixes avail :: "'s \<Rightarrow> int \<times> 's" and get :: "'s \<Rightarrow> int \<times> 's" and pend :: "'s \<Rightarrow> u8 list" and ok :: "'s \<Rightarrow> bool"
  assumes avail_iff: "ok s \<Longrightarrow> 0 < fst (avail s) \<longleftrightarrow> pend s \<noteq> []"
    and avail_keeps: "ok s \<Longrightarrow> ok (snd (avail s)) \<and> pend (snd (avail s)) = pend s"
    and get_next: "ok s \<Longrightarrow> pend s = b # bs \<Longrightarrow> fst (get s) = uint b \<and> pend (snd (get s)) = bs \<and> ok (snd (get s))"
begin

text \<open>Reading \<open>n\<close> bytes one after the other takes the first \<open>n\<close> of the content.\<close>

primrec gets :: "nat \<Rightarrow> 's \<Rightarrow> int list \<times> 's" where
  "gets 0 s = ([], s)"
| "gets (Suc n) s = (let (c, s) = get s; (cs, s) = gets n s in (c # cs, s))"

lemma gets_prefix:
  assumes "ok s" "n \<le> length (pend s)"
  shows "fst (gets n s) = map uint (take n (pend s)) \<and> pend (snd (gets n s)) = drop n (pend s) \<and> ok (snd (gets n s))"
  using assms
proof (induction n arbitrary: s)
  case (Suc n)
  then obtain b bs where p: "pend s = b # bs" by (cases "pend s") auto
  note g = get_next [OF Suc.prems(1) p]
  then show ?case using Suc.IH [of "snd (get s)"] Suc.prems(2) by (simp add: p case_prod_unfold Let_def)
qed simp

end

definition rx_ok :: "ucore \<Rightarrow> bool" where
  "rx_ok u \<longleftrightarrow> usbConfiguration u \<noteq> 0 \<and> UECFG0X (eps u 2) = EP_TYPE_BULK_OUT \<and> setup_pkt (eps u 2) = None \<and>
     (\<forall>b\<in>set (banks (eps u 2)). b \<noteq> [] \<and> length b \<le> 64) \<and> -1 \<le> peek_buffer u \<and> peek_buffer u < 256"

definition pending :: "ucore \<Rightarrow> u8 list" where
  "pending u = (if 0 \<le> peek_buffer u then [word_of_int (peek_buffer u)] else []) @ concat (banks (eps u 2))"

lemma u8_count: "n < 256 \<Longrightarrow> unat (of_nat n :: u8) = n" "n < 256 \<Longrightarrow> uint (of_nat n :: u8) = int n"
proof -
  show u: "n < 256 \<Longrightarrow> unat (of_nat n :: u8) = n" by (simp add: unat_of_nat)
  show "n < 256 \<Longrightarrow> uint (of_nat n :: u8) = int n" using u by (metis of_nat_unat)
qed

lemma lock_rx [simp]: "CDC_RX AND 7 = 2" "CDC_TX AND 7 = 3"
  by (simp_all add: CDC_RX_def CDC_TX_def)

lemma lock_unlock [simp]: "UnlockEP (SREG u) (v\<lparr>SREG := x\<rparr>) = v\<lparr>SREG := SREG u\<rparr>"
  by (simp add: UnlockEP_def)

lemma Available_rx: "USB_Available CDC_RX u = (UEBCLX (eps u 2), u\<lparr>UENUM := 2\<rparr>)"
  unfolding USB_Available_def LockEP_def UnlockEP_def Let_def
  by (simp add: FifoByteCount_def ep_defs SetEP_def)

lemma rx_count:
  assumes "rx_ok u"
  shows "uint (UEBCLX (eps u 2)) = (case banks (eps u 2) of [] \<Rightarrow> 0 | b # _ \<Rightarrow> int (length b))"
proof (cases "banks (eps u 2)")
  case (Cons b bs)
  then have "length b \<le> 64" using assms by (simp add: rx_ok_def)
  then have "uint (of_nat (length b) :: u8) = int (length b)"
    by (simp add: u8_count)
  with Cons assms show ?thesis by (simp add: UEBCLX_def ep_in_def rx_ok_def)
qed (use assms in \<open>simp add: UEBCLX_def ep_in_def rx_ok_def\<close>)

lemma Recv1_empty:
  assumes "rx_ok u" "banks (eps u 2) = []"
  shows "USB_Recv1 CDC_RX u = (-1, u\<lparr>UENUM := 2\<rparr>)"
  using assms rx_count [OF assms(1)]
  by (simp add: USB_Recv1_def USB_Recv_def LockEP_def SetEP_def UnlockEP_def FifoByteCount_def ep_defs rx_ok_def)

lemma Recv1_next:
  assumes ok: "rx_ok u" and b: "banks (eps u 2) = (b # bs) # rest"
  obtains v where "USB_Recv1 CDC_RX u = (uint b, v)" "rx_ok v" "peek_buffer v = peek_buffer u"
    "banks (eps v 2) = (if bs = [] then rest else bs # rest)"
proof -
  let ?l = "u\<lparr>SREG := cbi (SREG u) 7, UENUM := 2\<rparr>"
  have l: "LockEP CDC_RX u = (SREG u, ?l)" by (simp add: LockEP_def SetEP_def)
  have n: "min (uint (FifoByteCount ?l)) 1 = 1" using rx_count [OF ok] b by (simp add: FifoByteCount_def ep_defs)
  define w where "w = (on_ep 2 (banks_update (\<lambda>_. bs # rest)) ?l)\<lparr>PORTB := sbi (PORTB u) 0, RxLEDPulse := TX_RX_LED_PULSE_MS\<rparr>"
  have r: "Recv8_loop 1 ?l = ([b], w)"
    using ok b by (simp add: Recv8_def UEDATX_def led_defs ep_defs ep_pop_def rx_ok_def w_def)
  have f: "FifoByteCount w = of_nat (length bs)"
    using ok by (simp add: FifoByteCount_def w_def ep_defs UEBCLX_def ep_in_def rx_ok_def)
  have bl: "length bs < 64" using ok b by (simp add: rx_ok_def)
  then have f0: "FifoByteCount w = 0 \<longleftrightarrow> bs = []"
    using u8_count(1) [of "length bs"] unfolding f word_unat_eq_iff by simp
  define v where "v = (if bs = [] then ReleaseRX w else w)\<lparr>SREG := SREG u\<rparr>"
  have "USB_Recv1 CDC_RX u = (uint b, v)"
    using ok n r f0 by (simp add: USB_Recv1_def USB_Recv_def l Let_def rx_ok_def UnlockEP_def v_def)
  moreover have bv: "banks (eps v 2) = (if bs = [] then rest else bs # rest)"
    by (simp add: v_def ReleaseRX_def w_def ep_defs ep_drop_def)
  moreover have "rx_ok v" using ok b bv
    by (auto simp: rx_ok_def v_def ReleaseRX_def w_def ep_defs ep_drop_def split: if_splits)
  moreover have "peek_buffer v = peek_buffer u" by (simp add: v_def ReleaseRX_def w_def ep_defs)
  ultimately show ?thesis using that by blast
qed

lemma serial_available:
  assumes "rx_ok u"
  shows "0 < fst (Serial_available u) \<longleftrightarrow> pending u \<noteq> []"
    "rx_ok (snd (Serial_available u)) \<and> pending (snd (Serial_available u)) = pending u"
  using assms rx_count [OF assms]
  by (auto simp: Serial_available_def Available_rx pending_def rx_ok_def split: list.splits)

lemma serial_read:
  assumes ok: "rx_ok u" and p: "pending u = b # bs"
  shows "fst (Serial_read u) = uint b \<and> pending (snd (Serial_read u)) = bs \<and> rx_ok (snd (Serial_read u))"
proof (cases "0 \<le> peek_buffer u")
  case True
  then have "uint (word_of_int (peek_buffer u) :: u8) = peek_buffer u"
    using ok by (simp add: rx_ok_def uint_word_of_int_eq take_bit_int_eq_self)
  with True ok p show ?thesis by (auto simp: Serial_read_def pending_def rx_ok_def)
next
  case False
  then obtain cs rest where c: "banks (eps u 2) = (b # cs) # rest" and bs: "bs = cs @ concat rest"
    using ok p by (cases "banks (eps u 2)"; cases "hd (banks (eps u 2))") (auto simp: pending_def rx_ok_def)
  obtain v where "USB_Recv1 CDC_RX u = (uint b, v)" "rx_ok v" "peek_buffer v = peek_buffer u"
    "banks (eps v 2) = (if cs = [] then rest else cs # rest)" by (rule Recv1_next [OF ok c])
  with False bs show ?thesis by (simp add: Serial_read_def pending_def)
qed

interpretation serial_in: byte_source Serial_available Serial_read pending rx_ok
  by unfold_locales (simp_all only: serial_available serial_read simp_thms)

lemma serial_peek:
  assumes ok: "rx_ok u" and p: "pending u = b # bs"
  shows "fst (Serial_peek u) = uint b \<and> pending (snd (Serial_peek u)) = b # bs \<and> rx_ok (snd (Serial_peek u))"
proof (cases "0 \<le> peek_buffer u")
  case True
  then have "uint (word_of_int (peek_buffer u) :: u8) = peek_buffer u"
    using ok by (simp add: rx_ok_def uint_word_of_int_eq take_bit_int_eq_self)
  with True ok p show ?thesis by (auto simp: Serial_peek_def pending_def rx_ok_def)
next
  case False
  then obtain cs rest where c: "banks (eps u 2) = (b # cs) # rest" and bs: "bs = cs @ concat rest"
    using ok p by (cases "banks (eps u 2)"; cases "hd (banks (eps u 2))") (auto simp: pending_def rx_ok_def)
  obtain v where v: "USB_Recv1 CDC_RX u = (uint b, v)" "rx_ok v" "peek_buffer v = peek_buffer u"
    "banks (eps v 2) = (if cs = [] then rest else cs # rest)" by (rule Recv1_next [OF ok c])
  have peek: "Serial_peek u = (uint b, v\<lparr>peek_buffer := uint b\<rparr>)"
    using False by (simp add: Serial_peek_def v(1) Let_def)
  have lim: "0 \<le> uint b" "uint b < 256" using uint_lt2p [of b] by simp_all
  have "- 1 \<le> uint b" by (rule order_trans [OF _ uint_ge_0]) simp
  with v(2) lim(2) have "rx_ok (v\<lparr>peek_buffer := uint b\<rparr>)" unfolding rx_ok_def by simp
  moreover have "pending (v\<lparr>peek_buffer := uint b\<rparr>) = b # bs" using lim(1) by (simp add: pending_def v(4) bs)
  ultimately show ?thesis by (simp only: peek fst_conv snd_conv)
qed

section \<open>Lemmas: what the interrupts leave of the sending endpoint\<close>

text \<open>The bytes given to \<^verbatim>\<open>USB_Send\<close> so far: collected by the host, waiting for it, and in the bank being filled.\<close>

definition stream :: "ucore \<Rightarrow> u8 list" where
  "stream u = concat (in_log u 3) @ concat (txq (eps u 3)) @ fill (eps u 3)"

definition tx_ok :: "ucore \<Rightarrow> bool" where
  "tx_ok u \<longleftrightarrow> UECFG0X (eps u 3) = EP_TYPE_BULK_IN \<and> UECFG1X (eps u 3) = EP_DOUBLE_64 \<and> \<not> STALLRQ (eps u 3) \<and>
     length (fill (eps u 3)) \<le> 63 \<and> length (txq (eps u 3)) \<le> 2 \<and> (length (txq (eps u 3)) = 2 \<longrightarrow> fill (eps u 3) = []) \<and>
     (\<forall>p\<in>set (in_log u 3) \<union> set (txq (eps u 3)). length p \<le> 63)"

definition quiet :: "ucore \<Rightarrow> bool" where
  "quiet u \<longleftrightarrow> setup_pkt (eps u 0) = None \<and> \<not> bit (UDINT u) EORSTI \<and> acts u = []"

fun calm :: "hev \<Rightarrow> bool" where
  "calm Rst = False"
| "calm (Ctl p as) = False"
| "calm e = True"

definition slots :: "uep \<Rightarrow> nat" where
  "slots e = length (txq e) + (if fill e = [] then 0 else 1)"

definition tx_step :: "ucore \<Rightarrow> ucore \<Rightarrow> bool" where
  "tx_step u v \<longleftrightarrow> (tx_ok u \<and> quiet u \<longrightarrow> tx_ok v \<and> quiet v \<and> stream v = stream u \<and>
     length (fill (eps v 3)) \<le> length (fill (eps u 3)) \<and> slots (eps v 3) \<le> slots (eps u 3) \<and>
     waited v = waited u \<and> SREG v = SREG u)"

lemma tx_step_refl [simp]: "tx_step u u"
  by (simp add: tx_step_def)

lemma tx_step_trans [trans]: "tx_step u v \<Longrightarrow> tx_step v w \<Longrightarrow> tx_step u w"
  by (auto simp: tx_step_def)

text \<open>A change that leaves these fields alone.\<close>

definition tx_frame :: "ucore \<Rightarrow> ucore \<Rightarrow> bool" where
  "tx_frame u v \<longleftrightarrow> eps v 3 = eps u 3 \<and> setup_pkt (eps v 0) = setup_pkt (eps u 0) \<and> in_log v 3 = in_log u 3 \<and>
     (bit (UDINT v) EORSTI \<longrightarrow> bit (UDINT u) EORSTI) \<and> acts v = acts u \<and> waited v = waited u \<and> SREG v = SREG u"

lemma tx_frame_step: "tx_frame u v \<Longrightarrow> tx_step u v"
  by (auto simp: tx_frame_def tx_step_def tx_ok_def quiet_def stream_def)

lemma tx_flags:
  assumes "tx_ok u"
  shows "ep_in (eps u 3)" "ep_size (eps u 3) = 64" "ep_banks (eps u 3) = 2"
    "TXINI (eps u 3) \<longleftrightarrow> length (txq (eps u 3)) < 2" "RWAL (eps u 3) \<longleftrightarrow> length (txq (eps u 3)) < 2"
    "UEBCLX (eps u 3) = 0 \<longleftrightarrow> fill (eps u 3) = []" "unat (UEBCLX (eps u 3)) = length (fill (eps u 3))"
proof -
  show e: "ep_in (eps u 3)" "ep_size (eps u 3) = 64" "ep_banks (eps u 3) = 2"
    using assms ep_size_bits by (simp_all add: tx_ok_def ep_in_def ep_size_def ep_banks_def)
  then show t: "TXINI (eps u 3) \<longleftrightarrow> length (txq (eps u 3)) < 2" by (simp add: TXINI_def)
  show "RWAL (eps u 3) \<longleftrightarrow> length (txq (eps u 3)) < 2" using assms e t by (auto simp: RWAL_def tx_ok_def)
  show n: "unat (UEBCLX (eps u 3)) = length (fill (eps u 3))"
    using assms e u8_count(1) [of "length (fill (eps u 3))"] by (simp add: UEBCLX_def tx_ok_def)
  show "UEBCLX (eps u 3) = 0 \<longleftrightarrow> fill (eps u 3) = []" unfolding word_unat_eq_iff n by simp
qed

text \<open>What the start of a frame does to the endpoint: the bank being filled is handed over.\<close>

lemma Flush_tx:
  assumes "tx_ok u"
  shows "eps (USB_Flush CDC_TX u) = (eps u)(3 := if fill (eps u 3) = [] then eps u 3
      else (eps u 3)\<lparr>txq := txq (eps u 3) @ [fill (eps u 3)], fill := []\<rparr>)"
proof -
  have "fill (eps u 3) \<noteq> [] \<Longrightarrow> length (txq (eps u 3)) < 2" using assms by (auto simp: tx_ok_def)
  then show ?thesis using tx_flags [OF assms]
    by (auto simp: USB_Flush_def Let_def SetEP_def CDC_TX_def FifoByteCount_def ReleaseTX_def ep_defs ep_handover_def)
qed

lemma Flush_tx_step:
  assumes "eps v = eps (USB_Flush CDC_TX u)" "in_log v = in_log u" "waited v = waited u" "SREG v = SREG u" "acts v = acts u"
    "bit (UDINT v) EORSTI \<longrightarrow> bit (UDINT u) EORSTI"
  shows "tx_step u v"
  unfolding tx_step_def
proof (intro impI)
  assume a: "tx_ok u \<and> quiet u"
  have e: "fill (eps u 3) \<noteq> [] \<Longrightarrow> length (txq (eps u 3)) < 2" using a by (auto simp: tx_ok_def)
  have "tx_ok v" using a e by (auto simp: tx_ok_def assms Flush_tx)
  moreover have "stream v = stream u" using a by (simp add: stream_def assms Flush_tx)
  moreover have "quiet v" using a assms by (simp add: quiet_def Flush_tx)
  moreover have "length (fill (eps v 3)) \<le> length (fill (eps u 3))" "slots (eps v 3) \<le> slots (eps u 3)"
    using a by (simp_all add: assms Flush_tx slots_def)
  ultimately show "tx_ok v \<and> quiet v \<and> stream v = stream u \<and> length (fill (eps v 3)) \<le> length (fill (eps u 3)) \<and>
      slots (eps v 3) \<le> slots (eps u 3) \<and> waited v = waited u \<and> SREG v = SREG u"
    using assms by simp
qed

lemma Flush_frame [simp]:
  "in_log (USB_Flush ep u) = in_log u" "waited (USB_Flush ep u) = waited u" "SREG (USB_Flush ep u) = SREG u"
  "acts (USB_Flush ep u) = acts u" "UDINT (USB_Flush ep u) = UDINT u"
  by (simp_all add: USB_Flush_def Let_def SetEP_def ReleaseTX_def ep_defs)

lemma start_of_frame_frame:
  "eps (start_of_frame u) = eps (USB_Flush CDC_TX u)" "in_log (start_of_frame u) = in_log u"
  "waited (start_of_frame u) = waited u" "SREG (start_of_frame u) = SREG u" "acts (start_of_frame u) = acts u"
  by (simp_all add: start_of_frame_def Let_def led_defs)

lemma GEN_step: "\<not> bit (UDINT u) EORSTI \<Longrightarrow> tx_step u (USB_GEN_vect u)"
proof -
  assume a: "\<not> bit (UDINT u) EORSTI"
  let ?v = "u\<lparr>UDINT := cbi (cbi (UDINT u) EORSTI) SOFI\<rparr>"
  let ?w = "if bit (UDINT u) SOFI then start_of_frame ?v else ?v"
  have "tx_step u ?v" by (rule tx_frame_step) (simp add: tx_frame_def bit_cbi)
  also have "tx_step ?v ?w"
    by (cases "bit (UDINT u) SOFI") (simp_all add: Flush_tx_step start_of_frame_frame)
  also have "tx_step ?w (wake_or_suspend (UDINT u) ?w)"
    by (rule tx_frame_step) (simp add: tx_frame_def wake_or_suspend_def Let_def bit_cbi)
  also have "wake_or_suspend (UDINT u) ?w = USB_GEN_vect u" using a by (simp add: USB_GEN_vect_def Let_def)
  finally show ?thesis .
qed

lemma take_in_step: "tx_step u (take_in n u)"
proof (cases "n = 3")
  case False
  then show ?thesis
    by (intro tx_frame_step) (simp add: take_in_def tx_frame_def ep_defs split: list.split)
next
  case True
  show ?thesis unfolding True
    by (cases "txq (eps u 3)") (auto simp: take_in_def tx_step_def tx_ok_def quiet_def stream_def slots_def ep_defs)
qed

lemma give_out_step: "tx_step u (give_out n p u)"
proof (cases "n = 3")
  case False
  then show ?thesis
    by (intro tx_frame_step) (simp add: give_out_def tx_frame_def ep_defs Let_def)
next
  case True
  show ?thesis using tx_flags(1) [of u] unfolding True tx_step_def by (auto simp: give_out_def Let_def)
qed

lemma hw_event_step: "calm e \<Longrightarrow> tx_step u (hw_event e u)"
  by (cases e) (auto simp: take_in_step give_out_step tx_frame_def bit_sbi EORSTI_def SOFI_def SUSPI_def WAKEUPI_def
      intro!: tx_frame_step)

lemma serve_gen_step: "\<not> bit (UDINT u) EORSTI \<Longrightarrow> tx_step u (serve_gen u)"
  using GEN_step [of u] GEN_step [of "USB_GEN_vect u"] GEN_regs(2) [of u EORSTI]
  by (auto simp: serve_gen_def Let_def intro: tx_step_trans)

lemma interrupts_step:
  assumes "tx_ok u" "quiet u"
  obtains v where "interrupts P u = Some v" "tx_step u v"
proof (cases "bit (SREG u) 7")
  case True
  let ?v = "serve_gen u"
  have s: "tx_step u ?v" using assms(2) by (intro serve_gen_step) (simp add: quiet_def)
  then have "quiet ?v" using assms by (simp add: tx_step_def)
  then have "interrupts P u = Some ?v" using True by (simp add: interrupts_def RXSTPI_def quiet_def)
  with s that show ?thesis by blast
next
  case False
  then show ?thesis using that [of u] by (simp add: interrupts_def)
qed

lemma happen_step:
  assumes "tx_ok u" "quiet u" "\<forall>e\<in>set es. calm e"
  shows "\<exists>v. happen P es u = Some v \<and> tx_step u v"
  using assms
proof (induction es arbitrary: u)
  case (Cons e es)
  have h: "tx_step u (hw_event e u)" using Cons.prems(3) by (intro hw_event_step) simp
  then have "tx_ok (hw_event e u)" "quiet (hw_event e u)" using Cons.prems by (simp_all add: tx_step_def)
  then obtain w where w: "interrupts P (hw_event e u) = Some w" "tx_step (hw_event e u) w"
    by (rule interrupts_step)
  from h w(2) have uw: "tx_step u w" by (rule tx_step_trans)
  then have "tx_ok w" "quiet w" using Cons.prems by (simp_all add: tx_step_def)
  with Cons.IH Cons.prems(3) obtain v where "happen P es w = Some v" "tx_step w v" by fastforce
  with w(1) uw show ?case by (auto intro: tx_step_trans)
qed simp

lemma window_step:
  assumes "tx_ok u" "quiet u" "\<forall>es\<in>set ahead. \<forall>e\<in>set es. calm e"
  obtains v where "window P ahead u = Some v" "tx_step u v"
  using happen_step [OF assms(1,2), of "case ahead of [] \<Rightarrow> [] | es # _ \<Rightarrow> es" P] assms(3)
  by (cases ahead) (auto simp: window_def)

section \<open>Lemmas: sending\<close>

lemma SendSpace_tx:
  assumes "tx_ok u"
  shows "unat (fst (USB_SendSpace CDC_TX u)) = (if length (txq (eps u 3)) < 2 then 63 - length (fill (eps u 3)) else 0)"
    "snd (USB_SendSpace CDC_TX u) = u\<lparr>UENUM := 3\<rparr>"
proof -
  have n: "length (fill (eps u 3)) \<le> 63" using assms by (simp add: tx_ok_def)
  have c: "UEBCLX (eps u 3) = of_nat (length (fill (eps u 3)))" using tx_flags(1) [OF assms] by (simp add: UEBCLX_def)
  have "unat ((63 :: u8) - of_nat (length (fill (eps u 3)))) = 63 - length (fill (eps u 3))"
    using n by (subst unat_diff_of_nat) simp_all
  then show "unat (fst (USB_SendSpace CDC_TX u)) = (if length (txq (eps u 3)) < 2 then 63 - length (fill (eps u 3)) else 0)"
    using tx_flags(5) [OF assms]
    by (simp add: USB_SendSpace_def LockEP_def SetEP_def Let_def ReadWriteAllowed_def FifoByteCount_def ep_defs USB_EP_SIZE_def c)
  show "snd (USB_SendSpace CDC_TX u) = u\<lparr>UENUM := 3\<rparr>"
    by (simp add: USB_SendSpace_def LockEP_def SetEP_def Let_def UnlockEP_def)
qed

lemma Send8_loop_tx:
  assumes "UENUM u = 3" "TXINI (eps u 3)" "ep_size (eps u 3) = 64" "length (fill (eps u 3)) + length bs \<le> 64"
  shows "Send8_loop bs u = u\<lparr>eps := (eps u)(3 := (eps u 3)\<lparr>fill := fill (eps u 3) @ bs\<rparr>)\<rparr>"
  using assms
proof (induction bs arbitrary: u)
  case (Cons b bs)
  let ?v = "u\<lparr>eps := (eps u)(3 := (eps u 3)\<lparr>fill := fill (eps u 3) @ [b]\<rparr>)\<rparr>"
  have "Send8 b u = ?v" using Cons.prems by (simp add: Send8_def ep_push_def ep_defs)
  moreover have "TXINI (eps ?v 3)" "ep_size (eps ?v 3) = 64"
    using Cons.prems by (simp_all add: TXINI_def ep_size_def ep_in_def ep_control_def ep_banks_def)
  ultimately show ?case using Cons.IH [of ?v] Cons.prems by (simp cong: if_cong)
qed simp

lemma send_block_tx:
  assumes ok: "tx_ok u" and n: "n \<le> length data" "length (fill (eps u 3)) + n \<le> 63"
  shows "send_block CDC_TX n data u =
    (if length (txq (eps u 3)) < 2
     then (True, u\<lparr>UENUM := 3, eps := (eps u)(3 := (eps u 3)\<lparr>fill := fill (eps u 3) @ take n data\<rparr>)\<rparr>)
     else (False, u\<lparr>UENUM := 3\<rparr>))"
proof -
  let ?l = "u\<lparr>SREG := cbi (SREG u) 7, UENUM := 3\<rparr>"
  have l: "LockEP CDC_TX u = (SREG u, ?l)" by (simp add: LockEP_def SetEP_def)
  have b: "\<not> bit CDC_TX 5" "\<not> bit CDC_TX 6" unfolding CDC_TX_def by code_simp+
  have r: "ReadWriteAllowed ?l \<longleftrightarrow> length (txq (eps u 3)) < 2"
    using tx_flags(5) [OF ok] by (simp add: ReadWriteAllowed_def ep_defs)
  show ?thesis
  proof (cases "length (txq (eps u 3)) < 2")
    case True
    let ?w = "?l\<lparr>eps := (eps u)(3 := (eps u 3)\<lparr>fill := fill (eps u 3) @ take n data\<rparr>)\<rparr>"
    have w: "Send8_loop (take n data) ?l = ?w"
      using Send8_loop_tx [of ?l "take n data"] tx_flags [OF ok] True n by simp
    have "ReadWriteAllowed ?w"
      using tx_flags [OF ok] True n ok
      by (simp add: ReadWriteAllowed_def ep_defs RWAL_def TXINI_def ep_in_def ep_size_def ep_control_def ep_banks_def tx_ok_def)
    with True r w b show ?thesis by (simp add: send_block_def l Let_def UnlockEP_def)
  next
    case False
    with r show ?thesis by (simp add: send_block_def l Let_def UnlockEP_def)
  qed
qed

definition sent_to :: "u8 list \<Rightarrow> nat \<Rightarrow> ucore \<Rightarrow> (bool \<times> hev list list \<times> ucore) option \<Rightarrow> bool" where
  "sent_to data ms u r \<longleftrightarrow> (\<exists>ok ahead v k. r = Some (ok, ahead, v) \<and> tx_ok v \<and> quiet v \<and> k \<le> length data \<and>
     (ok \<longleftrightarrow> k = length data) \<and> stream v = stream u @ take k data \<and> waited v \<le> waited u + ms)"

lemma sent_to_wait:
  "stream u = stream u' \<Longrightarrow> waited u = waited u' + k \<Longrightarrow> ms + k \<le> ms' \<Longrightarrow> sent_to data ms u r \<Longrightarrow> sent_to data ms' u' r"
  unfolding sent_to_def by fastforce

lemma sent_to_block:
  assumes "stream u = stream u' @ take n data" "n \<le> length data" "waited u = waited u'" "sent_to (drop n data) ms u r"
  shows "sent_to data ms u' r"
proof -
  from assms(4) obtain ok ahead v k where v: "r = Some (ok, ahead, v)" "tx_ok v" "quiet v" "k \<le> length (drop n data)"
    "ok \<longleftrightarrow> k = length (drop n data)" "stream v = stream u @ take k (drop n data)" "waited v \<le> waited u + ms"
    unfolding sent_to_def by blast
  have "stream v = stream u' @ take (n + k) data" using v(6) assms(1) by (simp add: take_add)
  with v assms(2,3) show ?thesis unfolding sent_to_def
    by (intro exI [of _ ok] exI [of _ ahead] exI [of _ v] exI [of _ "n + k"]) auto
qed

lemma tx_frame_sel: "tx_frame u (u\<lparr>UENUM := n\<rparr>)" "tx_frame u (u\<lparr>UDCON := c\<rparr>)"
  by (simp_all add: tx_frame_def)

text \<open>No control request and no bus reset is ahead.\<close>

definition calm_ahead :: "hev list list \<Rightarrow> bool" where
  "calm_ahead ahead \<longleftrightarrow> (\<forall>es\<in>set ahead. \<forall>e\<in>set es. calm e)"

lemma calm_tl: "calm_ahead ahead \<Longrightarrow> calm_ahead (tl ahead)"
  by (cases ahead) (auto simp: calm_ahead_def)

text \<open>One round of the loop: the endpoint has no room and the code waits or gives up; or it sends a block,
  which is empty if the room has been taken away in between.\<close>

lemma send_round:
  assumes ok: "tx_ok u" "quiet u" "calm_ahead ahead" and ne: "data \<noteq> []"
  obtains (give_up) w where "timeout - 1 = 0" "USB_Send_loop P CDC_TX data timeout ahead u = Some (False, tl ahead, w)"
      "tx_ok w" "quiet w" "stream w = stream u" "waited w = waited u"
  | (wait) w where "timeout - 1 \<noteq> 0"
      "USB_Send_loop P CDC_TX data timeout ahead u = USB_Send_loop P CDC_TX data (timeout - 1) (tl ahead) w"
      "tx_ok w" "quiet w" "stream w = stream u" "waited w = waited u + 1"
  | (block) w n where "n \<le> length data" "n = 0 \<longrightarrow> ahead \<noteq> []"
      "USB_Send_loop P CDC_TX data timeout ahead u = USB_Send_loop P CDC_TX (drop n data) timeout (tl (tl ahead)) w"
      "tx_ok w" "quiet w" "stream w = stream u @ take n data" "waited w = waited u"
proof -
  obtain v where v: "window P ahead u = Some v" "tx_step u v"
    by (rule window_step [OF ok(1,2)]) (use ok(3) in \<open>simp_all add: calm_ahead_def\<close>)
  have vok: "tx_ok v" "quiet v" "stream v = stream u" "waited v = waited u" using v(2) ok by (simp_all add: tx_step_def)
  note sp = SendSpace_tx [OF vok(1)]
  let ?w = "v\<lparr>UENUM := 3\<rparr>" and ?s = "fst (USB_SendSpace CDC_TX v)"
  have wok: "tx_ok ?w" "quiet ?w" "stream ?w = stream u" "waited ?w = waited u"
    using vok by (simp_all add: tx_ok_def quiet_def stream_def)
  show ?thesis
  proof (cases "?s = 0")
    case True
    let ?x = "?w\<lparr>waited := waited ?w + 1\<rparr>"
    have "tx_ok ?x" "quiet ?x" "stream ?x = stream u" "waited ?x = waited u + 1"
      using wok by (simp_all add: tx_ok_def quiet_def stream_def)
    then show ?thesis using give_up [of ?w] wait [of ?x] wok True ne v(1) sp(2)
      by (cases "timeout - 1 = 0") (simp_all add: USB_Send_loop.simps [of P CDC_TX data timeout] Let_def)
  next
    case False
    obtain x where x: "window P (tl ahead) ?w = Some x" "tx_step ?w x"
      by (rule window_step [OF wok(1,2)]) (use calm_tl [OF ok(3)] in \<open>simp_all add: calm_ahead_def\<close>)
    have xok: "tx_ok x" "quiet x" "stream x = stream u" "waited x = waited u" "length (fill (eps x 3)) \<le> length (fill (eps v 3))"
      using x(2) wok by (simp_all add: tx_step_def)
    define n where "n = min (unat ?s) (length data)"
    let ?r = "send_block CDC_TX n data x"
    have nl: "n \<le> length data" by (simp add: n_def)
    have n: "length (fill (eps x 3)) + n \<le> 63"
      using sp(1) False xok(5) vok(1) by (auto simp: n_def tx_ok_def unat_eq_zero split: if_splits)
    note sb = send_block_tx [OF xok(1) nl n]
    have unf: "USB_Send_loop P CDC_TX data timeout ahead u =
        (if fst ?r then USB_Send_loop P CDC_TX (drop n data) timeout (tl (tl ahead)) (snd ?r)
         else USB_Send_loop P CDC_TX data timeout (tl (tl ahead)) (snd ?r))"
      using ne v(1) sp(2) False x(1) by (subst USB_Send_loop.simps) (simp add: Let_def n_def)
    show ?thesis
    proof (cases "length (txq (eps x 3)) < 2")
      case True
      let ?y = "x\<lparr>UENUM := 3, eps := (eps x)(3 := (eps x 3)\<lparr>fill := fill (eps x 3) @ take n data\<rparr>)\<rparr>"
      have y: "tx_ok ?y" "quiet ?y" "stream ?y = stream u @ take n data" "waited ?y = waited u"
        using xok n True by (auto simp: tx_ok_def quiet_def stream_def)
      have "n \<noteq> 0" using False ne by (simp add: n_def unat_gt_0)
      then show ?thesis using block [of n ?y] unf sb True y nl by simp
    next
      case full: False
      let ?y = "x\<lparr>UENUM := 3\<rparr>"
      have "ahead \<noteq> []" using full False v(1) x(1) SendSpace_RWAL [of CDC_TX v n data] sp(2) sb
        by (auto simp: window_def)
      moreover have "tx_ok ?y" "quiet ?y" "stream ?y = stream u" "waited ?y = waited u"
        using xok by (simp_all add: tx_ok_def quiet_def stream_def)
      ultimately show ?thesis using block [of 0 ?y] unf sb full by simp
    qed
  qed
qed

lemma send_loop_tx:
  assumes "tx_ok u" "quiet u" "calm_ahead ahead"
  shows "sent_to data (unat (timeout - 1)) u (USB_Send_loop P CDC_TX data timeout ahead u)"
  using assms
proof (induction "(length data, unat (timeout - 1), length ahead)" arbitrary: data timeout ahead u
    rule: wf_induct_rule [OF wf_lex_prod [OF wf_less wf_lex_prod [OF wf_less wf_less]]])
  case 1
  show ?case
  proof (cases "data = []")
    case True
    then show ?thesis using 1(2,3) by (auto simp: USB_Send_loop.simps [of P CDC_TX "[]"] sent_to_def)
  next
    case False
    show ?thesis
    proof (cases rule: send_round [OF 1(2-4) False, where P = P and timeout = timeout, case_names give_up wait block])
      case (give_up w)
      then show ?thesis using False by (auto simp: sent_to_def)
    next
      case (wait w)
      have t: "unat (timeout - 1 - 1) + 1 \<le> unat (timeout - 1)"
        using wait(1) unat_minus_one [OF wait(1)] by (simp add: unat_gt_0)
      then have "sent_to data (unat (timeout - 1 - 1)) w (USB_Send_loop P CDC_TX data (timeout - 1) (tl ahead) w)"
        using 1(1) [of data "timeout - 1" "tl ahead" w] wait calm_tl [OF 1(4)] by simp
      with t wait(5,6) show ?thesis unfolding wait(2) by (auto intro: sent_to_wait [where k = 1])
    next
      case (block w n)
      have "length (drop n data) < length data \<or> n = 0 \<and> length (tl (tl ahead)) < length ahead"
        using block(1,2) False by (cases "n = 0"; cases ahead) (auto simp: less_Suc_eq_le)
      then have "sent_to (drop n data) (unat (timeout - 1)) w (USB_Send_loop P CDC_TX (drop n data) timeout (tl (tl ahead)) w)"
        using 1(1) [of "drop n data" timeout "tl (tl ahead)" w] block(4,5) calm_tl [OF calm_tl [OF 1(4)]] by auto
      with block show ?thesis unfolding block(3) by (auto intro: sent_to_block)
    qed
  qed
qed

section \<open>Lemmas: a host that collects\<close>

text \<open>The interrupt at the start of a frame is enabled.\<close>

definition live :: "ucore \<Rightarrow> bool" where
  "live u \<longleftrightarrow> bit (SREG u) 7 \<and> bit (UDIEN u) SOFI"

lemma UDIEN_serve [simp]: "bit (UDIEN (serve_gen u)) SOFI \<longleftrightarrow> bit (UDIEN u) SOFI"
  by (simp add: serve_gen_def Let_def GEN_regs bit_sbi bit_cbi SOFI_def SUSPI_def WAKEUPI_def)

lemma interrupts_quiet:
  assumes "quiet u" "tx_ok u" "live u"
  shows "interrupts P u = Some (serve_gen u)" "live (serve_gen u)"
proof -
  have s: "tx_step u (serve_gen u)" using assms(1) by (intro serve_gen_step) (simp add: quiet_def)
  then have "quiet (serve_gen u)" "SREG (serve_gen u) = SREG u" using assms by (simp_all add: tx_step_def)
  then show "interrupts P u = Some (serve_gen u)" "live (serve_gen u)"
    using assms(3) by (simp_all add: interrupts_def RXSTPI_def quiet_def live_def)
qed

lemma GEN_flushes:
  assumes "tx_ok u" "bit (UDINT u) SOFI" "\<not> bit (UDINT u) EORSTI"
  shows "fill (eps (USB_GEN_vect u) 3) = []"
proof -
  let ?v = "u\<lparr>UDINT := cbi (cbi (UDINT u) EORSTI) SOFI\<rparr>"
  have "tx_ok ?v" using assms(1) by (simp add: tx_ok_def)
  from Flush_tx [OF this] have "fill (eps (start_of_frame ?v) 3) = []" by (simp add: start_of_frame_frame)
  moreover have "USB_GEN_vect u = wake_or_suspend (UDINT u) (start_of_frame ?v)"
    using assms by (simp add: USB_GEN_vect_def Let_def)
  ultimately show ?thesis by (simp add: wake_or_suspend_def Let_def)
qed

lemma Sof_flushes:
  assumes ok: "tx_ok u" "quiet u" "live u"
  shows "\<exists>v. interrupts P (hw_event Sof u) = Some v \<and> tx_step u v \<and> live v \<and> fill (eps v 3) = []"
proof -
  let ?s = "hw_event Sof u"
  have us: "tx_step u ?s" by (rule hw_event_step) simp
  have s: "tx_ok ?s" "quiet ?s" "live ?s" using ok by (simp_all add: tx_ok_def quiet_def live_def bit_sbi SOFI_def EORSTI_def)
  have e: "\<not> bit (UDINT ?s) EORSTI" "bit (UDINT ?s) SOFI" using s(2) by (simp_all add: quiet_def bit_sbi SOFI_def)
  have "gen_pending ?s" using e(2) s(3) by (auto simp: gen_pending_bit live_def)
  then have g: "serve_gen ?s = USB_GEN_vect ?s \<or> serve_gen ?s = USB_GEN_vect (USB_GEN_vect ?s)"
    by (simp add: serve_gen_def Let_def)
  have f: "fill (eps (USB_GEN_vect ?s) 3) = []" by (rule GEN_flushes [OF s(1) e(2,1)])
  have "tx_ok (USB_GEN_vect ?s)" "quiet (USB_GEN_vect ?s)" using GEN_step [OF e(1)] s by (simp_all add: tx_step_def)
  then have "fill (eps (USB_GEN_vect (USB_GEN_vect ?s)) 3) = []"
    using GEN_step [of "USB_GEN_vect ?s"] f by (simp add: tx_step_def quiet_def)
  with g f have "fill (eps (serve_gen ?s) 3) = []" by auto
  moreover have "tx_step u (serve_gen ?s)" using us serve_gen_step [OF e(1)] by (rule tx_step_trans)
  ultimately show ?thesis using interrupts_quiet(1) [OF s(2,1,3), of P] interrupts_quiet(2) [OF s(2,1,3)] by blast
qed

lemma collecting_window:
  assumes ok: "tx_ok u" "quiet u" "live u"
  obtains v where "happen P [InTok 3, Sof] u = Some v" "tx_step u v" "live v" "fill (eps v 3) = []" "length (txq (eps v 3)) \<le> 1"
proof -
  let ?t = "take_in 3 u"
  have ut: "tx_step u ?t" by (rule take_in_step)
  have t: "tx_ok ?t" "quiet ?t" using ut ok by (simp_all add: tx_step_def)
  have l: "live ?t" using ok(3) by (simp add: live_def take_in_def ep_defs split: list.split)
  have "slots (eps ?t 3) \<le> 1"
    using ok(1) by (cases "txq (eps u 3)"; cases "tl (txq (eps u 3))") (auto simp: take_in_def ep_defs slots_def tx_ok_def)
  note i = interrupts_quiet(1) [OF t(2,1) l, of P] interrupts_quiet(2) [OF t(2,1) l]
  have tw: "tx_step ?t (serve_gen ?t)" using t(2) by (intro serve_gen_step) (simp add: quiet_def)
  have w: "tx_ok (serve_gen ?t)" "quiet (serve_gen ?t)" "slots (eps (serve_gen ?t) 3) \<le> 1"
    using tw t \<open>slots (eps ?t 3) \<le> 1\<close> by (auto simp: tx_step_def)
  obtain v where v: "interrupts P (hw_event Sof (serve_gen ?t)) = Some v" "tx_step (serve_gen ?t) v" "live v" "fill (eps v 3) = []"
    using Sof_flushes [OF w(1,2) i(2)] by blast
  have "slots (eps v 3) \<le> 1" using v(2) w by (auto simp: tx_step_def)
  then have "length (txq (eps v 3)) \<le> 1" by (simp add: slots_def v(4))
  moreover have "tx_step u v" using ut tw v(2) by (blast intro: tx_step_trans)
  moreover have "happen P [InTok 3, Sof] u = Some v" using i(1) v(1) by simp
  ultimately show ?thesis using that v by blast
qed

lemma collecting_loop:
  assumes "tx_ok u" "quiet u" "live u" "2 * ((length data + 62) div 63) \<le> m"
  shows "\<exists>ahead v. USB_Send_loop P CDC_TX data timeout (replicate m [InTok 3, Sof]) u = Some (True, ahead, v)"
  using assms
proof (induction data arbitrary: u m rule: length_induct)
  case (1 data)
  show ?case
  proof (cases "data = []")
    case True
    then show ?thesis by (simp add: USB_Send_loop.simps [of P CDC_TX "[]"])
  next
    case False
    then have d: "(length data + 62) div 63 = Suc ((length data - 1) div 63)"
      by (subst le_div_geq) (auto simp: Suc_le_eq)
    have "(length (drop 63 data) + 62) div 63 \<le> (length data - 1) div 63"
      by (cases "63 \<le> length data") simp_all
    with 1(5) d have "2 \<le> m" and m2: "2 * ((length (drop 63 data) + 62) div 63) \<le> m - 2" by linarith+
    then obtain k where k: "m = Suc (Suc k)" by (metis add_2_eq_Suc le_Suc_ex)
    let ?c = "[InTok 3, Sof]"
    obtain v where v: "happen P ?c u = Some v" "tx_step u v" "live v" "fill (eps v 3) = []" "length (txq (eps v 3)) \<le> 1"
      by (rule collecting_window [OF 1(2-4)])
    have vok: "tx_ok v" "quiet v" using v(2) 1(2,3) by (simp_all add: tx_step_def)
    note sp = SendSpace_tx [OF vok(1)]
    let ?w = "v\<lparr>UENUM := 3\<rparr>"
    have s63: "unat (fst (USB_SendSpace CDC_TX v)) = 63" using sp(1) v(4,5) by simp
    have wok: "tx_ok ?w" "quiet ?w" "live ?w" using vok v(3) by (simp_all add: tx_ok_def quiet_def live_def)
    obtain x where x: "happen P ?c ?w = Some x" "tx_step ?w x" "live x" "fill (eps x 3) = []" "length (txq (eps x 3)) \<le> 1"
      by (rule collecting_window [OF wok])
    have xok: "tx_ok x" "quiet x" using x(2) wok by (simp_all add: tx_step_def)
    define n where "n = min 63 (length data)"
    let ?y = "x\<lparr>UENUM := 3, eps := (eps x)(3 := (eps x 3)\<lparr>fill := take n data\<rparr>)\<rparr>"
    have sb: "send_block CDC_TX n data x = (True, ?y)"
      using send_block_tx [OF xok(1), of n data] x(4,5) by (simp add: n_def)
    have y: "tx_ok ?y" "quiet ?y" "live ?y" using xok x(3,5) by (auto simp: tx_ok_def quiet_def live_def n_def)
    have ne0: "fst (USB_SendSpace CDC_TX v) \<noteq> 0" using s63 by auto
    have dn: "drop n data = drop 63 data" by (simp add: n_def min_def)
    have unf: "USB_Send_loop P CDC_TX data timeout (replicate m ?c) u =
        USB_Send_loop P CDC_TX (drop 63 data) timeout (replicate k ?c) ?y"
      using False v(1) sp(2) ne0 x(1) s63 sb dn
      by (subst USB_Send_loop.simps) (simp add: Let_def k window_def n_def)
    show ?thesis unfolding unf using 1(1) [rule_format, of "drop 63 data" ?y k] y m2 False by (simp add: k)
  qed
qed

section \<open>Properties\<close>

text \<open>A configured device with the port open.\<close>

definition port_0 :: ucore where
  "port_0 = (InitEndpoints ucore_0)\<lparr>usbConfiguration := 1, UDIEN := BV SOFI,
     usbLineInfo := (usbLineInfo ucore_0)\<lparr>lineState := 3\<rparr>\<rparr>"

lemma ep_types_nonzero: "EP_TYPE_INTERRUPT_IN \<noteq> 0" "EP_TYPE_BULK_OUT \<noteq> 0" "EP_TYPE_BULK_IN \<noteq> 0"
  unfolding EP_TYPE_INTERRUPT_IN_def EP_TYPE_BULK_OUT_def EP_TYPE_BULK_IN_def BV_def by code_simp+

lemma port_0_eps:
  "eps port_0 2 = ep_empty (ep_blank\<lparr>EPEN := True, UECFG0X := EP_TYPE_BULK_OUT, UECFG1X := EP_DOUBLE_64\<rparr>)"
  "eps port_0 3 = ep_empty (ep_blank\<lparr>EPEN := True, UECFG0X := EP_TYPE_BULK_IN, UECFG1X := EP_DOUBLE_64\<rparr>)"
  "eps port_0 0 = ep_blank"
  by (simp_all add: port_0_def InitEndpoints_def Let_def ucore_0_def initEndpoints_0_def InitEP_def SetEP_def ep_defs
      ep_types_nonzero ep_empty_def ep_blank_def)

lemma port_0_rest:
  "usbConfiguration port_0 = 1" "in_log port_0 = (\<lambda>_. [])" "acts port_0 = []" "UDINT port_0 = 0" "SREG port_0 = 0x80"
  "lineState (usbLineInfo port_0) = 3" "UDIEN port_0 = BV SOFI" "peek_buffer port_0 = -1" "waited port_0 = 0"
  by (simp_all add: port_0_def InitEndpoints_def Let_def ucore_0_def initEndpoints_0_def InitEP_def SetEP_def ep_defs
      ep_types_nonzero)

lemma port_0_ok: "tx_ok port_0" "quiet port_0" "live port_0" "rx_ok port_0" "stream port_0 = []"
proof -
  have "bit (0x80 :: u8) 7" by code_simp
  then show "live port_0" by (simp add: live_def port_0_rest SOFI_def)
qed (simp_all add: tx_ok_def quiet_def rx_ok_def stream_def port_0_eps port_0_rest ep_empty_def ep_blank_def)

text \<open>
  C9. Sending ends and keeps the order. As long as the host neither sends a control request nor resets the bus,
  and whatever else happens on the bus in the places where interrupts are taken (packets collected or not, data
  sent to the device, starts of frames, suspending and waking up), \<^verbatim>\<open>USB_Send\<close> returns after at most 249
  waits of a millisecond. Either it reports the whole length and all bytes have been added to the stream to the
  host, or it reports -1 and a proper prefix of them has; no packet is a full one of 64 bytes.
\<close>

theorem usb_send_outcome:
  assumes "usbConfiguration u \<noteq> 0" "tx_ok u" "quiet u" "calm_ahead ahead"
  shows "\<exists>r rest v. USB_Send P CDC_TX d ahead u = Some (r, rest, v) \<and> waited v \<le> waited u + 249 \<and>
    (r = int (length d) \<and> stream v = stream u @ d \<or>
     r = -1 \<and> (\<exists>k<length d. stream v = stream u @ take k d)) \<and>
    (\<forall>p\<in>set (in_log v 3). length p < 64)"
proof -
  define w where "w = (if bit (usbSuspendState u) SUSPI then u\<lparr>UDCON := sbi (UDCON u) 1\<rparr> else u)"
  have w: "tx_ok w" "quiet w" "stream w = stream u" "waited w = waited u"
    using assms(2,3) by (simp_all add: w_def tx_ok_def quiet_def stream_def)
  have "unat ((250 :: u8) - 1) = 249" by simp
  with send_loop_tx [OF w(1,2) assms(4), of d 250 P] obtain ok rest v k where
    v: "USB_Send_loop P CDC_TX d 250 ahead w = Some (ok, rest, v)" "tx_ok v" "k \<le> length d" "ok \<longleftrightarrow> k = length d"
      "stream v = stream u @ take k d" "waited v \<le> waited u + 249"
    unfolding sent_to_def w(3,4) by auto
  have "\<forall>p\<in>set (in_log v 3). length p \<le> 63" using v(2) by (simp add: tx_ok_def)
  then have p: "\<forall>p\<in>set (in_log v 3). length p < 64" by fastforce
  have s: "USB_Send P CDC_TX d ahead u = Some (if ok then (int (length d), rest, (TXLED1 v)\<lparr>TxLEDPulse := TX_RX_LED_PULSE_MS\<rparr>)
      else (-1, rest, v))"
    using assms(1) v(1) by (simp add: USB_Send_def Let_def w_def)
  show ?thesis
  proof (cases ok)
    case True
    with s v p show ?thesis by (simp add: led_defs stream_def)
  next
    case False
    with s v p show ?thesis by (auto intro!: exI [of _ k])
  qed
qed

theorem usb_send_outcome_witness:
  "\<exists>r rest v. USB_Send PluggableUSB_0 CDC_TX (replicate 200 65) [[Sof], [InTok 3, Susp]] port_0 = Some (r, rest, v) \<and>
     waited v \<le> 249"
  using usb_send_outcome [of port_0 "[[Sof], [InTok 3, Susp]]" PluggableUSB_0 "replicate 200 65"] port_0_ok
  by (auto simp: port_0_rest calm_ahead_def)

text \<open>
  C10. Writing succeeds while the host collects. If the port is open and the host takes a packet and starts a
  frame at every opportunity, two for each 63 bytes at least, \<^verbatim>\<open>Serial.write\<close> returns the number of bytes and
  all of them are in the stream to the host, in order.
\<close>

theorem serial_write_delivers:
  assumes "usbConfiguration u \<noteq> 0" "lineState (usbLineInfo u) \<noteq> 0" "tx_ok u" "quiet u" "live u" "d \<noteq> []"
    "2 * ((length d + 62) div 63) \<le> m"
  shows "\<exists>rest v. Serial_write P d (replicate m [InTok 3, Sof]) u = Some (int (length d), rest, v) \<and> stream v = stream u @ d"
proof -
  let ?a = "replicate m [InTok 3, Sof]"
  define w where "w = (if bit (usbSuspendState u) SUSPI then u\<lparr>UDCON := sbi (UDCON u) 1\<rparr> else u)"
  have w: "tx_ok w" "quiet w" "live w" "stream w = stream u"
    using assms(3-5) by (simp_all add: w_def tx_ok_def quiet_def stream_def live_def)
  obtain rest v where l: "USB_Send_loop P CDC_TX d 250 ?a w = Some (True, rest, v)"
    using collecting_loop [OF w(1-3) assms(7)] by blast
  have "calm_ahead ?a" by (simp add: calm_ahead_def)
  from send_loop_tx [OF w(1,2) this, of d 250 P] have "stream v = stream u @ d"
    by (auto simp: sent_to_def l w(4))
  then show ?thesis using assms(1,2,6) l by (simp add: Serial_write_def USB_Send_def Let_def w_def [symmetric] word_gt_0 led_defs stream_def)
qed

theorem serial_write_delivers_witness:
  "\<exists>rest v. Serial_write PluggableUSB_0 (ascii ''<<<- sid'') (replicate 2 [InTok 3, Sof]) port_0 = Some (8, rest, v) \<and>
     stream v = ascii ''<<<- sid''"
  using serial_write_delivers [of port_0 "ascii ''<<<- sid''" 2 PluggableUSB_0] port_0_ok
  by (simp add: port_0_rest ascii_def)

definition rx_bulk :: "uep \<Rightarrow> bool" where
  "rx_bulk e \<longleftrightarrow> EPEN e \<and> UECFG0X e = EP_TYPE_BULK_OUT \<and> UECFG1X e = EP_DOUBLE_64 \<and> \<not> STALLRQ e"

lemma give_out_bulk:
  assumes "rx_bulk (eps u 2)" "length (banks (eps u 2)) < 2" "length p \<le> 64"
  shows "rx_bulk (eps (give_out 2 p u) 2)" "banks (eps (give_out 2 p u) 2) = banks (eps u 2) @ [p]"
    "peek_buffer (give_out 2 p u) = peek_buffer u" "usbConfiguration (give_out 2 p u) = usbConfiguration u"
    "setup_pkt (eps (give_out 2 p u) 2) = setup_pkt (eps u 2)"
proof -
  have e: "EPEN (eps u 2)" "\<not> ep_in (eps u 2)" "\<not> STALLRQ (eps u 2)" "ep_banks (eps u 2) = 2" "ep_size (eps u 2) = 64"
    using assms(1) ep_size_bits by (simp_all add: rx_bulk_def ep_in_def ep_banks_def ep_size_def)
  have "give_out 2 p u = on_ep 2 (banks_update (\<lambda>bs. bs @ [p])) u"
    using e assms(2,3) by (simp add: give_out_def Let_def)
  then show "rx_bulk (eps (give_out 2 p u) 2)" "banks (eps (give_out 2 p u) 2) = banks (eps u 2) @ [p]"
    "peek_buffer (give_out 2 p u) = peek_buffer u" "usbConfiguration (give_out 2 p u) = usbConfiguration u"
    "setup_pkt (eps (give_out 2 p u) 2) = setup_pkt (eps u 2)"
    using assms(1) by (simp_all add: rx_bulk_def) (simp_all add: on_ep_def)
qed

lemma port_0_rx: "rx_bulk (eps port_0 2)" "banks (eps port_0 2) = []" "setup_pkt (eps port_0 2) = None"
  by (simp_all add: rx_bulk_def port_0_eps ep_empty_def ep_blank_def)

text \<open>
  C13. An empty packet blocks the port. Once the host has sent a packet without data, \<^verbatim>\<open>available\<close> reports
  nothing and \<^verbatim>\<open>read\<close> returns -1, however often it is called and whatever arrived behind the packet: the code
  releases a bank only after it has taken a byte from it.
\<close>

theorem empty_packet_blocks:
  assumes "UECFG0X (eps u 2) = EP_TYPE_BULK_OUT" "banks (eps u 2) = [] # rest" "peek_buffer u = -1"
  shows "let v = ((\<lambda>v. snd (Serial_read v)) ^^ n) u
    in fst (Serial_available v) = 0 \<and> fst (Serial_read v) = -1 \<and> banks (eps v 2) = [] # rest"
proof -
  define stuck where "stuck v \<longleftrightarrow> UECFG0X (eps v 2) = EP_TYPE_BULK_OUT \<and> banks (eps v 2) = [] # rest \<and> peek_buffer v = -1" for v :: ucore
  let ?f = "\<lambda>v. snd (Serial_read v)"
  have step: "fst (Serial_read v) = -1 \<and> stuck (?f v) \<and> fst (Serial_available v) = 0 \<and> banks (eps v 2) = [] # rest" if "stuck v" for v
    using that by (auto simp: stuck_def Serial_read_def USB_Recv1_def USB_Recv_def LockEP_def SetEP_def UnlockEP_def
        FifoByteCount_def ep_defs UEBCLX_def ep_in_def Serial_available_def Available_rx)
  have "stuck ((?f ^^ n) u)"
  proof (induction n)
    case 0
    show ?case using assms by (simp add: stuck_def)
  next
    case (Suc n)
    then show ?case using step by simp
  qed
  from step [OF this] show ?thesis unfolding Let_def by blast
qed

theorem empty_packet_blocks_witness:
  "fst (Serial_read (snd (Serial_read (give_out 2 (ascii ''ping'') (give_out 2 [] port_0))))) = -1"
proof -
  let ?v = "give_out 2 [] port_0" and ?u = "give_out 2 (ascii ''ping'') (give_out 2 [] port_0)"
  note v = give_out_bulk [OF port_0_rx(1), of "[]"]
  have l: "length (banks (eps ?v 2)) < 2" "length (ascii ''ping'') \<le> 64" using v(2) port_0_rx(2) by (simp_all add: ascii_def)
  have r: "rx_bulk (eps ?v 2)" using v(1) port_0_rx(2) by simp
  note u = give_out_bulk [OF r l]
  have e: "banks (eps ?u 2) = [[], ascii ''ping'']" "peek_buffer ?u = -1" "UECFG0X (eps ?u 2) = EP_TYPE_BULK_OUT"
    using u(1) by (simp_all only: u(2,3) v(2,3) port_0_rx(2) port_0_rest(8) list.size rx_bulk_def append.simps)
  show ?thesis using empty_packet_blocks [OF e(3,1,2), of "Suc 0"] by (simp only: Let_def funpow.simps o_apply id_apply)
qed

end
