(* ===== verification/Record_Store.thy ===== *)
theory Record_Store
  imports Wagman_Prelude
begin

text \<open>
  The persistent record of the Wagman firmware: the EEPROM class of the board package
  (\<^verbatim>\<open>libraries/EEPROM/src/EEPROM.h\<close>) over a byte memory, and \<^verbatim>\<open>firmware/Record.cpp\<close> on top of it: the
  header region (magic, versions, boot count, wire flag, bootloader mode), one 128-byte region
  per device, and one boot log (a ring of eight times) per device. An \<^verbatim>\<open>unsigned int\<close> of the
  ATmega32U4 has 16 bits, an \<^verbatim>\<open>unsigned long\<close> and a \<^verbatim>\<open>time_t\<close> 32. The EEPROM cells are total
  functions from addresses; the theorems show which addresses each setter can touch. Addresses from
  1024 on, which the hardware would wrap around, belong only to port numbers that are not valid.

  The contract of the boot log is the locale \<open>bounded_log\<close>; \<open>bootLog\<close> interprets it on the
  EEPROM implementation.
\<close>

section \<open>EEPROM.h\<close>

type_synonym eeprom = mem

definition E2SIZE :: nat where
  "E2SIZE = 1024"

definition ee_read :: "eeprom \<Rightarrow> nat \<Rightarrow> u8" where
  "ee_read m idx = m idx"

definition ee_write :: "eeprom \<Rightarrow> nat \<Rightarrow> u8 \<Rightarrow> eeprom" where
  "ee_write m idx v = m(idx := v)"

definition ee_update :: "eeprom \<Rightarrow> nat \<Rightarrow> u8 \<Rightarrow> eeprom" where
  "ee_update m idx v = (if v \<noteq> ee_read m idx then ee_write m idx v else m)"

fun ee_get :: "eeprom \<Rightarrow> nat \<Rightarrow> nat \<Rightarrow> u8 list" where
  "ee_get m e 0 = []"
| "ee_get m e (Suc count) = ee_read m e # ee_get m (Suc e) count"

fun ee_put :: "eeprom \<Rightarrow> nat \<Rightarrow> u8 list \<Rightarrow> eeprom" where
  "ee_put m e [] = m"
| "ee_put m e (b # bs) = ee_put (ee_update m e b) (Suc e) bs"

lemma ee_update_write: "ee_update m a v = m(a := v)"
  by (auto simp: ee_update_def ee_write_def ee_read_def)

lemma ee_get_block: "ee_get m e n = read_block m e n"
  by (induction n arbitrary: e) (auto simp: ee_read_def)

lemma ee_put_block: "ee_put m e bs = write_block m e bs"
  by (induction bs arbitrary: m e) (auto simp: ee_update_write)

lemmas ee_simps = ee_get_block ee_put_block ee_write_def ee_read_def

section \<open>Layout\<close>

definition MAGIC :: u32 where [simp]: "MAGIC = 0xADA1ADA1"
definition DEVICE_COUNT :: nat where [simp]: "DEVICE_COUNT = 5"

definition EEPROM_MAGIC_ADDR :: nat where [simp]: "EEPROM_MAGIC_ADDR = 0"
definition EEPROM_HARDWARE_VERSION :: nat where [simp]: "EEPROM_HARDWARE_VERSION = 4"
definition EEPROM_FIRMWARE_VERSION :: nat where [simp]: "EEPROM_FIRMWARE_VERSION = 6"
definition EEPROM_BOOT_COUNT :: nat where [simp]: "EEPROM_BOOT_COUNT = 8"
definition EEPROM_LAST_BOOT_TIME :: nat where [simp]: "EEPROM_LAST_BOOT_TIME = 12"
definition EEPROM_WIRE_ENABLED :: nat where [simp]: "EEPROM_WIRE_ENABLED = 32"
definition EEPROM_BOOTLOADER_NODE_CONTROLLER :: nat where [simp]: "EEPROM_BOOTLOADER_NODE_CONTROLLER = 0x40"

definition EEPROM_PORT_ENABLED :: nat where [simp]: "EEPROM_PORT_ENABLED = 0"
definition EEPROM_PORT_LAST_BOOT_TIME :: nat where [simp]: "EEPROM_PORT_LAST_BOOT_TIME = 3"
definition EEPROM_PORT_BOOT_ATTEMPTS :: nat where [simp]: "EEPROM_PORT_BOOT_ATTEMPTS = 7"
definition EEPROM_PORT_BOOT_FAILURES :: nat where [simp]: "EEPROM_PORT_BOOT_FAILURES = 11"
definition EEPROM_PORT_THERMISTOR_HEALTH :: nat where [simp]: "EEPROM_PORT_THERMISTOR_HEALTH = 15"
definition EEPROM_PORT_CURRENT_HEALTH :: nat where [simp]: "EEPROM_PORT_CURRENT_HEALTH = 20"
definition EEPROM_PORT_RELAY_JOURNAL :: nat where [simp]: "EEPROM_PORT_RELAY_JOURNAL = 38"

definition deviceRegion :: "u8 \<Rightarrow> nat" where
  "deviceRegion device = 256 + unat device * 128"

text \<open>The object \<open>bootLogs[i]\<close> is its address; its capacity is 8.\<close>

definition bootLogs :: "u8 \<Rightarrow> nat" where
  "bootLogs i = 256 + unat i * 128 + 64"

definition validPort :: "u8 \<Rightarrow> bool" where
  "validPort port \<longleftrightarrow> port < 5"

section \<open>Header region\<close>

definition initialized :: "eeprom \<Rightarrow> bool" where
  "initialized m \<longleftrightarrow> of_le (ee_get m EEPROM_MAGIC_ADDR 4) = MAGIC"

definition clearMagic :: "eeprom \<Rightarrow> eeprom" where
  "clearMagic m = ee_put m EEPROM_MAGIC_ADDR (le_bytes 4 (0 :: u32))"

definition getWireEnabled :: "eeprom \<Rightarrow> bool" where
  "getWireEnabled m \<longleftrightarrow> ee_read m EEPROM_WIRE_ENABLED \<noteq> 0"

definition setWireEnabled :: "bool \<Rightarrow> eeprom \<Rightarrow> eeprom" where
  "setWireEnabled enabled m = ee_write m EEPROM_WIRE_ENABLED (if enabled then 1 else 0)"

definition getBootloaderNodeController :: "eeprom \<Rightarrow> u8" where
  "getBootloaderNodeController m = ee_read m EEPROM_BOOTLOADER_NODE_CONTROLLER"

definition setBootloaderNodeController :: "u8 \<Rightarrow> eeprom \<Rightarrow> eeprom" where
  "setBootloaderNodeController mode m =
     (let mode = (if 2 < mode then 1 else mode)
      in ee_write m EEPROM_BOOTLOADER_NODE_CONTROLLER mode)"

record version =
  major :: u8
  minor :: u8

definition getHardwareVersion :: "eeprom \<Rightarrow> version" where
  "getHardwareVersion m = (let b = ee_get m EEPROM_HARDWARE_VERSION 2
     in \<lparr>major = b ! 0, minor = b ! 1\<rparr>)"

definition setHardwareVersion :: "version \<Rightarrow> eeprom \<Rightarrow> eeprom" where
  "setHardwareVersion v m = ee_put m EEPROM_HARDWARE_VERSION [major v, minor v]"

definition getFirmwareVersion :: "eeprom \<Rightarrow> version" where
  "getFirmwareVersion m = (let b = ee_get m EEPROM_FIRMWARE_VERSION 2
     in \<lparr>major = b ! 0, minor = b ! 1\<rparr>)"

definition setFirmwareVersion :: "version \<Rightarrow> eeprom \<Rightarrow> eeprom" where
  "setFirmwareVersion v m = ee_put m EEPROM_FIRMWARE_VERSION [major v, minor v]"

definition getBootCount :: "eeprom \<Rightarrow> u32" where
  "getBootCount m = of_le (ee_get m EEPROM_BOOT_COUNT 4)"

definition setBootCount :: "u32 \<Rightarrow> eeprom \<Rightarrow> eeprom" where
  "setBootCount count m = ee_put m EEPROM_BOOT_COUNT (le_bytes 4 count)"

definition incrementBootCount :: "eeprom \<Rightarrow> eeprom" where
  "incrementBootCount m = setBootCount (getBootCount m + 1) m"

definition getLastBootTime :: "eeprom \<Rightarrow> u32" where
  "getLastBootTime m = of_le (ee_get m EEPROM_LAST_BOOT_TIME 4)"

definition setLastBootTime :: "u32 \<Rightarrow> eeprom \<Rightarrow> eeprom" where
  "setLastBootTime time m = ee_put m EEPROM_LAST_BOOT_TIME (le_bytes 4 time)"

section \<open>Device regions\<close>

definition setDeviceEnabled :: "u8 \<Rightarrow> bool \<Rightarrow> eeprom \<Rightarrow> eeprom" where
  "setDeviceEnabled device enabled m =
     ee_write m (deviceRegion device + EEPROM_PORT_ENABLED) (if enabled then 1 else 0)"

definition getDeviceEnabled :: "u8 \<Rightarrow> eeprom \<Rightarrow> bool" where
  "getDeviceEnabled device m \<longleftrightarrow>
     (if \<not> validPort device then False
      else if device = 0 then True
      else ee_read m (deviceRegion device + EEPROM_PORT_ENABLED) \<noteq> 0)"

definition getDeviceLastBootTime :: "u8 \<Rightarrow> eeprom \<Rightarrow> u32" where
  "getDeviceLastBootTime device m =
     of_le (ee_get m (deviceRegion device + EEPROM_PORT_LAST_BOOT_TIME) 4)"

definition setDeviceLastBootTime :: "u8 \<Rightarrow> u32 \<Rightarrow> eeprom \<Rightarrow> eeprom" where
  "setDeviceLastBootTime device time m =
     ee_put m (deviceRegion device + EEPROM_PORT_LAST_BOOT_TIME) (le_bytes 4 time)"

definition getBootAttempts :: "u8 \<Rightarrow> eeprom \<Rightarrow> u16" where
  "getBootAttempts device m =
     of_le (ee_get m (deviceRegion device + EEPROM_PORT_BOOT_ATTEMPTS) 2)"

definition setBootAttempts :: "u8 \<Rightarrow> u16 \<Rightarrow> eeprom \<Rightarrow> eeprom" where
  "setBootAttempts device attempts m =
     ee_put m (deviceRegion device + EEPROM_PORT_BOOT_ATTEMPTS) (le_bytes 2 attempts)"

definition incrementBootAttempts :: "u8 \<Rightarrow> eeprom \<Rightarrow> eeprom" where
  "incrementBootAttempts device m = setBootAttempts device (getBootAttempts device m + 1) m"

definition getBootFailures :: "u8 \<Rightarrow> eeprom \<Rightarrow> u16" where
  "getBootFailures device m =
     of_le (ee_get m (deviceRegion device + EEPROM_PORT_BOOT_FAILURES) 2)"

definition setBootFailures :: "u8 \<Rightarrow> u16 \<Rightarrow> eeprom \<Rightarrow> eeprom" where
  "setBootFailures device failures m =
     ee_put m (deviceRegion device + EEPROM_PORT_BOOT_FAILURES) (le_bytes 2 failures)"

definition incrementBootFailures :: "u8 \<Rightarrow> eeprom \<Rightarrow> eeprom" where
  "incrementBootFailures device m = setBootFailures device (getBootFailures device m + 1) m"

definition getRelayState :: "u8 \<Rightarrow> eeprom \<Rightarrow> u8" where
  "getRelayState port m = ee_read m (deviceRegion port + EEPROM_PORT_RELAY_JOURNAL)"

definition setRelayState :: "u8 \<Rightarrow> u8 \<Rightarrow> eeprom \<Rightarrow> eeprom" where
  "setRelayState port state m = ee_write m (deviceRegion port + EEPROM_PORT_RELAY_JOURNAL) state"

definition getPortCurrentSensorHealth :: "u8 \<Rightarrow> eeprom \<Rightarrow> u8" where
  "getPortCurrentSensorHealth port m =
     ee_read m (deviceRegion port + EEPROM_PORT_CURRENT_HEALTH)"

definition setPortCurrentSensorHealth :: "u8 \<Rightarrow> u8 \<Rightarrow> eeprom \<Rightarrow> eeprom" where
  "setPortCurrentSensorHealth port health m =
     ee_write m (deviceRegion port + EEPROM_PORT_CURRENT_HEALTH) health"

definition getThermistorSensorHealth :: "u8 \<Rightarrow> eeprom \<Rightarrow> u8" where
  "getThermistorSensorHealth port m =
     ee_read m (deviceRegion port + EEPROM_PORT_THERMISTOR_HEALTH)"

definition setThermistorSensorHealth :: "u8 \<Rightarrow> u8 \<Rightarrow> eeprom \<Rightarrow> eeprom" where
  "setThermistorSensorHealth port health m =
     ee_write m (deviceRegion port + EEPROM_PORT_THERMISTOR_HEALTH) health"

section \<open>Boot logs\<close>

definition capacity :: nat where [simp]: "capacity = 8"

definition getStart :: "nat \<Rightarrow> eeprom \<Rightarrow> u8" where
  "getStart address m = ee_read m (address + 0)"

definition setStart :: "nat \<Rightarrow> u8 \<Rightarrow> eeprom \<Rightarrow> eeprom" where
  "setStart address start m = ee_write m (address + 0) start"

definition getCount :: "nat \<Rightarrow> eeprom \<Rightarrow> u8" where
  "getCount address m = ee_read m (address + 1)"

definition setCount :: "nat \<Rightarrow> u8 \<Rightarrow> eeprom \<Rightarrow> eeprom" where
  "setCount address count m = ee_write m (address + 1) count"

definition BootLog_init :: "nat \<Rightarrow> eeprom \<Rightarrow> eeprom" where
  "BootLog_init address m = setCount address 0 (setStart address 0 m)"

definition addEntry :: "nat \<Rightarrow> u32 \<Rightarrow> eeprom \<Rightarrow> eeprom" where
  "addEntry address time m =
     (let start = getStart address m;
          count = getCount address m;
          index = (unat start + unat count) mod capacity;
          m1 = ee_put m (address + 2 + 4 * index) (le_bytes 4 time)
      in if unat count = capacity then setStart address (start + 1) m1
         else setCount address (count + 1) m1)"

definition getEntry :: "nat \<Rightarrow> u8 \<Rightarrow> eeprom \<Rightarrow> u32" where
  "getEntry address i m =
     (let start = getStart address m;
          count = getCount address m
      in if count \<le> i then 0
         else let index = (unat start + unat i) mod capacity
              in of_le (ee_get m (address + 2 + 4 * index) 4))"

section \<open>Initialisation of the whole record\<close>

fun init_devices :: "nat \<Rightarrow> u8 \<Rightarrow> eeprom \<Rightarrow> eeprom" where
  "init_devices 0 i m = m"
| "init_devices (Suc n) i m = init_devices n (i + 1)
     (BootLog_init (bootLogs i)
       (setThermistorSensorHealth i 0
         (setPortCurrentSensorHealth i 0
           (setRelayState i 0 (setBootFailures i 0 (setBootAttempts i 0 m))))))"

definition Record_init :: "eeprom \<Rightarrow> eeprom" where
  "Record_init m =
     (let m = setBootCount 0 m;
          m = setLastBootTime 0 m;
          m = setHardwareVersion \<lparr>major = 3, minor = 1\<rparr> m;
          m = setFirmwareVersion \<lparr>major = 1, minor = 0\<rparr> m;
          m = setWireEnabled True m;
          m = init_devices DEVICE_COUNT 0 m;
          m = setDeviceEnabled 0 True m;
          m = setDeviceEnabled 1 True m;
          m = setDeviceEnabled 2 True m;
          m = setDeviceEnabled 3 False m;
          m = setDeviceEnabled 4 False m;
          m = setBootloaderNodeController 0 m
      in ee_put m EEPROM_MAGIC_ADDR (le_bytes 4 MAGIC))"

section \<open>Contract of a bounded log\<close>

locale bounded_log =
  fixes reset :: "'s \<Rightarrow> 's"
    and add :: "'e \<Rightarrow> 's \<Rightarrow> 's"
    and entries :: "'s \<Rightarrow> 'e list"
    and inv :: "'s \<Rightarrow> bool"
    and cap :: nat
  assumes entries_reset: "entries (reset s) = []"
    and inv_reset: "inv (reset s)"
    and inv_add: "inv s \<Longrightarrow> inv (add t s)"
    and entries_add: "inv s \<Longrightarrow> entries (add t s) =
      (if length (entries s) < cap then entries s else tl (entries s)) @ [t]"
    and entries_cap: "inv s \<Longrightarrow> length (entries s) \<le> cap"
    and cap_pos: "0 < cap"
begin

lemma inv_adds: "inv s \<Longrightarrow> inv (fold add ts s)"
  by (induction ts arbitrary: s) (auto intro: inv_add)

lemma entries_adds:
  "inv s \<Longrightarrow> entries (fold add ts s) =
     drop (length (entries s) + length ts - cap) (entries s @ ts)"
proof (induction ts arbitrary: s)
  case Nil
  then show ?case using entries_cap by simp
next
  case (Cons t ts)
  have IH: "entries (fold add ts (add t s)) =
      drop (length (entries (add t s)) + length ts - cap) (entries (add t s) @ ts)"
    using Cons.IH Cons.prems inv_add by blast
  show ?case
  proof (cases "length (entries s) < cap")
    case True
    with IH Cons.prems show ?thesis by (simp add: entries_add)
  next
    case False
    with entries_cap [OF Cons.prems] have len: "length (entries s) = cap" by simp
    with cap_pos obtain e es where es: "entries s = e # es" by (cases "entries s") auto
    then have "Suc (length es + length ts) - cap = length ts" "Suc (length ts) - cap = length ts - length es"
      using len by auto
    with IH Cons.prems len es show ?thesis by (simp add: entries_add)
  qed
qed

text \<open>After a reset the log holds exactly the last \<open>cap\<close> of the entries added, oldest first.\<close>

lemma entries_after_reset:
  "entries (fold add ts (reset s)) = drop (length ts - cap) ts"
  using entries_adds [OF inv_reset, of ts s] by (simp add: entries_reset)

end

section \<open>The boot log implements the contract\<close>

definition slot :: "nat \<Rightarrow> nat \<Rightarrow> eeprom \<Rightarrow> u32" where
  "slot address k m = of_le (ee_get m (address + 2 + 4 * k) 4)"

definition bl_entries :: "nat \<Rightarrow> eeprom \<Rightarrow> u32 list" where
  "bl_entries address m = map (\<lambda>i. getEntry address (of_nat i) m) [0..<unat (getCount address m)]"

definition bl_inv :: "nat \<Rightarrow> eeprom \<Rightarrow> bool" where
  "bl_inv address m \<longleftrightarrow> unat (getCount address m) \<le> capacity"

lemmas bl_hdr_defs = getStart_def setStart_def getCount_def setCount_def

lemma getEntry_slot:
  "i < unat (getCount a m) \<Longrightarrow> i < 256 \<Longrightarrow>
   getEntry a (of_nat i) m = slot a ((unat (getStart a m) + i) mod capacity) m"
  by (simp add: getEntry_def slot_def Let_def word_le_nat_alt unat_of_nat)

lemma slot_put:
  "slot a k (ee_put m (a + 2 + 4 * j) (le_bytes 4 t)) = (if k = j then t else slot a k m)"
proof (cases "k = j")
  case False
  then have "a + 2 + 4 * k + 4 \<le> a + 2 + 4 * j \<or> a + 2 + 4 * j + 4 \<le> a + 2 + 4 * k" by auto
  then show ?thesis using False by (simp add: slot_def ee_simps mem_simps)
qed (simp add: slot_def ee_simps mem_simps)

lemma slot_hdr [simp]: "slot a k (setStart a v m) = slot a k m" "slot a k (setCount a v m) = slot a k m"
  by (simp_all add: slot_def bl_hdr_defs ee_simps mem_simps)

lemma hdr_put [simp]:
  "getStart a (ee_put m (a + 2 + 4 * j) bs) = getStart a m"
  "getCount a (ee_put m (a + 2 + 4 * j) bs) = getCount a m"
  by (simp_all add: bl_hdr_defs ee_simps mem_simps)

lemma hdr_set [simp]:
  "getStart a (setStart a v m) = v" "getCount a (setStart a v m) = getCount a m"
  "getStart a (setCount a v m) = getStart a m" "getCount a (setCount a v m) = v"
  by (simp_all add: bl_hdr_defs ee_simps)

lemma mod8_shift: "i < j \<Longrightarrow> j < i + 8 \<Longrightarrow> (s + i) mod 8 \<noteq> (s + j) mod (8::nat)"
proof
  assume "i < j" "j < i + 8" and eq: "(s + i) mod 8 = (s + j) mod 8"
  then have "8 dvd (s + j) - (s + i)" using mod_eq_dvd_iff_nat [of "s + i" "s + j" 8] by simp
  then have "8 dvd j - i" by simp
  with \<open>i < j\<close> \<open>j < i + 8\<close> show False by (auto dest: dvd_imp_le)
qed

lemma start_wrap: "(unat (s + 1 :: u8) + i) mod 8 = (unat s + (i + 1)) mod 8"
proof -
  have "(unat (s + 1) + i) mod 8 = ((unat s + 1) mod 256 + i) mod 8"
    by (simp add: unat_word_ariths)
  also have "\<dots> = (((unat s + 1) mod 256) mod 8 + i) mod 8" by (rule mod_add_left_eq [symmetric])
  also have "\<dots> = ((unat s + 1) mod 8 + i) mod 8" by (simp add: mod_mod_cancel)
  also have "\<dots> = (unat s + (i + 1)) mod 8" by (simp only: mod_add_left_eq) (simp add: ac_simps)
  finally show ?thesis .
qed

lemma addEntry_hdr:
  "bl_inv a m \<Longrightarrow> unat (getCount a (addEntry a t m)) = min capacity (unat (getCount a m) + 1)"
  "getStart a (addEntry a t m) =
     (if unat (getCount a m) = capacity then getStart a m + 1 else getStart a m)"
  by (auto simp: addEntry_def Let_def bl_inv_def unat_word_ariths simp del: add_2_eq_Suc')

lemma addEntry_slot:
  "slot a k (addEntry a t m) =
     (if k = (unat (getStart a m) + unat (getCount a m)) mod capacity then t else slot a k m)"
  by (simp add: addEntry_def Let_def slot_put del: add_2_eq_Suc')

lemma addEntry_getEntry:
  assumes inv: "bl_inv a m" and i: "i < min capacity (unat (getCount a m) + 1)"
  shows "getEntry a (of_nat i) (addEntry a t m) =
    (if unat (getCount a m) < capacity
     then (if i = unat (getCount a m) then t else getEntry a (of_nat i) m)
     else (if i = 7 then t else getEntry a (of_nat (i + 1)) m))"
proof (cases "unat (getCount a m) < capacity")
  case True
  let ?s = "unat (getStart a m)" and ?c = "unat (getCount a m)"
  have "getEntry a (of_nat i) (addEntry a t m) = slot a ((?s + i) mod 8) (addEntry a t m)"
    using True i inv by (subst getEntry_slot) (auto simp: addEntry_hdr)
  moreover have "i < ?c \<Longrightarrow> (?s + i) mod 8 \<noteq> (?s + ?c) mod 8"
    using True by (intro mod8_shift) auto
  ultimately show ?thesis
    using True i by (auto simp: addEntry_slot getEntry_slot)
next
  case False
  with inv have c: "unat (getCount a m) = 8" by (simp add: bl_inv_def)
  let ?s = "unat (getStart a m)"
  have "getEntry a (of_nat i) (addEntry a t m) = slot a ((?s + (i + 1)) mod 8) (addEntry a t m)"
    using c i inv by (subst getEntry_slot) (auto simp: addEntry_hdr start_wrap)
  moreover have "i \<noteq> 7 \<Longrightarrow> (?s + (i + 1)) mod 8 \<noteq> (?s + 8) mod 8"
    using i c by (intro mod8_shift) auto
  ultimately show ?thesis
    using c i by (auto simp: addEntry_slot getEntry_slot [where i = "i + 1", simplified])
qed

lemma bl_entries_add:
  assumes inv: "bl_inv a m"
  shows "bl_entries a (addEntry a t m) =
    (if length (bl_entries a m) < capacity then bl_entries a m else tl (bl_entries a m)) @ [t]"
proof (rule nth_equalityI)
  show "length (bl_entries a (addEntry a t m)) =
    length ((if length (bl_entries a m) < capacity then bl_entries a m else tl (bl_entries a m)) @ [t])"
    using inv by (auto simp: bl_entries_def addEntry_hdr bl_inv_def)
next
  fix i assume "i < length (bl_entries a (addEntry a t m))"
  then have i: "i < min capacity (unat (getCount a m) + 1)"
    using inv by (simp add: bl_entries_def addEntry_hdr)
  show "bl_entries a (addEntry a t m) ! i =
    ((if length (bl_entries a m) < capacity then bl_entries a m else tl (bl_entries a m)) @ [t]) ! i"
    using i inv by (auto simp: bl_entries_def addEntry_hdr addEntry_getEntry bl_inv_def
        nth_append nth_tl)
qed

interpretation bootLog: bounded_log "BootLog_init a" "addEntry a" "bl_entries a" "bl_inv a" capacity
  for a
proof (standard, goal_cases)
  case 1 show ?case by (simp add: bl_entries_def BootLog_init_def)
next
  case 2 show ?case by (simp add: bl_inv_def BootLog_init_def)
next
  case (3 s t) then show ?case using addEntry_hdr(1) by (simp add: bl_inv_def)
next
  case (4 s t) then show ?case by (rule bl_entries_add)
next
  case (5 s) then show ?case by (simp add: bl_inv_def bl_entries_def)
next
  case 6 show ?case by simp
qed

section \<open>Abstract device records\<close>

text \<open>
  What a device region promises: eight independent fields. \<open>dev_write\<close> collects every operation of
  \<^verbatim>\<open>Record.cpp\<close> that writes a device region; \<open>dev_spec\<close> is its effect on the abstract record.
\<close>

record dev_rec =
  r_enabled :: bool
  r_last :: u32
  r_attempts :: u16
  r_failures :: u16
  r_relay :: u8
  r_cur :: u8
  r_therm :: u8
  r_boots :: "u32 list"

definition dev_abs :: "u8 \<Rightarrow> eeprom \<Rightarrow> dev_rec" where
  "dev_abs d m = \<lparr>r_enabled = (ee_read m (deviceRegion d + EEPROM_PORT_ENABLED) \<noteq> 0),
     r_last = getDeviceLastBootTime d m, r_attempts = getBootAttempts d m,
     r_failures = getBootFailures d m, r_relay = getRelayState d m,
     r_cur = getPortCurrentSensorHealth d m, r_therm = getThermistorSensorHealth d m,
     r_boots = bl_entries (bootLogs d) m\<rparr>"

datatype device_write =
    W_Enabled bool
  | W_LastBoot u32
  | W_Attempts u16
  | W_IncAttempts
  | W_Failures u16
  | W_IncFailures
  | W_Relay u8
  | W_Current u8
  | W_Therm u8
  | W_BootInit
  | W_BootAdd u32

fun dev_write :: "device_write \<Rightarrow> u8 \<Rightarrow> eeprom \<Rightarrow> eeprom" where
  "dev_write (W_Enabled b) d m = setDeviceEnabled d b m"
| "dev_write (W_LastBoot t) d m = setDeviceLastBootTime d t m"
| "dev_write (W_Attempts n) d m = setBootAttempts d n m"
| "dev_write W_IncAttempts d m = incrementBootAttempts d m"
| "dev_write (W_Failures n) d m = setBootFailures d n m"
| "dev_write W_IncFailures d m = incrementBootFailures d m"
| "dev_write (W_Relay v) d m = setRelayState d v m"
| "dev_write (W_Current v) d m = setPortCurrentSensorHealth d v m"
| "dev_write (W_Therm v) d m = setThermistorSensorHealth d v m"
| "dev_write W_BootInit d m = BootLog_init (bootLogs d) m"
| "dev_write (W_BootAdd t) d m = addEntry (bootLogs d) t m"

fun dev_spec :: "device_write \<Rightarrow> dev_rec \<Rightarrow> dev_rec" where
  "dev_spec (W_Enabled b) r = r\<lparr>r_enabled := b\<rparr>"
| "dev_spec (W_LastBoot t) r = r\<lparr>r_last := t\<rparr>"
| "dev_spec (W_Attempts n) r = r\<lparr>r_attempts := n\<rparr>"
| "dev_spec W_IncAttempts r = r\<lparr>r_attempts := r_attempts r + 1\<rparr>"
| "dev_spec (W_Failures n) r = r\<lparr>r_failures := n\<rparr>"
| "dev_spec W_IncFailures r = r\<lparr>r_failures := r_failures r + 1\<rparr>"
| "dev_spec (W_Relay v) r = r\<lparr>r_relay := v\<rparr>"
| "dev_spec (W_Current v) r = r\<lparr>r_cur := v\<rparr>"
| "dev_spec (W_Therm v) r = r\<lparr>r_therm := v\<rparr>"
| "dev_spec W_BootInit r = r\<lparr>r_boots := []\<rparr>"
| "dev_spec (W_BootAdd t) r = r\<lparr>r_boots :=
     (if length (r_boots r) < 8 then r_boots r else tl (r_boots r)) @ [t]\<rparr>"

lemmas dev_get_defs = getDeviceLastBootTime_def getBootAttempts_def getBootFailures_def
  getRelayState_def getPortCurrentSensorHealth_def getThermistorSensorHealth_def
lemmas dev_set_defs = setDeviceEnabled_def setDeviceLastBootTime_def setBootAttempts_def
  incrementBootAttempts_def setBootFailures_def incrementBootFailures_def setRelayState_def
  setPortCurrentSensorHealth_def setThermistorSensorHealth_def

subsection \<open>Frames\<close>

lemma bl_cong:
  assumes "\<And>x. a \<le> x \<Longrightarrow> x < a + 34 \<Longrightarrow> m x = m' x"
  shows "bl_entries a m = bl_entries a m'" and "getCount a m = getCount a m'"
proof -
  have h: "getStart a m = getStart a m'" "getCount a m = getCount a m'"
    using assms [of a] assms [of "a + 1"] by (simp_all add: bl_hdr_defs ee_simps)
  have sl: "slot a (k mod 8) m = slot a (k mod 8) m'" for k
  proof -
    have "k mod 8 < 8" by simp
    then show ?thesis
      unfolding slot_def ee_simps
      by (intro arg_cong [where f = of_le] read_block_cong assms) auto
  qed
  show "getCount a m = getCount a m'" by (rule h)
  show "bl_entries a m = bl_entries a m'"
    unfolding bl_entries_def h
  proof (rule map_cong [OF refl])
    fix i assume i: "i \<in> set [0..<unat (getCount a m')]"
    then have "i < 256" using unat_less_256 [of "getCount a m'"] by auto
    with i h sl show "getEntry a (of_nat i) m = getEntry a (of_nat i) m'"
      by (simp add: getEntry_slot)
  qed
qed

lemma region_cong:
  assumes "\<And>x. deviceRegion d \<le> x \<Longrightarrow> x < deviceRegion d + 128 \<Longrightarrow> m x = m' x"
  shows "dev_abs d m = dev_abs d m'"
proof -
  have rb: "read_block m (deviceRegion d + k) n = read_block m' (deviceRegion d + k) n"
    if "k + n \<le> 128" for k n
    by (rule read_block_cong) (use that in \<open>auto intro!: assms\<close>)
  have "bl_entries (bootLogs d) m = bl_entries (bootLogs d) m'"
    by (rule bl_cong) (auto simp: bootLogs_def deviceRegion_def intro!: assms)
  moreover have "m (deviceRegion d + k) = m' (deviceRegion d + k)" if "k < 128" for k
    using that by (auto intro!: assms)
  ultimately show ?thesis
    using rb assms [of "deviceRegion d"]
    by (simp add: dev_abs_def dev_get_defs ee_simps del: read_block.simps)
qed

lemma addEntry_outside:
  "x < a \<or> a + 34 \<le> x \<Longrightarrow> addEntry a t m x = m x"
proof -
  assume x: "x < a \<or> a + 34 \<le> x"
  have "(unat (getStart a m) + unat (getCount a m)) mod 8 < 8" by simp
  with x show ?thesis
    by (auto simp: addEntry_def Let_def bl_hdr_defs ee_simps write_block_apply)
qed

lemma dev_write_outside:
  assumes "x < deviceRegion d \<or> deviceRegion d + 128 \<le> x"
  shows "dev_write w d m x = m x"
proof (cases w)
  case (W_BootAdd t)
  then show ?thesis using assms by (auto simp: bootLogs_def deviceRegion_def intro!: addEntry_outside)
qed (use assms in \<open>auto simp: dev_set_defs ee_simps write_block_apply BootLog_init_def bl_hdr_defs
       bootLogs_def deviceRegion_def\<close>)

lemma deviceRegion_disjoint:
  "d \<noteq> d' \<Longrightarrow> deviceRegion d + 128 \<le> deviceRegion d' \<or> deviceRegion d' + 128 \<le> deviceRegion d"
  by (auto simp: deviceRegion_def dest: word_unat_eq_iff [THEN iffD2] intro: neqE [of "unat d" "unat d'"])

text \<open>Everything the header of the record holds.\<close>

definition header_abs :: "eeprom \<Rightarrow> bool \<times> version \<times> version \<times> u32 \<times> u32 \<times> bool \<times> u8" where
  "header_abs m = (initialized m, getHardwareVersion m, getFirmwareVersion m, getBootCount m,
     getLastBootTime m, getWireEnabled m, getBootloaderNodeController m)"

lemma header_cong:
  assumes "\<And>x. x < 128 \<Longrightarrow> m x = m' x"
  shows "header_abs m = header_abs m'"
proof -
  have rb: "read_block m k n = read_block m' k n" if "k + n \<le> 128" for k n
    by (rule read_block_cong) (use that in \<open>auto intro!: assms\<close>)
  show ?thesis
    using rb assms by (simp add: header_abs_def initialized_def getHardwareVersion_def
        getFirmwareVersion_def getBootCount_def getLastBootTime_def getWireEnabled_def
        getBootloaderNodeController_def ee_simps del: read_block.simps)
qed

section \<open>Properties of the record\<close>

lemma region_addrs [simp]: "bootLogs d = deviceRegion d + 64"
  by (simp add: bootLogs_def deviceRegion_def)

lemma bl_entries_frame [mem_simps]:
  "x < a \<or> a + 34 \<le> x \<Longrightarrow> bl_entries a (m(x := v)) = bl_entries a m"
  "b + length bs \<le> a \<or> a + 34 \<le> b \<Longrightarrow> bl_entries a (write_block m b bs) = bl_entries a m"
  by (rule bl_cong, force simp: write_block_apply)+

lemma dev_abs_boot:
  assumes "\<And>x. deviceRegion d \<le> x \<Longrightarrow> x < deviceRegion d + 64 \<Longrightarrow> m' x = m x"
  shows "dev_abs d m' = (dev_abs d m)\<lparr>r_boots := bl_entries (deviceRegion d + 64) m'\<rparr>"
proof -
  have rb: "read_block m' (deviceRegion d + k) n = read_block m (deviceRegion d + k) n"
    if "k + n \<le> 64" for k n
    by (rule read_block_cong) (use that in \<open>auto intro!: assms\<close>)
  show ?thesis
    using rb assms
    by (simp add: dev_abs_def dev_get_defs ee_simps del: read_block.simps)
qed

text \<open>The fields a write below the boot log leaves alone, in one step: such a write changes the
  cells of exactly one field, so only the getter of that field has to be computed.\<close>

lemma dev_abs_sel:
  "r_attempts (dev_abs d m) = getBootAttempts d m"
  "r_failures (dev_abs d m) = getBootFailures d m"
  by (simp_all add: dev_abs_def)

lemma dev_byte_writes:
  "dev_abs d (ee_write m (deviceRegion d) v) = (dev_abs d m)\<lparr>r_enabled := v \<noteq> 0\<rparr>"
  "dev_abs d (ee_write m (deviceRegion d + 38) v) = (dev_abs d m)\<lparr>r_relay := v\<rparr>"
  "dev_abs d (ee_write m (deviceRegion d + 20) v) = (dev_abs d m)\<lparr>r_cur := v\<rparr>"
  "dev_abs d (ee_write m (deviceRegion d + 15) v) = (dev_abs d m)\<lparr>r_therm := v\<rparr>"
  by (simp_all add: dev_abs_def dev_get_defs ee_simps mem_simps
        del: read_block.simps)

lemma dev_word_writes:
  "dev_abs d (ee_put m (deviceRegion d + 3) (le_bytes 4 t)) = (dev_abs d m)\<lparr>r_last := t\<rparr>"
  "dev_abs d (ee_put m (deviceRegion d + 7) (le_bytes 2 n)) = (dev_abs d m)\<lparr>r_attempts := n\<rparr>"
  "dev_abs d (ee_put m (deviceRegion d + 11) (le_bytes 2 n)) = (dev_abs d m)\<lparr>r_failures := n\<rparr>"
  by (simp_all add: dev_abs_def dev_get_defs ee_simps mem_simps
        del: read_block.simps)

lemmas dev_field_writes = dev_byte_writes dev_word_writes

lemma dev_write_abs:
  assumes "bl_inv (bootLogs d) m \<or> (\<forall>t. w \<noteq> W_BootAdd t)"
  shows "dev_abs d (dev_write w d m) = dev_spec w (dev_abs d m)"
proof (cases w)
  case W_BootInit
  have "dev_abs d (dev_write w d m) =
      (dev_abs d m)\<lparr>r_boots := bl_entries (deviceRegion d + 64) (dev_write w d m)\<rparr>"
    by (rule dev_abs_boot) (auto simp: W_BootInit BootLog_init_def bl_hdr_defs ee_simps)
  then show ?thesis using W_BootInit by (simp add: bootLog.entries_reset)
next
  case (W_BootAdd t)
  have "dev_abs d (dev_write w d m) =
      (dev_abs d m)\<lparr>r_boots := bl_entries (deviceRegion d + 64) (dev_write w d m)\<rparr>"
    by (rule dev_abs_boot) (auto simp: W_BootAdd addEntry_outside)
  then show ?thesis using W_BootAdd assms
    by (simp add: bootLog.entries_add) (simp add: dev_abs_def)
qed (simp_all add: dev_field_writes dev_set_defs dev_abs_sel)

lemma dev_write_other: "d \<noteq> d' \<Longrightarrow> dev_abs d' (dev_write w d m) = dev_abs d' m"
  using deviceRegion_disjoint [of d d'] by (intro region_cong dev_write_outside) auto

lemma dev_write_header: "header_abs (dev_write w d m) = header_abs m"
  by (intro header_cong dev_write_outside) (auto simp: deviceRegion_def)

text \<open>
  C2. Functional refinement of a device region: on an EEPROM whose boot log count is at most 8,
  every write operation of \<^verbatim>\<open>Record.cpp\<close> on a device changes exactly the abstract field it names, the
  two counters increment modulo 2^16, and a boot entry is appended with the oldest one dropped
  when eight are held.
\<close>

theorem dev_write_refines:
  assumes "bl_inv (bootLogs d) m"
  shows "dev_abs d (dev_write w d m) = dev_spec w (dev_abs d m)"
  using assms by (simp add: dev_write_abs)

theorem dev_write_refines_witness:
  "bl_inv (bootLogs 1) (\<lambda>_. 0) \<and>
   dev_abs 1 (dev_write (W_BootAdd 7) 1 (\<lambda>_. 0)) = dev_spec (W_BootAdd 7) (dev_abs 1 (\<lambda>_. 0)) \<and>
   r_boots (dev_abs 1 (dev_write (W_BootAdd 7) 1 (\<lambda>_. 0))) = [7]"
proof -
  have h: "bl_inv (bootLogs 1) (\<lambda>_. 0)" by (simp add: bl_inv_def getCount_def ee_read_def)
  have b: "r_boots (dev_abs 1 (\<lambda>_. 0)) = []"
    by (simp add: dev_abs_def bl_entries_def getCount_def ee_read_def)
  show ?thesis using h dev_write_refines [OF h, of "W_BootAdd 7"] b by simp
qed

text \<open>
  C3. Isolation: a write to the region of one device leaves the abstract record of every other
  device, the header of the record and (for a valid port) every cell beyond the 1024-byte EEPROM
  unchanged.
\<close>

theorem dev_write_isolated:
  assumes "d \<noteq> d'"
  shows "dev_abs d' (dev_write w d m) = dev_abs d' m \<and>
    header_abs (dev_write w d m) = header_abs m \<and>
    (validPort d \<and> E2SIZE \<le> x \<longrightarrow> dev_write w d m x = m x)"
proof (intro conjI impI)
  show "dev_abs d' (dev_write w d m) = dev_abs d' m" using assms by (rule dev_write_other)
  show "header_abs (dev_write w d m) = header_abs m" by (rule dev_write_header)
  show "dev_write w d m x = m x" if "validPort d \<and> E2SIZE \<le> x"
    using that by (intro dev_write_outside)
      (auto simp: deviceRegion_def validPort_def E2SIZE_def word_less_nat_alt)
qed

theorem dev_write_isolated_witness:
  "(1 :: u8) \<noteq> 2 \<and> dev_abs 2 (dev_write (W_Relay 3) 1 (\<lambda>_. 0)) = dev_abs 2 (\<lambda>_. 0) \<and>
   header_abs (dev_write (W_Relay 3) 1 (\<lambda>_. 0)) = header_abs (\<lambda>_. 0) \<and>
   dev_write (W_Relay 3) 1 (\<lambda>_. 0) 2000 = 0"
proof -
  have h: "(1 :: u8) \<noteq> 2" by simp
  have v: "validPort 1" "E2SIZE \<le> 2000" by (simp_all add: validPort_def E2SIZE_def)
  show ?thesis
    using h v dev_write_isolated [OF h, of "W_Relay 3" "\<lambda>_. 0" 2000] by blast
qed

text \<open>
  C4. The boot log of a device after initialisation and any sequence of boots holds the last eight
  boot times in order, although its start byte is never reduced and wraps at 256.
\<close>

theorem bootlog_keeps_last_eight:
  "bl_entries a (fold (addEntry a) ts (BootLog_init a m)) = drop (length ts - 8) ts"
  using bootLog.entries_after_reset [of a ts m] by simp

subsection \<open>Initialisation\<close>

lemma dev_write_eqs:
  "setDeviceEnabled d b m = dev_write (W_Enabled b) d m"
  "setBootAttempts d n m = dev_write (W_Attempts n) d m"
  "setBootFailures d n m = dev_write (W_Failures n) d m"
  "setRelayState d v m = dev_write (W_Relay v) d m"
  "setPortCurrentSensorHealth d v m = dev_write (W_Current v) d m"
  "setThermistorSensorHealth d v m = dev_write (W_Therm v) d m"
  "BootLog_init (bootLogs d) m = dev_write W_BootInit d m"
  by simp_all

lemma dev_write_view:
  "(\<forall>t. w \<noteq> W_BootAdd t) \<Longrightarrow>
   dev_abs d (dev_write w d' m) = (if d = d' then dev_spec w (dev_abs d m) else dev_abs d m)"
  by (simp add: dev_write_abs dev_write_other)

lemmas header_defs = initialized_def getHardwareVersion_def getFirmwareVersion_def
  getBootCount_def getLastBootTime_def getWireEnabled_def getBootloaderNodeController_def
lemmas header_set_defs = setHardwareVersion_def setFirmwareVersion_def setBootCount_def
  setLastBootTime_def setWireEnabled_def setBootloaderNodeController_def clearMagic_def

lemma header_writes_dev [simp]:
  "dev_abs d (setHardwareVersion v m) = dev_abs d m"
  "dev_abs d (setFirmwareVersion v m) = dev_abs d m"
  "dev_abs d (setBootCount c m) = dev_abs d m"
  "dev_abs d (setLastBootTime c m) = dev_abs d m"
  "dev_abs d (setWireEnabled b m) = dev_abs d m"
  "dev_abs d (setBootloaderNodeController k m) = dev_abs d m"
  "dev_abs d (ee_put m 0 (le_bytes 4 (x :: u32))) = dev_abs d m"
  by (rule region_cong; auto simp: header_set_defs ee_simps write_block_apply deviceRegion_def Let_def)+

lemma header_words:
  "getBootCount (setBootCount c m) = c"
  "getLastBootTime (setLastBootTime t m) = t"
  "getLastBootTime (setBootCount c m) = getLastBootTime m"
  "getBootCount (setLastBootTime t m) = getBootCount m"
  by (simp_all add: header_defs header_set_defs ee_simps mem_simps del: read_block.simps)

lemma init_devices_5:
  "init_devices 5 0 m = fold (\<lambda>d m. fold (\<lambda>w. dev_write w d)
     [W_Attempts 0, W_Failures 0, W_Relay 0, W_Current 0, W_Therm 0, W_BootInit] m) [0, 1, 2, 3, 4] m"
  by (simp add: eval_nat_numeral dev_write_eqs del: dev_write.simps region_addrs)

lemma init_devices_view:
  "d < 5 \<Longrightarrow> dev_abs d (init_devices 5 0 m) = (dev_abs d m)\<lparr>r_attempts := 0, r_failures := 0,
     r_relay := 0, r_cur := 0, r_therm := 0, r_boots := []\<rparr>"
proof -
  assume "d < 5"
  then have "d \<in> {0, 1, 2, 3, 4}" by (simp add: u8_less_5)
  then show ?thesis
    unfolding init_devices_5
    by (auto simp: dev_write_view simp del: dev_write.simps)
qed

lemma init_devices_header: "header_abs (init_devices 5 0 m) = header_abs m"
  unfolding init_devices_5 by (simp add: dev_write_header del: dev_write.simps)

text \<open>
  C5. \<^verbatim>\<open>Record::init\<close> on any EEPROM contents yields an initialised record: the magic is set, boot count
  and last boot time are zero, the wire bus is enabled, the bootloader leaves the node controller
  alone, and every device has zero attempts and failures, the relay journal off, healthy sensors,
  an empty boot log and the default enable flags (devices 0 to 2).
\<close>

theorem Record_init_establishes:
  "initialized (Record_init m) \<and> getBootCount (Record_init m) = 0 \<and>
   getLastBootTime (Record_init m) = 0 \<and> getWireEnabled (Record_init m) \<and>
   getBootloaderNodeController (Record_init m) = 0 \<and>
   getHardwareVersion (Record_init m) = \<lparr>major = 3, minor = 1\<rparr> \<and>
   getFirmwareVersion (Record_init m) = \<lparr>major = 1, minor = 0\<rparr> \<and>
   (\<forall>d. validPort d \<longrightarrow> dev_abs d (Record_init m) = (dev_abs d m)\<lparr>r_enabled := d < 3,
      r_attempts := 0, r_failures := 0, r_relay := 0, r_cur := 0, r_therm := 0, r_boots := []\<rparr> \<and>
      (getDeviceEnabled d (Record_init m) \<longleftrightarrow> d < 3))"
proof -
  let ?h = "\<lambda>m. setWireEnabled True (setFirmwareVersion \<lparr>major = 1, minor = 0\<rparr>
    (setHardwareVersion \<lparr>major = 3, minor = 1\<rparr> (setLastBootTime 0 (setBootCount 0 m))))"
  let ?d = "\<lambda>m. fold (\<lambda>(b, d). dev_write (W_Enabled b) d)
    [(True, 0), (True, 1), (True, 2), (False, 3), (False, 4)] (init_devices 5 0 m)"
  let ?f = "\<lambda>m. ee_put (setBootloaderNodeController 0 m) 0 (le_bytes 4 MAGIC)"
  have split: "Record_init m = ?f (?d (?h m))"
    by (simp add: Record_init_def Let_def)
  have hd: "header_abs (?d m) = header_abs m" for m
    by (simp add: dev_write_header init_devices_header del: dev_write.simps)
  have hh: "header_abs (?h m) = (initialized (?h m), \<lparr>major = 3, minor = 1\<rparr>, \<lparr>major = 1, minor = 0\<rparr>,
     0, 0, True, getBootloaderNodeController (?h m))"
    by (simp add: header_abs_def header_defs header_set_defs ee_simps mem_simps Let_def
        write_block_apply nth_read_block del: read_block.simps)
  have hf: "header_abs (?f m) = (True, getHardwareVersion m, getFirmwareVersion m, getBootCount m,
     getLastBootTime m, getWireEnabled m, 0)" for m
    by (simp add: header_abs_def header_defs header_set_defs ee_simps mem_simps Let_def
        write_block_apply del: read_block.simps)
  have dev: "dev_abs d (Record_init m) = (dev_abs d m)\<lparr>r_enabled := d < 3,
      r_attempts := 0, r_failures := 0, r_relay := 0, r_cur := 0, r_therm := 0, r_boots := []\<rparr>"
    if "validPort d" for d
    using that unfolding split validPort_def
    by (auto simp: u8_less_5 dev_write_view init_devices_view simp del: dev_write.simps)
  then have en: "validPort d \<Longrightarrow> getDeviceEnabled d (Record_init m) \<longleftrightarrow> d < 3" for d
    by (auto simp: getDeviceEnabled_def dev_abs_def word_less_nat_alt)
  define h' where "h' = ?h m"
  define d' where "d' = ?d h'"
  have "header_abs (Record_init m) =
      (True, \<lparr>major = 3, minor = 1\<rparr>, \<lparr>major = 1, minor = 0\<rparr>, 0, 0, True, 0)"
    using hf [of d'] hd [of h', folded d'_def] hh [folded h'_def]
    unfolding split h'_def [symmetric] d'_def [symmetric] header_abs_def by simp
  then show ?thesis using dev en by (simp add: header_abs_def)
qed

theorem Record_init_establishes_witness:
  "validPort 1 \<and> initialized (Record_init (\<lambda>_. 255)) \<and>
   dev_abs 1 (Record_init (\<lambda>_. 255)) = (dev_abs 1 (\<lambda>_. 255))\<lparr>r_enabled := True,
      r_attempts := 0, r_failures := 0, r_relay := 0, r_cur := 0, r_therm := 0, r_boots := []\<rparr>"
proof -
  have v: "validPort 1" by (simp add: validPort_def)
  show ?thesis using v Record_init_establishes [of "\<lambda>_. 255"] by simp
qed

end
