(* ===== verification/Device_Control.thy ===== *)
theory Device_Control
  imports Record_Store
begin

text \<open>
  The device supervisor of the firmware: \<^verbatim>\<open>firmware/Timer.cpp\<close> (wrap-safe millisecond timers),
  the parts of \<^verbatim>\<open>firmware/Wagman.cpp\<close> that drive relays and boot selectors, and
  \<^verbatim>\<open>firmware/Device.cpp\<close> (the per-device state machine). The board record holds what the code reads and
  writes outside a Device object: the EEPROM, the millisecond clock, the pin levels (with the order
  of the \<^verbatim>\<open>digitalWrite\<close> calls), the heartbeat counters and the start timer. The real-time clock and
  the current sensors are external chips: their readings are fields of the board that no operation
  changes. \<^verbatim>\<open>delay\<close> advances the clock; the log output is not modelled.
\<close>

section \<open>Timer.cpp\<close>

type_synonym timer = u32

definition Timer_reset :: "u32 \<Rightarrow> timer" where
  "Timer_reset millis = millis"

definition Timer_elapsed :: "u32 \<Rightarrow> timer \<Rightarrow> u32" where
  "Timer_elapsed millis start = millis - start"

definition Timer_exceeds :: "u32 \<Rightarrow> timer \<Rightarrow> u32 \<Rightarrow> bool" where
  "Timer_exceeds millis start time \<longleftrightarrow> millis - start > time"

section \<open>The board\<close>

record board =
  ee :: eeprom
  now :: u32
  wireEnabled :: bool
  rtc :: u32
  pins :: "u8 \<Rightarrow> bool"
  writes :: "(u8 \<times> bool) list"
  heartbeatCounters :: "u8 \<Rightarrow> u8"
  currents :: "u8 \<Rightarrow> u16"
  startTimer :: timer

definition set_pin :: "u8 \<Rightarrow> bool \<Rightarrow> board \<Rightarrow> board" where
  "set_pin pin v b = b\<lparr>pins := (pins b)(pin := v), writes := writes b @ [(pin, v)]\<rparr>"

definition wait_ms :: "u32 \<Rightarrow> board \<Rightarrow> board" where
  "wait_ms ms b = b\<lparr>now := now b + ms\<rparr>"

definition POWER_LATCH_0_PIN :: u8 where [simp]: "POWER_LATCH_0_PIN = 0"

definition POWER_PINS :: "u8 \<Rightarrow> u8" where
  "POWER_PINS port = [4, 6, 8, 10, 12] ! unat port"

definition BOOT_SELECTOR_PINS :: "u8 \<Rightarrow> u8" where
  "BOOT_SELECTOR_PINS selector = [1, 21] ! unat selector"

definition validBootSelector :: "u8 \<Rightarrow> bool" where
  "validBootSelector selector \<longleftrightarrow> selector < 2"

definition MEDIA_SD :: u8 where [simp]: "MEDIA_SD = 0"
definition MEDIA_EMMC :: u8 where [simp]: "MEDIA_EMMC = 1"

definition RELAY_OFF :: u8 where [simp]: "RELAY_OFF = 0"
definition RELAY_ON :: u8 where [simp]: "RELAY_ON = 1"
definition RELAY_TURNING_ON :: u8 where [simp]: "RELAY_TURNING_ON = 2"
definition RELAY_TURNING_OFF :: u8 where [simp]: "RELAY_TURNING_OFF = 3"

definition setRelay :: "u8 \<Rightarrow> bool \<Rightarrow> board \<Rightarrow> board" where
  "setRelay port on b =
     (if \<not> validPort port then b
      else if port = 0 then
        let b = set_pin POWER_LATCH_0_PIN False b;
            b = wait_ms 50 b;
            b = set_pin (POWER_PINS port) on b;
            b = wait_ms 50 b;
            b = set_pin POWER_LATCH_0_PIN True b;
            b = wait_ms 50 b;
            b = set_pin POWER_LATCH_0_PIN False b
        in wait_ms 50 b
      else wait_ms 50 (set_pin (POWER_PINS port) on b))"

definition setBootMedia :: "u8 \<Rightarrow> u8 \<Rightarrow> board \<Rightarrow> board" where
  "setBootMedia selector media b =
     (if \<not> validBootSelector selector then b
      else if media = MEDIA_SD then set_pin (BOOT_SELECTOR_PINS selector) False b
      else if media = MEDIA_EMMC then set_pin (BOOT_SELECTOR_PINS selector) True b
      else b)"

definition getTime :: "board \<Rightarrow> u32" where
  "getTime b = (if wireEnabled b then rtc b else 0)"

definition getCurrent :: "u8 \<Rightarrow> board \<Rightarrow> u16" where
  "getCurrent port b =
     (if \<not> wireEnabled b then 0xFFFF else if \<not> validPort port then 0 else currents b port)"

section \<open>Device.cpp\<close>

definition CURRENT_NORMAL :: u8 where [simp]: "CURRENT_NORMAL = 0"
definition CURRENT_STRESSED :: u8 where [simp]: "CURRENT_STRESSED = 1"
definition CURRENT_LOW :: u8 where [simp]: "CURRENT_LOW = 2"
definition CURRENT_HIGH :: u8 where [simp]: "CURRENT_HIGH = 3"

definition STATE_DISABLED :: u8 where [simp]: "STATE_DISABLED = 0"
definition STATE_STOPPED :: u8 where [simp]: "STATE_STOPPED = 1"
definition STATE_STARTING :: u8 where [simp]: "STATE_STARTING = 2"
definition STATE_STARTED :: u8 where [simp]: "STATE_STARTED = 3"
definition STATE_STOPPING :: u8 where [simp]: "STATE_STOPPING = 4"

definition ERROR_INVALID_ACTION :: u8 where [simp]: "ERROR_INVALID_ACTION = 1"
definition HEARTBEAT_TIMEOUT :: u32 where [simp]: "HEARTBEAT_TIMEOUT = 3600000"
definition STOP_MESSAGE_TIMEOUT :: u32 where [simp]: "STOP_MESSAGE_TIMEOUT = 10000"

record device =
  port :: u8
  bootSelector :: u8
  primaryMedia :: u8
  secondaryMedia :: u8
  watchHeartbeat :: bool
  watchCurrent :: bool
  shouldForceBootMedia :: bool
  forceBootMedia :: u8
  state :: u8
  managed :: bool
  currentLevel :: u8
  currentLevelTimer :: timer
  stateTimer :: timer
  stopMessageTimer :: timer
  heartbeatTimer :: timer
  startDelay :: u32
  stopTimeout :: u32

definition changeState :: "u8 \<Rightarrow> board \<Rightarrow> device \<Rightarrow> device" where
  "changeState newState b d = d\<lparr>stateTimer := Timer_reset (now b),
     stopMessageTimer := Timer_reset (now b), heartbeatTimer := Timer_reset (now b),
     currentLevelTimer := Timer_reset (now b), state := newState\<rparr>"

definition setStopTimeout :: "u32 \<Rightarrow> device \<Rightarrow> device" where
  "setStopTimeout timeout d = d\<lparr>stopTimeout := timeout\<rparr>"

definition Device_init :: "board \<Rightarrow> device \<Rightarrow> device" where
  "Device_init b d =
     (let d = d\<lparr>shouldForceBootMedia := False, forceBootMedia := MEDIA_SD,
                currentLevel := CURRENT_LOW, startDelay := 0\<rparr>;
          d = setStopTimeout 60000 d
      in if getDeviceEnabled (port d) (ee b) then changeState STATE_STOPPED b d
         else changeState STATE_DISABLED b d)"

definition canStart :: "board \<Rightarrow> device \<Rightarrow> bool" where
  "canStart b d \<longleftrightarrow> state d = STATE_STOPPED \<and> Timer_exceeds (now b) (stateTimer d) (startDelay d)"

definition timeSinceHeartbeat :: "board \<Rightarrow> device \<Rightarrow> u32" where
  "timeSinceHeartbeat b d = Timer_elapsed (now b) (heartbeatTimer d)"

definition getNextBootMedia :: "board \<Rightarrow> device \<Rightarrow> u8" where
  "getNextBootMedia b d =
     (if shouldForceBootMedia d then forceBootMedia d
      else if managed d then
        (if getBootFailures (port d) (ee b) mod 4 = 3 then secondaryMedia d else primaryMedia d)
      else
        (if getBootAttempts (port d) (ee b) mod 2 = 1 then secondaryMedia d else primaryMedia d))"

definition setNextBootMedia :: "u8 \<Rightarrow> device \<times> board \<Rightarrow> device \<times> board" where
  "setNextBootMedia media = (\<lambda>(d, b).
     (d\<lparr>shouldForceBootMedia := True, forceBootMedia := media\<rparr>, setBootMedia (bootSelector d) media b))"

definition on_ee :: "(eeprom \<Rightarrow> eeprom) \<Rightarrow> board \<Rightarrow> board" where
  "on_ee f b = b\<lparr>ee := f (ee b)\<rparr>"

definition Device_start :: "device \<times> board \<Rightarrow> u8 \<times> device \<times> board" where
  "Device_start = (\<lambda>(d, b).
     if state d \<noteq> STATE_STOPPED then (ERROR_INVALID_ACTION, d, b)
     else
       let d = d\<lparr>managed := getBootFailures (port d) (ee b) < 1024\<rparr>;
           bootMedia = getNextBootMedia b d;
           d = d\<lparr>shouldForceBootMedia := False\<rparr>;
           b = setBootMedia (bootSelector d) bootMedia b;
           b = on_ee (incrementBootAttempts (port d)) b;
           b = on_ee (addEntry (bootLogs (port d)) (getTime b)) b;
           b = on_ee (setRelayState (port d) RELAY_TURNING_ON) b;
           b = wait_ms 10 b;
           b = setRelay (port d) True b;
           b = wait_ms 500 b;
           b = on_ee (setRelayState (port d) RELAY_ON) b;
           b = wait_ms 10 b
       in (0, changeState STATE_STARTED b d, b))"

definition Device_stop :: "device \<times> board \<Rightarrow> u8 \<times> device \<times> board" where
  "Device_stop = (\<lambda>(d, b).
     if state d \<noteq> STATE_STARTED then (ERROR_INVALID_ACTION, d, b)
     else (0, changeState STATE_STOPPING b d, b))"

definition Device_kill :: "device \<times> board \<Rightarrow> u8 \<times> device \<times> board" where
  "Device_kill = (\<lambda>(d, b).
     if state d = STATE_DISABLED then (ERROR_INVALID_ACTION, d, b)
     else
       let b = on_ee (setRelayState (port d) RELAY_TURNING_OFF) b;
           b = wait_ms 10 b;
           b = setRelay (port d) False b;
           b = wait_ms 500 b;
           b = on_ee (setRelayState (port d) RELAY_OFF) b;
           b = wait_ms 10 b;
           d = changeState STATE_STOPPED b d;
           b = b\<lparr>startTimer := Timer_reset (now b)\<rparr>
       in (0, d, b))"

definition Device_enable :: "device \<times> board \<Rightarrow> u8 \<times> device \<times> board" where
  "Device_enable = (\<lambda>(d, b).
     let b = on_ee (setDeviceEnabled (port d) True) b
     in (0, changeState STATE_STOPPED b d, b))"

definition Device_disable :: "device \<times> board \<Rightarrow> u8 \<times> device \<times> board" where
  "Device_disable = (\<lambda>(d, b).
     let b = (if port d \<noteq> 0 then on_ee (setDeviceEnabled (port d) False) b else b);
         (_, d, b) = Device_kill (d, b);
         d = (if port d \<noteq> 0 then changeState STATE_DISABLED b d else d)
     in (0, d, b))"

definition onHeartbeat :: "device \<times> board \<Rightarrow> device \<times> board" where
  "onHeartbeat = (\<lambda>(d, b).
     let d = d\<lparr>heartbeatTimer := Timer_reset (now b)\<rparr>
     in if state d = STATE_DISABLED then snd (Device_disable (d, b))
        else if state d = STATE_STOPPED \<or> state d = STATE_STARTING
          then (changeState STATE_STARTED b d, b)
        else (d, b))"

definition sendExternalHeartbeat :: "device \<times> board \<Rightarrow> device \<times> board" where
  "sendExternalHeartbeat = onHeartbeat"

definition updateHeartbeat :: "device \<times> board \<Rightarrow> device \<times> board" where
  "updateHeartbeat = (\<lambda>(d, b).
     if heartbeatCounters b (port d) \<ge> 8
     then onHeartbeat (d, b\<lparr>heartbeatCounters := (heartbeatCounters b)(port d := 0)\<rparr>)
     else (d, b))"

definition updateFault :: "device \<times> board \<Rightarrow> device \<times> board" where
  "updateFault = (\<lambda>(d, b).
     let current = getCurrent (port d) b
     in if current = 0xFFFF then (d, b)
        else
          let newCurrentLevel =
                (if current < 120 then CURRENT_LOW
                 else if current < 300 then CURRENT_NORMAL
                 else if current < 850 then CURRENT_STRESSED
                 else CURRENT_HIGH)
          in if newCurrentLevel \<noteq> currentLevel d
             then (d\<lparr>currentLevelTimer := Timer_reset (now b), currentLevel := newCurrentLevel\<rparr>, b)
             else (d, b))"

definition updateDisabled :: "device \<times> board \<Rightarrow> device \<times> board" where
  "updateDisabled = (\<lambda>(d, b).
     if port d = 0 \<and> Timer_exceeds (now b) (stateTimer d) 60000 then snd (Device_enable (d, b))
     else (d, b))"

definition updateStarting :: "device \<times> board \<Rightarrow> device \<times> board" where
  "updateStarting = (\<lambda>(d, b).
     if Timer_exceeds (now b) (stateTimer d) 300000
     then snd (Device_kill (d, on_ee (incrementBootFailures (port d)) b))
     else (d, b))"

definition updateStartedManaged :: "device \<times> board \<Rightarrow> device \<times> board" where
  "updateStartedManaged = (\<lambda>(d, b).
     let (d, b) = (if watchHeartbeat d \<and> Timer_exceeds (now b) (heartbeatTimer d) HEARTBEAT_TIMEOUT
                   then snd (Device_stop (d, on_ee (incrementBootFailures (port d)) b))
                   else (d, b))
     in if watchCurrent d \<and> Timer_exceeds (now b) (currentLevelTimer d) 10000
        then (d\<lparr>currentLevelTimer := Timer_reset (now b)\<rparr>, b)
        else (d, b))"

definition updateStartedUnmanaged :: "device \<times> board \<Rightarrow> device \<times> board" where
  "updateStartedUnmanaged = (\<lambda>(d, b).
     if Timer_exceeds (now b) (stateTimer d) 14400000
     then snd (Device_stop (setNextBootMedia
            (if getNextBootMedia b d = MEDIA_SD then MEDIA_EMMC else MEDIA_SD) (d, b)))
     else (d, b))"

definition updateStarted :: "device \<times> board \<Rightarrow> device \<times> board" where
  "updateStarted = (\<lambda>(d, b).
     if managed d then updateStartedManaged (d, b) else updateStartedUnmanaged (d, b))"

definition updateStopping :: "device \<times> board \<Rightarrow> device \<times> board" where
  "updateStopping = (\<lambda>(d, b).
     let d = (if Timer_exceeds (now b) (stopMessageTimer d) STOP_MESSAGE_TIMEOUT
              then d\<lparr>stopMessageTimer := Timer_reset (now b)\<rparr> else d)
     in if Timer_exceeds (now b) (stateTimer d) (stopTimeout d)
        then snd (Device_kill (setStopTimeout 60000 d, b))
        else (d, b))"

definition updateState :: "device \<times> board \<Rightarrow> device \<times> board" where
  "updateState = (\<lambda>(d, b).
     if state d = STATE_DISABLED then updateDisabled (d, b)
     else if state d = STATE_STOPPED then (d, b)
     else if state d = STATE_STARTING then updateStarting (d, b)
     else if state d = STATE_STARTED then updateStarted (d, b)
     else if state d = STATE_STOPPING then updateStopping (d, b)
     else (d, b))"

definition Device_update :: "device \<times> board \<Rightarrow> device \<times> board" where
  "Device_update s = updateState (updateFault (updateHeartbeat s))"

section \<open>Timers\<close>

text \<open>
  C17. A timer measures true elapsed time through a wrap of the millisecond counter: when \<open>d\<close>
  milliseconds have passed since the reset (fewer than 2^32), \<^verbatim>\<open>elapsed\<close> is \<open>d\<close> and \<^verbatim>\<open>exceeds\<close> compares
  \<open>d\<close> itself, whatever the counter's value at the reset.
\<close>

theorem timer_wrap_safe:
  assumes "d < 2 ^ 32"
  shows "unat (Timer_elapsed (t0 + of_nat d) (Timer_reset t0)) = d \<and>
    (Timer_exceeds (t0 + of_nat d) (Timer_reset t0) limit \<longleftrightarrow> unat limit < d)"
proof -
  have "unat (of_nat d :: u32) = d" using assms by (simp add: unat_of_nat)
  then show ?thesis
    by (simp add: Timer_elapsed_def Timer_exceeds_def Timer_reset_def word_less_nat_alt)
qed

theorem timer_wrap_safe_witness:
  "(5000 :: nat) < 2 ^ 32 \<and>
   unat (Timer_elapsed (4294967295 + of_nat 5000) (Timer_reset 4294967295)) = 5000 \<and>
   Timer_exceeds (4294967295 + of_nat 5000) (Timer_reset 4294967295) 4999"
proof -
  have h: "(5000 :: nat) < 2 ^ 32" by simp
  show ?thesis using h timer_wrap_safe [OF h, of 4294967295 4999] by simp
qed

section \<open>Effects of the device operations\<close>

lemmas board_defs = set_pin_def wait_ms_def on_ee_def

lemma power_pin_cases:
  "validPort p \<Longrightarrow> POWER_PINS p \<in> {4, 6, 8, 10, 12}"
  by (auto simp: validPort_def u8_less_5 POWER_PINS_def)

lemma power_pin_inj:
  "validPort p \<Longrightarrow> validPort q \<Longrightarrow> POWER_PINS p = POWER_PINS q \<longleftrightarrow> p = q"
  by (auto simp: validPort_def u8_less_5 POWER_PINS_def)

lemma setBootMedia_pins:
  "x \<noteq> 1 \<Longrightarrow> x \<noteq> 21 \<Longrightarrow> pins (setBootMedia s v b) x = pins b x"
  "ee (setBootMedia s v b) = ee b" "now (setBootMedia s v b) = now b"
  "rtc (setBootMedia s v b) = rtc b" "wireEnabled (setBootMedia s v b) = wireEnabled b"
  "startTimer (setBootMedia s v b) = startTimer b"
  "heartbeatCounters (setBootMedia s v b) = heartbeatCounters b"
  "currents (setBootMedia s v b) = currents b"
  by (auto simp: setBootMedia_def set_pin_def BOOT_SELECTOR_PINS_def validBootSelector_def
      u8_less_2)

lemma setRelay_effect:
  "validPort p \<Longrightarrow> pins (setRelay p on b) =
     (if p = 0 then (pins b)(0 := False, 4 := on) else (pins b)(POWER_PINS p := on))"
  "ee (setRelay p on b) = ee b"
  "rtc (setRelay p on b) = rtc b" "wireEnabled (setRelay p on b) = wireEnabled b"
  "startTimer (setRelay p on b) = startTimer b"
  "heartbeatCounters (setRelay p on b) = heartbeatCounters b"
  "currents (setRelay p on b) = currents b"
  by (auto simp: setRelay_def board_defs Let_def POWER_PINS_def fun_upd_twist)

lemma setRelay_pin:
  "validPort p \<Longrightarrow> validPort q \<Longrightarrow>
   pins (setRelay p on b) (POWER_PINS q) = (if p = q then on else pins b (POWER_PINS q))"
  using power_pin_cases [of q] power_pin_inj [of p q]
  by (auto simp: setRelay_effect POWER_PINS_def validPort_def)

lemma relay_relay [simp]: "setRelayState p v (setRelayState p u m) = setRelayState p v m"
  by (simp add: setRelayState_def ee_write_def)

lemma setRelay_selectors:
  "validPort p \<Longrightarrow> pins (setRelay p on b) 1 = pins b 1"
  "validPort p \<Longrightarrow> pins (setRelay p on b) 21 = pins b 21"
  using power_pin_cases [of p] by (auto simp: setRelay_effect)

lemma setBootMedia_power: "validPort q \<Longrightarrow> pins (setBootMedia s v b) (POWER_PINS q) = pins b (POWER_PINS q)"
  using power_pin_cases [of q] by (auto simp: setBootMedia_pins)

lemmas relay_frame = setRelay_effect(2-) setRelay_pin

lemma Device_kill_disabled: "state d = 0 \<Longrightarrow> Device_kill (d, b) = (1, d, b)"
  by (simp add: Device_kill_def)

lemma Device_kill_cases:
  assumes "state d \<noteq> 0"
  shows "\<exists>b'. Device_kill (d, b) = (0, changeState 1 b' d, b') \<and>
    ee b' = setRelayState (port d) 0 (ee b) \<and> startTimer b' = now b' \<and>
    wireEnabled b' = wireEnabled b \<and> heartbeatCounters b' = heartbeatCounters b \<and>
    (\<forall>q. validPort (port d) \<longrightarrow> validPort q \<longrightarrow>
       pins b' (POWER_PINS q) = (if port d = q then False else pins b (POWER_PINS q)))"
  using assms
  by (simp add: Device_kill_def Let_def board_defs relay_frame changeState_def Timer_reset_def)

lemma Device_start_cases:
  assumes "state d = 1"
  shows "\<exists>b'. Device_start (d, b) = (0, changeState 3 b' (d\<lparr>
      managed := getBootFailures (port d) (ee b) < 1024, shouldForceBootMedia := False\<rparr>), b') \<and>
    ee b' = setRelayState (port d) 1 (addEntry (bootLogs (port d)) (getTime b)
        (incrementBootAttempts (port d) (ee b))) \<and>
    startTimer b' = startTimer b \<and> wireEnabled b' = wireEnabled b \<and>
    heartbeatCounters b' = heartbeatCounters b \<and>
    (\<forall>q. validPort (port d) \<longrightarrow> validPort q \<longrightarrow>
       pins b' (POWER_PINS q) = (if port d = q then True else pins b (POWER_PINS q))) \<and>
    (validPort (port d) \<longrightarrow> (\<forall>x \<in> {1, 21}.
       pins b' x = pins (setBootMedia (bootSelector d)
         (getNextBootMedia b (d\<lparr>managed := getBootFailures (port d) (ee b) < 1024\<rparr>)) b) x))"
  using assms
  by (simp add: Device_start_def Let_def board_defs relay_frame setBootMedia_pins(2-)
      setBootMedia_power setRelay_selectors getTime_def)

end
