(* ===== verification/Firmware.thy ===== *)
theory Firmware
  imports Device_Control
begin

text \<open>
  The sketch of \<^verbatim>\<open>firmware/firmware.ino\<close> above the devices: the five-device table, the recovery of
  incomplete relays at start-up (\<^verbatim>\<open>setupDevices\<close>), the staggered start (\<^verbatim>\<open>startNextDevice\<close>), the
  command handlers that act on devices, and the device part of \<^verbatim>\<open>loop\<close>. Command arguments arrive here
  as the bytes and integers \<^verbatim>\<open>atoi\<close> returned. The reachable states of the table under any interleaving of
  commands, updates and passing time are the inductive predicate \<open>reachable\<close>.
\<close>

record sys =
  devices :: "u8 \<Rightarrow> device"
  brd :: board
  deviceWantsStart :: u8
  bootflags :: u8
  shouldResetSystem :: bool
  shouldResetTimeout :: u32
  shouldResetTimer :: timer

text \<open>Calling a method of \<^verbatim>\<open>devices[i]\<close>.\<close>

definition on_dev :: "u8 \<Rightarrow> (device \<times> board \<Rightarrow> device \<times> board) \<Rightarrow> sys \<Rightarrow> sys" where
  "on_dev i f s = (let (d, b) = f (devices s i, brd s)
     in s\<lparr>devices := (devices s)(i := d), brd := b\<rparr>)"

definition blank_device :: device where
  "blank_device = \<lparr>port = 0, bootSelector = 0, primaryMedia = 0, secondaryMedia = 0,
     watchHeartbeat = False, watchCurrent = False, shouldForceBootMedia = False,
     forceBootMedia = 0, state = 0, managed = False, currentLevel = 0, currentLevelTimer = 0,
     stateTimer = 0, stopMessageTimer = 0, heartbeatTimer = 0, startDelay = 0, stopTimeout = 0\<rparr>"

section \<open>setupDevices\<close>

definition device_table :: "u8 \<Rightarrow> device" where
  "device_table i =
     (if i = 0 then blank_device\<lparr>port := 0, bootSelector := 0, primaryMedia := MEDIA_EMMC,
        secondaryMedia := MEDIA_SD, watchHeartbeat := True, watchCurrent := False\<rparr>
      else if i = 1 then blank_device\<lparr>port := 1, bootSelector := 1, primaryMedia := MEDIA_EMMC,
        secondaryMedia := MEDIA_SD, watchHeartbeat := True, watchCurrent := False\<rparr>
      else if i = 2 then blank_device\<lparr>port := 2, primaryMedia := MEDIA_EMMC,
        secondaryMedia := MEDIA_SD, watchHeartbeat := True, watchCurrent := False\<rparr>
      else if i = 3 then blank_device\<lparr>port := 3, watchHeartbeat := False, watchCurrent := False\<rparr>
      else if i = 4 then blank_device\<lparr>port := 4, watchHeartbeat := False, watchCurrent := False\<rparr>
      else blank_device)"

definition PORF :: nat where [simp]: "PORF = 0"
definition BORF :: nat where [simp]: "BORF = 2"

definition power_lost :: "u8 \<Rightarrow> bool" where
  "power_lost flags \<longleftrightarrow> flags AND BV PORF \<noteq> 0 \<or> flags AND BV BORF \<noteq> 0"

definition recover_relay :: "u8 \<Rightarrow> sys \<Rightarrow> sys" where
  "recover_relay i s =
     (let st = getRelayState i (ee (brd s))
      in if st = RELAY_TURNING_ON \<or> st = RELAY_TURNING_OFF then
           let s = s\<lparr>brd := on_ee (setRelayState i RELAY_OFF) (brd s)\<rparr>
           in if power_lost (bootflags s) then on_dev i (\<lambda>x. snd (Device_disable x)) s
              else on_dev i (\<lambda>x. snd (Device_kill x)) s
         else s)"

definition setupDevices :: "sys \<Rightarrow> sys" where
  "setupDevices s =
     (let s = s\<lparr>devices := device_table\<rparr>;
          s = fold (\<lambda>i. on_dev i (\<lambda>(d, b). (Device_init b d, b))) [0, 1, 2, 3, 4] s
      in fold recover_relay [0, 1, 2, 3, 4] s)"

section \<open>startNextDevice and commands\<close>

fun start_first :: "u8 list \<Rightarrow> sys \<Rightarrow> sys" where
  "start_first [] s = s"
| "start_first (i # is) s =
     (if canStart (brd s) (devices s i)
      then on_dev i (\<lambda>x. snd (Device_start x))
             (s\<lparr>brd := (brd s)\<lparr>startTimer := Timer_reset (now (brd s))\<rparr>\<rparr>)
      else start_first is s)"

definition startNextDevice :: "sys \<Rightarrow> sys" where
  "startNextDevice s =
     (if validPort (deviceWantsStart s) then
        (let s = s\<lparr>brd := (brd s)\<lparr>startTimer := Timer_reset (now (brd s))\<rparr>\<rparr>;
             s = on_dev (deviceWantsStart s) (\<lambda>x. snd (Device_start x)) s
         in s\<lparr>deviceWantsStart := 255\<rparr>)
      else if Timer_exceeds (now (brd s)) (startTimer (brd s)) 60000
        then start_first [0, 1, 2, 3, 4] s
      else s)"

definition ERROR_INVALID_ARGC :: u8 where [simp]: "ERROR_INVALID_ARGC = 2"
definition ERROR_INVALID_PORT :: u8 where [simp]: "ERROR_INVALID_PORT = 3"

text \<open>The arguments after the command name; \<^verbatim>\<open>byte port = atoi(...)\<close> keeps the low byte.\<close>

definition commandPing :: "int list \<Rightarrow> sys \<Rightarrow> u8 \<times> sys" where
  "commandPing args s =
     (case args of
        [a] \<Rightarrow> (let p = word_of_int a in
          if \<not> validPort p then (ERROR_INVALID_PORT, s) else (0, on_dev p sendExternalHeartbeat s))
      | _ \<Rightarrow> (ERROR_INVALID_ARGC, s))"

definition commandStart :: "int list \<Rightarrow> sys \<Rightarrow> u8 \<times> sys" where
  "commandStart args s =
     (case args of
        [a] \<Rightarrow> (let p = word_of_int a in
          if \<not> validPort p then (ERROR_INVALID_PORT, s) else (0, s\<lparr>deviceWantsStart := p\<rparr>))
      | _ \<Rightarrow> (ERROR_INVALID_ARGC, s))"

definition commandStop :: "int list \<Rightarrow> sys \<Rightarrow> u8 \<times> sys" where
  "commandStop args s =
     (case args of
        [] \<Rightarrow> (ERROR_INVALID_ARGC, s)
      | a # rest \<Rightarrow> (let p = word_of_int a in
          if \<not> validPort p then (ERROR_INVALID_PORT, s)
          else case rest of
              [] \<Rightarrow> (0, on_dev p (\<lambda>(d, b). snd (Device_stop (setStopTimeout 60000 d, b))) s)
            | [t] \<Rightarrow> (0, on_dev p (\<lambda>(d, b).
                snd (Device_stop (setStopTimeout (word_of_int t * 1000) d, b))) s)
            | _ \<Rightarrow> (0, s)))"

definition commandReset :: "int list \<Rightarrow> sys \<Rightarrow> u8 \<times> sys" where
  "commandReset args s =
     (let s = s\<lparr>shouldResetSystem := True, shouldResetTimer := Timer_reset (now (brd s))\<rparr>
      in (0, case args of
          [] \<Rightarrow> s\<lparr>shouldResetTimeout := 0\<rparr>
        | [t] \<Rightarrow> s\<lparr>shouldResetTimeout := word_of_int t * 1000\<rparr>
        | _ \<Rightarrow> s))"

fun commandEnable :: "int list \<Rightarrow> sys \<Rightarrow> u8 \<times> sys" where
  "commandEnable [] s = (0, s)"
| "commandEnable (a # as) s = commandEnable as
     (if validPort (word_of_int a) then on_dev (word_of_int a) (\<lambda>x. snd (Device_enable x)) s else s)"

fun commandDisable :: "int list \<Rightarrow> sys \<Rightarrow> u8 \<times> sys" where
  "commandDisable [] s = (0, s)"
| "commandDisable (a # as) s = commandDisable as
     (if validPort (word_of_int a) then on_dev (word_of_int a) (\<lambda>x. snd (Device_disable x)) s else s)"

section \<open>The device part of loop\<close>

definition loop_devices :: "sys \<Rightarrow> sys" where
  "loop_devices s =
     (let s = (if \<not> shouldResetSystem s then startNextDevice s else s)
      in fold (\<lambda>i. on_dev i Device_update) [0, 1, 2, 3, 4] s)"

section \<open>Reachable tables\<close>

text \<open>What the world does between two passes of the code: time passes, the heartbeat interrupt
  counts edges, sensors read anew.\<close>

inductive sys_step :: "sys \<Rightarrow> sys \<Rightarrow> bool" where
  world: "sys_step s (s\<lparr>brd := (brd s)\<lparr>now := t, heartbeatCounters := h, currents := c, rtc := r\<rparr>\<rparr>)"
| loop: "sys_step s (loop_devices s)"
| ping: "sys_step s (snd (commandPing args s))"
| start: "sys_step s (snd (commandStart args s))"
| stop: "sys_step s (snd (commandStop args s))"
| reset: "sys_step s (snd (commandReset args s))"
| enable: "sys_step s (snd (commandEnable args s))"
| disable: "sys_step s (snd (commandDisable args s))"
| media: "validPort i \<Longrightarrow> sys_step s (on_dev i (setNextBootMedia m) s)"

text \<open>Start-up: the power pins of ports 1 to 4 are low, that of the node controller is as the boot loader left
  it, and \<^verbatim>\<open>setupDevices\<close> runs on whatever the EEPROM holds.\<close>

definition pins_low :: "sys \<Rightarrow> bool" where
  "pins_low s \<longleftrightarrow> (\<forall>q. validPort q \<longrightarrow> q \<noteq> 0 \<longrightarrow> \<not> pins (brd s) (POWER_PINS q))"

inductive reachable :: "sys \<Rightarrow> bool" where
  boot: "pins_low s \<Longrightarrow> reachable (setupDevices s)"
| step: "reachable s \<Longrightarrow> sys_step s t \<Longrightarrow> reachable t"

section \<open>The contract of a device method\<close>

text \<open>
  What every method of a Device promises to the table it lives in: it keeps its port number, stays
  within the four live states, touches no other port's power pin, and never leaves a disabled
  device powered.
\<close>

definition live_state :: "u8 \<Rightarrow> bool" where
  "live_state st \<longleftrightarrow> st \<in> {0, 1, 3, 4}"

definition dev_ok :: "device \<Rightarrow> board \<Rightarrow> bool" where
  "dev_ok d b \<longleftrightarrow> live_state (state d) \<and> (state d = STATE_DISABLED \<longrightarrow> \<not> pins b (POWER_PINS (port d)))"

definition method_ok :: "device \<times> board \<Rightarrow> device \<times> board \<Rightarrow> bool" where
  "method_ok x y \<longleftrightarrow> port (fst y) = port (fst x) \<and>
     (validPort (port (fst x)) \<longrightarrow> dev_ok (fst x) (snd x) \<longrightarrow> dev_ok (fst y) (snd y)) \<and>
     (\<forall>q. validPort (port (fst x)) \<longrightarrow> validPort q \<longrightarrow> q \<noteq> port (fst x) \<longrightarrow>
        pins (snd y) (POWER_PINS q) = pins (snd x) (POWER_PINS q))"

definition table_inv :: "sys \<Rightarrow> bool" where
  "table_inv s \<longleftrightarrow> (\<forall>i. validPort i \<longrightarrow>
     port (devices s i) = i \<and> dev_ok (devices s i) (brd s))"

lemma method_ok_refl: "method_ok x x"
  by (simp add: method_ok_def)

lemma method_ok_trans: "method_ok x y \<Longrightarrow> method_ok y z \<Longrightarrow> method_ok x z"
  by (auto simp: method_ok_def)

locale device_method =
  fixes f :: "device \<times> board \<Rightarrow> device \<times> board"
  assumes contract: "method_ok x (f x)"
begin

lemma table: "validPort i \<Longrightarrow> table_inv s \<Longrightarrow> table_inv (on_dev i f s)"
  using contract [of "(devices s i, brd s)"]
  by (auto simp: table_inv_def on_dev_def method_ok_def dev_ok_def split: prod.splits)

end

lemma method_kill: "method_ok x (snd (Device_kill x))"
proof (cases x)
  case (Pair d b)
  show ?thesis
  proof (cases "state d = 0")
    case True
    then show ?thesis using Pair by (simp add: Device_kill_disabled method_ok_refl)
  next
    case False
    then obtain b' where k: "Device_kill (d, b) = (0, changeState 1 b' d, b')"
      and p: "\<And>q. validPort (port d) \<Longrightarrow> validPort q \<Longrightarrow>
         pins b' (POWER_PINS q) = (if port d = q then False else pins b (POWER_PINS q))"
      using Device_kill_cases [of d b] by auto
    then show ?thesis using Pair
      by (auto simp: method_ok_def dev_ok_def changeState_def live_state_def)
  qed
qed

lemma method_start: "method_ok x (snd (Device_start x))"
proof (cases x)
  case (Pair d b)
  show ?thesis
  proof (cases "state d = 1")
    case False
    then show ?thesis using Pair by (simp add: Device_start_def method_ok_refl)
  next
    case True
    then show ?thesis using Pair Device_start_cases [of d b]
      by (auto simp: method_ok_def dev_ok_def changeState_def live_state_def)
  qed
qed

lemma method_stop: "method_ok x (snd (Device_stop x))"
  by (cases x) (simp add: Device_stop_def method_ok_def dev_ok_def changeState_def live_state_def)

lemma method_enable: "method_ok x (snd (Device_enable x))"
  by (cases x) (simp add: Device_enable_def method_ok_def dev_ok_def changeState_def live_state_def
      Let_def on_ee_def)

lemma method_disable: "method_ok x (snd (Device_disable x))"
proof (cases x)
  case (Pair d b)
  let ?b = "if port d \<noteq> 0 then on_ee (setDeviceEnabled (port d) False) b else b"
  have pb: "pins ?b = pins b" by (simp add: on_ee_def)
  show ?thesis
  proof (cases "state d = 0")
    case True
    then show ?thesis using Pair
      by (simp add: Device_disable_def Device_kill_disabled method_ok_def dev_ok_def changeState_def
          live_state_def on_ee_def)
  next
    case False
    then obtain b' where k: "Device_kill (d, ?b) = (0, changeState 1 b' d, b')"
      and p: "\<And>q. validPort (port d) \<Longrightarrow> validPort q \<Longrightarrow>
         pins b' (POWER_PINS q) = (if port d = q then False else pins ?b (POWER_PINS q))"
      using Device_kill_cases [of d ?b] by blast
    show ?thesis using Pair p k pb
      unfolding Device_disable_def
      by (auto simp: method_ok_def dev_ok_def changeState_def live_state_def)
  qed
qed

lemma method_fields:
  "port d' = port d \<Longrightarrow> state d' = state d \<Longrightarrow> pins b' = pins b \<Longrightarrow> method_ok (d, b) (d', b')"
  by (simp add: method_ok_def dev_ok_def)

lemma method_onHeartbeat: "method_ok x (onHeartbeat x)"
proof (cases x)
  case (Pair d b)
  let ?d = "d\<lparr>heartbeatTimer := Timer_reset (now b)\<rparr>"
  have f: "method_ok (d, b) (?d, b)" by (rule method_fields) auto
  show ?thesis
  proof (cases "state d = 0")
    case True
    then show ?thesis using Pair method_ok_trans [OF f method_disable [of "(?d, b)"]]
      by (simp add: onHeartbeat_def Let_def)
  next
    case False
    then show ?thesis using Pair f
      by (auto simp: onHeartbeat_def Let_def method_ok_def dev_ok_def changeState_def live_state_def)
  qed
qed

lemma method_setNextBootMedia: "method_ok x (setNextBootMedia m x)"
proof (cases x)
  case (Pair d b)
  have "validPort q \<Longrightarrow> pins (setBootMedia s v b) (POWER_PINS q) = pins b (POWER_PINS q)" for s v q
    by (rule setBootMedia_power)
  then show ?thesis using Pair by (simp add: setNextBootMedia_def method_ok_def dev_ok_def)
qed

lemma method_updateHeartbeat: "method_ok x (updateHeartbeat x)"
proof (cases x)
  case (Pair d b)
  let ?b = "b\<lparr>heartbeatCounters := (heartbeatCounters b)(port d := 0)\<rparr>"
  have "method_ok (d, b) (d, ?b)" by (rule method_fields) auto
  then show ?thesis using Pair method_ok_trans [OF _ method_onHeartbeat [of "(d, ?b)"]]
    by (simp add: updateHeartbeat_def method_ok_refl)
qed

lemma method_updateFault: "method_ok x (updateFault x)"
  by (cases x) (auto simp: updateFault_def Let_def intro!: method_fields)

lemma method_updateStarted: "method_ok x (updateStarted x)"
proof (cases x)
  case (Pair d b)
  let ?b = "on_ee (incrementBootFailures (port d)) b"
  have e: "method_ok (d, b) (d, ?b)" by (rule method_fields) (auto simp: on_ee_def)
  have t: "method_ok (d, b) (d\<lparr>currentLevelTimer := v\<rparr>, b)" for d b v
    by (rule method_fields) auto
  have st: "method_ok (d, b) (snd (Device_stop (d, ?b)))"
    by (rule method_ok_trans [OF e method_stop])
  have m: "method_ok (d, b) (updateStartedManaged (d, b))"
  proof -
    let ?c = "watchHeartbeat d \<and> Timer_exceeds (now b) (heartbeatTimer d) HEARTBEAT_TIMEOUT"
    obtain d1 b1 where eq: "(if ?c then snd (Device_stop (d, ?b)) else (d, b)) = (d1, b1)"
      by (meson surj_pair)
    have "method_ok (d, b) (d1, b1)"
      unfolding eq [symmetric] using st by (simp add: method_ok_refl)
    then show ?thesis
      using method_ok_trans [OF _ t [of d1 b1]]
      unfolding updateStartedManaged_def case_prod_conv eq Let_def by simp
  qed
  have "method_ok (d, b) (updateStartedUnmanaged (d, b))"
    by (auto simp: updateStartedUnmanaged_def method_ok_refl
        intro!: method_ok_trans [OF method_setNextBootMedia method_stop])
  with m Pair show ?thesis by (simp add: updateStarted_def)
qed

lemma method_updateState: "method_ok x (updateState x)"
proof (cases x)
  case (Pair d b)
  have f: "method_ok (d, b) (d', b')" if "port d' = port d" "state d' = state d" "pins b' = pins b" for d' b'
    using that by (rule method_fields)
  show ?thesis
    unfolding Pair updateState_def updateDisabled_def updateStarting_def updateStopping_def
      setStopTimeout_def on_ee_def
    by (auto simp: Let_def method_ok_refl method_enable method_updateStarted f
        intro!: method_ok_trans [OF f method_kill])
qed

lemma method_update: "method_ok x (Device_update x)"
  unfolding Device_update_def
  by (rule method_ok_trans [OF method_updateHeartbeat
        method_ok_trans [OF method_updateFault method_updateState]])

interpretation start_m: device_method "\<lambda>x. snd (Device_start x)"
  by unfold_locales (rule method_start)
interpretation stop_m: device_method "\<lambda>(d, b). snd (Device_stop (setStopTimeout t d, b))" for t
proof
  fix x :: "device \<times> board"
  have "method_ok x (setStopTimeout t (fst x), snd x)"
    by (simp add: method_ok_def dev_ok_def setStopTimeout_def)
  from method_ok_trans [OF this method_stop]
  show "method_ok x (case x of (d, b) \<Rightarrow> snd (Device_stop (setStopTimeout t d, b)))"
    by (simp add: case_prod_unfold)
qed
interpretation kill_m: device_method "\<lambda>x. snd (Device_kill x)"
  by unfold_locales (rule method_kill)
interpretation enable_m: device_method "\<lambda>x. snd (Device_enable x)"
  by unfold_locales (rule method_enable)
interpretation disable_m: device_method "\<lambda>x. snd (Device_disable x)"
  by unfold_locales (rule method_disable)
interpretation heartbeat_m: device_method sendExternalHeartbeat
  by unfold_locales (simp add: sendExternalHeartbeat_def method_onHeartbeat)
interpretation media_m: device_method "setNextBootMedia m" for m
  by unfold_locales (rule method_setNextBootMedia)
interpretation update_m: device_method Device_update
  by unfold_locales (rule method_update)

section \<open>Safety of the table\<close>

lemma fold_on_dev_inv:
  assumes "\<And>i s. i \<in> set is \<Longrightarrow> table_inv s \<Longrightarrow> table_inv (g i s)" and "table_inv s"
  shows "table_inv (fold g is s)"
  using assms by (induction "is" arbitrary: s) auto

lemma port_list: "i \<in> set [0, 1, 2, 3, 4] \<Longrightarrow> validPort i"
  by (auto simp: validPort_def)

lemma table_inv_brd:
  "pins (brd t) = pins (brd s) \<Longrightarrow> devices t = devices s \<Longrightarrow> table_inv t = table_inv s"
  by (simp add: table_inv_def dev_ok_def)

lemma start_first_inv: "set is \<subseteq> {i. validPort i} \<Longrightarrow> table_inv s \<Longrightarrow> table_inv (start_first is s)"
proof (induction "is" arbitrary: s)
  case (Cons i "is")
  let ?s = "s\<lparr>brd := (brd s)\<lparr>startTimer := Timer_reset (now (brd s))\<rparr>\<rparr>"
  have "table_inv ?s" using Cons.prems(2) by (subst table_inv_brd [of _ s]) auto
  with Cons show ?case by (auto intro: start_m.table)
qed simp

lemma startNextDevice_inv: "table_inv s \<Longrightarrow> table_inv (startNextDevice s)"
proof -
  assume inv: "table_inv s"
  let ?s = "s\<lparr>brd := (brd s)\<lparr>startTimer := Timer_reset (now (brd s))\<rparr>\<rparr>"
  have a: "table_inv ?s" using inv by (subst table_inv_brd [of _ s]) auto
  have b: "table_inv (s'\<lparr>deviceWantsStart := v\<rparr>) = table_inv s'" for s' v
    by (rule table_inv_brd) auto
  show ?thesis using inv a
    by (auto simp: startNextDevice_def Let_def b port_list [simplified] intro: start_m.table
        intro!: start_first_inv)
qed

lemma commandEnable_inv: "table_inv s \<Longrightarrow> table_inv (snd (commandEnable args s))"
  by (induction args arbitrary: s) (auto simp: enable_m.table)

lemma commandDisable_inv: "table_inv s \<Longrightarrow> table_inv (snd (commandDisable args s))"
  by (induction args arbitrary: s) (auto simp: disable_m.table)

lemma sys_step_inv: "sys_step s t \<Longrightarrow> table_inv s \<Longrightarrow> table_inv t"
proof (induction rule: sys_step.induct)
  case (world s t h c r)
  then show ?case by (subst table_inv_brd [of _ s]) auto
next
  case (loop s)
  then show ?case unfolding loop_devices_def Let_def
    by (intro fold_on_dev_inv update_m.table port_list) (auto intro: startNextDevice_inv)
next
  case (ping s args)
  then show ?case by (auto simp: commandPing_def Let_def intro: heartbeat_m.table split: list.splits)
next
  case (start s args)
  then show ?case by (auto simp: commandStart_def Let_def table_inv_def split: list.splits)
next
  case (stop s args)
  then show ?case by (auto simp: commandStop_def Let_def intro: stop_m.table split: list.splits)
next
  case (reset s args)
  then show ?case by (auto simp: commandReset_def Let_def table_inv_def split: list.splits)
qed (auto intro: commandEnable_inv commandDisable_inv media_m.table)

lemma recover_relay_inv: "validPort i \<Longrightarrow> table_inv s \<Longrightarrow> table_inv (recover_relay i s)"
proof -
  assume i: "validPort i" and inv: "table_inv s"
  have "table_inv (s\<lparr>brd := on_ee f (brd s)\<rparr>)" for f
    using inv by (subst table_inv_brd [of _ s]) (auto simp: on_ee_def)
  then show ?thesis using i inv
    by (auto simp: recover_relay_def Let_def intro!: disable_m.table kill_m.table)
qed

lemma Device_init_fields:
  "port (Device_init b d) = port d" "live_state (state (Device_init b d))"
  "state (Device_init b d) = (if getDeviceEnabled (port d) (ee b) then 1 else 0)"
  by (simp_all add: Device_init_def Let_def setStopTimeout_def changeState_def live_state_def)

lemma init_fold:
  "fold (\<lambda>i. on_dev i (\<lambda>(d, b). (Device_init b d, b))) is s =
   s\<lparr>devices := (\<lambda>i. if i \<in> set is then (Device_init (brd s) ^^ count_list is i) (devices s i)
       else devices s i)\<rparr>"
proof (induction "is" arbitrary: s)
  case Nil
  then show ?case by simp
next
  case (Cons i "is")
  show ?case unfolding fold_simps comp_apply Cons.IH
    by (auto simp: on_dev_def fun_eq_iff funpow_swap1 count_list_0_iff)
qed

lemma setupDevices_split:
  "setupDevices s = fold recover_relay [0, 1, 2, 3, 4] (s\<lparr>devices := (\<lambda>i.
     if validPort i then Device_init (brd s) (device_table i) else device_table i)\<rparr>)"
  unfolding setupDevices_def Let_def init_fold
  by (rule arg_cong [where f = "fold recover_relay _"]) (auto simp: validPort_def u8_less_5 fun_eq_iff)

lemma device_table_port: "validPort i \<Longrightarrow> port (device_table i) = i"
  by (auto simp: validPort_def u8_less_5 device_table_def blank_device_def)

lemma setupDevices_inv:
  assumes "pins_low s"
  shows "table_inv (setupDevices s)"
  unfolding setupDevices_split
proof (rule fold_on_dev_inv)
  show "table_inv (s\<lparr>devices := \<lambda>i. if validPort i then Device_init (brd s) (device_table i)
      else device_table i\<rparr>)"
    using assms by (auto simp: table_inv_def dev_ok_def Device_init_fields device_table_port pins_low_def
        live_state_def getDeviceEnabled_def)
qed (auto intro: recover_relay_inv simp: validPort_def)

lemma reachable_inv: "reachable s \<Longrightarrow> table_inv s"
  by (induction rule: reachable.induct) (auto intro: setupDevices_inv sys_step_inv)

text \<open>
  In every state the firmware can reach from power-up, by any interleaving of loop passes,
  commands and passing time and with any EEPROM contents, a disabled device has its power pin low.
\<close>

theorem disabled_never_powered:
  assumes "reachable s" and "validPort i" and "state (devices s i) = STATE_DISABLED"
  shows "\<not> pins (brd s) (POWER_PINS i)"
  using reachable_inv [OF assms(1)] assms(2,3) by (auto simp: table_inv_def dev_ok_def)

text \<open>
  Every reachable device is in one of the four states disabled, stopped, started and stopping
  and keeps the port number of its slot: the state \<^verbatim>\<open>STATE_STARTING\<close>, with its five-minute kill in
  \<^verbatim>\<open>updateStarting\<close>, is never entered.
\<close>

theorem starting_unreachable:
  assumes "reachable s" and "validPort i"
  shows "state (devices s i) \<in> {STATE_DISABLED, STATE_STOPPED, STATE_STARTED, STATE_STOPPING} \<and>
    port (devices s i) = i"
  using reachable_inv [OF assms(1)] assms(2) by (auto simp: table_inv_def dev_ok_def live_state_def)

text \<open>A board just powered up, with an EEPROM of zeros: devices 1 to 4 are disabled.\<close>

definition boot_sys :: sys where
  "boot_sys = \<lparr>devices = (\<lambda>_. blank_device), brd = \<lparr>ee = (\<lambda>_. 0), now = 0, wireEnabled = True,
     rtc = 0, pins = (\<lambda>_. False), writes = [], heartbeatCounters = (\<lambda>_. 0), currents = (\<lambda>_. 0),
     startTimer = 0\<rparr>, deviceWantsStart = 255, bootflags = 1, shouldResetSystem = False,
     shouldResetTimeout = 0, shouldResetTimer = 0\<rparr>"

lemma boot_sys_reachable: "reachable (setupDevices boot_sys)"
  by (rule reachable.boot) (simp add: pins_low_def boot_sys_def)

lemma boot_sys_devices:
  "setupDevices boot_sys = boot_sys\<lparr>devices := (\<lambda>i.
     if validPort i then Device_init (brd boot_sys) (device_table i) else device_table i)\<rparr>"
  unfolding setupDevices_split
  by (simp add: recover_relay_def getRelayState_def ee_read_def boot_sys_def)

theorem disabled_never_powered_witness:
  "reachable (setupDevices boot_sys) \<and> validPort 3 \<and>
   state (devices (setupDevices boot_sys) 3) = STATE_DISABLED \<and>
   \<not> pins (brd (setupDevices boot_sys)) (POWER_PINS 3)"
proof -
  have v: "validPort 3" by (simp add: validPort_def)
  have st: "state (devices (setupDevices boot_sys) 3) = STATE_DISABLED"
    unfolding boot_sys_devices using v
    by (simp add: Device_init_fields device_table_port getDeviceEnabled_def ee_read_def boot_sys_def)
  show ?thesis
    using boot_sys_reachable v st disabled_never_powered [OF boot_sys_reachable v st] by blast
qed

theorem starting_unreachable_witness:
  "reachable (setupDevices boot_sys) \<and> validPort 3 \<and>
   state (devices (setupDevices boot_sys) 3) \<noteq> STATE_STARTING"
proof -
  have v: "validPort 3" by (simp add: validPort_def)
  show ?thesis
    using boot_sys_reachable v starting_unreachable [OF boot_sys_reachable v] by auto
qed

end
