(* ===== verification/Command_Line.thy ===== *)
theory Command_Line
  imports Wagman_Prelude
begin

text \<open>
  The command line of the firmware (\<^verbatim>\<open>processCommand\<close> of \<^verbatim>\<open>firmware/firmware.ino\<close>): the line in the buffer is cut
  into words in place, by writing a zero byte behind each, and \<^verbatim>\<open>argv\<close> points into the buffer. The
  buffer is the list of its characters and a pointer an index into it; a read past the end of the
  buffer is \<open>None\<close>. The character classes and \<^verbatim>\<open>atoi\<close> are those of the C library of the processor, whose
  \<^verbatim>\<open>atoi\<close> computes in 16 bits.
\<close>

section \<open>Characters and numbers\<close>

definition isspace :: "char \<Rightarrow> bool" where
  "isspace c \<longleftrightarrow> (let n = of_char c :: nat in 9 \<le> n \<and> n \<le> 13 \<or> n = 32)"

definition isgraph :: "char \<Rightarrow> bool" where
  "isgraph c \<longleftrightarrow> (let n = of_char c :: nat in 33 \<le> n \<and> n \<le> 126)"

definition NUL :: char where "NUL = CHR 0x00"

definition digit_value :: "char \<Rightarrow> nat option" where
  "digit_value c = (let n = of_char c :: nat in if 48 \<le> n \<and> n \<le> 57 then Some (n - 48) else None)"

fun digits :: "int \<Rightarrow> string \<Rightarrow> int" where
  "digits acc [] = acc"
| "digits acc (c # cs) = (case digit_value c of None \<Rightarrow> acc | Some d \<Rightarrow> digits (10 * acc + int d) cs)"

definition atoi :: "string \<Rightarrow> int" where
  "atoi s =
    (let s = dropWhile isspace s;
         v = (case s of [] \<Rightarrow> 0
              | c # cs \<Rightarrow> if c = CHR ''-'' then - digits 0 cs else if c = CHR ''+'' then digits 0 cs else digits 0 s)
     in sint (word_of_int v :: u16))"

section \<open>Cutting the line\<close>

definition MAX_ARGC :: nat where "MAX_ARGC = 8"

definition peek :: "char list \<Rightarrow> nat \<Rightarrow> char option" where
  "peek buf s = (if s < length buf then Some (buf ! s) else None)"

function scan_while :: "(char \<Rightarrow> bool) \<Rightarrow> char list \<Rightarrow> nat \<Rightarrow> nat" where
  "scan_while P buf s = (if s < length buf \<and> P (buf ! s) then scan_while P buf (Suc s) else s)"
  by pat_completeness auto
termination by (relation "measure (\<lambda>(P, buf, s). length buf - s)") auto

declare scan_while.simps [simp del]

lemma scan_while_le: "s \<le> scan_while P buf s"
  by (induction P buf s rule: scan_while.induct) (subst scan_while.simps, auto)

function parse_loop :: "nat list \<Rightarrow> char list \<Rightarrow> nat \<Rightarrow> (nat list \<times> char list) option" where
  "parse_loop argv buf s =
    (if MAX_ARGC \<le> length argv then Some (argv, buf)
     else let s = scan_while isspace buf s
       in case peek buf s of None \<Rightarrow> None
       | Some c \<Rightarrow>
         let argv' = (if isgraph c then argv @ [s] else argv);
             s = (if isgraph c then scan_while isgraph buf s else s)
         in case peek buf s of None \<Rightarrow> None
            | Some c \<Rightarrow> if c = NUL then Some (argv', buf) else parse_loop argv' (buf[s := NUL]) (Suc s))"
  by pat_completeness auto
termination
proof (relation "measure (\<lambda>(argv, buf, s). length buf - s)", goal_cases)
  case 1 then show ?case by simp
next
  case (2 argv buf s s1 c argv' s2 c')
  then have "s2 < length buf" by (auto simp: peek_def split: if_splits)
  moreover have "s \<le> s2" using 2(2,5) scan_while_le order_trans by (auto split: if_splits) (blast intro: order_trans scan_while_le)
  ultimately show ?case by simp
qed

declare parse_loop.simps [simp del]

definition cstr :: "char list \<Rightarrow> nat \<Rightarrow> string" where
  "cstr buf p = takeWhile (\<lambda>c. c \<noteq> NUL) (drop p buf)"

definition split_line :: "char list \<Rightarrow> (string list \<times> char list) option" where
  "split_line buf = map_option (\<lambda>(argv, buf). (map (cstr buf) argv, buf)) (parse_loop [] buf 0)"

text \<open>The words of a line: the longest runs of printing characters.\<close>

function graph_words :: "string \<Rightarrow> string list" where
  "graph_words [] = []"
| "graph_words (c # cs) = (if isgraph c then takeWhile isgraph (c # cs) # graph_words (dropWhile isgraph (c # cs))
     else graph_words cs)"
  by pat_completeness auto
termination
proof (relation "measure length", goal_cases)
  case (2 c cs)
  then show ?case using length_dropWhile_le [of isgraph cs] by (simp add: le_imp_less_Suc)
qed auto

section \<open>The words found\<close>

lemma scan_while_app:
  assumes "\<not> P y"
  shows "scan_while P (pre @ xs @ y # rest) (length pre) = length pre + length (takeWhile P xs)"
proof (induction xs arbitrary: pre)
  case Nil
  then show ?case using assms by (simp add: scan_while.simps)
next
  case (Cons x xs)
  show ?case
  proof (cases "P x")
    case True
    then show ?thesis using Cons [of "pre @ [x]"] by (subst scan_while.simps) (simp add: nth_append)
  next
    case False
    then show ?thesis by (subst scan_while.simps) (simp add: nth_append)
  qed
qed

lemma isspace_not_graph: "isspace c \<Longrightarrow> \<not> isgraph c"
  by (auto simp: isspace_def isgraph_def Let_def)

lemma NUL_class [simp]: "\<not> isspace NUL" "\<not> isgraph NUL"
  by (simp_all add: isspace_def isgraph_def NUL_def)

lemma graph_words_skip: "graph_words line = graph_words (dropWhile isspace line)"
  by (induction line) (simp_all add: isspace_not_graph)

lemma graph_words_Cons_graph:
  "isgraph c \<Longrightarrow> graph_words (c # cs) = takeWhile isgraph (c # cs) # graph_words (tl (dropWhile isgraph (c # cs)))"
proof -
  assume c: "isgraph c"
  have "graph_words (dropWhile isgraph cs) = graph_words (tl (dropWhile isgraph cs))"
  proof (cases "dropWhile isgraph cs")
    case (Cons d ds)
    then have "\<not> isgraph d" using hd_dropWhile [of isgraph cs] by simp
    then show ?thesis unfolding Cons by simp
  next
    case Nil
    show ?thesis unfolding Nil by simp
  qed
  then show ?thesis using c by simp
qed

lemma peek_app: "peek (pre @ x # rest) (length pre) = Some x"
  by (simp add: peek_def)

text \<open>One word: \<open>ws\<close> is skipped, \<open>w\<close> is the word, if there is one, and \<open>r\<close> what follows it.\<close>

lemma parse_loop_step:
  assumes "length argv < MAX_ARGC" "\<forall>c\<in>set ws. isspace c" "\<forall>c\<in>set w. isgraph c" "NUL \<notin> set r"
    "r \<noteq> [] \<longrightarrow> \<not> isgraph (hd r)" "w = [] \<longrightarrow> r = [] \<or> \<not> isspace (hd r)"
  shows "parse_loop argv (pre @ ws @ w @ r @ NUL # rest) (length pre) =
    (let argv' = (if w = [] then argv else argv @ [length pre + length ws])
     in if r = [] then Some (argv', pre @ ws @ w @ r @ NUL # rest)
        else parse_loop argv' ((pre @ ws @ w @ [NUL]) @ tl r @ NUL # rest) (length (pre @ ws @ w @ [NUL])))"
proof -
  obtain y tail where t: "r @ NUL # rest = y # tail" "\<not> isgraph y" "r = [] \<longrightarrow> y = NUL" "r \<noteq> [] \<longrightarrow> y \<noteq> NUL"
      "w = [] \<longrightarrow> \<not> isspace y" "r \<noteq> [] \<longrightarrow> tail = tl r @ NUL # rest"
    using assms(4-6) by (cases r) auto
  let ?buf = "pre @ ws @ w @ y # tail"
  have buf: "pre @ ws @ w @ r @ NUL # rest = ?buf" by (simp add: t(1))
  have z: "\<exists>z zs. w @ y # tail = z # zs \<and> \<not> isspace z \<and> (isgraph z \<longleftrightarrow> w \<noteq> [])"
    using t(2,5) assms(3) isspace_not_graph by (cases w) auto
  then obtain z zs where zs: "w @ y # tail = z # zs" "\<not> isspace z" "isgraph z \<longleftrightarrow> w \<noteq> []" by blast
  have s1: "scan_while isspace ?buf (length pre) = length pre + length ws"
    using scan_while_app [of isspace z pre ws zs] zs assms(2) by (simp add: takeWhile_eq_all_conv [THEN iffD2])
  have p1: "peek ?buf (length pre + length ws) = Some z" using peek_app [of "pre @ ws" z zs] zs(1) by simp
  have s2: "scan_while isgraph ?buf (length pre + length ws) = length pre + length ws + length w"
    using scan_while_app [of isgraph y "pre @ ws" w tail] t(2) assms(3) by (simp add: takeWhile_eq_all_conv [THEN iffD2])
  have p2: "peek ?buf (length pre + length ws + length w) = Some y" using peek_app [of "pre @ ws @ w" y tail] by (simp add: add.assoc)
  have up: "?buf[length pre + length ws + length w := NUL] = pre @ ws @ w @ NUL # tail"
    by (simp add: list_update_append)
  show ?thesis
    unfolding buf using assms(1) t(3,4,6) zs(3) s1 p1 s2 p2 up
    by (subst parse_loop.simps) (auto simp: Let_def add.assoc)
qed

lemma cstr_app: "NUL \<notin> set w \<Longrightarrow> cstr (a @ w @ NUL # b) (length a) = w"
  unfolding cstr_def by (simp, induction w) auto

lemma graph_no_NUL: "\<forall>c\<in>set w. isgraph c \<Longrightarrow> NUL \<notin> set w"
  by auto

lemma graph_words_parts:
  assumes "NUL \<notin> set line"
  obtains ws w r where "line = ws @ w @ r" "\<forall>c\<in>set ws. isspace c" "\<forall>c\<in>set w. isgraph c" "NUL \<notin> set r"
    "r \<noteq> [] \<longrightarrow> \<not> isgraph (hd r)" "w = [] \<longrightarrow> r = [] \<or> \<not> isspace (hd r)"
    "graph_words line = (if w = [] then [] else [w]) @ graph_words (tl r)"
proof -
  let ?l = "dropWhile isspace line"
  let ?w = "takeWhile isgraph ?l" and ?r = "dropWhile isgraph ?l"
  have r: "?r \<noteq> [] \<longrightarrow> \<not> isgraph (hd ?r)" using hd_dropWhile [of isgraph ?l] by blast
  have sp: "?w = [] \<longrightarrow> ?r = [] \<or> \<not> isspace (hd ?r)"
  proof (cases ?l)
    case Nil
    show ?thesis unfolding Nil by simp
  next
    case (Cons c cs)
    then have "\<not> isspace c" using hd_dropWhile [of isspace line] by simp
    then show ?thesis unfolding Cons by simp
  qed
  have "graph_words line = (if ?w = [] then [] else [?w]) @ graph_words (tl ?r)"
  proof (cases ?l)
    case Nil
    show ?thesis unfolding graph_words_skip [of line] Nil by simp
  next
    case (Cons c cs)
    then show ?thesis unfolding graph_words_skip [of line] Cons
      by (cases "isgraph c") (simp_all add: graph_words_Cons_graph del: graph_words.simps(2), simp)
  qed
  moreover have "NUL \<notin> set ?r" using assms set_dropWhileD by metis
  ultimately show thesis
    using that [of "takeWhile isspace line" ?w ?r] r sp set_takeWhileD [of _ isspace line] set_takeWhileD [of _ isgraph ?l]
    by auto
qed

lemma parse_loop_words:
  assumes "NUL \<notin> set line" "length argv \<le> MAX_ARGC"
  shows "\<exists>argv' buf'. parse_loop argv (pre @ line @ NUL # rest) (length pre) = Some (argv @ argv', pre @ buf') \<and>
    length buf' = length line + 1 + length rest \<and> map (cstr (pre @ buf')) argv' = take (MAX_ARGC - length argv) (graph_words line)"
  using assms
proof (induction "length line" arbitrary: line argv pre rule: less_induct)
  case less
  show ?case
  proof (cases "length argv = MAX_ARGC")
    case True
    then show ?thesis by (subst parse_loop.simps) simp
  next
    case False
    with less(3) have room: "length argv < MAX_ARGC" by simp
    obtain ws w r where l: "line = ws @ w @ r" "\<forall>c\<in>set ws. isspace c" "\<forall>c\<in>set w. isgraph c" "NUL \<notin> set r"
        "r \<noteq> [] \<longrightarrow> \<not> isgraph (hd r)" "w = [] \<longrightarrow> r = [] \<or> \<not> isspace (hd r)"
        "graph_words line = (if w = [] then [] else [w]) @ graph_words (tl r)"
      using less(2) by (rule graph_words_parts)
    define a where "a = (if w = [] then [] else [length pre + length ws])"
    have step: "parse_loop argv (pre @ line @ NUL # rest) (length pre) =
        (if r = [] then Some (argv @ a, pre @ line @ NUL # rest)
         else parse_loop (argv @ a) ((pre @ ws @ w @ [NUL]) @ tl r @ NUL # rest) (length (pre @ ws @ w @ [NUL])))"
      using parse_loop_step [OF room l(2-6)] by (simp add: l(1) a_def Let_def)
    have word: "map (cstr ((pre @ ws @ w @ NUL # b))) a = (if w = [] then [] else [w])" for b
      using cstr_app [OF graph_no_NUL [OF l(3)], of "pre @ ws" b] by (simp add: a_def)
    have la: "length a = length (if w = [] then [] else [w])" by (simp add: a_def)
    show ?thesis
    proof (cases "r = []")
      case True
      then show ?thesis using step word [of rest] l(1,7) room by (auto simp: MAX_ARGC_def)
    next
      case False
      have "\<exists>argv' buf'. parse_loop (argv @ a) ((pre @ ws @ w @ [NUL]) @ tl r @ NUL # rest) (length (pre @ ws @ w @ [NUL])) =
          Some ((argv @ a) @ argv', (pre @ ws @ w @ [NUL]) @ buf') \<and> length buf' = length (tl r) + 1 + length rest \<and>
          map (cstr ((pre @ ws @ w @ [NUL]) @ buf')) argv' = take (MAX_ARGC - length (argv @ a)) (graph_words (tl r))"
        by (rule less(1)) (use False l(1,4) room in \<open>auto simp: a_def diff_less less_Suc_eq_le dest: list.set_sel(2) intro: order.strict_trans2 [of _ "length r"]\<close>)
      then obtain argv' buf' where "parse_loop argv (pre @ line @ NUL # rest) (length pre) =
          Some (argv @ a @ argv', pre @ ws @ w @ NUL # buf')" "length buf' = length (tl r) + 1 + length rest"
          "map (cstr (pre @ ws @ w @ NUL # buf')) argv' = take (MAX_ARGC - length (argv @ a)) (graph_words (tl r))"
        using step False by auto
      moreover have "length (ws @ w @ NUL # buf') = length line + 1 + length rest"
        using False calculation(2) by (cases r) (simp_all add: l(1))
      ultimately show ?thesis using word [of buf'] l(7) room la
        by (intro exI [of _ "a @ argv'"] exI [of _ "ws @ w @ NUL # buf'"]) (auto simp: MAX_ARGC_def)
    qed
  qed
qed

lemma split_line_words:
  assumes "NUL \<notin> set line"
  shows "\<exists>buf'. split_line (line @ NUL # rest) = Some (take 8 (graph_words line), buf') \<and>
    length buf' = length line + 1 + length rest"
  using parse_loop_words [OF assms, of "[]" "[]" rest] by (auto simp: split_line_def MAX_ARGC_def)

lemma graph_words_nonempty: "w \<in> set (graph_words line) \<Longrightarrow> w \<noteq> []"
  by (induction line rule: graph_words.induct) (auto split: if_splits)

end
