(* ===== verification/Calendar.thy ===== *)
theory Calendar
  imports Wagman_Prelude "HOL-Library.Monad_Syntax"
begin

text \<open>
  The calendar arithmetic of \<^verbatim>\<open>firmware/Time.cpp\<close>: \<^verbatim>\<open>breakTime\<close> splits seconds since 1970 into a date, \<^verbatim>\<open>makeTime\<close>
  puts a date together. An \<^verbatim>\<open>unsigned\<close> of the processor has 16 bits, which matters for the loop over the
  years; that loop is a partial function, since on arbitrary input it need not end. \<^verbatim>\<open>makeTime\<close> reads the
  table of month lengths without a bound check; a read past its end is \<open>None\<close>.
\<close>

record tmElements =
  Second :: u8
  Minute :: u8
  Hour :: u8
  Wday :: u8
  Day :: u8
  Month :: u8
  Year :: u8

definition SECS_PER_MIN :: u32 where "SECS_PER_MIN = 60"
definition SECS_PER_HOUR :: u32 where "SECS_PER_HOUR = 3600"
definition SECS_PER_DAY :: u32 where "SECS_PER_DAY = SECS_PER_HOUR * 24"

definition LEAP_YEAR :: "nat \<Rightarrow> bool" where
  "LEAP_YEAR y \<longleftrightarrow> 1970 + y > 0 \<and> (1970 + y) mod 4 = 0 \<and> ((1970 + y) mod 100 \<noteq> 0 \<or> (1970 + y) mod 400 = 0)"

definition monthDays :: "nat list" where
  "monthDays = [31, 28, 31, 30, 31, 30, 31, 31, 30, 31, 30, 31]"

section \<open>breakTime\<close>

definition year_days :: "nat \<Rightarrow> nat" where
  "year_days y = (if LEAP_YEAR y then 366 else 365)"

partial_function (option) year_loop :: "u8 \<Rightarrow> u32 \<Rightarrow> u32 \<Rightarrow> (u8 \<times> u32) option" where
  "year_loop year days time =
    (let days = days + of_nat (year_days (unat year))
     in if (ucast (ucast days :: u16) :: u32) \<le> time then year_loop (year + 1) days time else Some (year, days))"

definition month_length :: "u8 \<Rightarrow> nat \<Rightarrow> nat" where
  "month_length year month = (if month = 1 then if LEAP_YEAR (unat year) then 29 else 28 else monthDays ! month)"

fun month_loop :: "u8 \<Rightarrow> nat \<Rightarrow> nat \<Rightarrow> u32 \<Rightarrow> nat \<times> u32" where
  "month_loop year 0 month time = (month, time)"
| "month_loop year (Suc left) month time =
    (let monthLength = month_length year month
     in if of_nat monthLength \<le> time then month_loop year left (Suc month) (time - of_nat monthLength)
        else (month, time))"

definition breakTime :: "u32 \<Rightarrow> tmElements option" where
  "breakTime timeInput = do {
     let time = timeInput;
     let sec = ucast (time mod 60);
     let time = time div 60;
     let min = ucast (time mod 60);
     let time = time div 60;
     let hr = ucast (time mod 24);
     let time = time div 24;
     let wd = ucast ((time + 4) mod 7 + 1);
     (year, days) \<leftarrow> year_loop 0 0 time;
     let days = days - of_nat (year_days (unat year));
     let time = time - days;
     let (month, time) = month_loop year 12 0 time;
     Some \<lparr>Second = sec, Minute = min, Hour = hr, Wday = wd, Day = ucast (time + 1), Month = of_nat (month + 1),
       Year = year\<rparr>
   }"

section \<open>makeTime\<close>

fun add_leap_days :: "nat \<Rightarrow> nat \<Rightarrow> u32 \<Rightarrow> u32" where
  "add_leap_days 0 i seconds = seconds"
| "add_leap_days (Suc left) i seconds =
     add_leap_days left (Suc i) (if LEAP_YEAR i then seconds + SECS_PER_DAY else seconds)"

fun add_months :: "u8 \<Rightarrow> nat \<Rightarrow> nat \<Rightarrow> u32 \<Rightarrow> u32 option" where
  "add_months year 0 i seconds = Some seconds"
| "add_months year (Suc left) i seconds =
    (if i = 2 \<and> LEAP_YEAR (unat year) then add_months year left (Suc i) (seconds + SECS_PER_DAY * 29)
     else if i - 1 < length monthDays
     then add_months year left (Suc i) (seconds + SECS_PER_DAY * of_nat (monthDays ! (i - 1)))
     else None)"

definition makeTime :: "tmElements \<Rightarrow> u32 option" where
  "makeTime tm = do {
     let seconds = ucast (Year tm) * (SECS_PER_DAY * 365);
     let seconds = add_leap_days (unat (Year tm)) 0 seconds;
     seconds \<leftarrow> add_months (Year tm) (unat (Month tm) - 1) 1 seconds;
     let seconds = seconds + (ucast (Day tm) - 1) * SECS_PER_DAY;
     let seconds = seconds + ucast (Hour tm) * SECS_PER_HOUR;
     let seconds = seconds + ucast (Minute tm) * SECS_PER_MIN;
     Some (seconds + ucast (Second tm))
   }"

section \<open>Days before a year and a month\<close>

definition days_before :: "nat \<Rightarrow> nat" where
  "days_before y = (\<Sum>i<y. year_days i)"

lemma days_before_Suc: "days_before (Suc y) = days_before y + year_days y"
  by (simp add: days_before_def)

lemma days_before_mono: "y \<le> z \<Longrightarrow> days_before y \<le> days_before z"
  unfolding days_before_def by (rule sum_mono2) auto

lemma days_before_bounds: "365 * y \<le> days_before y" "days_before y \<le> 366 * y"
  by (induction y) (auto simp: days_before_def year_days_def)

text \<open>The last second that 32 bits can count lies in the year 2106, and the days up to then fit 16 bits.\<close>

lemma days_before_137: "days_before 137 < 65536" "49710 < days_before 137"
  using days_before_bounds [of 137] by simp_all

lemma year_days_bound: "year_days y \<le> 366"
  by (simp add: year_days_def)

lemma year_loop_runs:
  assumes "days_before (unat y) \<le> D" "D < days_before 137" "unat y < 137"
  shows "\<exists>z. year_loop y (of_nat (days_before (unat y))) (of_nat D) = Some (z, of_nat (days_before (Suc (unat z)))) \<and>
    days_before (unat z) \<le> D \<and> D < days_before (Suc (unat z)) \<and> unat z < 137"
  using assms
proof (induction "137 - unat y" arbitrary: y rule: less_induct)
  case less
  let ?n = "days_before (Suc (unat y))"
  have n: "?n < 65536" using days_before_mono [of "Suc (unat y)" 137] less(4) days_before_137 by simp
  have cut: "(ucast (ucast (of_nat ?n :: u32) :: u16) :: u32) = of_nat ?n"
    using n by (simp add: word_unat_eq_iff unsigned_ucast_eq take_bit_eq_mod unat_of_nat unat_mod)
  have le: "(of_nat ?n :: u32) \<le> of_nat D \<longleftrightarrow> ?n \<le> D"
    using n less(3) days_before_137 by (simp add: word_le_nat_alt unat_of_nat)
  have step: "year_loop y (of_nat (days_before (unat y))) (of_nat D) =
      (if ?n \<le> D then year_loop (y + 1) (of_nat ?n) (of_nat D) else Some (y, of_nat ?n))"
    using cut le by (subst year_loop.simps) (simp add: days_before_Suc Let_def)
  show ?case
  proof (cases "?n \<le> D")
    case True
    then have "unat y < 136" using less(3) days_before_137 less(4) by (cases "unat y = 136") auto
    then have y: "unat (y + 1) = Suc (unat y)" by (simp add: unat_word_ariths)
    have "\<exists>z. year_loop (y + 1) (of_nat (days_before (unat (y + 1)))) (of_nat D) = Some (z, of_nat (days_before (Suc (unat z)))) \<and>
        days_before (unat z) \<le> D \<and> D < days_before (Suc (unat z)) \<and> unat z < 137"
      by (rule less(1)) (use True y \<open>unat y < 136\<close> less(3) in simp_all)
    then show ?thesis using step True by (simp add: y)
  next
    case False
    then show ?thesis using step less by simp
  qed
qed

definition month_days_before :: "u8 \<Rightarrow> nat \<Rightarrow> nat" where
  "month_days_before y m = (\<Sum>i<m. month_length y i)"

lemma year_months: "month_days_before y 12 = year_days (unat y)"
  by (simp add: month_days_before_def month_length_def monthDays_def year_days_def numeral_eq_Suc)

lemma month_loop_runs:
  assumes "m + k = 12" "d < 366" "month_days_before y m + d < year_days (unat y)"
  shows "\<exists>m' d'. month_loop y k m (of_nat d) = (m', of_nat d') \<and> m' < 12 \<and> d' < month_length y m' \<and>
    month_days_before y m + d = month_days_before y m' + d'"
  using assms
proof (induction k arbitrary: m d)
  case 0
  then show ?case using year_months [of y] by simp
next
  case (Suc k)
  have b: "month_length y m < 366" using Suc(2) by (simp add: month_length_def monthDays_def nth_Cons split: nat.splits)
  have le: "(of_nat (month_length y m) :: u32) \<le> of_nat d \<longleftrightarrow> month_length y m \<le> d"
    using b Suc(3) by (simp add: word_le_nat_alt unat_of_nat)
  have s: "month_days_before y (Suc m) = month_days_before y m + month_length y m" by (simp add: month_days_before_def)
  show ?case
  proof (cases "month_length y m \<le> d")
    case True
    then have "(of_nat d - of_nat (month_length y m) :: u32) = of_nat (d - month_length y m)" by simp
    moreover have "\<exists>m' d'. month_loop y k (Suc m) (of_nat (d - month_length y m)) = (m', of_nat d') \<and> m' < 12 \<and>
        d' < month_length y m' \<and> month_days_before y (Suc m) + (d - month_length y m) = month_days_before y m' + d'"
      by (rule Suc(1)) (use Suc(2-4) True s in simp_all)
    ultimately show ?thesis using True le s by (simp add: Let_def)
  next
    case False
    then show ?thesis using le Suc(2) by (auto simp: Let_def)
  qed
qed

section \<open>The seconds of a date\<close>

definition leap_day :: "nat \<Rightarrow> nat" where
  "leap_day y = (if LEAP_YEAR y then 1 else 0)"

lemma sum_first: "sum f {i..<i + Suc n} = f i + sum f {Suc i..<Suc i + n}" for f :: "nat \<Rightarrow> nat"
  using sum.atLeast_Suc_lessThan [of i "i + Suc n" f] by (simp del: sum.op_ivl_Suc)

lemma add_leap_days_sum: "add_leap_days n i s = s + of_nat (86400 * sum leap_day {i..<i + n})"
proof (induction n arbitrary: i s)
  case (Suc n)
  show ?case unfolding sum_first add_leap_days.simps Suc
    by (simp add: leap_day_def SECS_PER_DAY_def SECS_PER_HOUR_def algebra_simps)
qed simp

lemma days_before_leaps: "days_before y = 365 * y + sum leap_day {0..<y}"
  by (induction y) (simp_all add: days_before_def year_days_def leap_day_def)

lemma year_seconds:
  "add_leap_days (unat y) 0 (ucast y * (SECS_PER_DAY * 365)) = of_nat (86400 * days_before (unat y))" for y :: u8
proof -
  have "(ucast y :: u32) = of_nat (unat y)" by simp
  then show ?thesis
    by (simp add: add_leap_days_sum days_before_leaps SECS_PER_DAY_def SECS_PER_HOUR_def algebra_simps)
qed

lemma add_months_sum:
  assumes "i - 1 + n \<le> 12" "0 < i"
  shows "add_months y n i s = Some (s + of_nat (86400 * (\<Sum>j=i - 1..<i - 1 + n. month_length y j)))"
  using assms
proof (induction n arbitrary: i s)
  case (Suc n)
  have i: "i - 1 < length monthDays" using Suc(2) by (simp add: monthDays_def)
  have "(\<Sum>j=i - 1..<i - 1 + Suc n. month_length y j) = month_length y (i - 1) + (\<Sum>j=i..<i + n. month_length y j)"
    using sum_first [of "month_length y" "i - 1" n] Suc(3) by simp
  moreover have "add_months y (Suc n) i s = add_months y n (Suc i) (s + of_nat (86400 * month_length y (i - 1)))"
    using i Suc(3) by (cases "i = 2") (auto simp: month_length_def monthDays_def SECS_PER_DAY_def SECS_PER_HOUR_def)
  moreover have "add_months y n (Suc i) (s + of_nat (86400 * month_length y (i - 1))) =
      Some (s + of_nat (86400 * month_length y (i - 1)) + of_nat (86400 * (\<Sum>j=i..<i + n. month_length y j)))"
    using Suc(1) [of "Suc i"] Suc(2,3) by simp
  ultimately show ?case by (simp add: algebra_simps)
qed simp

lemma makeTime_seconds:
  assumes "1 \<le> unat (Month tm)" "unat (Month tm) \<le> 12" "1 \<le> unat (Day tm)"
  shows "makeTime tm = Some (of_nat (86400 * (days_before (unat (Year tm)) +
    month_days_before (Year tm) (unat (Month tm) - 1) + (unat (Day tm) - 1)) +
    3600 * unat (Hour tm) + 60 * unat (Minute tm) + unat (Second tm)))"
proof -
  have m: "add_months (Year tm) (unat (Month tm) - 1) 1 s =
      Some (s + of_nat (86400 * month_days_before (Year tm) (unat (Month tm) - 1)))" for s
    using assms(2) by (simp add: add_months_sum month_days_before_def atLeast0LessThan)
  have d: "(ucast (Day tm) - 1 :: u32) = of_nat (unat (Day tm) - 1)" using assms(3) by (simp add: of_nat_diff)
  have u: "(ucast b :: u32) = of_nat (unat b)" for b :: u8 by simp
  obtain k where k: "unat (Day tm) = Suc k" using assms(3) by (cases "unat (Day tm)") auto
  show ?thesis unfolding makeTime_def Let_def year_seconds m d u [of "Hour tm"] u [of "Minute tm"] u [of "Second tm"] k
    by (simp add: SECS_PER_DAY_def SECS_PER_HOUR_def SECS_PER_MIN_def algebra_simps)
qed

definition valid_date :: "tmElements \<Rightarrow> bool" where
  "valid_date tm \<longleftrightarrow> unat (Second tm) < 60 \<and> unat (Minute tm) < 60 \<and> unat (Hour tm) < 24 \<and>
     1 \<le> unat (Month tm) \<and> unat (Month tm) \<le> 12 \<and>
     1 \<le> unat (Day tm) \<and> unat (Day tm) \<le> month_length (Year tm) (unat (Month tm) - 1)"

lemma month_length_31: "m < 12 \<Longrightarrow> month_length y m \<le> 31"
  by (auto simp: month_length_def monthDays_def nth_Cons split: nat.splits)

lemma unat_small: "k < 256 \<Longrightarrow> unat (of_nat k :: u8) = k"
  by (simp add: unat_of_nat)

lemma date_of_day:
  assumes "D \<le> 49710"
  shows "\<exists>y m d days. year_loop 0 0 (of_nat D) = Some (y, days) \<and>
    month_loop y 12 0 (of_nat D - (days - of_nat (year_days (unat y)))) = (m, of_nat d) \<and>
    m < 12 \<and> d < month_length y m \<and> D = days_before (unat y) + month_days_before y m + d \<and>
    D < days_before (Suc (unat y))"
proof -
  have "days_before (unat (0 :: u8)) = 0" by (simp add: days_before_def)
  with year_loop_runs [of 0 D] assms days_before_137 obtain y where y:
      "year_loop 0 0 (of_nat D) = Some (y, of_nat (days_before (Suc (unat y))))"
      "days_before (unat y) \<le> D" "D < days_before (Suc (unat y))" by auto
  let ?d = "D - days_before (unat y)"
  have r: "?d < year_days (unat y)" using y(2,3) by (simp add: days_before_Suc)
  have "\<exists>m d. month_loop y 12 0 (of_nat ?d) = (m, of_nat d) \<and> m < 12 \<and> d < month_length y m \<and>
      month_days_before y 0 + ?d = month_days_before y m + d"
    by (rule month_loop_runs) (use r year_days_bound [of "unat y"] in \<open>simp_all add: month_days_before_def\<close>)
  then obtain m d where md: "month_loop y 12 0 (of_nat ?d) = (m, of_nat d)" "m < 12" "d < month_length y m"
      "?d = month_days_before y m + d" by (auto simp: month_days_before_def)
  have "(of_nat D - (of_nat (days_before (Suc (unat y))) - of_nat (year_days (unat y))) :: u32) = of_nat ?d"
    using y(2) by (simp add: days_before_Suc of_nat_diff)
  with md(1) have "month_loop y 12 0 (of_nat D - (of_nat (days_before (Suc (unat y))) - of_nat (year_days (unat y)))) =
    (m, of_nat d)" by (simp only:)
  moreover have "D = days_before (unat y) + month_days_before y m + d" using md(4) y(2) by linarith
  ultimately show ?thesis using y(1,3) md(2,3) by blast
qed

lemma break_make:
  "\<exists>tm. breakTime t = Some tm \<and> valid_date tm \<and> makeTime tm = Some t \<and>
     unat (Wday tm) = (unat t div 86400 + 4) mod 7 + 1 \<and>
     days_before (unat (Year tm)) \<le> unat t div 86400 \<and> unat t div 86400 < days_before (Suc (unat (Year tm)))"
proof -
  let ?T = "unat t"
  define D where "D = ?T div 86400"
  have T: "?T < 4294967296" using unsigned_less [of t, where 'a = nat] by simp
  have "?T div 86400 < 4294967296" using T by linarith
  then have day: "t div 60 div 60 div 24 = of_nat D"
    by (simp add: word_unat_eq_iff unat_div D_def unat_of_nat div_mult2_eq [symmetric])
  have "D \<le> 49710" unfolding D_def using T by linarith
  from date_of_day [OF this] obtain y m d days where l: "year_loop 0 0 (of_nat D) = Some (y, days)"
    "month_loop y 12 0 (of_nat D - (days - of_nat (year_days (unat y)))) = (m, of_nat d)"
    "m < 12" "d < month_length y m" "D = days_before (unat y) + month_days_before y m + d"
    "D < days_before (Suc (unat y))" by blast
  have d31: "d < 31" using l(3,4) month_length_31 [of m y] by simp
  define tm where "tm = \<lparr>Second = ucast (t mod 60), Minute = ucast (t div 60 mod 60), Hour = ucast (t div 60 div 60 mod 24),
    Wday = ucast ((of_nat D + 4 :: u32) mod 7 + 1), Day = ucast (of_nat d + 1 :: u32), Month = of_nat (m + 1), Year = y\<rparr>"
  have b: "breakTime t = Some tm" unfolding breakTime_def Let_def day l(1) by (simp add: l(2) tm_def)
  have u: "unat (Second tm) = ?T mod 60" "unat (Minute tm) = ?T div 60 mod 60" "unat (Hour tm) = ?T div 3600 mod 24"
    "unat (Day tm) = Suc d" "unat (Month tm) = Suc m" "unat (Wday tm) = (D + 4) mod 7 + 1" "Year tm = y"
    using d31 l(3) \<open>D \<le> 49710\<close> by (simp_all add: tm_def unsigned_ucast_eq take_bit_eq_mod unat_mod unat_div unat_word_ariths unat_of_nat
        div_mult2_eq [symmetric])
  have v: "valid_date tm" using l(3,4) unfolding valid_date_def u by simp
  have "86400 * D + 3600 * (?T div 3600 mod 24) + 60 * (?T div 60 mod 60) + ?T mod 60 = ?T"
  proof -
    have "?T div 60 div 60 = ?T div 3600" "?T div 3600 div 24 = ?T div 86400" by (simp_all add: div_mult2_eq [symmetric])
    then show ?thesis
      using div_mult_mod_eq [of ?T 60] div_mult_mod_eq [of "?T div 60" 60] div_mult_mod_eq [of "?T div 3600" 24]
      unfolding D_def by linarith
  qed
  then have "makeTime tm = Some t"
    using makeTime_seconds [of tm] l(3,5) unfolding u by simp
  with b v u(6,7) l(5,6) show ?thesis unfolding D_def by (intro exI [of _ tm]) simp
qed

text \<open>
  C20. The calendar is exact for every 32-bit time: \<^verbatim>\<open>breakTime\<close> ends and yields a date of the calendar, with the
  right day of the week, and \<^verbatim>\<open>makeTime\<close> gives the time back.
\<close>

theorem calendar_roundtrip:
  "\<exists>tm. breakTime t = Some tm \<and> valid_date tm \<and> makeTime tm = Some t \<and>
     unat (Wday tm) = (unat t div 86400 + 4) mod 7 + 1"
  using break_make [of t] by blast

end
