(* ===== verification/Sketch.thy ===== *)
theory Sketch
  imports Firmware Command_Line Calendar
begin

text \<open>
  The rest of \<^verbatim>\<open>firmware/firmware.ino\<close>: the command handlers with their arguments as text, the dispatch
  (\<^verbatim>\<open>executeCommand\<close>), the line buffer of the serial port (\<^verbatim>\<open>processCommands\<close>), \<^verbatim>\<open>setup\<close> with the check of the
  sensors, and \<^verbatim>\<open>loop\<close>. The serial port is the list of the characters that are available. What a handler
  prints is not modelled, but the frame of a response packet is; handlers that only print leave the
  state alone. An access to memory that the code does not own is a \<open>fault\<close>.
\<close>

datatype reply = Packet_begin string string | Invalid_command | Packet_end

datatype fault = Buffer_overrun | Unterminated_line | Uninitialised_argument | Table_overrun

record sketch =
  core_of :: sys
  buffer :: "char list"
  bufferSize :: u8
  logging :: bool
  replies :: "reply list"

definition BUFFER_SIZE :: nat where "BUFFER_SIZE = 80"

definition on_core :: "(sys \<Rightarrow> sys) \<Rightarrow> sketch \<Rightarrow> sketch" where
  "on_core f st = st\<lparr>core_of := f (core_of st)\<rparr>"

section \<open>Handlers\<close>

text \<open>A handler that acts on the devices takes the numbers of its arguments.\<close>

definition with_numbers :: "(int list \<Rightarrow> sys \<Rightarrow> u8 \<times> sys) \<Rightarrow> string list \<Rightarrow> sketch \<Rightarrow> fault + sketch" where
  "with_numbers h argv st = Inr (on_core (\<lambda>s. snd (h (map atoi (tl argv)) s)) st)"

definition print_only :: "string list \<Rightarrow> sketch \<Rightarrow> fault + sketch" where
  "print_only argv st = Inr st"

text \<open>\<^verbatim>\<open>RTC.set\<close> sets the clock chip, whose reading is \<open>rtc\<close>.\<close>

definition setDateTime :: "u16 \<Rightarrow> u8 \<Rightarrow> u8 \<Rightarrow> u8 \<Rightarrow> u8 \<Rightarrow> u8 \<Rightarrow> board \<Rightarrow> fault + board" where
  "setDateTime y mo d h mi s b =
    (if wireEnabled b
     then case makeTime \<lparr>Second = s, Minute = mi, Hour = h, Wday = 0, Day = d, Month = mo, Year = ucast (y - 1970)\<rparr>
          of None \<Rightarrow> Inl Table_overrun | Some t \<Rightarrow> Inr (b\<lparr>rtc := t\<rparr>)
     else Inr b)"

definition commandDate :: "string list \<Rightarrow> sketch \<Rightarrow> fault + sketch" where
  "commandDate argv st =
    (if length argv = 7
     then map_sum id (\<lambda>b. on_core (\<lambda>s. s\<lparr>brd := b\<rparr>) st)
       (setDateTime (word_of_int (atoi (argv ! 1))) (word_of_int (atoi (argv ! 2))) (word_of_int (atoi (argv ! 3)))
         (word_of_int (atoi (argv ! 4))) (word_of_int (atoi (argv ! 5))) (word_of_int (atoi (argv ! 6)))
         (brd (core_of st)))
     else Inr st)"

definition commandBootMedia :: "string list \<Rightarrow> sketch \<Rightarrow> fault + sketch" where
  "commandBootMedia argv st =
    (if length argv \<noteq> 2 \<and> length argv \<noteq> 3 then Inr st
     else let index = word_of_int (atoi (argv ! 1))
       in if \<not> validPort index then Inr st
          else if length argv = 3 \<and> argv ! 2 = ''sd'' then Inr (on_core (on_dev index (setNextBootMedia MEDIA_SD)) st)
          else if length argv = 3 \<and> argv ! 2 = ''emmc''
          then Inr (on_core (on_dev index (setNextBootMedia MEDIA_EMMC)) st)
          else Inr st)"

definition commandLog :: "string list \<Rightarrow> sketch \<Rightarrow> fault + sketch" where
  "commandLog argv st =
    (if length argv = 2
     then if argv ! 1 = ''on'' then Inr (st\<lparr>logging := True\<rparr>)
          else if argv ! 1 = ''off'' then Inr (st\<lparr>logging := False\<rparr>) else Inr st
     else Inr st)"

text \<open>The test for \<^verbatim>\<open>cu\<close> lacks its comparison with 0: it succeeds for every other word.\<close>

definition commandWatch :: "string list \<Rightarrow> sketch \<Rightarrow> fault + sketch" where
  "commandWatch argv st =
    (if length argv = 4
     then let index = word_of_int (atoi (argv ! 1))
       in if validPort index
          then let mode = (argv ! 3 = ''t'')
            in if argv ! 2 = ''hb''
               then Inr (on_core (on_dev index (\<lambda>(d, b). (d\<lparr>watchHeartbeat := mode\<rparr>, b))) st)
               else if argv ! 2 \<noteq> ''cu''
               then Inr (on_core (on_dev index (\<lambda>(d, b). (d\<lparr>watchCurrent := mode\<rparr>, b))) st)
               else Inr st
          else Inr st
     else Inr st)"

definition commandBLFlag :: "string list \<Rightarrow> sketch \<Rightarrow> fault + sketch" where
  "commandBLFlag argv st =
    (let set = (\<lambda>m. Inr (on_core (\<lambda>s. s\<lparr>brd := on_ee (setBootloaderNodeController m) (brd s)\<rparr>) st))
     in if length argv = 2
        then if argv ! 1 = ''off'' then set 0 else if argv ! 1 = ''sd'' then set 1
             else if argv ! 1 = ''emmc'' then set 2 else Inr st
        else Inr st)"

definition commandResetEEPROM :: "string list \<Rightarrow> sketch \<Rightarrow> fault + sketch" where
  "commandResetEEPROM argv st = Inr (on_core (\<lambda>s. s\<lparr>brd := on_ee clearMagic (brd s)\<rparr>) st)"

section \<open>Dispatch\<close>

definition commands :: "(string \<times> (string list \<Rightarrow> sketch \<Rightarrow> fault + sketch)) list" where
  "commands =
    [(''rtc'', print_only), (''ping'', with_numbers commandPing), (''start'', with_numbers commandStart),
     (''stop'', with_numbers commandStop), (''reset'', with_numbers commandReset), (''id'', print_only),
     (''cu'', print_only), (''hb'', print_only), (''env'', print_only), (''bs'', commandBootMedia),
     (''th'', print_only), (''date'', commandDate), (''bf'', print_only), (''fc'', print_only),
     (''up'', print_only), (''enable'', with_numbers commandEnable), (''disable'', with_numbers commandDisable),
     (''watch'', commandWatch), (''log'', commandLog), (''eereset'', commandResetEEPROM),
     (''boots'', print_only), (''ver'', print_only), (''blf'', commandBLFlag)]"

definition say :: "reply \<Rightarrow> sketch \<Rightarrow> sketch" where
  "say r st = st\<lparr>replies := replies st @ [r]\<rparr>"

text \<open>The handlers ignore the number of arguments they were not given; \<^verbatim>\<open>argv[0]\<close> of an empty list is not
  initialised.\<close>

definition executeCommand :: "string \<Rightarrow> string list \<Rightarrow> sketch \<Rightarrow> fault + sketch" where
  "executeCommand sid argv st =
    (case argv of [] \<Rightarrow> Inl Uninitialised_argument
     | name # _ \<Rightarrow>
       let st = say (Packet_begin sid name) st
       in map_sum id (say Packet_end)
            (case map_of commands name of None \<Rightarrow> Inr (say Invalid_command st) | Some func \<Rightarrow> func argv st))"

definition run_words :: "string list \<Rightarrow> sketch \<Rightarrow> fault + sketch" where
  "run_words argv st =
    (case argv of [] \<Rightarrow> Inr st
     | w # ws \<Rightarrow> if hd w = CHR ''@'' then executeCommand (tl w) ws st else executeCommand ''0'' argv st)"

definition processCommand :: "sketch \<Rightarrow> fault + sketch" where
  "processCommand st =
    (case split_line (buffer st) of None \<Rightarrow> Inl Unterminated_line
     | Some (argv, buf) \<Rightarrow> run_words argv (st\<lparr>buffer := buf\<rparr>))"

section \<open>The serial port\<close>

fun flush_line :: "nat \<Rightarrow> char list \<Rightarrow> nat \<times> char list" where
  "flush_line dataread [] = (dataread, [])"
| "flush_line dataread (c # rx) =
    (if 240 \<le> dataread then (dataread, c # rx)
     else if c = CHR 0x0A then (dataread, rx) else flush_line (Suc dataread) rx)"

lemma flush_line_length: "length (snd (flush_line n rx)) \<le> length rx"
  by (induction n rx rule: flush_line.induct) auto

definition store :: "nat \<Rightarrow> char \<Rightarrow> sketch \<Rightarrow> sketch option" where
  "store i c st = (if i < length (buffer st) then Some (st\<lparr>buffer := (buffer st)[i := c]\<rparr>) else None)"

function read_loop :: "nat \<Rightarrow> char list \<Rightarrow> sketch \<Rightarrow> fault + char list \<times> sketch" where
  "read_loop dataread [] st = Inr ([], st)"
| "read_loop dataread (c # rx) st =
    (if 240 \<le> dataread then Inr (c # rx, st)
     else case store (unat (bufferSize st)) c st of None \<Rightarrow> Inl Buffer_overrun
     | Some st \<Rightarrow>
       let st = st\<lparr>bufferSize := bufferSize st + 1\<rparr>
       in if BUFFER_SIZE \<le> unat (bufferSize st)
          then let st = st\<lparr>bufferSize := 0\<rparr>; r = flush_line (Suc dataread) rx in read_loop (fst r) (snd r) st
          else if c = CHR 0x0A
          then case store (unat (bufferSize st)) NUL st of None \<Rightarrow> Inl Buffer_overrun
            | Some st \<Rightarrow> (case processCommand (st\<lparr>bufferSize := 0\<rparr>) of Inl e \<Rightarrow> Inl e
                | Inr st \<Rightarrow> read_loop (Suc dataread) rx st)
          else read_loop (Suc dataread) rx st)"
  by pat_completeness auto
termination
proof (relation "measure (\<lambda>(n, rx, st). length rx)", goal_cases)
  case (2 dataread c rx st st1 st2 st3 r)
  then show ?case using flush_line_length [of "Suc dataread" rx] by simp
qed auto

declare read_loop.simps(2) [simp del]

definition processCommands :: "char list \<Rightarrow> sketch \<Rightarrow> fault + char list \<times> sketch" where
  "processCommands rx st = read_loop 0 rx st"

section \<open>The loop\<close>

text \<open>The result of \<^verbatim>\<open>loop\<close> says whether it has called \<^verbatim>\<open>resetSystem\<close>, which waits for the watchdog to reset the
  processor and does not return. The status lines and the lights are left out.\<close>

definition loop_pass :: "char list \<Rightarrow> sketch \<Rightarrow> fault + bool \<times> char list \<times> sketch" where
  "loop_pass rx st =
    map_sum id (\<lambda>(rx, st).
        let s = core_of st
        in if shouldResetSystem s \<and> Timer_exceeds (now (brd s)) (shouldResetTimer s) (shouldResetTimeout s)
           then (True, rx, st)
           else (False, rx, on_core (\<lambda>s. s\<lparr>brd := wait_ms 200 (brd s)\<rparr>) st))
      (processCommands rx (on_core loop_devices st))"

section \<open>Setting up\<close>

text \<open>The check of a sensor: a counter is raised before the reading and lowered after it, so that a reading
  that brings the system down leaves its mark. The readings are arguments.\<close>

fun check_current :: "nat \<Rightarrow> u8 \<Rightarrow> (nat \<Rightarrow> u16) \<Rightarrow> board \<Rightarrow> board" where
  "check_current 0 i vs b = b"
| "check_current (Suc left) i vs b =
    (let b = wait_ms 20 (on_ee (\<lambda>m. setPortCurrentSensorHealth i (getPortCurrentSensorHealth i m + 1) m) b);
         b = wait_ms 50 b;
         b = wait_ms 20 (on_ee (\<lambda>m. setPortCurrentSensorHealth i (getPortCurrentSensorHealth i m - 1) m) b)
     in if vs 0 \<le> 5000 then b else check_current left i (\<lambda>k. vs (Suc k)) b)"

fun check_thermistor :: "nat \<Rightarrow> u8 \<Rightarrow> (nat \<Rightarrow> u16) \<Rightarrow> board \<Rightarrow> board" where
  "check_thermistor 0 i vs b = b"
| "check_thermistor (Suc left) i vs b =
    (let b = wait_ms 20 (on_ee (\<lambda>m. setThermistorSensorHealth i (getThermistorSensorHealth i m + 1) m) b);
         b = wait_ms 50 b;
         b = wait_ms 20 (on_ee (\<lambda>m. setThermistorSensorHealth i (getThermistorSensorHealth i m - 1) m) b)
     in if vs 0 \<le> 10000 then b else check_thermistor left i (\<lambda>k. vs (Suc k)) b)"

definition checkCurrentSensors :: "(u8 \<Rightarrow> nat \<Rightarrow> u16) \<Rightarrow> board \<Rightarrow> board" where
  "checkCurrentSensors vs b = fold (\<lambda>i b. if 5 \<le> getPortCurrentSensorHealth i (ee b) then b
     else check_current 3 i (vs i) b) [0, 1, 2, 3, 4] b"

definition checkThermistors :: "(u8 \<Rightarrow> nat \<Rightarrow> u16) \<Rightarrow> board \<Rightarrow> board" where
  "checkThermistors vs b = fold (\<lambda>i b. if 5 \<le> getThermistorSensorHealth i (ee b) then b
     else check_thermistor 3 i (vs i) b) [0, 1, 2, 3, 4] b"

definition checkSensors :: "(u8 \<Rightarrow> nat \<Rightarrow> u16) \<Rightarrow> (u8 \<Rightarrow> nat \<Rightarrow> u16) \<Rightarrow> board \<Rightarrow> board" where
  "checkSensors cu th b = checkThermistors th (checkCurrentSensors cu b)"

definition Wagman_init :: "board \<Rightarrow> board" where
  "Wagman_init b = wait_ms 600 (b\<lparr>heartbeatCounters := (\<lambda>i. if validPort i then 0 else heartbeatCounters b i),
     wireEnabled := getWireEnabled (ee b)\<rparr>)"

definition setup_board :: "u8 \<Rightarrow> (u8 \<Rightarrow> nat \<Rightarrow> u16) \<Rightarrow> (u8 \<Rightarrow> nat \<Rightarrow> u16) \<Rightarrow> board \<Rightarrow> board" where
  "setup_board flags cu th b =
    (let b = wait_ms 3200 (wait_ms 4000 b);
         b = (if \<not> initialized (ee b) then wait_ms 1280 (Wagman_init (on_ee Record_init b)) else Wagman_init b);
         b = on_ee (setLastBootTime (getTime b)) b;
         b = on_ee incrementBootCount b
     in if power_lost flags then checkSensors cu th b else b)"

definition setup_sketch :: "u32 \<Rightarrow> (u8 \<Rightarrow> nat \<Rightarrow> u16) \<Rightarrow> (u8 \<Rightarrow> nat \<Rightarrow> u16) \<Rightarrow> sketch \<Rightarrow> sketch" where
  "setup_sketch BUILD_TIME cu th st =
    (let s = core_of st;
         s = s\<lparr>bootflags := ee_read (ee (brd s)) 0x41\<rparr>;
         s = setupDevices (s\<lparr>brd := setup_board (bootflags s) cu th (brd s)\<rparr>);
         s = s\<lparr>deviceWantsStart := 0, brd := (brd s)\<lparr>startTimer := Timer_reset (now (brd s))\<rparr>\<rparr>;
         s = s\<lparr>shouldResetSystem := False, shouldResetTimeout := 0\<rparr>;
         s = (if rtc (brd s) < BUILD_TIME then s\<lparr>brd := (brd s)\<lparr>rtc := BUILD_TIME\<rparr>\<rparr> else s)
     in st\<lparr>core_of := s, bufferSize := 0\<rparr>)"

section \<open>The contract of a handler\<close>

text \<open>A handler leaves the line buffer alone, keeps the invariant of the device table and fails only by
  reading past the table of the months.\<close>

locale command_handler =
  fixes h :: "string list \<Rightarrow> sketch \<Rightarrow> fault + sketch"
  assumes keeps: "h argv st = Inr st' \<Longrightarrow> buffer st' = buffer st \<and> bufferSize st' = bufferSize st \<and>
      (table_inv (core_of st) \<longrightarrow> table_inv (core_of st'))"
    and fails: "h argv st = Inl e \<Longrightarrow> e = Table_overrun"
begin

lemma framed:
  assumes "map_sum id (say Packet_end) (h argv (say (Packet_begin sid name) st)) = r"
  shows "case r of Inl e \<Rightarrow> e = Table_overrun | Inr st' \<Rightarrow> buffer st' = buffer st \<and>
    bufferSize st' = bufferSize st \<and> (table_inv (core_of st) \<longrightarrow> table_inv (core_of st'))"
proof (cases "h argv (say (Packet_begin sid name) st)")
  case (Inl e)
  show ?thesis unfolding assms [symmetric] Inl using fails [OF Inl] by simp
next
  case (Inr st')
  show ?thesis unfolding assms [symmetric] Inr using keeps [OF Inr] by (simp add: say_def)
qed

end

lemma on_core_fields [simp]:
  "buffer (on_core f st) = buffer st" "bufferSize (on_core f st) = bufferSize st"
  "core_of (on_core f st) = f (core_of st)"
  by (simp_all add: on_core_def)

interpretation print_h: command_handler print_only
  by unfold_locales (auto simp: print_only_def)

lemma numbers_handler:
  assumes "\<And>args s. sys_step s (snd (h args s))"
  shows "command_handler (with_numbers h)"
  by unfold_locales (use sys_step_inv [OF assms] in \<open>auto simp: with_numbers_def\<close>)

interpretation ping_h: command_handler "with_numbers commandPing"
  by (rule numbers_handler) (rule sys_step.ping)
interpretation start_h: command_handler "with_numbers commandStart"
  by (rule numbers_handler) (rule sys_step.start)
interpretation stop_h: command_handler "with_numbers commandStop"
  by (rule numbers_handler) (rule sys_step.stop)
interpretation reset_h: command_handler "with_numbers commandReset"
  by (rule numbers_handler) (rule sys_step.reset)
interpretation enable_h: command_handler "with_numbers commandEnable"
  by (rule numbers_handler) (rule sys_step.enable)
interpretation disable_h: command_handler "with_numbers commandDisable"
  by (rule numbers_handler) (rule sys_step.disable)

lemma table_inv_ee [simp]: "table_inv (s\<lparr>brd := on_ee f (brd s)\<rparr>) = table_inv s"
  by (rule table_inv_brd) (simp_all add: on_ee_def)

interpretation watchHeartbeat_m: device_method "\<lambda>(d, b). (d\<lparr>watchHeartbeat := m\<rparr>, b)" for m
  by unfold_locales (simp add: method_ok_def dev_ok_def split: prod.split)
interpretation watchCurrent_m: device_method "\<lambda>(d, b). (d\<lparr>watchCurrent := m\<rparr>, b)" for m
  by unfold_locales (simp add: method_ok_def dev_ok_def split: prod.split)

interpretation date_h: command_handler commandDate
proof
  fix argv st st' e
  have b: "setDateTime y mo d h mi s b = Inr b' \<Longrightarrow> pins b' = pins b" for y mo d h mi s b b'
    by (auto simp: setDateTime_def split: if_splits option.splits)
  show "buffer st' = buffer st \<and> bufferSize st' = bufferSize st \<and> (table_inv (core_of st) \<longrightarrow> table_inv (core_of st'))"
    if r: "commandDate argv st = Inr st'"
  proof (cases "length argv = 7")
    case True
    with r obtain b' where "st' = on_core (\<lambda>s. s\<lparr>brd := b'\<rparr>) st" "pins b' = pins (brd (core_of st))"
      using b by (auto simp: commandDate_def map_sum_def split: sum.splits)
    then show ?thesis using table_inv_brd [of "(core_of st)\<lparr>brd := b'\<rparr>" "core_of st"] by simp
  next
    case False
    with r show ?thesis by (simp add: commandDate_def)
  qed
  show "e = Table_overrun" if "commandDate argv st = Inl e"
    using that by (auto simp: commandDate_def setDateTime_def split: if_splits option.splits)
qed

interpretation media_h: command_handler commandBootMedia
  by unfold_locales (auto simp: commandBootMedia_def Let_def intro: media_m.table split: if_splits)
interpretation log_h: command_handler commandLog
  by unfold_locales (auto simp: commandLog_def split: if_splits)
interpretation watch_h: command_handler commandWatch
  by unfold_locales (auto simp: commandWatch_def Let_def intro: watchHeartbeat_m.table watchCurrent_m.table split: if_splits)
interpretation flag_h: command_handler commandBLFlag
  by unfold_locales (auto simp: commandBLFlag_def Let_def split: if_splits)
interpretation eereset_h: command_handler commandResetEEPROM
  by unfold_locales (auto simp: commandResetEEPROM_def)

lemma commands_handlers:
  assumes "map_of commands name = Some f"
  shows "command_handler f"
proof -
  have "(name, f) \<in> set commands" using assms by (rule map_of_SomeD)
  then show ?thesis unfolding commands_def
    by (auto intro: print_h.command_handler_axioms ping_h.command_handler_axioms start_h.command_handler_axioms
        stop_h.command_handler_axioms reset_h.command_handler_axioms enable_h.command_handler_axioms
        disable_h.command_handler_axioms date_h.command_handler_axioms media_h.command_handler_axioms
        log_h.command_handler_axioms watch_h.command_handler_axioms flag_h.command_handler_axioms
        eereset_h.command_handler_axioms)
qed

section \<open>Lines and the buffer\<close>

text \<open>What a line of words may do.\<close>

definition keeps_line :: "sketch \<Rightarrow> fault + sketch \<Rightarrow> bool" where
  "keeps_line st r = (case r of Inl e \<Rightarrow> e \<in> {Uninitialised_argument, Table_overrun}
     | Inr st' \<Rightarrow> buffer st' = buffer st \<and> bufferSize st' = bufferSize st \<and>
         (table_inv (core_of st) \<longrightarrow> table_inv (core_of st')))"

lemma executeCommand_keeps: "keeps_line st (executeCommand sid argv st)"
proof (cases argv)
  case Nil
  then show ?thesis by (simp add: executeCommand_def keeps_line_def)
next
  case (Cons name args)
  show ?thesis
  proof (cases "map_of commands name")
    case None
    then show ?thesis using Cons by (simp add: executeCommand_def keeps_line_def Let_def say_def)
  next
    case (Some f)
    from command_handler.framed [OF commands_handlers [OF Some] refl, where sid = sid and name = name and argv = argv and st = st]
    show ?thesis using Cons Some by (simp add: executeCommand_def keeps_line_def Let_def split: sum.splits)
  qed
qed

lemma run_words_keeps: "keeps_line st (run_words argv st)"
proof (cases argv)
  case Nil
  then show ?thesis by (simp add: run_words_def keeps_line_def)
next
  case (Cons w ws)
  then show ?thesis using executeCommand_keeps by (simp add: run_words_def)
qed

definition buffer_ok :: "sketch \<Rightarrow> bool" where
  "buffer_ok st \<longleftrightarrow> length (buffer st) = BUFFER_SIZE \<and> unat (bufferSize st) < BUFFER_SIZE"

text \<open>A zero byte ends the line wherever it stands, so the words of the buffer are those before the first one.\<close>

lemma processCommand_keeps:
  assumes "NUL \<in> set (buffer st)"
  shows "case processCommand st of Inl e \<Rightarrow> e \<in> {Uninitialised_argument, Table_overrun}
    | Inr st' \<Rightarrow> length (buffer st') = length (buffer st) \<and> bufferSize st' = bufferSize st \<and>
        (table_inv (core_of st) \<longrightarrow> table_inv (core_of st'))"
proof -
  from split_list_first [OF assms] obtain line rest where b: "buffer st = line @ NUL # rest" "NUL \<notin> set line" by blast
  from split_line_words [OF b(2), of rest] b(1) obtain buf' where s:
    "split_line (buffer st) = Some (take 8 (graph_words line), buf')" "length buf' = length (buffer st)" by auto
  then show ?thesis
    using run_words_keeps [of "st\<lparr>buffer := buf'\<rparr>" "take 8 (graph_words line)"]
    by (simp add: processCommand_def keeps_line_def split: sum.splits)
qed

lemma read_loop_step:
  assumes "buffer_ok st" "n < 240"
  defines "i \<equiv> unat (bufferSize st)"
  shows "read_loop n (c # rx) st =
    (let st = st\<lparr>buffer := (buffer st)[i := c], bufferSize := bufferSize st + 1\<rparr>
     in if BUFFER_SIZE \<le> Suc i
        then let r = flush_line (Suc n) rx in read_loop (fst r) (snd r) (st\<lparr>bufferSize := 0\<rparr>)
        else if c = CHR 0x0A
        then (case processCommand (st\<lparr>buffer := (buffer st)[Suc i := NUL], bufferSize := 0\<rparr>) of Inl e \<Rightarrow> Inl e
              | Inr st \<Rightarrow> read_loop (Suc n) rx st)
        else read_loop (Suc n) rx st)"
proof -
  have i: "i < 80" and len: "length (buffer st) = 80"
    using assms(1) by (simp_all add: buffer_ok_def BUFFER_SIZE_def i_def)
  then have "unat (bufferSize st + 1) = Suc i" by (simp add: unat_word_ariths i_def)
  then show ?thesis using assms(2) i len
    by (subst read_loop.simps) (auto simp: Let_def store_def BUFFER_SIZE_def i_def [symmetric])
qed

definition good_run :: "bool \<Rightarrow> fault + char list \<times> sketch \<Rightarrow> bool" where
  "good_run t r = (case r of Inl e \<Rightarrow> e \<in> {Uninitialised_argument, Table_overrun}
    | Inr (rx', st') \<Rightarrow> buffer_ok st' \<and> (t \<longrightarrow> table_inv (core_of st')))"

lemma read_loop_keeps:
  assumes "buffer_ok st"
  shows "good_run (table_inv (core_of st)) (read_loop n rx st)"
  using assms
proof (induction "length rx" arbitrary: n rx st rule: less_induct)
  case less
  show ?case
  proof (cases rx)
    case Nil
    then show ?thesis using less(2) by (simp add: good_run_def)
  next
    case (Cons c rs)
    show ?thesis
    proof (cases "n < 240")
      case False
      then show ?thesis using Cons less(2) by (simp add: read_loop.simps good_run_def)
    next
      case True
      let ?i = "unat (bufferSize st)"
      let ?st = "st\<lparr>buffer := (buffer st)[?i := c], bufferSize := bufferSize st + 1\<rparr>"
      let ?line = "?st\<lparr>buffer := (buffer ?st)[Suc ?i := NUL], bufferSize := 0\<rparr>"
      have i: "?i < 80" and len: "length (buffer st) = 80" using less(2) by (simp_all add: buffer_ok_def BUFFER_SIZE_def)
      then have sz: "unat (bufferSize st + 1) = Suc ?i" by (simp add: unat_word_ariths)
      note step = read_loop_step [OF less(2) True, of c rs]
      consider (full) "80 \<le> Suc ?i" | (line) "Suc ?i < 80" "c = CHR 0x0A" | (more) "Suc ?i < 80" "c \<noteq> CHR 0x0A" by linarith
      then show ?thesis
      proof cases
        case full
        then show ?thesis
          using step less(1) [of "snd (flush_line (Suc n) rs)" "?st\<lparr>bufferSize := 0\<rparr>" "fst (flush_line (Suc n) rs)"] flush_line_length [of "Suc n" rs] Cons len
          by (simp add: Let_def buffer_ok_def BUFFER_SIZE_def)
      next
        case line
        have "NUL \<in> set (buffer ?line)" using line len by (simp add: set_update_memI)
        note k = processCommand_keeps [OF this]
        show ?thesis
        proof (cases "processCommand ?line")
          case (Inl e)
          then show ?thesis using k step line Cons by (simp add: Let_def BUFFER_SIZE_def good_run_def)
        next
          case (Inr st')
          then have "buffer_ok st'" "table_inv (core_of st) \<Longrightarrow> table_inv (core_of st')"
            using k len by (simp_all add: buffer_ok_def BUFFER_SIZE_def)
          then show ?thesis using less(1) [of rs st' "Suc n"] Inr step line Cons
            by (auto simp: Let_def BUFFER_SIZE_def good_run_def split: sum.splits prod.splits)
        qed
      next
        case more
        then show ?thesis using step less(1) [of rs ?st] Cons len sz
          by (simp add: Let_def buffer_ok_def BUFFER_SIZE_def)
      qed
    qed
  qed
qed

text \<open>
  C7. The line buffer is safe. Whatever characters arrive, and however long the lines are, reading commands
  never writes outside the 80 characters of the buffer and never scans a line past its end; the fill
  level stays below the size.
\<close>

theorem serial_buffer_safe:
  assumes "buffer_ok st"
  shows "case processCommands rx st of Inl e \<Rightarrow> e \<noteq> Buffer_overrun \<and> e \<noteq> Unterminated_line
    | Inr (rx', st') \<Rightarrow> buffer_ok st'"
  using read_loop_keeps [OF assms, of 0 rx]
  by (auto simp: processCommands_def good_run_def split: sum.splits)

definition demo_sketch :: sketch where
  "demo_sketch = \<lparr>core_of = boot_sys, buffer = replicate 80 NUL, bufferSize = 0, logging = True, replies = []\<rparr>"

lemma demo_sketch_ok: "buffer_ok demo_sketch"
  by (simp add: buffer_ok_def demo_sketch_def BUFFER_SIZE_def)

theorem serial_buffer_safe_witness:
  "case processCommands (replicate 200 CHR ''x'') demo_sketch of Inl e \<Rightarrow> e \<noteq> Buffer_overrun \<and> e \<noteq> Unterminated_line
    | Inr (rx', st') \<Rightarrow> buffer_ok st'"
  by (rule serial_buffer_safe [OF demo_sketch_ok])

lemma graph_words_snoc: "\<not> isgraph c \<Longrightarrow> graph_words (line @ [c]) = graph_words line"
proof (induction line rule: graph_words.induct)
  case (2 d ds)
  show ?case
  proof (cases "isgraph d")
    case True
    have "takeWhile isgraph ((d # ds) @ [c]) = takeWhile isgraph (d # ds)"
      using 2(3) by (simp add: takeWhile_tail)
    moreover have "dropWhile isgraph ((d # ds) @ [c]) = dropWhile isgraph (d # ds) @ [c]"
      using 2(3) by (induction ds arbitrary: d) simp_all
    ultimately show ?thesis using 2(1) [OF True 2(3)] True by simp
  next
    case False
    then show ?thesis using 2 by simp
  qed
qed simp

lemma read_loop_line:
  assumes "length (buffer st) = BUFFER_SIZE" "unat (bufferSize st) = length done" "take (length done) (buffer st) = done"
    "CHR 0x0A \<notin> set line" "length done + length line \<le> 78"
  shows "\<exists>buf. read_loop (length done) (line @ [CHR 0x0A]) st =
      (case processCommand (st\<lparr>buffer := (done @ line @ [CHR 0x0A]) @ NUL # buf, bufferSize := 0\<rparr>) of
         Inl e \<Rightarrow> Inl e | Inr st \<Rightarrow> Inr ([], st)) \<and> length (done @ line) + 2 + length buf = BUFFER_SIZE"
  using assms
proof (induction line arbitrary: st "done")
  case Nil
  let ?k = "length done"
  have ok: "buffer_ok st" "?k < 240" "buffer st = done @ drop ?k (buffer st)"
    using Nil append_take_drop_id [of ?k "buffer st"] by (simp_all add: buffer_ok_def BUFFER_SIZE_def)
  obtain x y zs where d: "drop ?k (buffer st) = x # y # zs"
    using Nil(1,5) by (cases "drop ?k (buffer st)"; cases "tl (drop ?k (buffer st))")
      (auto simp: BUFFER_SIZE_def dest: arg_cong [of _ _ length])
  have "(buffer st)[?k := CHR 0x0A, Suc ?k := NUL] = (done @ [CHR 0x0A]) @ NUL # zs"
    by (subst ok(3)) (simp add: d list_update_append)
  moreover have "length done + 2 + length zs = BUFFER_SIZE" using Nil(1,5) arg_cong [OF d, of length] by (simp add: BUFFER_SIZE_def)
  ultimately show ?case using read_loop_step [OF ok(1,2), of "CHR 0x0A" "[]"] Nil(2,5)
    by (intro exI [of _ zs]) (simp add: Let_def BUFFER_SIZE_def split: sum.splits)
next
  case (Cons c line)
  let ?k = "length done"
  let ?st = "st\<lparr>buffer := (buffer st)[?k := c], bufferSize := bufferSize st + 1\<rparr>"
  have ok: "buffer_ok st" "?k < 240" using Cons by (simp_all add: buffer_ok_def BUFFER_SIZE_def)
  have sz: "unat (bufferSize st + 1) = Suc ?k" using Cons(3,6) by (simp add: unat_word_ariths)
  have "read_loop ?k ((c # line) @ [CHR 0x0A]) st = read_loop (length (done @ [c])) (line @ [CHR 0x0A]) ?st"
    using read_loop_step [OF ok, of c "line @ [CHR 0x0A]"] Cons(3,5,6) by (auto simp: Let_def BUFFER_SIZE_def)
  moreover have "take (length (done @ [c])) (buffer ?st) = done @ [c]"
    using Cons(2,4,6) by (simp add: take_Suc_conv_app_nth BUFFER_SIZE_def)
  ultimately show ?case using Cons(1) [of ?st "done @ [c]"] Cons(2,5,6) sz by simp
qed

lemma run_line:
  assumes "length (buffer st) = BUFFER_SIZE" "bufferSize st = 0" "CHR 0x0A \<notin> set line" "NUL \<notin> set line"
    "length line \<le> 78"
  shows "\<exists>buf. length buf = BUFFER_SIZE \<and> processCommands (line @ [CHR 0x0A]) st =
    map_sum id (Pair []) (run_words (take 8 (graph_words line)) (st\<lparr>bufferSize := 0, buffer := buf\<rparr>))"
proof -
  obtain rest where r: "read_loop 0 (line @ [CHR 0x0A]) st =
      (case processCommand (st\<lparr>buffer := (line @ [CHR 0x0A]) @ NUL # rest, bufferSize := 0\<rparr>) of
         Inl e \<Rightarrow> Inl e | Inr st \<Rightarrow> Inr ([], st))" "length line + 2 + length rest = BUFFER_SIZE"
    using read_loop_line [of st "[]" line] assms by auto
  have "NUL \<notin> set (line @ [CHR 0x0A])" using assms(4) by (simp add: NUL_def)
  from split_line_words [OF this, of rest] obtain buf where
    "split_line ((line @ [CHR 0x0A]) @ NUL # rest) = Some (take 8 (graph_words line), buf)" "length buf = BUFFER_SIZE"
    using r(2) graph_words_snoc [of "CHR 0x0A" line] by (auto simp: isgraph_def)
  then show ?thesis using r(1) by (intro exI [of _ buf])
      (auto simp: processCommands_def processCommand_def split: sum.splits)
qed

text \<open>A line that holds only a session word, as \<^verbatim>\<open>@7\<close>: the name of the command is read from an array element
  that was never written.\<close>

lemma lone_session_word:
  assumes "length (buffer st) = BUFFER_SIZE" "bufferSize st = 0" "CHR 0x0A \<notin> set line" "NUL \<notin> set line"
    "length line \<le> 78" "graph_words line = [CHR ''@'' # sid]"
  shows "processCommands (line @ [CHR 0x0A]) st = Inl Uninitialised_argument"
  using run_line [OF assms(1-5)] assms(6) by (auto simp: run_words_def executeCommand_def)

text \<open>
  C6. A line that fits is executed. From an empty buffer, a line of at most 78 characters before its newline,
  received in one pass, runs the command given by its first eight words, the longest runs of printing
  characters, and leaves the buffer empty.
\<close>

theorem line_runs:
  assumes "length (buffer st) = BUFFER_SIZE" "bufferSize st = 0" "CHR 0x0A \<notin> set line" "NUL \<notin> set line"
    "length line \<le> 78"
  shows "\<exists>buf. length buf = BUFFER_SIZE \<and> processCommands (line @ [CHR 0x0A]) st =
    map_sum id (Pair []) (run_words (take 8 (graph_words line)) (st\<lparr>bufferSize := 0, buffer := buf\<rparr>))"
  using assms by (rule run_line)

lemma log_off_words: "take 8 (graph_words ''log off'') = [''log'', ''off'']"
  by (simp add: isgraph_def)

lemma log_off_command: "map_of commands ''log'' = Some commandLog"
  by (simp add: commands_def)

theorem line_runs_witness:
  "\<exists>buf. length buf = BUFFER_SIZE \<and> processCommands (''log off'' @ [CHR 0x0A]) demo_sketch =
    Inr ([], demo_sketch\<lparr>bufferSize := 0, buffer := buf, logging := False,
      replies := [Packet_begin ''0'' ''log'', Packet_end]\<rparr>)"
proof -
  have "CHR 0x0A \<notin> set ''log off''" "NUL \<notin> set ''log off''" by (simp_all add: NUL_def)
  with line_runs [of demo_sketch "''log off''"] show ?thesis
    unfolding log_off_words
    by (simp add: demo_sketch_def BUFFER_SIZE_def run_words_def executeCommand_def log_off_command commandLog_def say_def)
qed

section \<open>Reachable sketches\<close>

text \<open>
  The processor starts \<^verbatim>\<open>setup\<close> with whatever is in the EEPROM and any readings of the sensors; then it passes
  through \<^verbatim>\<open>loop\<close> with whatever characters arrive, and between passes time goes on, heartbeats are
  counted, the currents change and the clock runs. A reset starts again with \<^verbatim>\<open>setup\<close>.
\<close>

inductive sketch_reachable :: "sketch \<Rightarrow> bool" where
  boot: "pins_low (core_of st) \<Longrightarrow> length (buffer st) = BUFFER_SIZE \<Longrightarrow>
    sketch_reachable (setup_sketch BUILD_TIME cu th st)"
| pass: "sketch_reachable st \<Longrightarrow> loop_pass rx st = Inr (reset, rx', st') \<Longrightarrow> sketch_reachable st'"
| world: "sketch_reachable st \<Longrightarrow> sketch_reachable (on_core (\<lambda>s. s\<lparr>brd := (brd s)\<lparr>now := t,
    heartbeatCounters := h, currents := c, rtc := r\<rparr>\<rparr>) st)"

lemma check_pins: "pins (check_current n i vs b) = pins b" "pins (check_thermistor n i vs b) = pins b"
  by (induction n arbitrary: vs b) (simp_all add: Let_def wait_ms_def on_ee_def)

lemma fold_pins: "(\<And>i b. pins (f i b) = pins b) \<Longrightarrow> pins (fold f is b) = pins b"
  by (induction "is" arbitrary: b) simp_all

lemma checkSensors_pins: "pins (checkSensors cu th b) = pins b"
  unfolding checkSensors_def checkThermistors_def checkCurrentSensors_def
  by (simp only: fold_pins check_pins if_distrib [of pins] if_cancel)

text \<open>A check that comes to its end leaves the counters as they were.\<close>

lemma check_ee: "validPort i \<Longrightarrow> ee (check_current n i vs b) = ee b" "validPort i \<Longrightarrow> ee (check_thermistor n i vs b) = ee b"
  by (induction n arbitrary: vs b) (simp_all add: Let_def wait_ms_def on_ee_def getPortCurrentSensorHealth_def
      setPortCurrentSensorHealth_def getThermistorSensorHealth_def setThermistorSensorHealth_def ee_write_def ee_read_def)

lemma fold_ee: "(\<And>i b. i \<in> set is \<Longrightarrow> ee (f i b) = ee b) \<Longrightarrow> ee (fold f is b) = ee b"
  by (induction "is" arbitrary: b) simp_all

lemma checkSensors_ee: "ee (checkSensors cu th b) = ee b"
  unfolding checkSensors_def checkThermistors_def checkCurrentSensors_def
  by (subst fold_ee; (subst fold_ee)?; use port_list in \<open>auto simp: check_ee simp del: list.set\<close>)

lemma setup_board_pins: "pins (setup_board flags cu th b) = pins b"
  by (simp add: setup_board_def Let_def checkSensors_pins Wagman_init_def wait_ms_def on_ee_def)

lemma setup_sketch_ok:
  assumes "pins_low (core_of st)" "length (buffer st) = BUFFER_SIZE"
  shows "buffer_ok (setup_sketch BUILD_TIME cu th st) \<and> table_inv (core_of (setup_sketch BUILD_TIME cu th st))"
proof -
  let ?s = "(core_of st)\<lparr>bootflags := ee_read (ee (brd (core_of st))) 0x41\<rparr>"
  define t where "t = setupDevices (?s\<lparr>brd := setup_board (bootflags ?s) cu th (brd ?s)\<rparr>)"
  have "table_inv t" unfolding t_def
    by (rule setupDevices_inv) (use assms(1) in \<open>simp add: pins_low_def setup_board_pins\<close>)
  moreover have "devices (core_of (setup_sketch BUILD_TIME cu th st)) = devices t"
    "pins (brd (core_of (setup_sketch BUILD_TIME cu th st))) = pins (brd t)"
    by (simp_all add: setup_sketch_def Let_def t_def)
  ultimately have "table_inv (core_of (setup_sketch BUILD_TIME cu th st))" using table_inv_brd by blast
  moreover have "buffer_ok (setup_sketch BUILD_TIME cu th st)"
    using assms(2) by (simp add: buffer_ok_def setup_sketch_def Let_def BUFFER_SIZE_def)
  ultimately show ?thesis by blast
qed

lemma loop_pass_ok:
  assumes "loop_pass rx st = Inr (reset, rx', st')" "buffer_ok st" "table_inv (core_of st)"
  shows "buffer_ok st' \<and> table_inv (core_of st')"
proof -
  let ?st = "on_core loop_devices st"
  have "buffer_ok ?st" "table_inv (core_of ?st)"
    using assms(2,3) sys_step_inv [OF sys_step.loop] by (simp_all add: buffer_ok_def)
  then have "good_run True (processCommands rx ?st)"
    using read_loop_keeps [of ?st 0 rx] by (simp add: processCommands_def)
  moreover obtain st1 rx1 where p: "processCommands rx ?st = Inr (rx1, st1)"
      "st' = st1 \<or> st' = on_core (\<lambda>s. s\<lparr>brd := wait_ms 200 (brd s)\<rparr>) st1"
    using assms(1) by (cases "processCommands rx ?st") (auto simp: loop_pass_def Let_def split: if_splits)
  ultimately have "buffer_ok st1 \<and> table_inv (core_of st1)" by (simp add: good_run_def)
  then show ?thesis using p(2)
    by (auto simp: buffer_ok_def wait_ms_def intro: iffD1 [OF table_inv_brd, rotated 2])
qed

lemma sketch_reachable_ok: "sketch_reachable st \<Longrightarrow> buffer_ok st \<and> table_inv (core_of st)"
proof (induction rule: sketch_reachable.induct)
  case (boot st BUILD_TIME cu th)
  then show ?case by (rule setup_sketch_ok)
next
  case (pass st rx reset rx' st')
  then show ?case using loop_pass_ok by blast
next
  case (world st t h c r)
  then show ?case using sys_step_inv [OF sys_step.world] by (auto simp: buffer_ok_def)
qed

text \<open>
  C1. In every state that the sketch can reach from power-up, with any contents of the EEPROM, any characters on
  the serial port and any passage of time: a device that is disabled has its power pin low, every device
  is disabled, stopped, started or stopping (the state STARTING with its five-minute kill is never
  entered) and keeps the port number of its slot, and reading the serial port has not left the line buffer.
\<close>

theorem sketch_invariant:
  assumes "sketch_reachable st" "validPort i"
  shows "(state (devices (core_of st) i) = STATE_DISABLED \<longrightarrow> \<not> pins (brd (core_of st)) (POWER_PINS i)) \<and>
    state (devices (core_of st) i) \<in> {STATE_DISABLED, STATE_STOPPED, STATE_STARTED, STATE_STOPPING} \<and>
    port (devices (core_of st) i) = i \<and> buffer_ok st"
  using sketch_reachable_ok [OF assms(1)] assms(2) by (auto simp: table_inv_def dev_ok_def live_state_def)

text \<open>A board whose EEPROM has its magic number and otherwise zeros: devices 1 to 4 are disabled.\<close>

definition quiet_sketch :: sketch where
  "quiet_sketch = demo_sketch\<lparr>core_of := boot_sys\<lparr>brd := (brd boot_sys)\<lparr>ee := ee_put (\<lambda>_. 0) 0 (le_bytes 4 MAGIC)\<rparr>\<rparr>\<rparr>"

lemma setupDevices_quiet:
  assumes "\<forall>i. getRelayState i (ee (brd s)) = 0"
  shows "setupDevices s = s\<lparr>devices := (\<lambda>i. if validPort i then Device_init (brd s) (device_table i) else device_table i)\<rparr>"
  using assms by (simp add: setupDevices_split recover_relay_def)

lemma quiet_board:
  fixes cu th :: "u8 \<Rightarrow> nat \<Rightarrow> u16"
  shows "dev_abs i (ee (setup_board 0 cu th (brd (core_of quiet_sketch)))) = dev_abs i (\<lambda>_. 0)"
proof -
  let ?m = "ee_put (\<lambda>_. 0) 0 (le_bytes 4 MAGIC)"
  have "initialized ?m" by (simp add: initialized_def ee_simps mem_simps del: read_block.simps)
  then have "\<exists>t. ee (setup_board 0 cu th (brd (core_of quiet_sketch))) = incrementBootCount (setLastBootTime t ?m)"
    by (auto simp: setup_board_def Let_def quiet_sketch_def Wagman_init_def wait_ms_def on_ee_def power_lost_def)
  then show ?thesis by (auto simp: incrementBootCount_def)
qed

lemma quiet_readings:
  fixes cu th :: "u8 \<Rightarrow> nat \<Rightarrow> u16"
  defines "b \<equiv> setup_board 0 cu th (brd (core_of quiet_sketch))"
  shows "getRelayState i (ee b) = 0" "\<not> getDeviceEnabled 3 (ee b)"
  using quiet_board [of i cu th] quiet_board [of 3 cu th]
  by (auto simp: b_def dev_abs_def getRelayState_def getDeviceEnabled_def ee_read_def)

theorem sketch_invariant_witness:
  "\<not> pins (brd (core_of (setup_sketch 0 (\<lambda>_ _. 0) (\<lambda>_ _. 0) quiet_sketch))) (POWER_PINS 3) \<and> buffer_ok (setup_sketch 0 (\<lambda>_ _. 0) (\<lambda>_ _. 0) quiet_sketch)"
proof -
  have r: "sketch_reachable (setup_sketch 0 (\<lambda>_ _. 0) (\<lambda>_ _. 0) quiet_sketch)"
    by (rule sketch_reachable.boot) (simp_all add: quiet_sketch_def demo_sketch_def pins_low_def boot_sys_def BUFFER_SIZE_def)
  have f: "ee_read (ee (brd (core_of quiet_sketch))) 0x41 = 0"
    by (simp add: quiet_sketch_def ee_simps write_block_apply)
  have "state (devices (core_of (setup_sketch 0 (\<lambda>_ _. 0) (\<lambda>_ _. 0) quiet_sketch)) 3) = STATE_DISABLED"
    by (simp add: quiet_readings setup_sketch_def Let_def f setupDevices_quiet Device_init_fields device_table_port validPort_def)
  then show ?thesis using sketch_invariant [OF r, of 3] by (simp add: validPort_def)
qed

end
