(* ===== verification/Serial_Commands.thy ===== *)
theory Serial_Commands
  imports Usb_Serial Sketch
begin

text \<open>
  The command loop of the sketch on a serial port: \<^verbatim>\<open>processCommands\<close> of \<^verbatim>\<open>firmware.ino\<close> with its calls of
  \<^verbatim>\<open>Serial.available\<close> and \<^verbatim>\<open>Serial.read\<close>, for any port given by these two operations. In the theory \<open>Sketch\<close>
  the port is the list of the characters that have arrived; here that is proved right for every port with the
  laws of a byte source, and so for the USB port of \<open>Usb_Serial\<close>.
\<close>

section \<open>The loops\<close>

text \<open>A character read from the port: \<^verbatim>\<open>char c = Serial.read()\<close> keeps the low eight bits.\<close>

definition to_char :: "int \<Rightarrow> char" where
  "to_char c = char_of (nat (c mod 256))"

function flush_port :: "('s \<Rightarrow> int \<times> 's) \<Rightarrow> ('s \<Rightarrow> int \<times> 's) \<Rightarrow> nat \<Rightarrow> 's \<Rightarrow> nat \<times> 's" where
  "flush_port avail get dataread s =
    (let n = fst (avail s); s = snd (avail s)
     in if 0 < n \<and> dataread < 240
        then let c = fst (get s); s = snd (get s)
             in if c = 10 then (dataread, s) else flush_port avail get (Suc dataread) s
        else (dataread, s))"
  by pat_completeness auto
termination by (relation "measure (\<lambda>(avail, get, n, s). 240 - n)") auto

declare flush_port.simps [simp del]

lemma flush_port_mono: "n \<le> fst (flush_port avail get n s)"
proof (induction avail get n s rule: flush_port.induct)
  case (1 avail get n s)
  then show ?case by (subst flush_port.simps) (auto simp: Let_def intro: Suc_leD)
qed

function read_port :: "('s \<Rightarrow> int \<times> 's) \<Rightarrow> ('s \<Rightarrow> int \<times> 's) \<Rightarrow> nat \<Rightarrow> 's \<Rightarrow> sketch \<Rightarrow> fault + 's \<times> sketch" where
  "read_port avail get dataread s st =
    (let n = fst (avail s); s = snd (avail s)
     in if 0 < n \<and> dataread < 240
        then let c = to_char (fst (get s)); s = snd (get s)
             in case store (unat (bufferSize st)) c st of None \<Rightarrow> Inl Buffer_overrun
             | Some st \<Rightarrow>
               let st = st\<lparr>bufferSize := bufferSize st + 1\<rparr>
               in if BUFFER_SIZE \<le> unat (bufferSize st)
                  then let st = st\<lparr>bufferSize := 0\<rparr>; r = flush_port avail get (Suc dataread) s
                       in read_port avail get (fst r) (snd r) st
                  else if c = CHR 0x0A
                  then case store (unat (bufferSize st)) NUL st of None \<Rightarrow> Inl Buffer_overrun
                    | Some st \<Rightarrow> (case processCommand (st\<lparr>bufferSize := 0\<rparr>) of Inl e \<Rightarrow> Inl e
                        | Inr st \<Rightarrow> read_port avail get (Suc dataread) s st)
                  else read_port avail get (Suc dataread) s st
        else Inr (s, st))"
  by pat_completeness auto
termination
proof (relation "measure (\<lambda>(avail, get, n, s, st). 240 - n)", goal_cases)
  case (2 avail get dataread s st n t c t' st1 st2 st3 r)
  then show ?case using flush_port_mono [of "Suc dataread" avail get t'] by auto
qed auto

declare read_port.simps [simp del]

definition processCommands_port :: "('s \<Rightarrow> int \<times> 's) \<Rightarrow> ('s \<Rightarrow> int \<times> 's) \<Rightarrow> 's \<Rightarrow> sketch \<Rightarrow> fault + 's \<times> sketch" where
  "processCommands_port avail get s st = read_port avail get 0 s st"

section \<open>Any byte source is the list of its bytes\<close>

lemma to_char_byte: "to_char (uint (b :: u8)) = char_of (unat b)"
proof -
  have "nat (uint b mod 256) = unat b" using uint_lt2p [of b] by simp
  then show ?thesis by (simp only: to_char_def)
qed

lemma newline_byte: "uint (b :: u8) = 10 \<longleftrightarrow> char_of (unat b) = CHR 0x0A"
proof -
  have "char_of (unat b) = CHR 0x0A \<longleftrightarrow> take_bit 8 (unat b) = 10" by (simp add: char_of_eq_iff)
  also have "take_bit 8 (unat b) = unat b" using unat_less_256 [of b] by (intro take_bit_nat_eq_self) simp
  also have "unat b = 10 \<longleftrightarrow> uint b = 10"
  proof -
    obtain m where m: "uint b = int m" "unat b = m" using uint_nat by blast
    show ?thesis unfolding m by simp
  qed
  finally show ?thesis by simp
qed

context byte_source
begin

definition chars :: "'s \<Rightarrow> char list" where
  "chars s = map (\<lambda>b. char_of (unat b)) (pend s)"

lemma flush_port_list:
  assumes "ok s"
  shows "fst (flush_port avail get n s) = fst (flush_line n (chars s)) \<and> ok (snd (flush_port avail get n s)) \<and>
    chars (snd (flush_port avail get n s)) = snd (flush_line n (chars s))"
  using assms
proof (induction "240 - n" arbitrary: n s)
  case less: 0
  then show ?case using avail_keeps [OF less(2)]
    by (subst (1 2 3) flush_port.simps, cases "chars s") (auto simp: Let_def chars_def)
next
  case (Suc k)
  let ?s = "snd (avail s)"
  have s: "ok ?s" "pend ?s = pend s" using avail_keeps [OF Suc.prems] by simp_all
  show ?case
  proof (cases "pend s")
    case Nil
    then show ?thesis using avail_iff [OF Suc.prems] s
      by (subst (1 2 3) flush_port.simps) (simp add: Let_def chars_def)
  next
    case (Cons b bs)
    then have g: "fst (get ?s) = uint b" "pend (snd (get ?s)) = bs" "ok (snd (get ?s))"
      using get_next [OF s(1)] s(2) by auto
    have n: "n < 240" using Suc.hyps(2) by simp
    have a: "0 < fst (avail s)" using avail_iff [OF Suc.prems] Cons by simp
    have c: "chars s = char_of (unat b) # chars (snd (get ?s))" by (simp add: chars_def Cons g)
    have u: "flush_port avail get n s = (if uint b = 10 then (n, snd (get ?s)) else flush_port avail get (Suc n) (snd (get ?s)))"
      using n a by (subst flush_port.simps) (simp add: Let_def g)
    show ?thesis using Suc.hyps(1) [OF _ g(3), of "Suc n"] Suc.hyps(2) n unfolding u c
      by (simp add: newline_byte g(3))
  qed
qed

definition as_list :: "fault + 's \<times> sketch \<Rightarrow> fault + char list \<times> sketch \<Rightarrow> bool" where
  "as_list = rel_sum (=) (rel_prod (\<lambda>s rx. ok s \<and> chars s = rx) (=))"

lemma as_list_simps [simp]: "as_list (Inl e) (Inl e)" "as_list (Inr (s, st)) (Inr (rx, st')) \<longleftrightarrow> ok s \<and> chars s = rx \<and> st = st'"
  by (simp_all add: as_list_def)

lemma read_port_list:
  assumes "ok s"
  shows "as_list (read_port avail get n s st) (read_loop n (chars s) st)"
  using assms
proof (induction "240 - n" arbitrary: n s st rule: less_induct)
  case less
  let ?s = "snd (avail s)"
  have s: "ok ?s" "pend ?s = pend s" using avail_keeps [OF less.prems] by simp_all
  show ?case
  proof (cases "pend s = [] \<or> 240 \<le> n")
    case True
    then have r: "read_port avail get n s st = Inr (?s, st)"
      using avail_iff [OF less.prems] by (subst read_port.simps) (auto simp: Let_def)
    have "read_loop n (chars s) st = Inr (chars s, st)"
      using True by (cases "chars s") (auto simp: read_loop.simps chars_def)
    then show ?thesis using s by (simp add: r chars_def)
  next
    case False
    then obtain b bs where p: "pend s = b # bs" and n: "n < 240" by (cases "pend s") auto
    let ?t = "snd (get ?s)" and ?c = "char_of (unat b) :: char"
    have g: "fst (get ?s) = uint b" "pend ?t = bs" "ok ?t" using get_next [OF s(1)] s(2) p by auto
    have a: "0 < fst (avail s)" using avail_iff [OF less.prems] p by simp
    have c: "chars s = ?c # chars ?t" by (simp add: chars_def p g)
    have next_ok: "as_list (read_port avail get (Suc n) ?t st') (read_loop (Suc n) (chars ?t) st')" for st'
      using less.hyps [OF _ g(3)] n by simp
    let ?f = "flush_port avail get (Suc n) ?t"
    note fl = flush_port_list [OF g(3), of "Suc n"]
    have "n < fst ?f" using flush_port_mono [of "Suc n" avail get ?t] by simp
    then have flush_ok: "as_list (read_port avail get (fst ?f) (snd ?f) st')
        (read_loop (fst (flush_line (Suc n) (chars ?t))) (snd (flush_line (Suc n) (chars ?t))) st')" for st'
      using less.hyps [of "fst ?f" "snd ?f" st'] fl n by simp
    show ?thesis unfolding c
      using n a next_ok flush_ok
      by (subst read_port.simps, subst read_loop.simps) (simp add: Let_def g to_char_byte split: option.split sum.split)
  qed
qed

end

section \<open>Properties\<close>

text \<open>
  C8. The sketch on its USB port. Let the port be configured and hold the packets the host has sent, none of
  them empty. Running \<^verbatim>\<open>processCommands\<close> with \<^verbatim>\<open>Serial.available\<close> and \<^verbatim>\<open>Serial.read\<close> of the USB core is the same as
  running it on the list of the characters sent, in order: the same error, or the same state of the sketch
  with the rest of the characters still in the port.
\<close>

theorem commands_from_usb:
  assumes "rx_ok u"
  shows "rel_sum (=) (rel_prod (\<lambda>v rx. rx_ok v \<and> map (\<lambda>b. char_of (unat b)) (pending v) = rx) (=))
    (processCommands_port Serial_available Serial_read u st)
    (processCommands (map (\<lambda>b. char_of (unat b)) (pending u)) st)"
  using serial_in.read_port_list [OF assms, of 0 st]
  by (simp add: serial_in.as_list_def serial_in.chars_def processCommands_port_def processCommands_def)

theorem commands_from_usb_witness:
  "rel_sum (=) (rel_prod (\<lambda>v rx. rx_ok v \<and> map (\<lambda>b. char_of (unat b)) (pending v) = rx) (=))
    (processCommands_port Serial_available Serial_read (give_out 2 [0x68, 0x0A] port_0) demo_sketch)
    (processCommands [CHR ''h'', CHR 0x0A] demo_sketch)"
proof -
  let ?u = "give_out 2 [0x68, 0x0A] port_0"
  have u: "rx_bulk (eps ?u 2)" "banks (eps ?u 2) = [[0x68, 0x0A]]" "peek_buffer ?u = -1" "usbConfiguration ?u = 1"
    "setup_pkt (eps ?u 2) = None"
    using give_out_bulk [OF port_0_rx(1), of "[0x68, 0x0A]"] by (simp_all add: port_0_rx(2,3) port_0_rest(1,8))
  then have ok: "rx_ok ?u" and p: "pending ?u = [0x68, 0x0A]" by (simp_all add: rx_ok_def rx_bulk_def pending_def)
  have "map (\<lambda>b. char_of (unat b)) [0x68, 0x0A :: u8] = [CHR ''h'', CHR 0x0A]" by code_simp
  then show ?thesis using commands_from_usb [OF ok, of demo_sketch] by (simp only: p)
qed

end
