(* ===== verification/Print_Numbers.thy ===== *)
theory Print_Numbers
  imports Usb_Serial
begin

text \<open>
  Output of text (\<^verbatim>\<open>Print.cpp\<close> of the Arduino core, \<^verbatim>\<open>Logger.cpp\<close> of the firmware). A printer is the virtual method
  \<^verbatim>\<open>write(buffer, size)\<close>: an operation that takes bytes and a state and returns how many it has written;
  \<open>None\<close> stands for an output that does not return. Numbers are converted in a buffer of 33 characters; a
  character stored in front of it would be \<open>None\<close> as well. \<^verbatim>\<open>printFloat\<close> and the overloads for \<^verbatim>\<open>String\<close>, flash
  strings and \<^verbatim>\<open>Printable\<close> are not modelled.
\<close>

section \<open>Numbers\<close>

type_synonym 's printer = "u8 list \<Rightarrow> 's \<Rightarrow> (int \<times> 's) option"

text \<open>\<^verbatim>\<open>char c\<close> is signed.\<close>

definition digit :: "u8 \<Rightarrow> u8" where
  "digit c = (if sint c < 10 then c + 48 else c + 65 - 10)"

fun digit_loop :: "nat \<Rightarrow> u32 \<Rightarrow> u8 \<Rightarrow> u8 list \<Rightarrow> u8 list option" where
  "digit_loop 0 n base str = None"
| "digit_loop (Suc room) n base str =
    (let c = ucast (n mod ucast base);
         n = n div ucast base;
         str = digit c # str
     in if n \<noteq> 0 then digit_loop room n base str else Some str)"

definition number_text :: "u32 \<Rightarrow> u8 \<Rightarrow> u8 list option" where
  "number_text n base = digit_loop 32 n (if base < 2 then 10 else base) []"

definition printNumber :: "'s printer \<Rightarrow> u32 \<Rightarrow> u8 \<Rightarrow> 's \<Rightarrow> (int \<times> 's) option" where
  "printNumber w n base s = do { str \<leftarrow> number_text n base; w str s }"

definition print_str :: "'s printer \<Rightarrow> u8 list \<Rightarrow> 's \<Rightarrow> (int \<times> 's) option" where
  "print_str w str s = w str s"

definition print_char :: "'s printer \<Rightarrow> u8 \<Rightarrow> 's \<Rightarrow> (int \<times> 's) option" where
  "print_char w c s = w [c] s"

definition print_ulong :: "'s printer \<Rightarrow> u32 \<Rightarrow> u8 \<Rightarrow> 's \<Rightarrow> (int \<times> 's) option" where
  "print_ulong w n base s = (if base = 0 then w [ucast n] s else printNumber w n base s)"

definition print_long :: "'s printer \<Rightarrow> u32 \<Rightarrow> u8 \<Rightarrow> 's \<Rightarrow> (int \<times> 's) option" where
  "print_long w n base s =
    (if base = 0 then w [ucast n] s
     else if base = 10
     then if sint n < 0
          then do { (t, s) \<leftarrow> print_char w 45 s;
                    (k, s) \<leftarrow> printNumber w (- n) 10 s;
                    Some (k + t, s) }
          else printNumber w n 10 s
     else printNumber w n base s)"

definition print_uchar :: "'s printer \<Rightarrow> u8 \<Rightarrow> u8 \<Rightarrow> 's \<Rightarrow> (int \<times> 's) option" where
  "print_uchar w b base s = print_ulong w (ucast b) base s"

definition print_int :: "'s printer \<Rightarrow> u16 \<Rightarrow> u8 \<Rightarrow> 's \<Rightarrow> (int \<times> 's) option" where
  "print_int w n base s = print_long w (scast n) base s"

definition print_uint :: "'s printer \<Rightarrow> u16 \<Rightarrow> u8 \<Rightarrow> 's \<Rightarrow> (int \<times> 's) option" where
  "print_uint w n base s = print_ulong w (ucast n) base s"

definition println :: "'s printer \<Rightarrow> 's \<Rightarrow> (int \<times> 's) option" where
  "println w s = w [13, 10] s"

definition with_newline :: "'s printer \<Rightarrow> ('s \<Rightarrow> (int \<times> 's) option) \<Rightarrow> 's \<Rightarrow> (int \<times> 's) option" where
  "with_newline w p s = do { (n, s) \<leftarrow> p s; (k, s) \<leftarrow> println w s; Some (n + k, s) }"

definition println_str :: "'s printer \<Rightarrow> u8 list \<Rightarrow> 's \<Rightarrow> (int \<times> 's) option" where
  "println_str w str s = with_newline w (print_str w str) s"

definition println_char :: "'s printer \<Rightarrow> u8 \<Rightarrow> 's \<Rightarrow> (int \<times> 's) option" where
  "println_char w c s = with_newline w (print_char w c) s"

definition println_uchar :: "'s printer \<Rightarrow> u8 \<Rightarrow> u8 \<Rightarrow> 's \<Rightarrow> (int \<times> 's) option" where
  "println_uchar w b base s = with_newline w (print_uchar w b base) s"

definition println_int :: "'s printer \<Rightarrow> u16 \<Rightarrow> u8 \<Rightarrow> 's \<Rightarrow> (int \<times> 's) option" where
  "println_int w n base s = with_newline w (print_int w n base) s"

definition println_uint :: "'s printer \<Rightarrow> u16 \<Rightarrow> u8 \<Rightarrow> 's \<Rightarrow> (int \<times> 's) option" where
  "println_uint w n base s = with_newline w (print_uint w n base) s"

definition println_long :: "'s printer \<Rightarrow> u32 \<Rightarrow> u8 \<Rightarrow> 's \<Rightarrow> (int \<times> 's) option" where
  "println_long w n base s = with_newline w (print_long w n base) s"

definition println_ulong :: "'s printer \<Rightarrow> u32 \<Rightarrow> u8 \<Rightarrow> 's \<Rightarrow> (int \<times> 's) option" where
  "println_ulong w n base s = with_newline w (print_ulong w n base) s"

section \<open>The log\<close>

definition Logger_begin :: "'s printer \<Rightarrow> bool \<Rightarrow> u8 list \<Rightarrow> 's \<Rightarrow> 's option" where
  "Logger_begin w logging name s =
    (if logging
     then do { (_, s) \<leftarrow> print_str w (ascii ''log: '') s;
               (_, s) \<leftarrow> print_str w name s;
               (_, s) \<leftarrow> print_char w 32 s;
               Some s }
     else Some s)"

definition Logger_end :: "'s printer \<Rightarrow> bool \<Rightarrow> 's \<Rightarrow> 's option" where
  "Logger_end w logging s = (if logging then map_option snd (println w s) else Some s)"

definition Logger_log :: "bool \<Rightarrow> ('s \<Rightarrow> (int \<times> 's) option) \<Rightarrow> 's \<Rightarrow> 's option" where
  "Logger_log logging p s = (if logging then map_option snd (p s) else Some s)"

text \<open>The printer of the sketch: \<^verbatim>\<open>Serial\<close>, with what will happen on the bus as a part of the state.\<close>

definition Serial_printer :: "PluggableUSB \<Rightarrow> (hev list list \<times> ucore) printer" where
  "Serial_printer P str = (\<lambda>(ahead, u). map_option (\<lambda>(r, ahead, u). (r, ahead, u)) (Serial_write P str ahead u))"

section \<open>Reading a number back\<close>

definition undigit :: "u8 \<Rightarrow> nat" where
  "undigit d = (if unat d < 58 then unat d - 48 else unat d - 55)"

definition val :: "nat \<Rightarrow> u8 list \<Rightarrow> nat" where
  "val b t = foldl (\<lambda>a d. a * b + undigit d) 0 t"

definition read_long :: "u8 list \<Rightarrow> int" where
  "read_long t = (if t \<noteq> [] \<and> hd t = 45 then - int (val 10 (tl t)) else int (val 10 t))"

lemma val_snoc [simp]: "val b (t @ [d]) = val b t * b + undigit d"
  by (simp add: val_def)

lemma val_Nil [simp]: "val b [] = 0"
  by (simp add: val_def)

lemma sint_small: "unat (c :: u8) < 128 \<Longrightarrow> sint c = int (unat c)"
proof -
  assume c: "unat c < 128"
  obtain m where m: "uint c = int m" "unat c = m" using uint_nat by blast
  have "sint c = signed_take_bit 7 (uint c)" by (simp add: sint_uint)
  also have "\<dots> = uint c" using c by (intro signed_take_bit_int_eq_self) (simp_all add: m)
  finally show ?thesis by (simp only: m)
qed

lemma digit_roundtrip:
  assumes "unat c < 36"
  shows "undigit (digit c) = unat c" "digit c \<noteq> 45"
proof -
  have "sint c = int (unat c)" using assms by (intro sint_small) simp
  then have s: "sint c < 10 \<longleftrightarrow> unat c < 10" by (simp del: of_nat_unat)
  have "unat (digit c) = (if unat c < 10 then unat c + 48 else unat c + 55)"
    using assms by (simp add: digit_def s unat_word_ariths)
  then show "undigit (digit c) = unat c" "digit c \<noteq> 45"
    using assms by (auto simp: undigit_def split: if_splits)
qed

lemma unat_ucast_u8: "unat (ucast (b :: u8) :: u32) = unat b"
proof -
  have "unat b < 2 ^ 32" using unat_less_256 [of b] by simp
  then show ?thesis by (simp add: unsigned_ucast_eq take_bit_nat_eq_self)
qed

lemma digit_loop_val:
  assumes b: "2 \<le> unat base" "unat base \<le> 36" and n: "unat n < unat base ^ room" "0 < room"
  shows "\<exists>t. digit_loop room n base str = Some (t @ str) \<and> val (unat base) t = unat n \<and> t \<noteq> [] \<and> length t \<le> room \<and> hd t \<noteq> 45"
  using n
proof (induction room arbitrary: n str)
  case (Suc room)
  let ?b = "unat base" and ?q = "n div ucast base" and ?c = "ucast (n mod ucast base) :: u8"
  have q: "unat ?q = unat n div ?b" by (simp add: unat_div unat_ucast_u8)
  have m: "unat (n mod ucast base) = unat n mod ?b" by (simp add: unat_mod unat_ucast_u8)
  have "unat n mod ?b < 36" using b by (meson less_le_trans mod_less_divisor order.strict_trans2 zero_less_numeral)
  then have c: "unat ?c = unat n mod ?b" by (simp add: unsigned_ucast_eq m take_bit_nat_eq_self)
  have "unat ?c < 36" using c \<open>unat n mod ?b < 36\<close> by simp
  note d = digit_roundtrip [OF this]
  show ?case
  proof (cases "?q = 0")
    case True
    then have "unat n div ?b = 0" using q by simp
    then have "unat n mod ?b = unat n" using div_mult_mod_eq [of "unat n" ?b] by simp
    with True d c b show ?thesis by (intro exI [of _ "[digit ?c]"]) (simp add: val_def)
  next
    case False
    then have "0 < unat n div ?b" using q by (metis unat_gt_0)
    then have "room \<noteq> 0" using Suc.prems(1) by (cases room) auto
    moreover have "unat ?q < ?b ^ room" using Suc.prems(1) b by (simp add: q less_mult_imp_div_less mult.commute)
    ultimately obtain t where t: "digit_loop room ?q base (digit ?c # str) = Some (t @ digit ?c # str)"
      "val ?b t = unat ?q" "t \<noteq> []" "length t \<le> room" "hd t \<noteq> 45"
      using Suc.IH [of ?q "digit ?c # str"] by auto
    have "val ?b (t @ [digit ?c]) = unat n" using t(2) d c by (simp add: q)
    with t False show ?thesis by (intro exI [of _ "t @ [digit ?c]"]) (simp add: Let_def)
  qed
qed simp

lemma number_text_val:
  assumes "2 \<le> unat base" "unat base \<le> 36"
  shows "\<exists>t. number_text n base = Some t \<and> val (unat base) t = unat n \<and> t \<noteq> [] \<and> length t \<le> 32 \<and> hd t \<noteq> 45"
proof -
  have "unat n < 2 ^ 32" using unat_lt2p_any [of n] by simp
  also have "(2 :: nat) ^ 32 \<le> unat base ^ 32" using assms(1) by (intro power_mono) simp_all
  finally have "unat n < unat base ^ 32" .
  moreover have "\<not> base < 2" using assms(1) by (simp add: word_less_nat_alt)
  ultimately show ?thesis using digit_loop_val [OF assms, of n 32 "[]"] by (simp add: number_text_def)
qed

lemma sint_u32: "sint (i :: u32) = (if uint i < 2 ^ 31 then uint i else uint i - 2 ^ 32)"
proof -
  have b: "0 \<le> uint i" "uint i < 2 ^ 32" using uint_lt2p [of i] by simp_all
  have "sint i = signed_take_bit 31 (uint i)" by (simp add: sint_uint)
  also have "\<dots> = uint i - 2 ^ 32 * of_bool (bit (uint i) 31)"
    using b by (simp add: signed_take_bit_eq_take_bit_minus take_bit_int_eq_self)
  also have "bit (uint i) 31 \<longleftrightarrow> \<not> uint i < 2 ^ 31"
  proof (cases "uint i < 2 ^ 31")
    case True
    with b(1) have "uint i div 2 ^ 31 = 0" by (intro div_pos_pos_trivial)
    then show ?thesis using True by (simp only: bit_iff_odd) simp
  next
    case False
    then have "uint i div 2 ^ 31 = (uint i - 2 ^ 31) div 2 ^ 31 + 1" by (intro div_pos_geq) simp_all
    also have "(uint i - 2 ^ 31) div 2 ^ 31 = 0" using False b by (intro div_pos_pos_trivial) simp_all
    finally show ?thesis using False by (simp only: bit_iff_odd) simp
  qed
  finally show ?thesis by simp
qed

lemma pos_unat: "\<not> sint (i :: u32) < 0 \<Longrightarrow> int (unat i) = sint i"
  using uint_lt2p [of i] by (simp add: sint_u32 split: if_splits)

lemma neg_unat:
  assumes "sint (i :: u32) < 0"
  shows "- int (unat (- i)) = sint i"
proof -
  have u: "2 ^ 31 \<le> uint i" "uint i < 2 ^ 32" "sint i = uint i - 2 ^ 32"
    using assms uint_lt2p [of i] by (simp_all add: sint_u32 split: if_splits)
  then have "i \<noteq> 0" by auto
  have "uint (- i) = (- uint i) mod 2 ^ 32" by (simp add: uint_word_ariths)
  also have "\<dots> = 2 ^ 32 - uint i" using u(1,2) by (simp add: zmod_zminus1_eq_if)
  finally show ?thesis using u(3) by simp
qed

text \<open>The printer that keeps what is written.\<close>

definition keep :: "u8 list printer" where
  "keep str out = Some (int (length str), out @ str)"

text \<open>
  C16. Numbers are printed faithfully. For every unsigned number and every base from 2 to 36, the conversion
  stays within its buffer and yields at least one and at most 32 digits, which read back give the number;
  and for every signed number, the smallest one included, printing in base 10 reports the number of
  characters written, and these read back give the number.
\<close>

theorem numbers_print:
  assumes "2 \<le> unat base" "unat base \<le> 36"
  shows "(\<exists>t. printNumber keep n base out = Some (int (length t), out @ t) \<and> val (unat base) t = unat n \<and>
      0 < length t \<and> length t \<le> 32) \<and>
    (\<exists>t. print_long keep i 10 out = Some (int (length t), out @ t) \<and> read_long t = sint i)"
proof
  show "\<exists>t. printNumber keep n base out = Some (int (length t), out @ t) \<and> val (unat base) t = unat n \<and>
      0 < length t \<and> length t \<le> 32"
    using number_text_val [OF assms, of n] by (auto simp: printNumber_def keep_def)
next
  obtain t where t: "number_text i 10 = Some t" "val 10 t = unat i" "hd t \<noteq> 45" using number_text_val [of 10 i] by auto
  obtain r where r: "number_text (- i) 10 = Some r" "val 10 r = unat (- i)" using number_text_val [of 10 "- i"] by auto
  show "\<exists>t. print_long keep i 10 out = Some (int (length t), out @ t) \<and> read_long t = sint i"
  proof (cases "sint i < 0")
    case True
    then have "read_long (45 # r) = sint i" using neg_unat [OF True] by (simp add: read_long_def r(2))
    then show ?thesis using True r(1)
      by (intro exI [of _ "45 # r"]) (simp add: print_long_def print_char_def printNumber_def keep_def)
  next
    case False
    then have "read_long t = sint i" using pos_unat [OF False] t(3) by (simp add: read_long_def t(2))
    then show ?thesis using False t(1) by (intro exI [of _ t]) (simp add: print_long_def printNumber_def keep_def)
  qed
qed

theorem numbers_print_witness:
  "(\<exists>t. printNumber keep 255 16 [] = Some (int (length t), t) \<and> val 16 t = 255) \<and>
   (\<exists>t. print_long keep 0x80000000 10 [] = Some (int (length t), t) \<and> read_long t = - 2147483648)"
  using numbers_print [where base = 16 and n = 255 and out = "[]" and i = "0x80000000"] by auto

end
