(* ===== verification/Boot_History.thy ===== *)
theory Boot_History
  imports Firmware
begin

text \<open>
  The signs of life of the devices. The timer interrupt of \<^verbatim>\<open>Wagman.cpp\<close> that samples the heartbeat lines and
  counts their changes for \<^verbatim>\<open>Device::updateHeartbeat\<close>, and the evaluation of the boot logs in \<^verbatim>\<open>firmware.ino\<close>
  (\<^verbatim>\<open>meanBootDelta\<close>, \<^verbatim>\<open>deviceKilled\<close>). A count of 0 makes \<^verbatim>\<open>meanBootDelta\<close> divide by zero, which is the
  result \<open>None\<close>.
\<close>

section \<open>The heartbeat lines\<close>

definition HEARTBEAT_PINS :: "nat \<Rightarrow> u8" where
  "HEARTBEAT_PINS i = [5, 7, 22, 11, 23] ! i"

text \<open>The interrupt handler: \<open>lines\<close> are the levels of the pins at the moment of the interrupt, the first
  state component is \<^verbatim>\<open>heartbeatState\<close>.\<close>

definition sample_line :: "(u8 \<Rightarrow> bool) \<Rightarrow> nat \<Rightarrow> (nat \<Rightarrow> bool) \<times> board \<Rightarrow> (nat \<Rightarrow> bool) \<times> board" where
  "sample_line lines i = (\<lambda>(heartbeatState, b).
    (let newState = lines (HEARTBEAT_PINS i);
         triggered = (heartbeatState i \<noteq> newState);
         b = (if triggered
              then b\<lparr>heartbeatCounters := (heartbeatCounters b)(of_nat i := heartbeatCounters b (of_nat i) + 1)\<rparr> else b)
     in (heartbeatState(i := newState), b)))"

definition TIMER1_OVF_vect :: "(u8 \<Rightarrow> bool) \<Rightarrow> (nat \<Rightarrow> bool) \<times> board \<Rightarrow> (nat \<Rightarrow> bool) \<times> board" where
  "TIMER1_OVF_vect lines s = fold (sample_line lines) [0, 1, 2, 3, 4] s"

section \<open>The boot logs\<close>

definition meanBootDelta :: "nat \<Rightarrow> u8 \<Rightarrow> eeprom \<Rightarrow> u32 option" where
  "meanBootDelta bootLog maxSamples m =
    (let count = min maxSamples (getCount bootLog m);
         total = fold (\<lambda>i total. total + (getEntry bootLog (of_nat i) m - getEntry bootLog (of_nat i - 1) m)) [1..<unat count] 0
     in if count = 0 then None else Some (total div ucast count))"

definition deviceKilled :: "device \<Rightarrow> board \<Rightarrow> device option" where
  "deviceKilled d b =
    map_option (\<lambda>mean. if mean < 240 then d\<lparr>startDelay := 300000\<rparr> else d) (meanBootDelta (bootLogs (port d)) 3 (ee b))"

section \<open>Counting heartbeats\<close>

text \<open>How often a line changes in a series of samples.\<close>

fun changes :: "bool \<Rightarrow> bool list \<Rightarrow> nat" where
  "changes l [] = 0"
| "changes l (x # xs) = (if l \<noteq> x then 1 else 0) + changes x xs"

lemma sample_line_other [simp]:
  "i \<noteq> j \<Longrightarrow> fst (sample_line lines i s) j = fst s j"
  "of_nat i \<noteq> (p :: u8) \<Longrightarrow> heartbeatCounters (snd (sample_line lines i s)) p = heartbeatCounters (snd s) p"
  by (simp_all add: sample_line_def case_prod_unfold Let_def)

lemma sample_line_same [simp]:
  "fst (sample_line lines i s) i = lines (HEARTBEAT_PINS i)"
  "heartbeatCounters (snd (sample_line lines i s)) (of_nat i) =
    heartbeatCounters (snd s) (of_nat i) + (if fst s i \<noteq> lines (HEARTBEAT_PINS i) then 1 else 0)"
  by (simp_all add: sample_line_def case_prod_unfold Let_def)

lemma u8_of_nat_inj: "i < 256 \<Longrightarrow> j < 256 \<Longrightarrow> (of_nat i :: u8) = of_nat j \<longleftrightarrow> i = j"
  by (simp add: word_unat_eq_iff unat_of_nat)

lemma fold_samples:
  assumes "distinct is" "\<forall>i\<in>set is. i < 256" "p < 256"
  shows "fst (fold (sample_line lines) is s) p = (if p \<in> set is then lines (HEARTBEAT_PINS p) else fst s p)"
    "heartbeatCounters (snd (fold (sample_line lines) is s)) (of_nat p) = heartbeatCounters (snd s) (of_nat p) +
      (if p \<in> set is \<and> fst s p \<noteq> lines (HEARTBEAT_PINS p) then 1 else 0)"
  using assms
proof (induction "is" arbitrary: s)
  case (Cons i "is")
  { case 1
    then show ?case using Cons.IH(1) [of "sample_line lines i s"] by (cases "p = i") auto
  next
    case 2
    then show ?case using Cons.IH(2) [of "sample_line lines i s"]
      by (cases "p = i") (auto simp: u8_of_nat_inj simp del: One_nat_def)
  }
qed simp_all

lemma ISR_line:
  assumes "p < 5"
  shows "fst (TIMER1_OVF_vect lines s) p = lines (HEARTBEAT_PINS p)"
    "heartbeatCounters (snd (TIMER1_OVF_vect lines s)) (of_nat p) =
      heartbeatCounters (snd s) (of_nat p) + (if fst s p \<noteq> lines (HEARTBEAT_PINS p) then 1 else 0)"
proof -
  have "p \<in> set [0, 1, 2, 3, 4]" using assms by auto
  then show "fst (TIMER1_OVF_vect lines s) p = lines (HEARTBEAT_PINS p)"
    "heartbeatCounters (snd (TIMER1_OVF_vect lines s)) (of_nat p) =
      heartbeatCounters (snd s) (of_nat p) + (if fst s p \<noteq> lines (HEARTBEAT_PINS p) then 1 else 0)"
    using fold_samples [of "[0, 1, 2, 3, 4]" p lines s] assms by (simp_all add: TIMER1_OVF_vect_def del: fold_simps)
qed

lemma ISR_counts:
  assumes "p < 5"
  shows "heartbeatCounters (snd (fold TIMER1_OVF_vect samples s)) (of_nat p) =
    heartbeatCounters (snd s) (of_nat p) + of_nat (changes (fst s p) (map (\<lambda>lines. lines (HEARTBEAT_PINS p)) samples))"
  by (induction samples arbitrary: s) (simp_all add: ISR_line [OF assms])

lemma ISR_state:
  assumes "p < 5"
  shows "fst (fold TIMER1_OVF_vect samples s) p = last (fst s p # map (\<lambda>lines. lines (HEARTBEAT_PINS p)) samples)"
  by (induction samples arbitrary: s) (simp_all add: ISR_line [OF assms])

text \<open>A series of interrupts, then an update of the device.\<close>

definition heartbeat_round ::
  "(u8 \<Rightarrow> bool) list \<Rightarrow> (nat \<Rightarrow> bool) \<times> device \<times> board \<Rightarrow> (nat \<Rightarrow> bool) \<times> device \<times> board" where
  "heartbeat_round samples = (\<lambda>(st, d, b).
    (let (st, b) = fold TIMER1_OVF_vect samples (st, b); (d, b) = updateHeartbeat (d, b) in (st, d, b)))"

text \<open>What the rounds should leave: the last level of the line, and the number of changes, modulo 256, since
  the device was last taken for alive.\<close>

fun unclaimed :: "bool \<Rightarrow> nat \<Rightarrow> bool list list \<Rightarrow> bool \<times> nat" where
  "unclaimed l k [] = (l, k)"
| "unclaimed l k (xs # rs) =
    (let n = (k + changes l xs) mod 256 in unclaimed (last (l # xs)) (if 8 \<le> n then 0 else n) rs)"

lemma onHeartbeat_frame:
  "heartbeatCounters (snd (onHeartbeat (d, b))) = heartbeatCounters b" "port (fst (onHeartbeat (d, b))) = port d"
  by (auto simp: onHeartbeat_def Let_def Device_disable_def Device_kill_disabled changeState_def on_ee_def)

lemma counter_after:
  assumes "p < 5" "heartbeatCounters (snd s) (of_nat p) = of_nat k"
    "n = (k + changes (fst s p) (map (\<lambda>lines. lines (HEARTBEAT_PINS p)) samples)) mod 256"
  shows "heartbeatCounters (snd (fold TIMER1_OVF_vect samples s)) (of_nat p) = of_nat n"
    "8 \<le> heartbeatCounters (snd (fold TIMER1_OVF_vect samples s)) (of_nat p) \<longleftrightarrow> 8 \<le> n"
proof -
  have "(of_nat n :: u8) = of_nat (k + changes (fst s p) (map (\<lambda>lines. lines (HEARTBEAT_PINS p)) samples))"
    unfolding word_unat_eq_iff unat_of_nat assms(3) by simp
  then show c: "heartbeatCounters (snd (fold TIMER1_OVF_vect samples s)) (of_nat p) = of_nat n"
    using ISR_counts [OF assms(1), of samples s] assms(2) by simp
  have "n < 256" by (simp add: assms(3))
  then show "8 \<le> heartbeatCounters (snd (fold TIMER1_OVF_vect samples s)) (of_nat p) \<longleftrightarrow> 8 \<le> n"
    unfolding c by (simp add: word_le_nat_alt unat_of_nat)
qed

lemma round_unclaimed:
  assumes "p < 5" "port d = of_nat p" "heartbeatCounters b (of_nat p) = of_nat k"
    "n = (k + changes (st p) (map (\<lambda>lines. lines (HEARTBEAT_PINS p)) samples)) mod 256"
  obtains st' d' b' where "heartbeat_round samples (st, d, b) = (st', d', b')" "port d' = of_nat p"
    "st' p = last (st p # map (\<lambda>lines. lines (HEARTBEAT_PINS p)) samples)"
    "heartbeatCounters b' (of_nat p) = of_nat (if 8 \<le> n then 0 else n)"
proof -
  obtain st' c where f: "fold TIMER1_OVF_vect samples (st, b) = (st', c)" by fastforce
  have c: "heartbeatCounters c (of_nat p) = of_nat n" "8 \<le> heartbeatCounters c (of_nat p) \<longleftrightarrow> 8 \<le> n"
    using counter_after [OF assms(1), of "(st, b)" k n samples] assms(3,4) f by simp_all
  have l: "st' p = last (st p # map (\<lambda>lines. lines (HEARTBEAT_PINS p)) samples)"
    using ISR_state [OF assms(1), of samples "(st, b)"] f by simp
  obtain d' b' where u: "updateHeartbeat (d, c) = (d', b')" by fastforce
  have r: "heartbeat_round samples (st, d, b) = (st', d', b')" by (simp add: heartbeat_round_def f u)
  have "port d' = of_nat p \<and> heartbeatCounters b' (of_nat p) = of_nat (if 8 \<le> n then 0 else n)"
  proof (cases "8 \<le> n")
    case True
    then have e: "onHeartbeat (d, c\<lparr>heartbeatCounters := (heartbeatCounters c)(port d := 0)\<rparr>) = (d', b')"
      using u c(2) assms(2) by (simp add: updateHeartbeat_def)
    show ?thesis using onHeartbeat_frame [of d "c\<lparr>heartbeatCounters := (heartbeatCounters c)(port d := 0)\<rparr>"] True assms(2)
      unfolding e by simp
  next
    case False
    then show ?thesis using u c assms(2) by (simp add: updateHeartbeat_def)
  qed
  with that [OF r _ l] show ?thesis by blast
qed

lemma rounds_unclaimed:
  assumes "p < 5" "port d = of_nat p" "heartbeatCounters b (of_nat p) = of_nat k"
    "fold heartbeat_round rs (st, d, b) = (st', d', b')"
    "unclaimed (st p) k (map (map (\<lambda>lines. lines (HEARTBEAT_PINS p))) rs) = (l, j)"
  shows "port d' = of_nat p \<and> st' p = l \<and> heartbeatCounters b' (of_nat p) = of_nat j"
  using assms(2-)
proof (induction rs arbitrary: st d b k)
  case (Cons samples rs)
  obtain st1 d1 b1 where r: "heartbeat_round samples (st, d, b) = (st1, d1, b1)" "port d1 = of_nat p"
    "st1 p = last (st p # map (\<lambda>lines. lines (HEARTBEAT_PINS p)) samples)"
    "heartbeatCounters b1 (of_nat p) = of_nat (if 8 \<le> (k + changes (st p) (map (\<lambda>lines. lines (HEARTBEAT_PINS p)) samples)) mod 256
       then 0 else (k + changes (st p) (map (\<lambda>lines. lines (HEARTBEAT_PINS p)) samples)) mod 256)"
    by (rule round_unclaimed [OF assms(1) Cons(2,3) refl])
  show ?case
  proof (rule Cons(1) [OF r(2,4)])
    show "fold heartbeat_round rs (st1, d1, b1) = (st', d', b')" using Cons(4) r(1) by simp
  qed (use Cons(5) r(3) in \<open>simp add: Let_def\<close>)
qed simp

text \<open>
  C15. Heartbeats are seen. Let the lines be sampled by any series of timer interrupts, with updates of a device
  anywhere in between, from any value of its counter. An update takes the device for alive, and resets its
  counter, exactly if the changes of its line since it was last taken for alive are eight or more, counted
  modulo 256: changes that are too few for one update are kept for the next ones, and 256 changes between two
  updates count as none. What the other lines do does not matter.
\<close>

theorem heartbeat_seen:
  assumes "p < 5" "port d = of_nat p"
  shows "let level = (\<lambda>lines. lines (HEARTBEAT_PINS p));
      (st', d', b') = fold heartbeat_round rounds (st, d, b);
      (l, k) = unclaimed (st p) (unat (heartbeatCounters b (port d))) (map (map level) rounds);
      n = (k + changes l (map level samples)) mod 256;
      c = snd (fold TIMER1_OVF_vect samples (st', b'))
    in heartbeatCounters c (port d') = of_nat n \<and>
      updateHeartbeat (d', c) =
       (if 8 \<le> n then onHeartbeat (d', c\<lparr>heartbeatCounters := (heartbeatCounters c)(port d' := 0)\<rparr>) else (d', c))"
proof -
  let ?level = "\<lambda>lines. lines (HEARTBEAT_PINS p)"
  obtain st' d' b' where f: "fold heartbeat_round rounds (st, d, b) = (st', d', b')" by (metis prod_cases3)
  obtain l k where u: "unclaimed (st p) (unat (heartbeatCounters b (port d))) (map (map ?level) rounds) = (l, k)" by fastforce
  have "heartbeatCounters b (of_nat p) = of_nat (unat (heartbeatCounters b (port d)))" using assms(2) by simp
  from rounds_unclaimed [OF assms this f u] have r: "port d' = of_nat p" "st' p = l" "heartbeatCounters b' (of_nat p) = of_nat k"
    by simp_all
  from counter_after [OF assms(1), of "(st', b')" k _ samples] r show ?thesis
    by (simp add: f u updateHeartbeat_def)
qed

theorem heartbeat_seen_witness:
  "let (st, d, b) = heartbeat_round [\<lambda>_. True, \<lambda>_. False, \<lambda>_. True] (\<lambda>_. False, device_table 1, brd boot_sys);
     c = snd (fold TIMER1_OVF_vect [\<lambda>_. False, \<lambda>_. True, \<lambda>_. False, \<lambda>_. True, \<lambda>_. False] (st, b))
   in updateHeartbeat (d, c) = onHeartbeat (d, c\<lparr>heartbeatCounters := (heartbeatCounters c)(port d := 0)\<rparr>)"
proof -
  let ?r = "[[\<lambda>_ :: u8. True, \<lambda>_. False, \<lambda>_. True]]" and ?s = "[\<lambda>_ :: u8. False, \<lambda>_. True, \<lambda>_. False, \<lambda>_. True, \<lambda>_. False]"
  have d: "port (device_table 1) = of_nat 1" by (simp add: device_table_def)
  have z: "unat (heartbeatCounters (brd boot_sys) (port (device_table 1))) = 0" by (simp add: boot_sys_def)
  have u: "unclaimed False 0 (map (map (\<lambda>lines. lines (HEARTBEAT_PINS 1))) ?r) = (True, 3)" by (simp add: Let_def)
  have c: "(3 + changes True (map (\<lambda>lines. lines (HEARTBEAT_PINS 1)) ?s)) mod 256 = 8" by simp
  obtain st d' b where f: "heartbeat_round (hd ?r) (\<lambda>_. False, device_table 1, brd boot_sys) = (st, d', b)" by (metis prod_cases3)
  have f1: "fold heartbeat_round ?r (\<lambda>_. False, device_table 1, brd boot_sys) = (st, d', b)" using f by simp
  show ?thesis
    using heartbeat_seen [OF _ d, of ?r "\<lambda>_. False" "brd boot_sys" ?s] f
    unfolding Let_def z u f1 list.sel case_prod_conv c by simp
qed

section \<open>The mean time between boots\<close>

lemma fold_telescope:
  fixes e :: "nat \<Rightarrow> 'a::ab_group_add"
  shows "fold (\<lambda>i t. t + (e i - e (i - 1))) [1..<Suc n] a = a + (e n - e 0)"
  by (induction n) (simp_all add: algebra_simps)

text \<open>
  What the back-off of a failing device looks at: \<^verbatim>\<open>meanBootDelta\<close> is the time between the first and the
  last of the considered entries divided by the number of entries (not by the number of intervals between them,
  which is one less); it is undefined exactly for an empty log or no samples.
\<close>

theorem mean_boot_delta:
  "meanBootDelta a k m = (let n = min k (getCount a m)
     in if n = 0 then None else Some ((getEntry a (n - 1) m - getEntry a 0 m) div ucast n))"
proof -
  define n where "n = min k (getCount a m)"
  have "fold (\<lambda>i t. t + (getEntry a (of_nat i) m - getEntry a (of_nat i - 1) m)) [1..<unat n] 0 =
      getEntry a (n - 1) m - getEntry a 0 m" if "n \<noteq> 0"
  proof -
    have "unat n \<noteq> 0" using that by (simp add: unat_eq_zero)
    then obtain j where j: "unat n = Suc j" using not0_implies_Suc by blast
    have "n = of_nat (unat n)" by simp
    then have nj: "n - 1 = of_nat j" unfolding j by simp
    have "(of_nat i :: u8) - 1 = of_nat (i - 1)" if "i \<in> set [1..<Suc j]" for i
    proof -
      from that have "0 < i" by auto
      then obtain k where "i = Suc k" using gr0_implies_Suc by blast
      then show ?thesis by simp
    qed
    then have "fold (\<lambda>i t. t + (getEntry a (of_nat i) m - getEntry a (of_nat i - 1) m)) [1..<Suc j] 0 =
        fold (\<lambda>i t. t + (getEntry a (of_nat i) m - getEntry a (of_nat (i - 1)) m)) [1..<Suc j] 0"
      by (intro fold_cong) simp_all
    also have "\<dots> = getEntry a (of_nat j) m - getEntry a (of_nat 0) m"
      using fold_telescope [of "\<lambda>i. getEntry a (of_nat i) m" j 0] by simp
    finally show ?thesis by (simp only: j nj semiring_1_class.of_nat_0)
  qed
  then show ?thesis by (simp add: meanBootDelta_def Let_def n_def [symmetric])
qed

end
