(* ===== verification/Relay_Journal.thy ===== *)
theory Relay_Journal
  imports Firmware
begin

text \<open>
  The journal of the relays. \<^verbatim>\<open>Device::start\<close> and \<^verbatim>\<open>Device::kill\<close> record in the EEPROM that a relay is being
  switched, switch it, and record the result, since switching a load may break down the supply of the board;
  \<^verbatim>\<open>setupDevices\<close> looks at the journal after the next reset. Here both methods are series of steps, which a
  failure of the supply can cut anywhere. A step that writes several cells of the EEPROM (the counter of the
  boots, the boot log) does not touch the journal, so that a cut inside of it is not different from one before it.
\<close>

section \<open>Switching in steps\<close>

type_synonym step = "board \<Rightarrow> board"

definition run_steps :: "step list \<Rightarrow> board \<Rightarrow> board" where
  "run_steps fs b = fold (\<lambda>f. f) fs b"

definition setRelay_steps :: "u8 \<Rightarrow> bool \<Rightarrow> step list" where
  "setRelay_steps p on =
    (if \<not> validPort p then []
     else if p = 0 then
       [set_pin POWER_LATCH_0_PIN False, wait_ms 50, set_pin (POWER_PINS p) on, wait_ms 50,
        set_pin POWER_LATCH_0_PIN True, wait_ms 50, set_pin POWER_LATCH_0_PIN False, wait_ms 50]
     else [set_pin (POWER_PINS p) on, wait_ms 50])"

definition start_steps :: "device \<Rightarrow> board \<Rightarrow> step list" where
  "start_steps d b =
    [setBootMedia (bootSelector d) (getNextBootMedia b (d\<lparr>managed := getBootFailures (port d) (ee b) < 1024\<rparr>)),
     on_ee (incrementBootAttempts (port d)), \<lambda>b. on_ee (addEntry (bootLogs (port d)) (getTime b)) b,
     on_ee (setRelayState (port d) RELAY_TURNING_ON), wait_ms 10] @
    setRelay_steps (port d) True @
    [wait_ms 500, on_ee (setRelayState (port d) RELAY_ON), wait_ms 10]"

definition kill_steps :: "device \<Rightarrow> step list" where
  "kill_steps d =
    [on_ee (setRelayState (port d) RELAY_TURNING_OFF), wait_ms 10] @
    setRelay_steps (port d) False @
    [wait_ms 500, on_ee (setRelayState (port d) RELAY_OFF), wait_ms 10]"

definition switch_steps :: "bool \<Rightarrow> device \<Rightarrow> board \<Rightarrow> step list" where
  "switch_steps on d b = (if on then start_steps d b else kill_steps d)"

text \<open>The writes to the lines of a relay, and what one switching writes there.\<close>

definition relay_log :: "u8 \<Rightarrow> board \<Rightarrow> (u8 \<times> bool) list" where
  "relay_log p b = filter (\<lambda>(x, v). x = POWER_PINS p \<or> p = 0 \<and> x = POWER_LATCH_0_PIN) (writes b)"

definition relay_sequence :: "u8 \<Rightarrow> bool \<Rightarrow> (u8 \<times> bool) list" where
  "relay_sequence p on = (if p = 0 then [(POWER_LATCH_0_PIN, False), (POWER_PINS 0, on),
     (POWER_LATCH_0_PIN, True), (POWER_LATCH_0_PIN, False)] else [(POWER_PINS p, on)])"

definition relay_view :: "u8 \<Rightarrow> board \<Rightarrow> u8 \<times> (u8 \<times> bool) list" where
  "relay_view p b = (getRelayState p (ee b), relay_log p b)"

text \<open>The three phases of a switching that has come from the board \<open>b\<close> to the board \<open>c\<close>.\<close>

definition journal_phase :: "u8 \<Rightarrow> bool \<Rightarrow> board \<Rightarrow> board \<Rightarrow> bool" where
  "journal_phase p on b c \<longleftrightarrow>
    relay_view p c = relay_view p b \<or>
    getRelayState p (ee c) = (if on then RELAY_TURNING_ON else RELAY_TURNING_OFF) \<or>
    relay_view p c = (if on then RELAY_ON else RELAY_OFF, relay_log p b @ relay_sequence p on) \<and> pins c (POWER_PINS p) = on"

text \<open>What the start-up makes of the journal: a relay on the way is recorded as off, and after a failure of the
  supply its device, unless it is the node controller, is disabled for good.\<close>

definition recovered :: "u8 \<Rightarrow> sys \<Rightarrow> sys \<Rightarrow> bool" where
  "recovered i s t \<longleftrightarrow>
    (let r = getRelayState i (ee (brd s)); turning = (r = RELAY_TURNING_ON \<or> r = RELAY_TURNING_OFF)
     in getRelayState i (ee (brd t)) = (if turning then RELAY_OFF else r) \<and>
        getDeviceEnabled i (ee (brd t)) =
          (getDeviceEnabled i (ee (brd s)) \<and> \<not> (turning \<and> power_lost (bootflags s) \<and> i \<noteq> 0)) \<and>
        state (devices t i) = (if getDeviceEnabled i (ee (brd t)) then STATE_STOPPED else STATE_DISABLED))"

section \<open>The steps are the methods\<close>

lemma run_simps [simp]:
  "run_steps [] b = b" "run_steps (f # fs) b = run_steps fs (f b)" "run_steps (fs @ gs) b = run_steps gs (run_steps fs b)"
  by (simp_all add: run_steps_def)

lemma setRelay_run: "run_steps (setRelay_steps p on) b = setRelay p on b"
  by (simp add: setRelay_steps_def setRelay_def Let_def)

lemma start_run: "state d = STATE_STOPPED \<Longrightarrow> snd (snd (Device_start (d, b))) = run_steps (start_steps d b) b"
  by (simp add: start_steps_def Device_start_def Let_def setRelay_run)

lemma kill_run:
  "state d \<noteq> STATE_DISABLED \<Longrightarrow> snd (snd (Device_kill (d, b))) =
    (let c = run_steps (kill_steps d) b in c\<lparr>startTimer := Timer_reset (now c)\<rparr>)"
  by (simp add: kill_steps_def Device_kill_def Let_def setRelay_run)

section \<open>Frames\<close>

definition keeps :: "(board \<Rightarrow> 'a) \<Rightarrow> step \<Rightarrow> bool" where
  "keeps F f \<longleftrightarrow> (\<forall>b. F (f b) = F b)"

lemma run_keeps: "list_all (keeps F) fs \<Longrightarrow> F (run_steps fs b) = F b"
  by (induction fs arbitrary: b) (simp_all add: keeps_def)

lemma run_take_keeps: "list_all (keeps F) fs \<Longrightarrow> F (run_steps (take k fs) b) = F b"
  by (intro run_keeps) (auto simp: list_all_iff dest: in_set_takeD)

lemma keeps_view: "keeps (relay_view p) f \<Longrightarrow> keeps (\<lambda>b. getRelayState p (ee b)) f"
  by (simp add: keeps_def relay_view_def)

lemma relay_addr: "getRelayState q m = m (deviceRegion q + 38)"
  by (simp add: getRelayState_def ee_read_def)

lemma relay_state_set: "getRelayState q (setRelayState p v m) = (if q = p then v else getRelayState q m)"
  using deviceRegion_disjoint [of p q] by (auto simp: relay_addr setRelayState_def ee_write_def)

lemma relay_state_attempts: "getRelayState q (incrementBootAttempts p m) = getRelayState q m"
  using deviceRegion_disjoint [of p q]
  by (cases "p = q") (auto simp: relay_addr incrementBootAttempts_def setBootAttempts_def ee_simps write_block_apply)

lemma relay_state_entry: "getRelayState q (addEntry (bootLogs p) t m) = getRelayState q m"
  using deviceRegion_disjoint [of p q] by (cases "p = q") (auto simp: relay_addr intro!: addEntry_outside)

lemma wait_keeps [simp]: "keeps (relay_view q) (wait_ms t)"
  by (simp add: keeps_def relay_view_def relay_log_def wait_ms_def)

lemma ee_keeps [simp]:
  "keeps (relay_view q) (on_ee (incrementBootAttempts p))" "keeps (relay_view q) (\<lambda>b. on_ee (addEntry (bootLogs p) (getTime b)) b)"
  "q \<noteq> p \<Longrightarrow> keeps (relay_view q) (on_ee (setRelayState p v))"
  by (simp_all add: keeps_def relay_view_def relay_log_def on_ee_def relay_state_attempts relay_state_entry relay_state_set
      del: region_addrs)

lemma pin_keeps: "keeps (\<lambda>b. getRelayState q (ee b)) (set_pin x v)"
  by (simp add: keeps_def set_pin_def)

lemma media_keeps [simp]: "validPort q \<Longrightarrow> keeps (relay_view q) (setBootMedia s v)"
  using power_pin_cases [of q]
  by (auto simp: keeps_def relay_view_def relay_log_def setBootMedia_def set_pin_def BOOT_SELECTOR_PINS_def
      validBootSelector_def u8_less_2)

lemma setRelay_keeps_journal: "list_all (keeps (\<lambda>b. getRelayState q (ee b))) (setRelay_steps p on)"
  by (simp add: setRelay_steps_def pin_keeps keeps_view)

lemma setRelay_keeps_others: "validPort q \<Longrightarrow> q \<noteq> p \<Longrightarrow> list_all (keeps (relay_view q)) (setRelay_steps p on)"
  using power_pin_cases [of q] power_pin_cases [of p] power_pin_inj [of p q]
  by (auto simp: setRelay_steps_def keeps_def relay_view_def relay_log_def set_pin_def wait_ms_def)

lemma switch_keeps_others:
  "validPort q \<Longrightarrow> q \<noteq> port d \<Longrightarrow> list_all (keeps (relay_view q)) (switch_steps on d b)"
  by (simp add: switch_steps_def start_steps_def kill_steps_def setRelay_keeps_others del: region_addrs)

section \<open>The phases\<close>

lemma relay_log_fields [simp]:
  "relay_log p (b\<lparr>now := t\<rparr>) = relay_log p b" "relay_log p (b\<lparr>ee := m\<rparr>) = relay_log p b"
  by (simp_all add: relay_log_def)

lemma setRelay_log:
  "validPort p \<Longrightarrow> relay_log p (setRelay p on b) = relay_log p b @ relay_sequence p on"
  using power_pin_cases [of p]
  by (auto simp: relay_log_def relay_sequence_def setRelay_def board_defs Let_def POWER_PINS_def)

text \<open>A switching is a preparation, the note that it begins, the work, the note of the result and a wait.\<close>

lemma phases:
  assumes "list_all (keeps (relay_view p)) pre" "validPort p"
    and "c = run_steps (take k (pre @ [on_ee (setRelayState p turning), wait_ms t1] @ setRelay_steps p on @
        [wait_ms t2, on_ee (setRelayState p finished), wait_ms t3])) b"
  shows "relay_view p c = relay_view p b \<or> getRelayState p (ee c) = turning \<or>
      relay_view p c = (finished, relay_log p b @ relay_sequence p on) \<and> pins c (POWER_PINS p) = on \<and>
      length pre + length (setRelay_steps p on) + 4 \<le> k"
proof -
  let ?J = "\<lambda>b. getRelayState p (ee b)"
  let ?n = "length pre"
  define work where "work = wait_ms t1 # setRelay_steps p on @ [wait_ms t2]"
  define b1 where "b1 = run_steps pre b"
  define b2 where "b2 = on_ee (setRelayState p turning) b1"
  define b3 where "b3 = run_steps work b2"
  define b4 where "b4 = on_ee (setRelayState p finished) b3"
  have all: "pre @ [on_ee (setRelayState p turning), wait_ms t1] @ setRelay_steps p on @
      [wait_ms t2, on_ee (setRelayState p finished), wait_ms t3] =
      pre @ on_ee (setRelayState p turning) # work @ [on_ee (setRelayState p finished), wait_ms t3]" by (simp add: work_def)
  have v1: "relay_view p b1 = relay_view p b" unfolding b1_def by (rule run_keeps [OF assms(1)])
  have j2: "?J b2 = turning" by (simp add: b2_def on_ee_def relay_state_set)
  have work: "list_all (keeps ?J) work" by (simp add: work_def setRelay_keeps_journal keeps_view)
  have l3: "relay_log p b3 = relay_log p b @ relay_sequence p on" "pins b3 (POWER_PINS p) = on"
    using v1 setRelay_pin [OF assms(2,2)]
    by (simp_all add: b3_def b2_def work_def setRelay_run relay_view_def wait_ms_def on_ee_def setRelay_log [OF assms(2)])
  have v4: "relay_view p b4 = (finished, relay_log p b @ relay_sequence p on)" "pins b4 (POWER_PINS p) = on"
    using l3 by (simp_all add: b4_def relay_view_def relay_log_def on_ee_def relay_state_set)
  consider (before) "k \<le> ?n" | (during) j where "k = ?n + 1 + j" "j \<le> length work"
    | (after) j where "k = ?n + 1 + length work + 1 + j" by atomize_elim presburger
  then show ?thesis
  proof cases
    case before
    then show ?thesis unfolding assms(3) all using run_take_keeps [OF assms(1), of k b] by simp
  next
    case during
    then have "c = run_steps (take j work) b2" unfolding assms(3) all b2_def b1_def by simp
    then show ?thesis using run_take_keeps [OF work, of j b2] j2 by simp
  next
    case after
    then have "c = run_steps (take j [wait_ms t3]) b4" unfolding assms(3) all b4_def b3_def b2_def b1_def by simp
    then have "c = b4 \<or> c = wait_ms t3 b4" by (cases j) simp_all
    then show ?thesis using v4 after by (auto simp: relay_view_def relay_log_def wait_ms_def work_def)
  qed
qed

lemma switch_phases:
  assumes "validPort (port d)" "c = run_steps (take k (switch_steps on d b)) b"
  shows "journal_phase (port d) on b c \<and> (relay_log (port d) c \<noteq> relay_log (port d) b \<and> k + 2 \<le> length (switch_steps on d b) \<longrightarrow>
      getRelayState (port d) (ee c) = (if on then RELAY_TURNING_ON else RELAY_TURNING_OFF))"
proof (cases on)
  case True
  let ?pre = "[setBootMedia (bootSelector d) (getNextBootMedia b (d\<lparr>managed := getBootFailures (port d) (ee b) < 1024\<rparr>)),
     on_ee (incrementBootAttempts (port d)), \<lambda>b. on_ee (addEntry (bootLogs (port d)) (getTime b)) b]"
  have "list_all (keeps (relay_view (port d))) ?pre" using assms(1) by (simp del: region_addrs)
  from phases [OF this assms(1) refl, where turning = RELAY_TURNING_ON and finished = RELAY_ON and on = True and ?t1.0 = 10 and
      ?t2.0 = 500 and ?t3.0 = 10 and k = k and b = b]
  show ?thesis unfolding assms(2) using True
    by (simp add: journal_phase_def switch_steps_def start_steps_def) (auto simp: relay_view_def)
next
  case False
  from phases [OF _ assms(1) refl, where pre = "[]" and turning = RELAY_TURNING_OFF and finished = RELAY_OFF and on = False and
      ?t1.0 = 10 and ?t2.0 = 500 and ?t3.0 = 10 and k = k and b = b]
  show ?thesis unfolding assms(2) using False
    by (simp add: journal_phase_def switch_steps_def kill_steps_def) (auto simp: relay_view_def)
qed

section \<open>The next start\<close>

text \<open>The states the start-up goes through: a device is stopped if it is enabled, and disabled otherwise.\<close>

definition starting_up :: "u8 \<Rightarrow> sys \<Rightarrow> bool" where
  "starting_up i s \<longleftrightarrow> port (devices s i) = i \<and>
    state (devices s i) = (if getDeviceEnabled i (ee (brd s)) then STATE_STOPPED else STATE_DISABLED)"

lemma enabled_0 [simp]: "getDeviceEnabled 0 m"
  by (simp add: getDeviceEnabled_def validPort_def)

lemma relay_enabled [simp]:
  "getDeviceEnabled i (setRelayState j v m) = getDeviceEnabled i m"
  using deviceRegion_disjoint [of i j] by (cases "i = j") (auto simp: getDeviceEnabled_def ee_read_def setRelayState_def ee_write_def)

lemma set_enabled [simp]:
  "getDeviceEnabled i (setDeviceEnabled j v m) = (if i = j \<and> validPort i \<and> i \<noteq> 0 then v else getDeviceEnabled i m)"
  "getRelayState i (setDeviceEnabled j v m) = getRelayState i m"
  using deviceRegion_disjoint [of i j]
  by (cases "i = j"; auto simp: getDeviceEnabled_def ee_read_def setDeviceEnabled_def ee_write_def relay_addr)+

lemma kill_ee:
  "ee (snd (snd (Device_kill (d, b)))) = (if state d = 0 then ee b else setRelayState (port d) 0 (ee b))"
  "state (fst (snd (Device_kill (d, b)))) = (if state d = 0 then 0 else 1)" "port (fst (snd (Device_kill (d, b)))) = port d"
  by (cases "state d = 0", simp_all add: Device_kill_disabled, use Device_kill_cases [of d b] in \<open>auto simp: changeState_def\<close>)+

lemma disable_ee:
  "ee (snd (snd (Device_disable (d, b)))) =
    (let m = if port d \<noteq> 0 then setDeviceEnabled (port d) False (ee b) else ee b
     in if state d = 0 then m else setRelayState (port d) 0 m)"
  "state (fst (snd (Device_disable (d, b)))) = (if port d \<noteq> 0 \<or> state d = 0 then 0 else 1)"
  "port (fst (snd (Device_disable (d, b)))) = port d"
  by (simp_all add: Device_disable_def case_prod_unfold kill_ee changeState_def on_ee_def Let_def)

lemmas recover_defs = recover_relay_def on_dev_def case_prod_unfold Let_def kill_ee disable_ee relay_state_set on_ee_def

text \<open>What the recovery reads and writes of a device.\<close>

definition start_view :: "u8 \<Rightarrow> sys \<Rightarrow> u8 \<times> bool \<times> device" where
  "start_view i s = (getRelayState i (ee (brd s)), getDeviceEnabled i (ee (brd s)), devices s i)"

lemma starting_up_view: "start_view i s = start_view i t \<Longrightarrow> starting_up i s = starting_up i t"
  by (simp add: starting_up_def start_view_def)

lemma recovered_view:
  "start_view i s = start_view i s' \<Longrightarrow> bootflags s = bootflags s' \<Longrightarrow> start_view i t = start_view i t' \<Longrightarrow>
    recovered i s t = recovered i s' t'"
  by (simp add: recovered_def start_view_def)

lemma recover_other: "i \<noteq> j \<Longrightarrow> port (devices s i) = i \<Longrightarrow> start_view j (recover_relay i s) = start_view j s"
  by (auto simp: start_view_def recover_defs)

lemma recover_flags [simp]: "bootflags (recover_relay i s) = bootflags s"
  by (simp add: recover_defs)

lemma recover_self: "starting_up i s \<Longrightarrow> validPort i \<Longrightarrow> recovered i s (recover_relay i s)"
  by (auto simp: recovered_def starting_up_def recover_defs)

lemma recover_fold_other:
  assumes "distinct is" "\<forall>j\<in>set is. starting_up j s" "i \<notin> set is"
  shows "start_view i (fold recover_relay is s) = start_view i s"
  using assms
proof (induction "is" arbitrary: s)
  case (Cons j "is")
  have j: "port (devices s j) = j" using Cons(3) by (simp add: starting_up_def)
  have "starting_up k (recover_relay j s)" if "k \<in> set is" for k
    using Cons(2,3) that starting_up_view [OF recover_other [OF _ j, of k]] by auto
  then show ?case using Cons(1) [of "recover_relay j s"] Cons(2,4) recover_other [OF _ j, of i] by auto
qed simp

lemma recover_fold:
  assumes "distinct is" "\<forall>j\<in>set is. validPort j \<and> starting_up j s" "i \<in> set is"
  shows "recovered i s (fold recover_relay is s)"
  using assms
proof (induction "is" arbitrary: s)
  case (Cons j "is")
  have j: "port (devices s j) = j" using Cons(3) by (simp add: starting_up_def)
  have up: "starting_up k (recover_relay j s)" if "k \<in> set is" for k
    using Cons(2,3) that starting_up_view [OF recover_other [OF _ j, of k]] by auto
  show ?case
  proof (cases "i = j")
    case True
    then have "start_view i (fold recover_relay is (recover_relay j s)) = start_view i (recover_relay j s)"
      using Cons(2) up by (intro recover_fold_other) auto
    from recovered_view [OF refl refl this, of s] show ?thesis using recover_self [of i s] Cons(3) True by simp
  next
    case False
    then have "recovered i (recover_relay j s) (fold recover_relay is (recover_relay j s))"
      using Cons(2-4) up by (intro Cons(1)) auto
    then show ?thesis using recovered_view [OF recover_other [OF _ j, of i] recover_flags refl] False by auto
  qed
qed simp

lemma setup_recovers:
  assumes "validPort i"
  shows "recovered i s (setupDevices s)"
proof -
  let ?s = "s\<lparr>devices := (\<lambda>i. if validPort i then Device_init (brd s) (device_table i) else device_table i)\<rparr>"
  have "starting_up j ?s" if "validPort j" for j
    using that by (simp add: starting_up_def Device_init_fields device_table_port)
  then have "recovered i ?s (setupDevices s)" unfolding setupDevices_split using assms
    by (intro recover_fold) (auto simp: validPort_def u8_less_5)
  then show ?thesis by (simp add: recovered_def)
qed

section \<open>Properties\<close>

text \<open>
  C18. The journal of a relay is always true. \<^verbatim>\<open>Device::start\<close> and \<^verbatim>\<open>Device::kill\<close> are the given steps; cut them
  anywhere, at a failure of the supply or a reset. Then the journal of the relay in the EEPROM is still the one
  from before and none of the lines of the relay has been written; or it says that the relay is being turned on
  or off; or it says on or off, all writes of the switching have been made, and the power pin has that level.
  Lines and journals of the other relays are as before. If a line has been written and the result has not been
  recorded, the next \<^verbatim>\<open>setupDevices\<close> with the EEPROM as it was left records the relay as off, and if the
  supply has failed it disables the device for good, unless it is the node controller. All other journals stay,
  and without a failure of the supply no device is disabled.
\<close>

theorem relay_journal:
  assumes "validPort (port d)" "c = run_steps (take k (switch_steps on d b)) b" "ee (brd s) = ee c"
  shows "(state d = STATE_STOPPED \<longrightarrow> snd (snd (Device_start (d, b))) = run_steps (switch_steps True d b) b) \<and>
    (state d \<noteq> STATE_DISABLED \<longrightarrow> snd (snd (Device_kill (d, b))) =
      (let e = run_steps (switch_steps False d b) b in e\<lparr>startTimer := Timer_reset (now e)\<rparr>)) \<and>
    journal_phase (port d) on b c \<and>
    (\<forall>q. validPort q \<and> q \<noteq> port d \<longrightarrow> relay_view q c = relay_view q b) \<and>
    (relay_log (port d) c \<noteq> relay_log (port d) b \<and> k + 2 \<le> length (switch_steps on d b) \<longrightarrow>
      getRelayState (port d) (ee (brd (setupDevices s))) = RELAY_OFF \<and>
      (power_lost (bootflags s) \<and> port d \<noteq> 0 \<longrightarrow> \<not> getDeviceEnabled (port d) (ee (brd (setupDevices s))))) \<and>
    (\<forall>q. validPort q \<longrightarrow> recovered q s (setupDevices s))"
proof -
  note p = switch_phases [OF assms(1,2)]
  have "relay_view q c = relay_view q b" if "validPort q" "q \<noteq> port d" for q
    unfolding assms(2) by (rule run_take_keeps [OF switch_keeps_others [OF that]])
  moreover have "getRelayState (port d) (ee (brd (setupDevices s))) = RELAY_OFF \<and>
      (power_lost (bootflags s) \<and> port d \<noteq> 0 \<longrightarrow> \<not> getDeviceEnabled (port d) (ee (brd (setupDevices s))))"
    if "relay_log (port d) c \<noteq> relay_log (port d) b \<and> k + 2 \<le> length (switch_steps on d b)"
    using p that setup_recovers [OF assms(1), of s] assms(3) by (auto simp: recovered_def Let_def split: if_splits)
  ultimately show ?thesis using p setup_recovers start_run [of d b] kill_run [of d b] by (simp add: switch_steps_def)
qed

text \<open>The guest node is being started; its power pin has been raised when the supply fails.\<close>

theorem relay_journal_witness:
  "let d = device_table 1; b = (brd boot_sys)\<lparr>ee := (\<lambda>_. 1)\<rparr>; c = run_steps (take 6 (switch_steps True d b)) b
   in relay_log 1 c = [(6, True)] \<and> getDeviceEnabled 1 (ee b) \<and>
     \<not> getDeviceEnabled 1 (ee (brd (setupDevices (boot_sys\<lparr>brd := b\<lparr>ee := ee c\<rparr>\<rparr>))))"
proof -
  define b where "b = (brd boot_sys)\<lparr>ee := (\<lambda>_. 1)\<rparr>"
  define c where "c = run_steps (take 6 (switch_steps True (device_table 1) b)) b"
  have v: "validPort (port (device_table 1))" "port (device_table 1) = 1" "bootSelector (device_table 1) = 1"
    by (simp_all add: device_table_def validPort_def)
  have e: "getDeviceEnabled 1 (ee b)" by (simp add: b_def getDeviceEnabled_def validPort_def ee_read_def)
  have l: "length (switch_steps True (device_table 1) b) = 10"
    using v by (simp add: switch_steps_def start_steps_def setRelay_steps_def)
  have w: "relay_log 1 c = [(6, True)]"
    using v by (simp add: c_def switch_steps_def start_steps_def setRelay_steps_def relay_log_def
        set_pin_def wait_ms_def on_ee_def setBootMedia_def BOOT_SELECTOR_PINS_def POWER_PINS_def b_def boot_sys_def)
  have "relay_log 1 b = []" by (simp add: relay_log_def b_def boot_sys_def)
  moreover have "power_lost (bootflags (boot_sys\<lparr>brd := b\<lparr>ee := ee c\<rparr>\<rparr>))"
    by (simp add: power_lost_def boot_sys_def BV_def)
  ultimately show ?thesis
    using relay_journal [OF v(1) c_def, of "boot_sys\<lparr>brd := b\<lparr>ee := ee c\<rparr>\<rparr>"] w l v(2) e
    by (simp add: Let_def c_def [symmetric] b_def [symmetric])
qed

end
