(* ===== verification/System_Time.thy ===== *)
theory System_Time
  imports Calendar
begin

text \<open>
  The running clock of \<^verbatim>\<open>firmware/Time.cpp\<close>: \<^verbatim>\<open>now\<close> counts seconds from \<^verbatim>\<open>millis\<close>, synchronises with an external
  source, and the functions for the parts of a time keep the last broken-down time in a cache. The reading of
  \<^verbatim>\<open>millis\<close> and the answer of the external source are arguments; \<^verbatim>\<open>millis\<close> does not change within one call.
\<close>

datatype timeStatus = timeNotSet | timeNeedsSync | timeSet

record clock =
  tm :: tmElements
  cacheTime :: u32
  syncInterval :: u32
  sysTime :: u32
  prevMillis :: u32
  nextSyncTime :: u32
  Status :: timeStatus
  getTimePtr :: bool

section \<open>Counting and synchronising\<close>

lemma second_off:
  fixes t p :: u32
  assumes "1000 \<le> t - p"
  shows "unat (t - (p + 1000)) = unat (t - p) - 1000"
proof -
  have "t - (p + 1000) = t - p - 1000" by simp
  then show ?thesis using assms by (simp only: unat_sub) simp
qed

function now_loop :: "u32 \<Rightarrow> clock \<Rightarrow> clock" where
  "now_loop millis c =
    (if 1000 \<le> millis - prevMillis c
     then now_loop millis (c\<lparr>sysTime := sysTime c + 1, prevMillis := prevMillis c + 1000\<rparr>) else c)"
  by pat_completeness auto
termination
proof (relation "measure (\<lambda>(millis, c). unat (millis - prevMillis c))", goal_cases)
  case (2 millis c)
  then show ?case using second_off [OF 2] by (simp add: word_le_nat_alt)
qed simp

declare now_loop.simps [simp del]

definition setTime :: "u32 \<Rightarrow> u32 \<Rightarrow> clock \<Rightarrow> clock" where
  "setTime millis t c = c\<lparr>sysTime := t, nextSyncTime := t + syncInterval c, Status := timeSet, prevMillis := millis\<rparr>"

definition now_time :: "u32 \<Rightarrow> u32 \<Rightarrow> clock \<Rightarrow> u32 \<times> clock" where
  "now_time millis external c =
    (let c = now_loop millis c;
         c = (if nextSyncTime c \<le> sysTime c \<and> getTimePtr c
              then if external \<noteq> 0 then setTime millis external c
                   else c\<lparr>nextSyncTime := sysTime c + syncInterval c,
                     Status := (if Status c = timeNotSet then timeNotSet else timeNeedsSync)\<rparr>
              else c)
     in (sysTime c, c))"

text \<open>\<^verbatim>\<open>setTime\<close> from the parts of a date stores them in the cache; \<open>None\<close> is the table of months left.\<close>

definition setTime_parts :: "u32 \<Rightarrow> int \<Rightarrow> int \<Rightarrow> int \<Rightarrow> int \<Rightarrow> int \<Rightarrow> int \<Rightarrow> clock \<Rightarrow> clock option" where
  "setTime_parts millis hr mn sec dy mnth yr c =
    (let yr = (if 99 < yr then yr - 1970 else yr + 30);
         c = c\<lparr>tm := (tm c)\<lparr>Year := word_of_int yr, Month := word_of_int mnth, Day := word_of_int dy,
           Hour := word_of_int hr, Minute := word_of_int mn, Second := word_of_int sec\<rparr>\<rparr>
     in map_option (\<lambda>t. setTime millis t c) (makeTime (tm c)))"

definition adjustTime :: "int \<Rightarrow> clock \<Rightarrow> clock" where
  "adjustTime adjustment c = c\<lparr>sysTime := sysTime c + word_of_int adjustment\<rparr>"

definition time_status :: "u32 \<Rightarrow> u32 \<Rightarrow> clock \<Rightarrow> timeStatus \<times> clock" where
  "time_status millis external c = (let (_, c) = now_time millis external c in (Status c, c))"

definition setSyncProvider :: "u32 \<Rightarrow> u32 \<Rightarrow> bool \<Rightarrow> clock \<Rightarrow> clock" where
  "setSyncProvider millis external getTimeFunction c =
     snd (now_time millis external (c\<lparr>getTimePtr := getTimeFunction, nextSyncTime := sysTime c\<rparr>))"

definition setSyncInterval :: "u32 \<Rightarrow> clock \<Rightarrow> clock" where
  "setSyncInterval interval c = c\<lparr>syncInterval := interval, nextSyncTime := sysTime c + interval\<rparr>"

section \<open>Parts of a time\<close>

definition refreshCache :: "u32 \<Rightarrow> clock \<Rightarrow> clock option" where
  "refreshCache t c = (if t \<noteq> cacheTime c then map_option (\<lambda>e. c\<lparr>tm := e, cacheTime := t\<rparr>) (breakTime t) else Some c)"

definition part :: "(tmElements \<Rightarrow> u8) \<Rightarrow> u32 \<Rightarrow> clock \<Rightarrow> (u8 \<times> clock) option" where
  "part f t c = map_option (\<lambda>c. (f (tm c), c)) (refreshCache t c)"

definition hour :: "u32 \<Rightarrow> clock \<Rightarrow> (u8 \<times> clock) option" where "hour = part Hour"
definition minute :: "u32 \<Rightarrow> clock \<Rightarrow> (u8 \<times> clock) option" where "minute = part Minute"
definition second :: "u32 \<Rightarrow> clock \<Rightarrow> (u8 \<times> clock) option" where "second = part Second"
definition day :: "u32 \<Rightarrow> clock \<Rightarrow> (u8 \<times> clock) option" where "day = part Day"
definition weekday :: "u32 \<Rightarrow> clock \<Rightarrow> (u8 \<times> clock) option" where "weekday = part Wday"
definition month :: "u32 \<Rightarrow> clock \<Rightarrow> (u8 \<times> clock) option" where "month = part Month"

definition year :: "u32 \<Rightarrow> clock \<Rightarrow> (u16 \<times> clock) option" where
  "year t c = map_option (\<lambda>c. (ucast (Year (tm c)) + 1970, c)) (refreshCache t c)"

definition hourFormat12 :: "u32 \<Rightarrow> clock \<Rightarrow> (u8 \<times> clock) option" where
  "hourFormat12 t c = map_option (\<lambda>c. (if Hour (tm c) = 0 then 12 else if 12 < Hour (tm c) then Hour (tm c) - 12
     else Hour (tm c), c)) (refreshCache t c)"

definition isPM :: "u32 \<Rightarrow> clock \<Rightarrow> (bool \<times> clock) option" where
  "isPM t c = map_option (\<lambda>(h, c). (12 \<le> h, c)) (hour t c)"

definition isAM :: "u32 \<Rightarrow> clock \<Rightarrow> (bool \<times> clock) option" where
  "isAM t c = map_option (\<lambda>(p, c). (\<not> p, c)) (isPM t c)"

section \<open>No second is lost\<close>








section \<open>The cache\<close>

definition cache_ok :: "clock \<Rightarrow> bool" where
  "cache_ok c \<longleftrightarrow> breakTime (cacheTime c) = Some (tm c)"

lemma refreshCache_ok:
  assumes "cache_ok c"
  shows "\<exists>c'. refreshCache t c = Some c' \<and> cache_ok c' \<and> breakTime t = Some (tm c') \<and> sysTime c' = sysTime c"
proof (cases "t = cacheTime c")
  case False
  obtain e where "breakTime t = Some e" using break_make [of t] by blast
  then show ?thesis using False by (simp add: refreshCache_def cache_ok_def)
qed (use assms in \<open>simp add: refreshCache_def cache_ok_def\<close>)

lemma part_exact:
  assumes "cache_ok c"
  shows "\<exists>e c'. breakTime t = Some e \<and> part f t c = Some (f e, c') \<and> cache_ok c'"
  using refreshCache_ok [OF assms, of t] by (auto simp: part_def)

text \<open>The cache is not kept by setting the time from its parts: the parts overwrite the cached date, and the time
  for which it was cached answers with the new hour.\<close>

lemma setTime_parts_spoils_cache:
  assumes "setTime_parts millis hr mn sec dy mnth yr c = Some c'"
  shows "hour (cacheTime c) c' = Some (word_of_int hr, c')"
  using assms by (auto simp: setTime_parts_def setTime_def hour_def part_def refreshCache_def Let_def)

end
