(* ===== verification/Avr_Io.thy ===== *)
theory Avr_Io
  imports Wagman_Prelude "HOL-Library.Monad_Syntax"
begin

text \<open>
  The I/O space of the AVR parts as the Arduino core sees it. The core is written for many parts and
  chooses code with \<^verbatim>\<open>#if defined(...)\<close> on the names that the device header of the toolchain defines.
  That choice is kept: a part is a value of the record \<open>mcu\<close>, which says which registers and bits the
  header defines, at which position a bit stands, how wide a compare register is and which clock the
  build uses. The functions of the core take the part as an argument; the Wagman v3 board is the
  instance \<open>atmega32u4\<close>. Numbered names are constructors with the number as argument: \<open>TCCRA 0\<close> is
  \<^verbatim>\<open>TCCR0A\<close> and \<open>CS 0 1\<close> is \<^verbatim>\<open>CS01\<close>.
\<close>

datatype io =
    SREG
  | TCCR nat | TCCRA nat | TCCRB nat | TCCRC nat | TCCRD nat
  | OCR nat | OCRA nat | OCRB nat | OCRC nat | OCRD nat
  | TCNT nat | TCNTL nat | TIFR | TIFRn nat | TIMSK | TIMSKn nat
  | ADCSRA | ADCSRB | ADMUX | ADCL | ADCH
  | UCSRB | UCSRnB nat
  | DDR char | PORT char | PIN char
  | EICRA | EICRB | EIMSK | MCUCR | GICR | GIMSK

datatype bitname =
    WGM nat nat | CS nat nat | TOIE nat | TOV nat
  | COM nat nat | COMA nat nat | COMB nat nat | COMC nat nat | COMD nat nat
  | PWM4A | PWM4D | ADPS nat | ADEN | ADSC | MUX nat
  | ISC nat nat | INTn nat

datatype cpu =
    ATmega8 | ATmega32 | ATmega32U4 | ATmega128 | ATmega168 | ATmega328 | ATmega645
  | ATmega644_family | ATmega1280 | ATmega2560 | ATmega128RFA1 | ATmega256RFR2 | AT90USB_162_family

record mcu =
  cpu :: cpu
  F_CPU :: nat
  hasr :: "io \<Rightarrow> bool"
  hasb :: "bitname \<Rightarrow> bool"
  bitno :: "bitname \<Rightarrow> nat"
  wide :: "io \<Rightarrow> bool"

text \<open>
  The state of the core: the eight-bit registers, the compare registers with their own width, the
  variables of \<^verbatim>\<open>wiring.c\<close> and \<^verbatim>\<open>wiring_analog.c\<close>, and the trace of the values written to the output
  registers of the ports, newest last.
\<close>

record avr =
  regs :: "io \<Rightarrow> u8"
  ocr :: "io \<Rightarrow> u16"
  timer0_overflow_count :: u32
  timer0_millis :: u32
  timer0_fract :: u8
  analog_reference :: u8
  port_log :: "(char \<times> u8) list"

definition set_reg :: "io \<Rightarrow> u8 \<Rightarrow> avr \<Rightarrow> avr" where
  "set_reg r v s = s\<lparr>regs := (regs s)(r := v)\<rparr>"

text \<open>The macros \<^verbatim>\<open>sbi\<close> and \<^verbatim>\<open>cbi\<close> of \<^verbatim>\<open>wiring_private.h\<close> on a named bit of a named register.\<close>

definition sbi_r :: "mcu \<Rightarrow> io \<Rightarrow> bitname \<Rightarrow> avr \<Rightarrow> avr" where
  "sbi_r M r b s = set_reg r (sbi (regs s r) (bitno M b)) s"

definition cbi_r :: "mcu \<Rightarrow> io \<Rightarrow> bitname \<Rightarrow> avr \<Rightarrow> avr" where
  "cbi_r M r b s = set_reg r (cbi (regs s r) (bitno M b)) s"

text \<open>Writing an \<^verbatim>\<open>int\<close> to a compare register keeps as many bits as the register has.\<close>

definition set_ocr :: "mcu \<Rightarrow> io \<Rightarrow> u16 \<Rightarrow> avr \<Rightarrow> avr" where
  "set_ocr M r v s = s\<lparr>ocr := (ocr s)(r := (if wide M r then v else v AND 0xFF))\<rparr>"

text \<open>The global interrupt flag: \<^verbatim>\<open>sei()\<close>, \<^verbatim>\<open>cli()\<close> and the test the hardware makes.\<close>

definition sei :: "avr \<Rightarrow> avr" where
  "sei s = set_reg SREG (sbi (regs s SREG) 7) s"

definition cli :: "avr \<Rightarrow> avr" where
  "cli s = set_reg SREG (cbi (regs s SREG) 7) s"

definition I_flag :: "avr \<Rightarrow> bool" where
  "I_flag s \<longleftrightarrow> bit (regs s SREG) 7"

text \<open>The pattern \<^verbatim>\<open>oldSREG = SREG; cli(); ...; SREG = oldSREG;\<close> around a piece of code.\<close>

definition atomic :: "(avr \<Rightarrow> avr) \<Rightarrow> avr \<Rightarrow> avr" where
  "atomic f s = (let oldSREG = regs s SREG in set_reg SREG oldSREG (f (cli s)))"

named_theorems avr_simps

lemma regs_set_reg [avr_simps]: "regs (set_reg r v s) q = (if q = r then v else regs s q)"
  by (simp add: set_reg_def)

lemma set_reg_fields [avr_simps]:
  "ocr (set_reg r v s) = ocr s" "timer0_overflow_count (set_reg r v s) = timer0_overflow_count s"
  "timer0_millis (set_reg r v s) = timer0_millis s" "timer0_fract (set_reg r v s) = timer0_fract s"
  "analog_reference (set_reg r v s) = analog_reference s" "port_log (set_reg r v s) = port_log s"
  by (simp_all add: set_reg_def)

lemma set_reg_same [simp]: "set_reg r (regs s r) s = s"
  by (simp add: set_reg_def)

lemma set_reg_set_reg [simp]: "set_reg r v (set_reg r w s) = set_reg r v s"
  by (simp add: set_reg_def)

lemma regs_sbi_r [avr_simps]:
  "regs (sbi_r M r b s) q = (if q = r then sbi (regs s r) (bitno M b) else regs s q)"
  by (simp add: sbi_r_def avr_simps)

lemma regs_cbi_r [avr_simps]:
  "regs (cbi_r M r b s) q = (if q = r then cbi (regs s r) (bitno M b) else regs s q)"
  by (simp add: cbi_r_def avr_simps)

lemma bit_ops_fields [avr_simps]:
  "ocr (sbi_r M r b s) = ocr s" "ocr (cbi_r M r b s) = ocr s"
  "port_log (sbi_r M r b s) = port_log s" "port_log (cbi_r M r b s) = port_log s"
  "analog_reference (sbi_r M r b s) = analog_reference s"
  "analog_reference (cbi_r M r b s) = analog_reference s"
  "timer0_overflow_count (sbi_r M r b s) = timer0_overflow_count s"
  "timer0_millis (sbi_r M r b s) = timer0_millis s" "timer0_fract (sbi_r M r b s) = timer0_fract s"
  by (simp_all add: sbi_r_def cbi_r_def avr_simps)

lemma set_ocr_fields [avr_simps]:
  "regs (set_ocr M r v s) = regs s" "port_log (set_ocr M r v s) = port_log s"
  by (simp_all add: set_ocr_def)

section \<open>The part of the Wagman v3 board\<close>

text \<open>
  The ATmega32U4 at 16 MHz: the registers and bits its header defines, as the sources of the core test
  them, and the bit positions of its data sheet. \<^verbatim>\<open>variants/leonardo/pins_arduino.h\<close> takes the names
  of timer 2 back, since the part has no such timer.
\<close>

fun bits_32u4 :: "bitname \<Rightarrow> nat option" where
  "bits_32u4 (WGM n k) = (if n \<in> {0, 1, 3, 4} \<and> k < 2 then Some k else None)"
| "bits_32u4 (CS n k) = (if n \<in> {0, 1, 3} \<and> k < 3 \<or> n = 4 \<and> k < 4 then Some k else None)"
| "bits_32u4 (TOIE n) = (if n = 0 then Some 0 else None)"
| "bits_32u4 (TOV n) = (if n = 0 then Some 0 else None)"
| "bits_32u4 (COM n k) = None"
| "bits_32u4 (COMA n k) = (if n \<in> {0, 1, 3, 4} \<and> k < 2 then Some (6 + k) else None)"
| "bits_32u4 (COMB n k) = (if n \<in> {0, 1, 3, 4} \<and> k < 2 then Some (4 + k) else None)"
| "bits_32u4 (COMC n k) = (if n \<in> {1, 3} \<and> k < 2 then Some (2 + k) else None)"
| "bits_32u4 (COMD n k) = (if n = 4 \<and> k < 2 then Some (2 + k) else None)"
| "bits_32u4 PWM4A = Some 1"
| "bits_32u4 PWM4D = Some 0"
| "bits_32u4 (ADPS k) = (if k < 3 then Some k else None)"
| "bits_32u4 ADEN = Some 7"
| "bits_32u4 ADSC = Some 6"
| "bits_32u4 (MUX k) = (if k < 6 then Some k else None)"
| "bits_32u4 (ISC n k) = (if n < 4 \<and> k < 2 then Some (2 * n + k)
     else if n = 6 \<and> k < 2 then Some (4 + k) else None)"
| "bits_32u4 (INTn n) = (if n < 4 \<or> n = 6 then Some n else None)"

fun regs_32u4 :: "io \<Rightarrow> bool" where
  "regs_32u4 SREG = True"
| "regs_32u4 (TCCR n) = False"
| "regs_32u4 (TCCRA n) = (n \<in> {0, 1, 3, 4})"
| "regs_32u4 (TCCRB n) = (n \<in> {0, 1, 3, 4})"
| "regs_32u4 (TCCRC n) = (n \<in> {1, 3, 4})"
| "regs_32u4 (TCCRD n) = (n = 4)"
| "regs_32u4 (OCR n) = False"
| "regs_32u4 (OCRA n) = (n \<in> {0, 1, 3, 4})"
| "regs_32u4 (OCRB n) = (n \<in> {0, 1, 3, 4})"
| "regs_32u4 (OCRC n) = (n \<in> {1, 3, 4})"
| "regs_32u4 (OCRD n) = (n = 4)"
| "regs_32u4 (TCNT n) = (n \<in> {0, 1, 3, 4})"
| "regs_32u4 (TCNTL n) = (n \<in> {1, 3, 4})"
| "regs_32u4 TIFR = False"
| "regs_32u4 (TIFRn n) = (n \<in> {0, 1, 3, 4})"
| "regs_32u4 TIMSK = False"
| "regs_32u4 (TIMSKn n) = (n \<in> {0, 1, 3, 4})"
| "regs_32u4 ADCSRA = True" | "regs_32u4 ADCSRB = True" | "regs_32u4 ADMUX = True"
| "regs_32u4 ADCL = True" | "regs_32u4 ADCH = True"
| "regs_32u4 UCSRB = False" | "regs_32u4 (UCSRnB n) = (n = 1)"
| "regs_32u4 (DDR c) = (c \<in> set ''BCDEF'')"
| "regs_32u4 (PORT c) = (c \<in> set ''BCDEF'')"
| "regs_32u4 (PIN c) = (c \<in> set ''BCDEF'')"
| "regs_32u4 EICRA = True" | "regs_32u4 EICRB = True" | "regs_32u4 EIMSK = True"
| "regs_32u4 MCUCR = True" | "regs_32u4 GICR = False" | "regs_32u4 GIMSK = False"

definition atmega32u4 :: mcu where
  "atmega32u4 = \<lparr>cpu = ATmega32U4, F_CPU = 16000000, hasr = regs_32u4,
     hasb = (\<lambda>b. bits_32u4 b \<noteq> None), bitno = (\<lambda>b. case bits_32u4 b of Some n \<Rightarrow> n | None \<Rightarrow> 0),
     wide = (\<lambda>r. r \<in> {OCRA 1, OCRB 1, OCRC 1, OCRA 3, OCRB 3, OCRC 3})\<rparr>"

lemma atmega32u4_simps [simp]:
  "cpu atmega32u4 = ATmega32U4" "F_CPU atmega32u4 = 16000000" "hasr atmega32u4 r = regs_32u4 r"
  "hasb atmega32u4 b = (bits_32u4 b \<noteq> None)"
  "bitno atmega32u4 b = (case bits_32u4 b of Some n \<Rightarrow> n | None \<Rightarrow> 0)"
  by (simp_all add: atmega32u4_def)

end
