(* ===== verification/Wiring_Time.thy ===== *)
theory Wiring_Time
  imports Avr_Io
begin

text \<open>
  \<^verbatim>\<open>cores/arduino/wiring.c\<close>: the time base of the Arduino core (the overflow handler of timer 0,
  \<^verbatim>\<open>millis\<close>, \<^verbatim>\<open>micros\<close>, \<^verbatim>\<open>delay\<close>, \<^verbatim>\<open>delayMicroseconds\<close>) and the register set-up \<^verbatim>\<open>init\<close>. The hardware
  side of timer 0, one step per count of the prescaled clock, is \<open>timer0_tick\<close>. \<^verbatim>\<open>delay\<close> may wait for
  ever if time stands still, so it is a partial function into \<open>option\<close> over the sequence of values that
  its calls of \<^verbatim>\<open>micros()\<close> return; the locale \<open>microclock\<close> says what it needs of them.
\<close>

section \<open>Time base\<close>

definition clockCyclesPerMicrosecond :: "mcu \<Rightarrow> nat" where
  "clockCyclesPerMicrosecond M = F_CPU M div 1000000"

definition clockCyclesToMicroseconds :: "mcu \<Rightarrow> nat \<Rightarrow> nat" where
  "clockCyclesToMicroseconds M a = a div clockCyclesPerMicrosecond M"

definition MICROSECONDS_PER_TIMER0_OVERFLOW :: "mcu \<Rightarrow> nat" where
  "MICROSECONDS_PER_TIMER0_OVERFLOW M = clockCyclesToMicroseconds M (64 * 256)"

definition MILLIS_INC :: "mcu \<Rightarrow> nat" where
  "MILLIS_INC M = MICROSECONDS_PER_TIMER0_OVERFLOW M div 1000"

definition FRACT_INC :: "mcu \<Rightarrow> nat" where
  "FRACT_INC M = (MICROSECONDS_PER_TIMER0_OVERFLOW M mod 1000) div 2 ^ 3"

definition FRACT_MAX :: nat where
  "FRACT_MAX = 1000 div 2 ^ 3"

definition TIMER0_OVF_vect :: "mcu \<Rightarrow> avr \<Rightarrow> avr" where
  "TIMER0_OVF_vect M s =
     (let m = timer0_millis s;
          f = timer0_fract s;
          m = m + of_nat (MILLIS_INC M);
          f = f + of_nat (FRACT_INC M);
          (f, m) = (if f \<ge> of_nat FRACT_MAX then (f - of_nat FRACT_MAX, m + 1) else (f, m))
      in s\<lparr>timer0_fract := f, timer0_millis := m,
           timer0_overflow_count := timer0_overflow_count s + 1\<rparr>)"

definition millis :: "avr \<Rightarrow> u32 \<times> avr" where
  "millis s =
     (let oldSREG = regs s SREG;
          s = cli s;
          m = timer0_millis s
      in (m, set_reg SREG oldSREG s))"

text \<open>A part that has neither \<^verbatim>\<open>TCNT0\<close> nor \<^verbatim>\<open>TCNT0L\<close> does not compile (\<^verbatim>\<open>#error\<close>): the result is \<open>None\<close>.\<close>

definition micros :: "mcu \<Rightarrow> avr \<Rightarrow> (u32 \<times> avr) option" where
  "micros M s =
     (let oldSREG = regs s SREG;
          s = cli s;
          m = timer0_overflow_count s
      in do {
        t \<leftarrow> (if hasr M (TCNT 0) then Some (regs s (TCNT 0))
              else if hasr M (TCNTL 0) then Some (regs s (TCNTL 0)) else None);
        let tifr = (if hasr M (TIFRn 0) then regs s (TIFRn 0) else regs s TIFR);
        let m = (if tifr AND BV (bitno M (TOV 0)) \<noteq> 0 \<and> t < 255 then m + 1 else m);
        Some ((push_bit 8 m + ucast t) * of_nat (64 div clockCyclesPerMicrosecond M),
              set_reg SREG oldSREG s)
      })"

section \<open>delay and delayMicroseconds\<close>

text \<open>
  \<^verbatim>\<open>delay\<close> reads \<^verbatim>\<open>micros()\<close> again and again; \<open>clk i\<close> is the value of its \<open>i\<close>-th reading. Its result is
  the number of readings made. The hook \<^verbatim>\<open>yield()\<close> is the empty one of \<^verbatim>\<open>hooks.c\<close>.
\<close>

function (sequential) delay_inner :: "(nat \<Rightarrow> u32) \<Rightarrow> u32 \<Rightarrow> u32 \<Rightarrow> nat \<Rightarrow> u32 \<times> u32 \<times> nat" where
  "delay_inner clk ms start i =
     (if ms > 0 then
        (if clk i - start \<ge> 1000 then delay_inner clk (ms - 1) (start + 1000) (i + 1)
         else (ms, start, i + 1))
      else (ms, start, i))"
  by auto
termination
  by (relation "measure (\<lambda>(clk, ms, start, i). unat ms)") (auto simp: word_gt_0 intro!: measure_unat)

declare delay_inner.simps [simp del]

partial_function (option) delay_outer :: "(nat \<Rightarrow> u32) \<Rightarrow> u32 \<Rightarrow> u32 \<Rightarrow> nat \<Rightarrow> nat option" where
  "delay_outer clk ms start i =
     (if ms > 0 then
        (case delay_inner clk ms start i of (ms, start, i) \<Rightarrow> delay_outer clk ms start i)
      else Some i)"

definition delay :: "(nat \<Rightarrow> u32) \<Rightarrow> u32 \<Rightarrow> nat option" where
  "delay clk ms = delay_outer clk ms (clk 0) 1"

text \<open>
  The busy loop \<^verbatim>\<open>1: sbiw %0,1; brne 1b\<close>: the number of its rounds, four cycles each. A zero operand
  runs it 65536 times.
\<close>

function (sequential) busy_wait :: "u16 \<Rightarrow> nat" where
  "busy_wait us = (let us = us - 1 in if us \<noteq> 0 then 1 + busy_wait us else 1)"
  by auto
termination
proof (relation "measure (\<lambda>us. unat (us - 1))")
  fix us x :: u16
  assume "x = us - 1" and "x \<noteq> 0"
  then have "unat (x - 1) < unat (us - 1)" by (metis measure_unat)
  then show "(x, us) \<in> measure (\<lambda>us. unat (us - 1))" by simp
qed simp

declare busy_wait.simps [simp del]

text \<open>The rounds of the busy loop for a requested number of microseconds, by clock frequency.\<close>

definition delayMicroseconds :: "nat \<Rightarrow> u16 \<Rightarrow> nat" where
  "delayMicroseconds f_cpu us =
     (if f_cpu \<ge> 24000000 then
        (if us = 0 then 0 else busy_wait (us * 6 - 5))
      else if f_cpu \<ge> 20000000 then
        (if us \<le> 1 then 0 else busy_wait ((push_bit 2 us + us) - 7))
      else if f_cpu \<ge> 16000000 then
        (if us \<le> 1 then 0 else busy_wait (push_bit 2 us - 5))
      else if f_cpu \<ge> 12000000 then
        (if us \<le> 1 then 0 else busy_wait ((push_bit 1 us + us) - 5))
      else if f_cpu \<ge> 8000000 then
        (if us \<le> 2 then 0 else busy_wait (push_bit 1 us - 4))
      else
        (if us \<le> 16 then 0 else if us \<le> 25 then 0 else busy_wait (drop_bit 2 (us - 22))))"


section \<open>init\<close>

text \<open>
  The register set-up, one definition per block of the source. \<open>None\<close> stands for a part on which the
  source stops with \<^verbatim>\<open>#error\<close>.
\<close>

definition init_timer0_mode :: "mcu \<Rightarrow> avr \<Rightarrow> avr" where
  "init_timer0_mode M s =
     (if hasr M (TCCRA 0) \<and> hasb M (WGM 0 1)
      then sbi_r M (TCCRA 0) (WGM 0 0) (sbi_r M (TCCRA 0) (WGM 0 1) s) else s)"

definition init_timer0_prescale :: "mcu \<Rightarrow> avr \<Rightarrow> avr option" where
  "init_timer0_prescale M s =
     (if cpu M = ATmega128 then Some (sbi_r M (TCCR 0) (CS 0 2) s)
      else if hasr M (TCCR 0) \<and> hasb M (CS 0 1) \<and> hasb M (CS 0 0)
        then Some (sbi_r M (TCCR 0) (CS 0 0) (sbi_r M (TCCR 0) (CS 0 1) s))
      else if hasr M (TCCRB 0) \<and> hasb M (CS 0 1) \<and> hasb M (CS 0 0)
        then Some (sbi_r M (TCCRB 0) (CS 0 0) (sbi_r M (TCCRB 0) (CS 0 1) s))
      else if hasr M (TCCRA 0) \<and> hasb M (CS 0 1) \<and> hasb M (CS 0 0)
        then Some (sbi_r M (TCCRA 0) (CS 0 0) (sbi_r M (TCCRA 0) (CS 0 1) s))
      else None)"

definition init_timer0_interrupt :: "mcu \<Rightarrow> avr \<Rightarrow> avr option" where
  "init_timer0_interrupt M s =
     (if hasr M TIMSK \<and> hasb M (TOIE 0) then Some (sbi_r M TIMSK (TOIE 0) s)
      else if hasr M (TIMSKn 0) \<and> hasb M (TOIE 0) then Some (sbi_r M (TIMSKn 0) (TOIE 0) s)
      else None)"

definition init_timer1 :: "mcu \<Rightarrow> avr \<Rightarrow> avr" where
  "init_timer1 M s =
     (let s = (if hasr M (TCCRB 1) \<and> hasb M (CS 1 1) \<and> hasb M (CS 1 0) then
                 (let s = sbi_r M (TCCRB 1) (CS 1 1) (set_reg (TCCRB 1) 0 s)
                  in if F_CPU M \<ge> 8000000 then sbi_r M (TCCRB 1) (CS 1 0) s else s)
               else if hasr M (TCCR 1) \<and> hasb M (CS 1 1) \<and> hasb M (CS 1 0) then
                 (let s = sbi_r M (TCCR 1) (CS 1 1) s
                  in if F_CPU M \<ge> 8000000 then sbi_r M (TCCR 1) (CS 1 0) s else s)
               else s)
      in if hasr M (TCCRA 1) \<and> hasb M (WGM 1 0) then sbi_r M (TCCRA 1) (WGM 1 0) s else s)"

definition init_timer2 :: "mcu \<Rightarrow> avr \<Rightarrow> avr" where
  "init_timer2 M s =
     (let s = (if hasr M (TCCR 2) \<and> hasb M (CS 2 2) then sbi_r M (TCCR 2) (CS 2 2) s
               else if hasr M (TCCRB 2) \<and> hasb M (CS 2 2) then sbi_r M (TCCRB 2) (CS 2 2) s else s)
      in if hasr M (TCCR 2) \<and> hasb M (WGM 2 0) then sbi_r M (TCCR 2) (WGM 2 0) s
         else if hasr M (TCCRA 2) \<and> hasb M (WGM 2 0) then sbi_r M (TCCRA 2) (WGM 2 0) s else s)"

definition init_timer3 :: "mcu \<Rightarrow> avr \<Rightarrow> avr" where
  "init_timer3 M s =
     (if hasr M (TCCRB 3) \<and> hasb M (CS 3 1) \<and> hasb M (WGM 3 0)
      then sbi_r M (TCCRA 3) (WGM 3 0) (sbi_r M (TCCRB 3) (CS 3 0) (sbi_r M (TCCRB 3) (CS 3 1) s))
      else s)"

definition init_timer4 :: "mcu \<Rightarrow> avr \<Rightarrow> avr" where
  "init_timer4 M s =
     (if hasr M (TCCRA 4) \<and> hasr M (TCCRB 4) \<and> hasr M (TCCRD 4) then
        sbi_r M (TCCRC 4) PWM4D (sbi_r M (TCCRA 4) PWM4A (sbi_r M (TCCRD 4) (WGM 4 0)
          (sbi_r M (TCCRB 4) (CS 4 0) (sbi_r M (TCCRB 4) (CS 4 1) (sbi_r M (TCCRB 4) (CS 4 2) s)))))
      else if hasr M (TCCRB 4) \<and> hasb M (CS 4 1) \<and> hasb M (WGM 4 0) then
        sbi_r M (TCCRA 4) (WGM 4 0) (sbi_r M (TCCRB 4) (CS 4 0) (sbi_r M (TCCRB 4) (CS 4 1) s))
      else s)"

definition init_timer5 :: "mcu \<Rightarrow> avr \<Rightarrow> avr" where
  "init_timer5 M s =
     (if hasr M (TCCRB 5) \<and> hasb M (CS 5 1) \<and> hasb M (WGM 5 0)
      then sbi_r M (TCCRA 5) (WGM 5 0) (sbi_r M (TCCRB 5) (CS 5 0) (sbi_r M (TCCRB 5) (CS 5 1) s))
      else s)"

definition init_adc :: "mcu \<Rightarrow> avr \<Rightarrow> avr" where
  "init_adc M s =
     (let set = sbi_r M ADCSRA; clr = cbi_r M ADCSRA
      in if hasr M ADCSRA then set ADEN
        (if F_CPU M \<ge> 16000000 then set (ADPS 0) (set (ADPS 1) (set (ADPS 2) s))
         else if F_CPU M \<ge> 8000000 then clr (ADPS 0) (set (ADPS 1) (set (ADPS 2) s))
         else if F_CPU M \<ge> 4000000 then set (ADPS 0) (clr (ADPS 1) (set (ADPS 2) s))
         else if F_CPU M \<ge> 2000000 then clr (ADPS 0) (clr (ADPS 1) (set (ADPS 2) s))
         else if F_CPU M \<ge> 1000000 then set (ADPS 0) (set (ADPS 1) (clr (ADPS 2) s))
         else set (ADPS 0) (clr (ADPS 1) (clr (ADPS 2) s)))
      else s)"

definition init_usart :: "mcu \<Rightarrow> avr \<Rightarrow> avr" where
  "init_usart M s =
     (if hasr M UCSRB then set_reg UCSRB 0 s
      else if hasr M (UCSRnB 0) then set_reg (UCSRnB 0) 0 s else s)"

definition init :: "mcu \<Rightarrow> avr \<Rightarrow> avr option" where
  "init M s = do {
     let s = init_timer0_mode M (sei s);
     s \<leftarrow> init_timer0_prescale M s;
     s \<leftarrow> init_timer0_interrupt M s;
     Some (init_usart M (init_adc M (init_timer5 M (init_timer4 M (init_timer3 M
       (init_timer2 M (init_timer1 M s)))))))
   }"


section \<open>Timekeeping\<close>

text \<open>
  One count of timer 0: the counter steps, its wrap-around raises the flag \<^verbatim>\<open>TOV0\<close>, and a raised flag
  runs the handler, which clears it, when the interrupt and interrupts in general are enabled.
\<close>

definition timer0_tick :: "mcu \<Rightarrow> avr \<Rightarrow> avr" where
  "timer0_tick M s =
     (let s = set_reg (TCNT 0) (regs s (TCNT 0) + 1) s;
          s = (if regs s (TCNT 0) = 0 then sbi_r M (TIFRn 0) (TOV 0) s else s)
      in if I_flag s \<and> bit (regs s (TIMSKn 0)) (bitno M (TOIE 0)) \<and> bit (regs s (TIFRn 0)) (bitno M (TOV 0))
         then TIMER0_OVF_vect M (cbi_r M (TIFRn 0) (TOV 0) s) else s)"

definition timer0_run :: "mcu \<Rightarrow> nat \<Rightarrow> avr \<Rightarrow> avr" where
  "timer0_run M n s = (timer0_tick M ^^ n) s"

text \<open>The state after \<open>n\<close> counts with the handler always served.\<close>

definition timer0_inv :: "mcu \<Rightarrow> nat \<Rightarrow> avr \<Rightarrow> bool" where
  "timer0_inv M n s \<longleftrightarrow>
     I_flag s \<and> bit (regs s (TIMSKn 0)) (bitno M (TOIE 0)) \<and> \<not> bit (regs s (TIFRn 0)) (bitno M (TOV 0)) \<and>
     regs s (TCNT 0) = of_nat n \<and> timer0_overflow_count s = of_nat (n div 256) \<and>
     timer0_millis s = of_nat (n div 256 * MICROSECONDS_PER_TIMER0_OVERFLOW M div 1000) \<and>
     unat (timer0_fract s) = (n div 256 * MICROSECONDS_PER_TIMER0_OVERFLOW M mod 1000) div 8"

lemma millis_state [simp]: "snd (millis s) = s"
  by (simp add: millis_def cli_def Let_def)

lemma fst_millis: "fst (millis s) = timer0_millis s"
  by (simp add: millis_def cli_def Let_def avr_simps)

lemma micros_unfold:
  assumes "hasr M (TCNT 0)" "hasr M (TIFRn 0)"
  shows "micros M s =
    (let t = regs s (TCNT 0);
         m = timer0_overflow_count s +
           (if bit (regs s (TIFRn 0)) (bitno M (TOV 0)) \<and> t < 255 then 1 else 0)
     in Some ((push_bit 8 m + ucast t) * of_nat (64 div clockCyclesPerMicrosecond M), s))"
  using assms by (simp add: micros_def cli_def Let_def avr_simps and_BV_neq_0)

lemma thousand_rep:
  fixes x p :: nat
  assumes "x < 125"
  shows "(1000 * p + 8 * x) div 1000 = p" "(1000 * p + 8 * x) mod 1000 = 8 * x"
  using assms by simp_all

lemma eight_rep:
  fixes K :: nat
  assumes "8 dvd K"
  obtains p x where "K = 1000 * p + 8 * x" "x < 125"
proof -
  from assms obtain b where "K = 8 * b" by (rule dvdE)
  moreover have "b = 125 * (b div 125) + b mod 125" by simp
  ultimately have "K = 1000 * (b div 125) + 8 * (b mod 125)" by linarith
  then show ?thesis using that [of "b div 125" "b mod 125"] by simp
qed

lemma fract_step:
  fixes K U :: nat
  assumes "8 dvd U" "8 dvd K"
  shows "(K + U) div 1000 = K div 1000 + U div 1000 +
      (if (K mod 1000) div 8 + (U mod 1000) div 8 \<ge> 125 then 1 else 0)" (is ?A)
    and "((K + U) mod 1000) div 8 = (K mod 1000) div 8 + (U mod 1000) div 8 -
      (if (K mod 1000) div 8 + (U mod 1000) div 8 \<ge> 125 then 125 else 0)" (is ?B)
proof -
  obtain p x where K: "K = 1000 * p + 8 * x" "x < 125" using assms(2) by (rule eight_rep)
  obtain q y where U: "U = 1000 * q + 8 * y" "y < 125" using assms(1) by (rule eight_rep)
  have "?A \<and> ?B"
  proof (cases "x + y \<ge> 125")
    case True
    then obtain z where z: "x + y = 125 + z" using le_Suc_ex by blast
    then have "8 * (x + y) = 8 * (125 + z)" by simp
    then have e: "K + U = 1000 * (p + q + 1) + 8 * z" by (simp add: K(1) U(1))
    have "z < 125" using K U z by linarith
    show ?thesis unfolding e thousand_rep [OF \<open>z < 125\<close>]
      unfolding K(1) U(1) thousand_rep [OF K(2)] thousand_rep [OF U(2)] using z by simp
  next
    case False
    have e: "K + U = 1000 * (p + q) + 8 * (x + y)" by (simp add: K(1) U(1))
    have "x + y < 125" using False by linarith
    show ?thesis unfolding e thousand_rep [OF \<open>x + y < 125\<close>]
      unfolding K(1) U(1) thousand_rep [OF K(2)] thousand_rep [OF U(2)] using False by simp
  qed
  then show ?A ?B by blast+
qed

lemma overflow_step:
  fixes k :: nat and M :: mcu and s :: avr
  defines "U \<equiv> MICROSECONDS_PER_TIMER0_OVERFLOW M"
  assumes U8: "8 dvd U" and m: "timer0_millis s = of_nat (k * U div 1000)"
    and f: "unat (timer0_fract s) = (k * U mod 1000) div 8" and c: "timer0_overflow_count s = of_nat k"
  defines "t \<equiv> TIMER0_OVF_vect M s"
  shows "timer0_millis t = of_nat (Suc k * U div 1000)"
    "unat (timer0_fract t) = (Suc k * U mod 1000) div 8" "timer0_overflow_count t = of_nat (Suc k)"
    "regs t = regs s"
proof -
  let ?f = "timer0_fract s + of_nat (FRACT_INC M)"
  define A where "A = (k * U mod 1000) div 8"
  define B where "B = U mod 1000 div 8"
  have i: "FRACT_INC M = B" by (simp add: FRACT_INC_def U_def B_def)
  have "k * U mod 1000 < 1000" "U mod 1000 < 1000" by simp_all
  then have b: "A < 125" "B < 125" unfolding A_def B_def by linarith+
  have uf: "unat ?f = A + B"
    using b f by (simp add: i unat_word_ariths unat_of_nat A_def [symmetric])
  have ge: "?f \<ge> of_nat FRACT_MAX \<longleftrightarrow> 125 \<le> A + B"
    unfolding word_le_nat_alt uf by (simp add: FRACT_MAX_def)
  have kU: "Suc k * U = k * U + U" by simp
  have "8 dvd k * U" using U8 by simp
  note fs = fract_step [OF U8 this, folded A_def B_def, folded kU]
  have q: "MILLIS_INC M = U div 1000" by (simp add: MILLIS_INC_def U_def)
  have t: "timer0_millis t = timer0_millis s + of_nat (U div 1000) + (if 125 \<le> A + B then 1 else 0)"
    "timer0_fract t = ?f - (if 125 \<le> A + B then of_nat FRACT_MAX else 0)"
    "timer0_overflow_count t = timer0_overflow_count s + 1" "regs t = regs s"
    unfolding t_def TIMER0_OVF_vect_def Let_def ge q by simp_all
  show "timer0_millis t = of_nat (Suc k * U div 1000)" unfolding t(1) fs(1) m by simp
  have "unat (?f - of_nat FRACT_MAX) = A + B - 125" if "125 \<le> A + B"
    using that ge uf unat_sub [of "of_nat FRACT_MAX" ?f] by (simp add: FRACT_MAX_def)
  then show "unat (timer0_fract t) = (Suc k * U mod 1000) div 8" unfolding t(2) fs(2) using uf by simp
  show "timer0_overflow_count t = of_nat (Suc k)" "regs t = regs s" using t(3,4) c by simp_all
qed


lemma bit_u8_TOV [simp]: "regs (TIMER0_OVF_vect M s) = regs s"
  by (simp add: TIMER0_OVF_vect_def Let_def split: prod.splits)

lemma timer0_tick_inv:
  assumes "8 dvd MICROSECONDS_PER_TIMER0_OVERFLOW M" and "bitno M (TOV 0) < 8" and "timer0_inv M n s"
  shows "timer0_inv M (Suc n) (timer0_tick M s)"
proof -
  let ?s = "set_reg (TCNT 0) (regs s (TCNT 0) + 1) s"
  note inv = assms(3) [unfolded timer0_inv_def]
  have z: "regs s (TCNT 0) + 1 = 0 \<longleftrightarrow> Suc n mod 256 = 0"
  proof -
    have "regs s (TCNT 0) + 1 = of_nat (Suc n)" using inv by simp
    then show ?thesis by (simp only: word_of_nat_eq_0_iff) (simp add: mod_eq_0_iff_dvd)
  qed
  show ?thesis
  proof (cases "Suc n mod 256 = 0")
    case True
    let ?u = "cbi_r M (TIFRn 0) (TOV 0) (sbi_r M (TIFRn 0) (TOV 0) ?s)"
    have tick: "timer0_tick M s = TIMER0_OVF_vect M ?u"
      using inv True z assms(2)
      by (simp add: timer0_tick_def Let_def I_flag_def avr_simps bit_sbi)
    have "Suc n div 256 = Suc (n div 256)" using True by (simp add: div_Suc)
    moreover note overflow_step [of M ?u "n div 256", OF assms(1)]
    ultimately show ?thesis
      using inv assms(2) unfolding tick timer0_inv_def
      by (simp add: I_flag_def avr_simps bit_cbi cbi_r_def)
  next
    case False
    then have "timer0_tick M s = ?s" "Suc n div 256 = n div 256"
      using inv z by (simp_all add: timer0_tick_def Let_def avr_simps I_flag_def div_Suc)
    then show ?thesis using inv unfolding timer0_inv_def by (simp add: I_flag_def avr_simps)
  qed
qed

lemma timer0_run_inv:
  assumes "8 dvd MICROSECONDS_PER_TIMER0_OVERFLOW M" and "bitno M (TOV 0) < 8" and "timer0_inv M 0 s"
  shows "timer0_inv M n (timer0_run M n s)"
  using timer0_tick_inv [OF assms(1,2)] assms(3)
  by (induction n) (auto simp: timer0_run_def)

lemma split_count: "push_bit 8 (of_nat (n div 256)) + ucast (of_nat n :: u8) = (of_nat n :: u32)"
proof -
  have "ucast (of_nat n :: u8) = (of_nat (n mod 256) :: u32)"
    by (simp add: unsigned_of_nat take_bit_eq_mod)
  moreover have "push_bit 8 (of_nat (n div 256)) = (of_nat (256 * (n div 256)) :: u32)"
    by (simp add: push_bit_eq_mult)
  ultimately have "push_bit 8 (of_nat (n div 256)) + ucast (of_nat n :: u8) =
    (of_nat (256 * (n div 256) + n mod 256) :: u32)" by (simp only: of_nat_add)
  then show ?thesis by (simp only: mult_div_mod_eq)
qed

lemma micros_of_inv:
  assumes "timer0_inv M n t" "hasr M (TCNT 0)" "hasr M (TIFRn 0)"
  shows "micros M t = Some (of_nat (n * (64 div clockCyclesPerMicrosecond M)), t)"
  using assms(1) micros_unfold [OF assms(2,3)] by (simp add: timer0_inv_def Let_def split_count)

text \<open>
  C39. On a clock whose timer 0 overflow is a multiple of eight microseconds (8 and 16 MHz among them),
  after any number \<open>n\<close> of counts of timer 0 \<^verbatim>\<open>micros()\<close> returns \<open>n\<close> times the length of a count, also beyond
  2 to the 32 overflows, \<^verbatim>\<open>millis()\<close> the whole milliseconds of the overflows so far without any drift from
  the rounded byte arithmetic of the handler, both modulo 2 to the 32, and neither changes the state.
\<close>

theorem timekeeping_exact:
  assumes "8 dvd MICROSECONDS_PER_TIMER0_OVERFLOW M" and "bitno M (TOV 0) < 8"
    and "hasr M (TCNT 0)" and "hasr M (TIFRn 0)" and "timer0_inv M 0 s"
  shows "micros M (timer0_run M n s) =
      Some (of_nat (n * (64 div clockCyclesPerMicrosecond M)), timer0_run M n s) \<and>
    millis (timer0_run M n s) =
      (of_nat (n div 256 * MICROSECONDS_PER_TIMER0_OVERFLOW M div 1000), timer0_run M n s)"
proof -
  define t where "t = timer0_run M n s"
  have inv: "timer0_inv M n t" unfolding t_def by (rule timer0_run_inv [OF assms(1,2,5)])
  have "micros M t = Some (of_nat (n * (64 div clockCyclesPerMicrosecond M)), t)"
    by (rule micros_of_inv [OF inv assms(3,4)])
  moreover have "millis t = (of_nat (n div 256 * MICROSECONDS_PER_TIMER0_OVERFLOW M div 1000), t)"
    using inv millis_state [of t] fst_millis [of t] by (simp add: timer0_inv_def prod_eq_iff)
  ultimately show ?thesis unfolding t_def by blast
qed


text \<open>A part just out of reset, with interrupts and the overflow interrupt of timer 0 enabled.\<close>

definition avr_reset :: avr where
  "avr_reset = \<lparr>regs = (\<lambda>_. 0), ocr = (\<lambda>_. 0), timer0_overflow_count = 0, timer0_millis = 0,
     timer0_fract = 0, analog_reference = 1, port_log = []\<rparr>"

lemma init_32u4:
  "init atmega32u4 s = Some (s\<lparr>regs := (regs s)(
     SREG := sbi (regs s SREG) 7,
     TCCRA 0 := sbi (sbi (regs s (TCCRA 0)) 1) 0, TCCRB 0 := sbi (sbi (regs s (TCCRB 0)) 1) 0,
     TIMSKn 0 := sbi (regs s (TIMSKn 0)) 0,
     TCCRB 1 := sbi (sbi 0 1) 0, TCCRA 1 := sbi (regs s (TCCRA 1)) 0,
     TCCRB 3 := sbi (sbi (regs s (TCCRB 3)) 1) 0, TCCRA 3 := sbi (regs s (TCCRA 3)) 0,
     TCCRB 4 := sbi (sbi (sbi (regs s (TCCRB 4)) 2) 1) 0, TCCRD 4 := sbi (regs s (TCCRD 4)) 0,
     TCCRA 4 := sbi (regs s (TCCRA 4)) 1, TCCRC 4 := sbi (regs s (TCCRC 4)) 0,
     ADCSRA := sbi (sbi (sbi (sbi (regs s ADCSRA) 2) 1) 0) 7)\<rparr>)"
  by (simp add: init_def init_timer0_mode_def init_timer0_prescale_def init_timer0_interrupt_def
      init_timer1_def init_timer2_def init_timer3_def init_timer4_def init_timer5_def init_adc_def
      init_usart_def sei_def sbi_r_def cbi_r_def set_reg_def Let_def fun_upd_twist fun_eq_iff)

lemma sbi_masks:
  "sbi (x :: u8) 0 = x OR 1" "sbi (x :: u8) 1 = x OR 2" "sbi (x :: u8) 2 = x OR 4"
  "sbi (x :: u8) 7 = x OR 0x80"
  by (simp_all add: sbi_def BV_def)

text \<open>
  On the ATmega32U4 \<^verbatim>\<open>init()\<close> always completes; it enables interrupts and the overflow interrupt of
  timer 0, selects the prescaler 64 for timers 0, 1, 3 (code 3) and 4 (code 7) and 128 for the converter,
  the PWM modes the comments name, and changes no other register and no variable. Timer 1 is the only
  one whose old control bits are dropped.
\<close>

theorem init_registers:
  "init atmega32u4 s = Some (s\<lparr>regs := (\<lambda>r. if r = TCCRB 1 then 3 else regs s r OR
     (case r of SREG \<Rightarrow> 0x80 | TIMSKn n \<Rightarrow> if n = 0 then 1 else 0
      | TCCRA n \<Rightarrow> if n = 0 then 3 else if n = 1 \<or> n = 3 then 1 else if n = 4 then 2 else 0
      | TCCRB n \<Rightarrow> if n = 0 \<or> n = 3 then 3 else if n = 4 then 7 else 0
      | TCCRC n \<Rightarrow> if n = 4 then 1 else 0 | TCCRD n \<Rightarrow> if n = 4 then 1 else 0
      | ADCSRA \<Rightarrow> 0x87 | _ \<Rightarrow> 0))\<rparr>)"
  unfolding init_32u4 sbi_masks
  by (simp add: fun_eq_iff or.assoc split: io.splits)

text \<open>After \<^verbatim>\<open>init\<close> on a part out of reset the clock runs from zero.\<close>

lemma init_starts_clock:
  "\<exists>s. init atmega32u4 avr_reset = Some s \<and> timer0_inv atmega32u4 0 s"
  unfolding init_32u4
  by (simp add: timer0_inv_def avr_reset_def I_flag_def bit_sbi)

lemma micros_per_overflow_32u4: "MICROSECONDS_PER_TIMER0_OVERFLOW atmega32u4 = 1024"
  by (simp add: MICROSECONDS_PER_TIMER0_OVERFLOW_def clockCyclesToMicroseconds_def
      clockCyclesPerMicrosecond_def)

theorem timekeeping_exact_witness:
  "\<exists>s. init atmega32u4 avr_reset = Some s \<and>
     map_option fst (micros atmega32u4 (timer0_run atmega32u4 1000 s)) = Some 4000 \<and>
     fst (millis (timer0_run atmega32u4 1000 s)) = 3"
proof -
  obtain s where s: "init atmega32u4 avr_reset = Some s" "timer0_inv atmega32u4 0 s"
    using init_starts_clock by blast
  have "clockCyclesPerMicrosecond atmega32u4 = 16" by (simp add: clockCyclesPerMicrosecond_def)
  with timekeeping_exact [of atmega32u4 s 1000] s show ?thesis
    by (simp add: micros_per_overflow_32u4)
qed


section \<open>Waiting\<close>

text \<open>
  What the waiting loops need of the clock they read: \<open>clk i\<close> is the \<open>i\<close>-th value of \<^verbatim>\<open>micros()\<close>, \<open>T i\<close> the
  true time of that reading in microseconds since some origin. Time does not go back, does not stop
  and moves at most a millisecond from one reading to the next. The 32-bit reading may wrap at any time.
\<close>

locale microclock =
  fixes clk :: "nat \<Rightarrow> u32" and T :: "nat \<Rightarrow> nat"
  assumes reading: "clk i = of_nat (T i)"
    and advances: "T i \<le> T (Suc i)"
    and gap: "T (Suc i) \<le> T i + 1000"
    and unbounded: "\<exists>i. n \<le> T i"
begin

lemma T_mono: "i \<le> j \<Longrightarrow> T i \<le> T j"
  using advances by (rule lift_Suc_mono_le)

text \<open>Elapsed time read off the wrapping clock is the true elapsed time while it is short.\<close>

lemma elapsed:
  assumes "S \<le> T i" "T i \<le> S + 2000"
  shows "unat (clk i - of_nat S) = T i - S"
proof -
  have e: "clk i - of_nat S = of_nat (T i - S)" using assms(1) by (simp add: reading)
  show ?thesis unfolding e unat_of_nat using assms by simp
qed

text \<open>
  The inner loop: it takes off whole milliseconds (\<open>S\<close> is the true value of \<^verbatim>\<open>start\<close>), makes at least one
  reading, and when it ends the delay the last reading is the one that completed the last millisecond.
\<close>

lemma inner:
  assumes "S \<le> T i" "T i \<le> S + 2000" "0 < ms"
  shows "\<exists>ms' S' i'. delay_inner clk ms (of_nat S) i = (ms', of_nat S', i') \<and> i < i' \<and>
    unat ms' \<le> unat ms \<and> S' = S + 1000 * (unat ms - unat ms') \<and> S' \<le> T i' \<and> T i' \<le> S' + 2000 \<and>
    (ms' = 0 \<longrightarrow> S' \<le> T (i' - 1) \<and> T (i' - 1) \<le> S' + 1000)"
  using assms
proof (induction "unat ms" arbitrary: ms S i)
  case 0
  then have "ms = 0" by (metis unat_eq_zero)
  then show ?case using 0 by simp
next
  case (Suc m)
  show ?case
  proof (cases "1000 \<le> T i - S")
    case True
    have c: "clk i - of_nat S \<ge> 1000"
      using elapsed [OF Suc.prems(1,2)] True by (simp add: word_le_nat_alt)
    have m: "m = unat (ms - 1)" using Suc.hyps(2) Suc.prems(3) by (simp add: unat_minus_one word_gt_0)
    have step: "delay_inner clk ms (of_nat S) i = delay_inner clk (ms - 1) (of_nat (S + 1000)) (Suc i)"
      using c Suc.prems(3) by (subst delay_inner.simps) simp
    have S: "S + 1000 \<le> T (Suc i)" "T (Suc i) \<le> S + 1000 + 2000"
      using True Suc.prems(2) advances [of i] gap [of i] by linarith+
    show ?thesis
    proof (cases "ms - 1 = 0")
      case True
      then have "delay_inner clk ms (of_nat S) i = (0, of_nat (S + 1000), Suc i)" "unat ms = 1"
        using step m Suc.hyps(2) by (simp_all add: delay_inner.simps)
      then show ?thesis using S Suc.prems \<open>1000 \<le> T i - S\<close>
        by (intro exI [of _ 0] exI [of _ "S + 1000"] exI [of _ "Suc i"]) auto
    next
      case False
      then have p: "0 < ms - 1" by (simp add: word_gt_0)
      from Suc.hyps(1) [OF m S p] obtain ms' S' i' where
        "delay_inner clk (ms - 1) (of_nat (S + 1000)) (Suc i) = (ms', of_nat S', i')" "Suc i < i'"
        "unat ms' \<le> unat (ms - 1)" "S' = S + 1000 + 1000 * (unat (ms - 1) - unat ms')"
        "S' \<le> T i' \<and> T i' \<le> S' + 2000 \<and> (ms' = 0 \<longrightarrow> S' \<le> T (i' - 1) \<and> T (i' - 1) \<le> S' + 1000)"
        by blast
      then show ?thesis unfolding step using m Suc.hyps(2)
        by (intro exI [of _ ms'] exI [of _ S'] exI [of _ i']) auto
    qed
  next
    case False
    have "\<not> clk i - of_nat S \<ge> 1000"
      using elapsed [OF Suc.prems(1,2)] False by (simp add: word_le_nat_alt)
    then have "delay_inner clk ms (of_nat S) i = (ms, of_nat S, Suc i)"
      using Suc.prems(3) by (subst delay_inner.simps) simp
    then show ?thesis using False Suc.prems advances [of i] gap [of i]
      by (intro exI [of _ ms] exI [of _ S] exI [of _ "Suc i"]) auto
  qed
qed

lemma outer:
  assumes "S \<le> T i" "T i \<le> S + 2000" "0 < ms"
  shows "\<exists>k. delay_outer clk ms (of_nat S) i = Some (Suc k) \<and>
    S + 1000 * unat ms \<le> T k \<and> T k \<le> S + 1000 * unat ms + 1000"
proof -
  obtain N where N: "S + 1000 * unat ms + 2001 \<le> T N" using unbounded by blast
  show ?thesis using assms N
  proof (induction "N - i" arbitrary: ms S i rule: less_induct)
    case less
    have "i < N"
    proof (rule ccontr)
      assume "\<not> i < N"
      then have "T N \<le> T i" by (intro T_mono) simp
      then show False using less.prems(2,4) by linarith
    qed
    from inner [OF less.prems(1-3)] obtain ms' S' i' where
      d: "delay_inner clk ms (of_nat S) i = (ms', of_nat S', i')" and i': "i < i'"
      and m: "unat ms' \<le> unat ms" "S' = S + 1000 * (unat ms - unat ms')"
      and T': "S' \<le> T i'" "T i' \<le> S' + 2000"
      and e: "ms' = 0 \<longrightarrow> S' \<le> T (i' - 1) \<and> T (i' - 1) \<le> S' + 1000" by blast
    have st: "delay_outer clk ms (of_nat S) i = delay_outer clk ms' (of_nat S') i'"
      using less.prems(3) d by (subst delay_outer.simps) simp
    have tot: "S' + 1000 * unat ms' = S + 1000 * unat ms" using m by (simp add: diff_mult_distrib2)
    show ?case
    proof (cases "ms' = 0")
      case True
      then have "delay_outer clk ms (of_nat S) i = Some (Suc (i' - 1))"
        using st i' by (subst (asm) (2) delay_outer.simps) simp
      then show ?thesis using e True tot by auto
    next
      case False
      have "\<exists>k. delay_outer clk ms' (of_nat S') i' = Some (Suc k) \<and>
        S' + 1000 * unat ms' \<le> T k \<and> T k \<le> S' + 1000 * unat ms' + 1000"
        by (rule less.hyps) (use i' \<open>i < N\<close> T' False less.prems(4) tot in \<open>auto simp: word_gt_0\<close>)
      then show ?thesis unfolding st tot .
    qed
  qed
qed

lemma delay_returns:
  "\<exists>k. delay clk ms = Some (Suc k) \<and>
    T 0 + 1000 * unat ms \<le> T k \<and> T k \<le> T 0 + 1000 * unat ms + 1000"
proof (cases "ms = 0")
  case True
  then show ?thesis by (simp add: delay_def delay_outer.simps)
next
  case False
  have "T 1 \<le> T 0 + 2000" "T 0 \<le> T 1" using gap [of 0] advances [of 0] by simp_all
  with outer [of "T 0" 1 ms] False show ?thesis by (simp add: delay_def reading word_gt_0)
qed

end

text \<open>The readings on the board: \<open>micros\<close> at each count of timer 0 after \<^verbatim>\<open>init\<close>.\<close>

definition board_clk :: "nat \<Rightarrow> u32" where
  "board_clk i = (case init atmega32u4 avr_reset of None \<Rightarrow> 0
     | Some s \<Rightarrow> (case micros atmega32u4 (timer0_run atmega32u4 i s) of None \<Rightarrow> 0 | Some (v, _) \<Rightarrow> v))"


lemma board_clk_val: "board_clk i = of_nat (4 * i)"
proof -
  obtain s where s: "init atmega32u4 avr_reset = Some s" "timer0_inv atmega32u4 0 s"
    using init_starts_clock by blast
  have d: "8 dvd MICROSECONDS_PER_TIMER0_OVERFLOW atmega32u4" by (simp add: micros_per_overflow_32u4)
  have c: "clockCyclesPerMicrosecond atmega32u4 = 16" by (simp add: clockCyclesPerMicrosecond_def)
  have "timer0_inv atmega32u4 i (timer0_run atmega32u4 i s)" using timer0_run_inv [OF d _ s(2)] by simp
  then show ?thesis
    using s(1) by (simp add: board_clk_def micros_of_inv c mult.commute)
qed

interpretation timer0_clock: microclock board_clk "\<lambda>i. 4 * i"
proof
  fix i n :: nat
  show "board_clk i = of_nat (4 * i)" by (rule board_clk_val)
  show "\<exists>i. n \<le> 4 * i" by (rule exI [of _ n]) simp
qed simp_all

text \<open>
  \<^verbatim>\<open>delay(ms)\<close> returns whenever time advances without jumps of more than a millisecond between two
  readings, and its last reading is made between \<open>ms\<close> and \<open>ms + 1\<close> milliseconds after the first, even
  when the 32-bit microsecond counter wraps around during the wait and for delays longer than the
  71 minutes it can count.
\<close>

theorem delay_waits:
  assumes "\<And>i. clk i = of_nat (T i)" and "\<And>i. T i \<le> T (Suc i)"
    and "\<And>i. T (Suc i) \<le> T i + 1000" and "\<And>n. \<exists>i. n \<le> T i"
  shows "\<exists>k. delay clk ms = Some (Suc k) \<and>
    T 0 + 1000 * unat ms \<le> T k \<and> T k \<le> T 0 + 1000 * unat ms + 1000"
  by (rule microclock.delay_returns) (use assms in \<open>simp add: microclock_def\<close>)

theorem delay_waits_witness:
  "\<exists>k. delay board_clk 5 = Some (Suc k) \<and> 5000 \<le> 4 * k \<and> 4 * k \<le> 6000"
  using delay_waits [of board_clk "\<lambda>i. 4 * i" 5, OF timer0_clock.reading timer0_clock.advances
      timer0_clock.gap timer0_clock.unbounded] by simp

lemma busy_wait_rounds: "busy_wait us = (if us = 0 then 65536 else unat us)"
proof (induction us rule: busy_wait.induct)
  case (1 us)
  show ?case
  proof (cases "us - 1 = 0")
    case True
    then have "us = 1" by simp
    then show ?thesis by (simp add: busy_wait.simps [of 1])
  next
    case False
    then have "busy_wait us = 1 + unat (us - 1)" using 1 by (simp add: busy_wait.simps [of us])
    moreover have "1 + unat (us - 1) = (if us = 0 then 65536 else unat us)"
      using unat_minus_one [of us] unat_gt_0 [of us] by (auto simp: unsigned_minus_1_eq_mask mask_eq_exp_minus_1)
    ultimately show ?thesis by simp
  qed
qed

lemma busy_wait_scaled:
  assumes "d < c * unat us" "unat us * c < 65536"
  shows "busy_wait (us * of_nat c - of_nat d) = c * unat us - d"
proof -
  have "us * of_nat c = of_nat (c * unat us)" by simp
  then have e: "us * of_nat c - of_nat d = of_nat (c * unat us - d)" using assms(1) by (simp only: of_nat_diff less_imp_le)
  have u: "unat (of_nat (c * unat us - d) :: u16) = c * unat us - d"
    using assms(2) by (simp add: unat_of_nat mult.commute)
  show ?thesis unfolding e busy_wait_rounds u using u assms(1) by (auto simp del: of_nat_diff)
qed

text \<open>
  For every clock the busy loop of \<^verbatim>\<open>delayMicroseconds\<close> is entered with a non-zero count, the one its
  comments derive (six, five, four, three or two rounds of four cycles for each microsecond, or a
  quarter round at 1 MHz, less the overhead of the call), as long as the scaled argument fits 16 bits.
\<close>

theorem delayMicroseconds_rounds:
  assumes "unat us * (if f \<ge> 24000000 then 6 else if f \<ge> 20000000 then 5 else if f \<ge> 16000000 then 4
      else if f \<ge> 12000000 then 3 else if f \<ge> 8000000 then 2 else 1) < 65536"
  shows "delayMicroseconds f us =
    (if f \<ge> 24000000 then (if us = 0 then 0 else 6 * unat us - 5)
     else if f \<ge> 20000000 then (if us \<le> 1 then 0 else 5 * unat us - 7)
     else if f \<ge> 16000000 then (if us \<le> 1 then 0 else 4 * unat us - 5)
     else if f \<ge> 12000000 then (if us \<le> 1 then 0 else 3 * unat us - 5)
     else if f \<ge> 8000000 then (if us \<le> 2 then 0 else 2 * unat us - 4)
     else if us \<le> 25 then 0 else (unat us - 22) div 4)"
proof -
  have z: "us = 0 \<longleftrightarrow> unat us = 0" "us \<le> 1 \<longleftrightarrow> unat us \<le> 1" "us \<le> 2 \<longleftrightarrow> unat us \<le> 2"
    "us \<le> 16 \<longleftrightarrow> unat us \<le> 16" "us \<le> 25 \<longleftrightarrow> unat us \<le> 25"
    by (simp_all add: word_le_nat_alt unat_eq_0)
  have p: "us * 6 - 5 = us * of_nat 6 - of_nat 5" "push_bit 2 us + us - 7 = us * of_nat 5 - of_nat 7"
    "push_bit 2 us - 5 = us * of_nat 4 - of_nat 5" "push_bit 1 us + us - 5 = us * of_nat 3 - of_nat 5"
    "push_bit 1 us - 4 = us * of_nat 2 - of_nat 4" by (simp_all add: push_bit_eq_mult)
  have q: "busy_wait (drop_bit 2 (us - 22)) = (unat us - 22) div 4" if "\<not> unat us \<le> 25"
  proof -
    have "unat (drop_bit 2 (us - 22)) = (unat us - 22) div 4"
      using that by (simp add: unat_div unat_sub word_le_nat_alt drop_bit_eq_div)
    moreover have "(unat us - 22) div 4 \<noteq> 0" using that by linarith
    ultimately show ?thesis by (auto simp: busy_wait_rounds)
  qed
  note b = busy_wait_scaled [of 5 6 us] busy_wait_scaled [of 7 5 us] busy_wait_scaled [of 5 4 us]
    busy_wait_scaled [of 5 3 us] busy_wait_scaled [of 4 2 us]
  show ?thesis using assms b unfolding delayMicroseconds_def z p
    by (auto simp: q split: if_splits)
qed

theorem delayMicroseconds_rounds_witness:
  "unat (100 :: u16) * 4 < 65536 \<and> delayMicroseconds 16000000 100 = 395"
  using delayMicroseconds_rounds [of 100 16000000] by (simp add: word_le_nat_alt)

end
