(* ===== verification/Wiring_Pins.thy ===== *)
theory Wiring_Pins
  imports Wiring_Time
begin

text \<open>
  The pins of the board: the tables of \<^verbatim>\<open>variants/leonardo/pins_arduino.h\<close> (which \<^verbatim>\<open>variants/micro\<close>, the
  variant of the Wagman board, includes), digital input and output (\<^verbatim>\<open>wiring_digital.c\<close>) and bit-banged
  shift registers (\<^verbatim>\<open>wiring_shift.c\<close>). The code reads its tables in program memory without a bound
  check; a read past the end of a table is \<open>None\<close> here. Levels that come from outside the processor are
  arguments.
\<close>

section \<open>Pin tables\<close>

definition NOT_A_PIN :: u8 where [simp]: "NOT_A_PIN = 0"
definition PB :: u8 where [simp]: "PB = 2"
definition PC :: u8 where [simp]: "PC = 3"
definition PD :: u8 where [simp]: "PD = 4"
definition PE :: u8 where [simp]: "PE = 5"
definition PF :: u8 where [simp]: "PF = 6"

definition NOT_ON_TIMER :: u8 where [simp]: "NOT_ON_TIMER = 0"
definition TIMER0A :: u8 where [simp]: "TIMER0A = 1"
definition TIMER0B :: u8 where [simp]: "TIMER0B = 2"
definition TIMER1A :: u8 where [simp]: "TIMER1A = 3"
definition TIMER1B :: u8 where [simp]: "TIMER1B = 4"
definition TIMER1C :: u8 where [simp]: "TIMER1C = 5"
definition TIMER2 :: u8 where [simp]: "TIMER2 = 6"
definition TIMER2A :: u8 where [simp]: "TIMER2A = 7"
definition TIMER2B :: u8 where [simp]: "TIMER2B = 8"
definition TIMER3A :: u8 where [simp]: "TIMER3A = 9"
definition TIMER3B :: u8 where [simp]: "TIMER3B = 10"
definition TIMER3C :: u8 where [simp]: "TIMER3C = 11"
definition TIMER4A :: u8 where [simp]: "TIMER4A = 12"
definition TIMER4B :: u8 where [simp]: "TIMER4B = 13"
definition TIMER4C :: u8 where [simp]: "TIMER4C = 14"
definition TIMER4D :: u8 where [simp]: "TIMER4D = 15"
definition TIMER5A :: u8 where [simp]: "TIMER5A = 16"
definition TIMER5B :: u8 where [simp]: "TIMER5B = 17"
definition TIMER5C :: u8 where [simp]: "TIMER5C = 18"

definition digital_pin_to_port_PGM :: "u8 list" where
  "digital_pin_to_port_PGM =
    [PD, PD, PD, PD, PD, PC, PD, PE, PB, PB, PB, PB, PD, PC, PB, PB, PB, PB, PF, PF, PF, PF,
     PF, PF, PD, PD, PB, PB, PB, PD, PD]"

definition digital_pin_to_bit_mask_PGM :: "u8 list" where
  "digital_pin_to_bit_mask_PGM =
    [BV 2, BV 3, BV 1, BV 0, BV 4, BV 6, BV 7, BV 6, BV 4, BV 5, BV 6, BV 7, BV 6, BV 7,
     BV 3, BV 1, BV 2, BV 0, BV 7, BV 6, BV 5, BV 4, BV 1, BV 0, BV 4, BV 7, BV 4, BV 5,
     BV 6, BV 6, BV 5]"

definition digital_pin_to_timer_PGM :: "u8 list" where
  "digital_pin_to_timer_PGM =
    [NOT_ON_TIMER, NOT_ON_TIMER, NOT_ON_TIMER, TIMER0B, NOT_ON_TIMER, TIMER3A, TIMER4D,
     NOT_ON_TIMER, NOT_ON_TIMER, TIMER1A, TIMER1B, TIMER0A, NOT_ON_TIMER, TIMER4A,
     NOT_ON_TIMER, NOT_ON_TIMER, NOT_ON_TIMER, NOT_ON_TIMER, NOT_ON_TIMER, NOT_ON_TIMER,
     NOT_ON_TIMER, NOT_ON_TIMER, NOT_ON_TIMER, NOT_ON_TIMER, NOT_ON_TIMER, NOT_ON_TIMER,
     NOT_ON_TIMER, NOT_ON_TIMER, NOT_ON_TIMER, NOT_ON_TIMER, NOT_ON_TIMER]"

definition analog_pin_to_channel_PGM :: "u8 list" where
  "analog_pin_to_channel_PGM = [7, 6, 5, 4, 1, 0, 8, 10, 11, 12, 13, 9]"

text \<open>The letter of a port number; \<^verbatim>\<open>port_to_mode_PGM\<close>, \<^verbatim>\<open>port_to_output_PGM\<close> and \<^verbatim>\<open>port_to_input_PGM\<close>
  give the three registers of that letter.\<close>

definition port_letter :: "u8 \<Rightarrow> char option" where
  "port_letter p = (if p = PB then Some CHR ''B'' else if p = PC then Some CHR ''C''
     else if p = PD then Some CHR ''D'' else if p = PE then Some CHR ''E''
     else if p = PF then Some CHR ''F'' else None)"

definition portModeRegister :: "u8 \<Rightarrow> io option" where
  "portModeRegister p = map_option DDR (port_letter p)"

definition portOutputRegister :: "u8 \<Rightarrow> io option" where
  "portOutputRegister p = map_option PORT (port_letter p)"

definition portInputRegister :: "u8 \<Rightarrow> io option" where
  "portInputRegister p = map_option PIN (port_letter p)"

definition pgm_read :: "u8 list \<Rightarrow> u8 \<Rightarrow> u8 option" where
  "pgm_read tbl i = (if unat i < length tbl then Some (tbl ! unat i) else None)"

definition digitalPinToPort :: "u8 \<Rightarrow> u8 option" where
  "digitalPinToPort pin = pgm_read digital_pin_to_port_PGM pin"

definition digitalPinToBitMask :: "u8 \<Rightarrow> u8 option" where
  "digitalPinToBitMask pin = pgm_read digital_pin_to_bit_mask_PGM pin"

definition digitalPinToTimer :: "u8 \<Rightarrow> u8 option" where
  "digitalPinToTimer pin = pgm_read digital_pin_to_timer_PGM pin"

definition analogPinToChannel :: "u8 \<Rightarrow> u8 option" where
  "analogPinToChannel pin = pgm_read analog_pin_to_channel_PGM pin"

text \<open>A write to a port register; writes to output registers are recorded.\<close>

definition write_reg :: "io \<Rightarrow> u8 \<Rightarrow> avr \<Rightarrow> avr" where
  "write_reg r v s = (case r of
     PORT c \<Rightarrow> (set_reg r v s)\<lparr>port_log := port_log s @ [(c, v)]\<rparr>
   | _ \<Rightarrow> set_reg r v s)"

section \<open>wiring_digital.c\<close>

definition LOW :: u8 where [simp]: "LOW = 0"
definition HIGH :: u8 where [simp]: "HIGH = 1"
definition INPUT :: u8 where [simp]: "INPUT = 0"
definition OUTPUT :: u8 where [simp]: "OUTPUT = 1"
definition INPUT_PULLUP :: u8 where [simp]: "INPUT_PULLUP = 2"

definition pinMode :: "u8 \<Rightarrow> u8 \<Rightarrow> avr \<Rightarrow> avr option" where
  "pinMode pin mode s = do {
     bit \<leftarrow> digitalPinToBitMask pin;
     port \<leftarrow> digitalPinToPort pin;
     if port = NOT_A_PIN then Some s else do {
       reg \<leftarrow> portModeRegister port;
       out \<leftarrow> portOutputRegister port;
       Some (if mode = INPUT then
           atomic (\<lambda>s. let s = write_reg reg (regs s reg AND NOT bit) s
                       in write_reg out (regs s out AND NOT bit) s) s
         else if mode = INPUT_PULLUP then
           atomic (\<lambda>s. let s = write_reg reg (regs s reg AND NOT bit) s
                       in write_reg out (regs s out OR bit) s) s
         else
           atomic (\<lambda>s. write_reg reg (regs s reg OR bit) s) s)
     }
   }"

text \<open>
  \<^verbatim>\<open>turnOffPWM\<close>: a case of the switch exists only on parts whose header defines the names it uses.
\<close>

definition turnOffPWM :: "mcu \<Rightarrow> u8 \<Rightarrow> avr \<Rightarrow> avr" where
  "turnOffPWM M timer s =
     (if hasr M (TCCRA 1) \<and> hasb M (COMA 1 1) \<and> timer = TIMER1A then cbi_r M (TCCRA 1) (COMA 1 1) s
      else if hasr M (TCCRA 1) \<and> hasb M (COMB 1 1) \<and> timer = TIMER1B then cbi_r M (TCCRA 1) (COMB 1 1) s
      else if hasr M (TCCRA 1) \<and> hasb M (COMC 1 1) \<and> timer = TIMER1C then cbi_r M (TCCRA 1) (COMC 1 1) s
      else if hasr M (TCCR 2) \<and> hasb M (COM 2 1) \<and> timer = TIMER2 then cbi_r M (TCCR 2) (COM 2 1) s
      else if hasr M (TCCRA 0) \<and> hasb M (COMA 0 1) \<and> timer = TIMER0A then cbi_r M (TCCRA 0) (COMA 0 1) s
      else if hasr M (TCCRA 0) \<and> hasb M (COMB 0 1) \<and> timer = TIMER0B then cbi_r M (TCCRA 0) (COMB 0 1) s
      else if hasr M (TCCRA 2) \<and> hasb M (COMA 2 1) \<and> timer = TIMER2A then cbi_r M (TCCRA 2) (COMA 2 1) s
      else if hasr M (TCCRA 2) \<and> hasb M (COMB 2 1) \<and> timer = TIMER2B then cbi_r M (TCCRA 2) (COMB 2 1) s
      else if hasr M (TCCRA 3) \<and> hasb M (COMA 3 1) \<and> timer = TIMER3A then cbi_r M (TCCRA 3) (COMA 3 1) s
      else if hasr M (TCCRA 3) \<and> hasb M (COMB 3 1) \<and> timer = TIMER3B then cbi_r M (TCCRA 3) (COMB 3 1) s
      else if hasr M (TCCRA 3) \<and> hasb M (COMC 3 1) \<and> timer = TIMER3C then cbi_r M (TCCRA 3) (COMC 3 1) s
      else if hasr M (TCCRA 4) \<and> hasb M (COMA 4 1) \<and> timer = TIMER4A then cbi_r M (TCCRA 4) (COMA 4 1) s
      else if hasr M (TCCRA 4) \<and> hasb M (COMB 4 1) \<and> timer = TIMER4B then cbi_r M (TCCRA 4) (COMB 4 1) s
      else if hasr M (TCCRA 4) \<and> hasb M (COMC 4 1) \<and> timer = TIMER4C then cbi_r M (TCCRA 4) (COMC 4 1) s
      else if hasr M (TCCRC 4) \<and> hasb M (COMD 4 1) \<and> timer = TIMER4D then cbi_r M (TCCRC 4) (COMD 4 1) s
      else if hasr M (TCCRA 5) \<and> timer = TIMER5A then cbi_r M (TCCRA 5) (COMA 5 1) s
      else if hasr M (TCCRA 5) \<and> timer = TIMER5B then cbi_r M (TCCRA 5) (COMB 5 1) s
      else if hasr M (TCCRA 5) \<and> timer = TIMER5C then cbi_r M (TCCRA 5) (COMC 5 1) s
      else s)"

definition digitalWrite :: "mcu \<Rightarrow> u8 \<Rightarrow> u8 \<Rightarrow> avr \<Rightarrow> avr option" where
  "digitalWrite M pin val s = do {
     timer \<leftarrow> digitalPinToTimer pin;
     bit \<leftarrow> digitalPinToBitMask pin;
     port \<leftarrow> digitalPinToPort pin;
     if port = NOT_A_PIN then Some s else do {
       let s = (if timer \<noteq> NOT_ON_TIMER then turnOffPWM M timer s else s);
       out \<leftarrow> portOutputRegister port;
       Some (atomic (\<lambda>s. if val = LOW then write_reg out (regs s out AND NOT bit) s
                         else write_reg out (regs s out OR bit) s) s)
     }
   }"

definition digitalRead :: "mcu \<Rightarrow> u8 \<Rightarrow> avr \<Rightarrow> (u16 \<times> avr) option" where
  "digitalRead M pin s = do {
     timer \<leftarrow> digitalPinToTimer pin;
     bit \<leftarrow> digitalPinToBitMask pin;
     port \<leftarrow> digitalPinToPort pin;
     if port = NOT_A_PIN then Some (ucast LOW, s) else do {
       let s = (if timer \<noteq> NOT_ON_TIMER then turnOffPWM M timer s else s);
       inp \<leftarrow> portInputRegister port;
       if regs s inp AND bit \<noteq> 0 then Some (ucast HIGH, s) else Some (ucast LOW, s)
     }
   }"


section \<open>wiring_shift.c\<close>

definition LSBFIRST :: u8 where [simp]: "LSBFIRST = 0"
definition MSBFIRST :: u8 where [simp]: "MSBFIRST = 1"

text \<open>\<open>world i\<close> is what the connected device does to the input registers after the \<open>i\<close>-th rising edge.\<close>

fun shiftIn_loop ::
  "mcu \<Rightarrow> (nat \<Rightarrow> avr \<Rightarrow> avr) \<Rightarrow> u8 \<Rightarrow> u8 \<Rightarrow> u8 \<Rightarrow> nat list \<Rightarrow> u8 \<Rightarrow> avr \<Rightarrow> (u8 \<times> avr) option" where
  "shiftIn_loop M world dataPin clockPin bitOrder [] value s = Some (value, s)"
| "shiftIn_loop M world dataPin clockPin bitOrder (i # is) value s = do {
     s \<leftarrow> digitalWrite M clockPin HIGH s;
     (r, s) \<leftarrow> digitalRead M dataPin (world i s);
     let value = value OR ucast (push_bit (if bitOrder = LSBFIRST then i else 7 - i) r);
     s \<leftarrow> digitalWrite M clockPin LOW s;
     shiftIn_loop M world dataPin clockPin bitOrder is value s
   }"

definition shiftIn :: "mcu \<Rightarrow> (nat \<Rightarrow> avr \<Rightarrow> avr) \<Rightarrow> u8 \<Rightarrow> u8 \<Rightarrow> u8 \<Rightarrow> avr \<Rightarrow> (u8 \<times> avr) option" where
  "shiftIn M world dataPin clockPin bitOrder s =
     shiftIn_loop M world dataPin clockPin bitOrder [0..<8] 0 s"

fun shiftOut_loop :: "mcu \<Rightarrow> u8 \<Rightarrow> u8 \<Rightarrow> u8 \<Rightarrow> u8 \<Rightarrow> nat list \<Rightarrow> avr \<Rightarrow> avr option" where
  "shiftOut_loop M dataPin clockPin bitOrder val [] s = Some s"
| "shiftOut_loop M dataPin clockPin bitOrder val (i # is) s = do {
     s \<leftarrow> digitalWrite M dataPin
        (of_bool (val AND BV (if bitOrder = LSBFIRST then i else 7 - i) \<noteq> 0)) s;
     s \<leftarrow> digitalWrite M clockPin HIGH s;
     s \<leftarrow> digitalWrite M clockPin LOW s;
     shiftOut_loop M dataPin clockPin bitOrder val is s
   }"

definition shiftOut :: "mcu \<Rightarrow> u8 \<Rightarrow> u8 \<Rightarrow> u8 \<Rightarrow> u8 \<Rightarrow> avr \<Rightarrow> avr option" where
  "shiftOut M dataPin clockPin bitOrder val s =
     shiftOut_loop M dataPin clockPin bitOrder val [0..<8] s"


section \<open>Pins as wires\<close>

text \<open>The pin of the processor behind a pin number: its port letter and bit, from the comments of the tables.\<close>

definition pin_bits :: "nat list" where
  "pin_bits = [2, 3, 1, 0, 4, 6, 7, 6, 4, 5, 6, 7, 6, 7, 3, 1, 2, 0, 7, 6, 5, 4, 1, 0, 4, 7, 4, 5, 6, 6, 5]"

definition pin_letters :: string where
  "pin_letters = ''DDDDDCDEBBBBDCBBBBFFFFFFDDBBBDD''"

definition wire :: "u8 \<Rightarrow> char \<times> nat" where
  "wire pin = (pin_letters ! unat pin, pin_bits ! unat pin)"

definition level :: "avr \<Rightarrow> char \<times> nat \<Rightarrow> bool" where
  "level s w = bit (regs s (PORT (fst w))) (snd w)"

lemma tables:
  "digital_pin_to_bit_mask_PGM = map BV pin_bits"
  "map port_letter digital_pin_to_port_PGM = map Some pin_letters"
  by (simp_all add: digital_pin_to_bit_mask_PGM_def pin_bits_def digital_pin_to_port_PGM_def
      pin_letters_def port_letter_def)

lemma table_lengths [simp]:
  "length pin_bits = 31" "length pin_letters = 31" "length digital_pin_to_port_PGM = 31"
  "length digital_pin_to_timer_PGM = 31"
  by (simp_all add: pin_bits_def pin_letters_def digital_pin_to_port_PGM_def digital_pin_to_timer_PGM_def)

lemma pin_lookup:
  assumes "unat pin < 31"
  shows "digitalPinToBitMask pin = Some (BV (snd (wire pin)))"
    "\<exists>p. digitalPinToPort pin = Some p \<and> p \<noteq> NOT_A_PIN \<and> port_letter p = Some (fst (wire pin))"
    "digitalPinToTimer pin = Some (digital_pin_to_timer_PGM ! unat pin)"
    "snd (wire pin) < 8"
proof -
  show "digitalPinToBitMask pin = Some (BV (snd (wire pin)))"
    using assms by (simp add: digitalPinToBitMask_def pgm_read_def tables wire_def)
  have "map port_letter digital_pin_to_port_PGM ! unat pin = Some (fst (wire pin))"
    unfolding tables using assms by (simp add: wire_def)
  then have l: "port_letter (digital_pin_to_port_PGM ! unat pin) = Some (fst (wire pin))"
    using assms by simp
  then have "digital_pin_to_port_PGM ! unat pin \<noteq> NOT_A_PIN" by (auto simp: port_letter_def)
  with l show "\<exists>p. digitalPinToPort pin = Some p \<and> p \<noteq> NOT_A_PIN \<and> port_letter p = Some (fst (wire pin))"
    using assms by (simp add: digitalPinToPort_def pgm_read_def)
  show "digitalPinToTimer pin = Some (digital_pin_to_timer_PGM ! unat pin)"
    using assms by (simp add: digitalPinToTimer_def pgm_read_def)
  have "list_all (\<lambda>k. k < 8) pin_bits" by (simp add: pin_bits_def)
  then show "snd (wire pin) < 8" using assms by (simp add: wire_def list_all_length)
qed

text \<open>Registers that \<^verbatim>\<open>turnOffPWM\<close> never touches.\<close>

fun not_pwm :: "io \<Rightarrow> bool" where
  "not_pwm (TCCR n) = False" | "not_pwm (TCCRA n) = False" | "not_pwm (TCCRC n) = False"
| "not_pwm r = True"

lemma regs_cbi_other: "q \<noteq> r \<Longrightarrow> regs (cbi_r M r b s) q = regs s q"
  by (simp add: regs_cbi_r)

lemma turnOffPWM_frame:
  "not_pwm r \<Longrightarrow> regs (turnOffPWM M t s) r = regs s r"
  "port_log (turnOffPWM M t s) = port_log s" "ocr (turnOffPWM M t s) = ocr s"
proof -
  show "not_pwm r \<Longrightarrow> regs (turnOffPWM M t s) r = regs s r"
    unfolding turnOffPWM_def by (cases r) (simp_all add: regs_cbi_other)
  show "port_log (turnOffPWM M t s) = port_log s" "ocr (turnOffPWM M t s) = ocr s"
    unfolding turnOffPWM_def by (simp_all add: bit_ops_fields)
qed

definition pwm_off :: "mcu \<Rightarrow> u8 \<Rightarrow> avr \<Rightarrow> avr" where
  "pwm_off M pin s = (let timer = digital_pin_to_timer_PGM ! unat pin
     in if timer \<noteq> NOT_ON_TIMER then turnOffPWM M timer s else s)"

lemma pwm_off_frame:
  "not_pwm r \<Longrightarrow> regs (pwm_off M pin s) r = regs s r" "port_log (pwm_off M pin s) = port_log s"
  "ocr (pwm_off M pin s) = ocr s"
  by (simp_all add: pwm_off_def Let_def turnOffPWM_frame)

lemma atomic_write:
  "atomic (\<lambda>s. write_reg (PORT c) (cbi (regs s (PORT c)) k) s) s =
    write_reg (PORT c) (cbi (regs s (PORT c)) k) s"
  "atomic (\<lambda>s. write_reg (PORT c) (sbi (regs s (PORT c)) k) s) s =
    write_reg (PORT c) (sbi (regs s (PORT c)) k) s"
  by (simp_all add: atomic_def cli_def write_reg_def set_reg_def Let_def fun_eq_iff)

lemma and_not_BV: "x AND NOT (BV k) = cbi x k" and or_BV: "x OR BV k = sbi x k"
  by (simp_all add: cbi_def sbi_def)

text \<open>\<^verbatim>\<open>digitalWrite\<close> in one line: PWM off, then one bit of one output register.\<close>

lemma digitalWrite_eq:
  assumes "unat pin < 31"
  shows "digitalWrite M pin val s = Some (write_reg (PORT (fst (wire pin)))
    ((if val = 0 then cbi else sbi) (regs s (PORT (fst (wire pin)))) (snd (wire pin))) (pwm_off M pin s))"
proof -
  note l = pin_lookup [OF assms]
  obtain p where p: "digitalPinToPort pin = Some p" "p \<noteq> NOT_A_PIN" "port_letter p = Some (fst (wire pin))"
    using l(2) by blast
  have "(if digital_pin_to_timer_PGM ! unat pin \<noteq> NOT_ON_TIMER
      then turnOffPWM M (digital_pin_to_timer_PGM ! unat pin) s else s) = pwm_off M pin s"
    by (simp add: pwm_off_def Let_def)
  then show ?thesis
    using l p by (simp add: digitalWrite_def portOutputRegister_def and_not_BV or_BV Let_def
        atomic_write pwm_off_frame)
qed

lemma write_port_fields:
  "regs (write_reg (PORT c) v s) r = (if r = PORT c then v else regs s r)"
  "port_log (write_reg (PORT c) v s) = port_log s @ [(c, v)]" "ocr (write_reg (PORT c) v s) = ocr s"
  by (simp_all add: write_reg_def avr_simps)

lemma digitalWrite_level:
  assumes "unat p < 31" "unat q < 31" "digitalWrite M p v s = Some t"
  shows "level t (wire q) = (if wire q = wire p then v \<noteq> 0 else level s (wire q))"
proof -
  have t: "t = write_reg (PORT (fst (wire p)))
    ((if v = 0 then cbi else sbi) (regs s (PORT (fst (wire p)))) (snd (wire p))) (pwm_off M p s)"
    using digitalWrite_eq [OF assms(1)] assms(3) by simp
  show ?thesis unfolding t level_def
    using pin_lookup(4) [OF assms(1)] pin_lookup(4) [OF assms(2)]
    by (auto simp: write_port_fields pwm_off_frame bit_sbi bit_cbi prod_eq_iff)
qed

text \<open>The first number of the processor pin behind a number: 24 to 29 name pins a second time.\<close>

definition canon :: "nat \<Rightarrow> nat" where
  "canon i = (if 24 \<le> i \<and> i < 30 then [4, 6, 8, 9, 10, 12] ! (i - 24) else i)"

lemma wire_canon:
  assumes "unat p < 31" "unat q < 31"
  shows "wire q = wire p \<longleftrightarrow> canon (unat q) = canon (unat p)"
proof -
  let ?w = "\<lambda>i. (pin_letters ! i, pin_bits ! i)"
  have "distinct (map ?w ([0..<24] @ [30]))"
    by (simp add: upt_rec pin_letters_def pin_bits_def)
  then have inj: "inj_on ?w ({0..<24} \<union> {30})" by (simp add: distinct_map)
  have "list_all (\<lambda>i. ?w i = ?w (canon i) \<and> canon i \<in> {0..<24} \<union> {30}) [0..<31]"
    by (simp add: upt_rec pin_letters_def pin_bits_def canon_def)
  then have c: "?w i = ?w (canon i)" "canon i \<in> {0..<24} \<union> {30}" if "i < 31" for i
    using that by (simp_all add: list_all_iff)
  have "?w (unat q) = ?w (unat p) \<longleftrightarrow> ?w (canon (unat q)) = ?w (canon (unat p))"
    using c(1) [OF assms(1)] c(1) [OF assms(2)] by simp
  also have "\<dots> \<longleftrightarrow> canon (unat q) = canon (unat p)"
    by (rule inj_on_eq_iff [OF inj c(2) [OF assms(2)] c(2) [OF assms(1)]])
  finally show ?thesis by (simp add: wire_def)
qed

text \<open>
  \<^verbatim>\<open>digitalWrite\<close> on any of the 31 pins completes, drives exactly the processor pin behind it to the
  given level and keeps the level of every other pin, every data direction and the status register with
  its interrupt flag; only pin numbers that name the same processor pin (4 and 24, 6 and 25, 8 and 26, 9
  and 27, 10 and 28, 12 and 29) follow each other.
\<close>

theorem digitalWrite_one_wire:
  assumes "unat p < 31" and "unat q < 31"
  shows "\<exists>t. digitalWrite M p v s = Some t \<and>
    level t (wire q) = (if canon (unat q) = canon (unat p) then v \<noteq> 0 else level s (wire q)) \<and>
    (\<forall>c. regs t (DDR c) = regs s (DDR c)) \<and> regs t SREG = regs s SREG"
proof -
  obtain t where t: "digitalWrite M p v s = Some t" "\<And>c. regs t (DDR c) = regs s (DDR c)"
      "regs t SREG = regs s SREG"
    by (simp add: digitalWrite_eq [OF assms(1)] write_port_fields pwm_off_frame)
  then show ?thesis using digitalWrite_level [OF assms t(1)] wire_canon [OF assms] by auto
qed

theorem digitalWrite_one_wire_witness:
  "\<exists>t. digitalWrite atmega32u4 4 1 avr_reset = Some t \<and> level t (wire 24)"
  using digitalWrite_one_wire [of 4 24 atmega32u4 1 avr_reset] by (auto simp: canon_def)


section \<open>Shift registers\<close>

text \<open>
  What a device sees that samples the data pin at every rising edge of the clock pin: the list of levels
  for a trace of port writes, from given output registers.
\<close>

fun sampled :: "char \<times> nat \<Rightarrow> char \<times> nat \<Rightarrow> (char \<Rightarrow> u8) \<Rightarrow> (char \<times> u8) list \<Rightarrow> bool list" where
  "sampled D C st [] = []"
| "sampled D C st ((c, v) # l) =
     (let st' = st(c := v)
      in (if \<not> bit (st (fst C)) (snd C) \<and> bit (st' (fst C)) (snd C)
          then [bit (st' (fst D)) (snd D)] else []) @ sampled D C st' l)"

definition outputs :: "avr \<Rightarrow> char \<Rightarrow> u8" where
  "outputs s c = regs s (PORT c)"

lemma sampled_append:
  "sampled D C st (l @ m) = sampled D C st l @ sampled D C (fold (\<lambda>(c, v) st. st(c := v)) l st) m"
  by (induction l arbitrary: st) (auto simp: Let_def)

text \<open>One write as the device sees it.\<close>

lemma digitalWrite_seen:
  assumes "unat p < 31"
  obtains t v' where "digitalWrite M p v s = Some t" "port_log t = port_log s @ [(fst (wire p), v')]"
    "outputs t = (outputs s)(fst (wire p) := v')" "level t (wire p) = (v \<noteq> 0)"
    "\<And>w. w \<noteq> wire p \<Longrightarrow> snd w < 8 \<Longrightarrow> level t w = level s w"
    "\<And>c. regs t (PIN c) = regs s (PIN c)"
proof -
  let ?v = "(if v = 0 then cbi else sbi) (regs s (PORT (fst (wire p)))) (snd (wire p))"
  let ?t = "write_reg (PORT (fst (wire p))) ?v (pwm_off M p s)"
  have "outputs ?t = (outputs s)(fst (wire p) := ?v)"
    by (auto simp: outputs_def write_port_fields pwm_off_frame fun_eq_iff)
  moreover have "level ?t w = level s w" if "w \<noteq> wire p" "snd w < 8" for w
    using that pin_lookup(4) [OF assms]
    by (auto simp: level_def write_port_fields pwm_off_frame bit_sbi bit_cbi prod_eq_iff)
  ultimately show ?thesis
    using that [of ?t ?v] digitalWrite_eq [OF assms] digitalWrite_level [OF assms assms]
    by (simp add: write_port_fields pwm_off_frame)
qed

lemma level_outputs: "bit (outputs s (fst w)) (snd w) = level s w"
  by (simp add: outputs_def level_def)

text \<open>One round of the loop of \<^verbatim>\<open>shiftOut\<close> shows the device one bit.\<close>

lemma shift_round:
  assumes p: "unat d < 31" "unat c < 31" "wire d \<noteq> wire c" and low: "\<not> level s (wire c)"
  obtains t1 t2 t3 l where "digitalWrite M d v s = Some t1" "digitalWrite M c HIGH t1 = Some t2"
    "digitalWrite M c LOW t2 = Some t3" "port_log t3 = port_log s @ l" "\<not> level t3 (wire c)"
    "sampled (wire d) (wire c) (outputs s) l = [v \<noteq> 0]"
    "fold (\<lambda>(c, v) st. st(c := v)) l (outputs s) = outputs t3"
proof -
  from digitalWrite_seen [OF p(1)] obtain t1 v1 where
    t1: "digitalWrite M d v s = Some t1" "port_log t1 = port_log s @ [(fst (wire d), v1)]"
      "outputs t1 = (outputs s)(fst (wire d) := v1)" "level t1 (wire d) = (v \<noteq> 0)"
      "\<And>w. w \<noteq> wire d \<Longrightarrow> snd w < 8 \<Longrightarrow> level t1 w = level s w" by metis
  from digitalWrite_seen [OF p(2)] obtain t2 v2 where
    t2: "digitalWrite M c HIGH t1 = Some t2" "port_log t2 = port_log t1 @ [(fst (wire c), v2)]"
      "outputs t2 = (outputs t1)(fst (wire c) := v2)" "level t2 (wire c) = (HIGH \<noteq> 0)"
      "\<And>w. w \<noteq> wire c \<Longrightarrow> snd w < 8 \<Longrightarrow> level t2 w = level t1 w" by metis
  from digitalWrite_seen [OF p(2)] obtain t3 v3 where
    t3: "digitalWrite M c LOW t2 = Some t3" "port_log t3 = port_log t2 @ [(fst (wire c), v3)]"
      "outputs t3 = (outputs t2)(fst (wire c) := v3)" "level t3 (wire c) = (LOW \<noteq> 0)"
      "\<And>w. w \<noteq> wire c \<Longrightarrow> snd w < 8 \<Longrightarrow> level t3 w = level t2 w" by metis
  have lc: "\<not> level t1 (wire c)" using t1(5) [of "wire c"] p low pin_lookup(4) [OF p(2)] by auto
  have ld: "level t2 (wire d) = (v \<noteq> 0)" using t2(5) [of "wire d"] p t1(4) pin_lookup(4) [OF p(1)] by auto
  have v: "bit v2 (snd (wire c))" "\<not> bit v3 (snd (wire c))"
    using t2(4) level_outputs [of t2 "wire c"] t3(4) level_outputs [of t3 "wire c"]
    by (simp_all add: t2(3) t3(3))
  have "sampled (wire d) (wire c) (outputs s) [(fst (wire d), v1), (fst (wire c), v2), (fst (wire c), v3)] = [v \<noteq> 0]"
    using lc low ld t2(4) t3(4) v
    by (simp add: t1(3) [symmetric] t2(3) [symmetric] t3(3) [symmetric] level_outputs Let_def)
  then show ?thesis
    using that [of t1 t2 t3 "[(fst (wire d), v1), (fst (wire c), v2), (fst (wire c), v3)]"] t1 t2 t3 by simp
qed

definition bit_index :: "u8 \<Rightarrow> nat \<Rightarrow> nat" where
  "bit_index bitOrder i = (if bitOrder = LSBFIRST then i else 7 - i)"

lemma shiftOut_loop_seen:
  assumes "unat d < 31" "unat c < 31" "wire d \<noteq> wire c" "\<not> level s (wire c)"
  shows "\<exists>t l. shiftOut_loop M d c order val is s = Some t \<and> port_log t = port_log s @ l \<and>
    sampled (wire d) (wire c) (outputs s) l = map (\<lambda>i. bit val (bit_index order i)) is"
  using assms(4)
proof (induction "is" arbitrary: s)
  case Nil
  then show ?case by simp
next
  case (Cons i "is")
  let ?v = "of_bool (val AND BV (if order = LSBFIRST then i else 7 - i) \<noteq> 0) :: u8"
  from shift_round [OF assms(1-3) Cons.prems, where v = ?v and M = M] obtain t1 t2 t3 l where
    r: "digitalWrite M d ?v s = Some t1" "digitalWrite M c HIGH t1 = Some t2"
      "digitalWrite M c LOW t2 = Some t3" "port_log t3 = port_log s @ l" "\<not> level t3 (wire c)"
      "sampled (wire d) (wire c) (outputs s) l = [?v \<noteq> 0]"
      "fold (\<lambda>(c, v) st. st(c := v)) l (outputs s) = outputs t3" .
  from Cons.IH [OF r(5)] obtain t m where
    "shiftOut_loop M d c order val is t3 = Some t" "port_log t = port_log t3 @ m"
    "sampled (wire d) (wire c) (outputs t3) m = map (\<lambda>i. bit val (bit_index order i)) is" by blast
  then show ?case using r
    by (intro exI [of _ t] exI [of _ "l @ m"])
      (simp add: sampled_append bit_index_def and_BV_neq_0)
qed


lemma digitalRead_eq:
  assumes "unat pin < 31"
  shows "digitalRead M pin s =
    Some (of_bool (bit (regs s (PIN (fst (wire pin)))) (snd (wire pin))), pwm_off M pin s)"
proof -
  note l = pin_lookup [OF assms]
  obtain p where p: "digitalPinToPort pin = Some p" "p \<noteq> NOT_A_PIN" "port_letter p = Some (fst (wire pin))"
    using l(2) by blast
  have "(if digital_pin_to_timer_PGM ! unat pin \<noteq> NOT_ON_TIMER
      then turnOffPWM M (digital_pin_to_timer_PGM ! unat pin) s else s) = pwm_off M pin s"
    by (simp add: pwm_off_def Let_def)
  then show ?thesis
    using l p by (simp add: digitalRead_def portInputRegister_def Let_def and_BV_neq_0 pwm_off_frame)
qed

text \<open>A device that puts the \<open>i\<close>-th element of a list of levels on a pin at the \<open>i\<close>-th rising edge.\<close>

definition present :: "u8 \<Rightarrow> bool list \<Rightarrow> nat \<Rightarrow> avr \<Rightarrow> avr" where
  "present pin bs i s = (let r = PIN (fst (wire pin))
     in set_reg r ((if bs ! i then sbi else cbi) (regs s r) (snd (wire pin))) s)"

lemma shiftIn_loop_value:
  assumes "unat d < 31" "unat c < 31" "set is \<subseteq> {0..<8}"
  shows "\<exists>t. shiftIn_loop M (present d bs) d c order is acc s =
    Some (fold (\<lambda>i v. v OR (if bs ! i then BV (bit_index order i) else 0)) is acc, t)"
  using assms(3)
proof (induction "is" arbitrary: acc s)
  case Nil
  then show ?case by simp
next
  case (Cons i "is")
  obtain t1 where t1: "digitalWrite M c HIGH s = Some t1" using digitalWrite_eq [OF assms(2)] by blast
  let ?t2 = "pwm_off M d (present d bs i t1)"
  have r: "digitalRead M d (present d bs i t1) = Some (of_bool (bs ! i), ?t2)"
    using pin_lookup(4) [OF assms(1)]
    by (simp add: digitalRead_eq [OF assms(1)] present_def Let_def avr_simps bit_sbi bit_cbi)
  obtain t3 where t3: "digitalWrite M c LOW ?t2 = Some t3" using digitalWrite_eq [OF assms(2)] by blast
  have "bit_index order i < 8" using Cons.prems by (auto simp: bit_index_def)
  then have u: "ucast (push_bit (bit_index order i) (of_bool (bs ! i) :: u16)) =
      (if bs ! i then BV (bit_index order i) else 0 :: u8)"
    by (auto intro!: bit_word_eqI simp: BV_def bit_simps)
  have "shiftIn_loop M (present d bs) d c order (i # is) acc s = shiftIn_loop M (present d bs) d c order is
      (acc OR ucast (push_bit (bit_index order i) (of_bool (bs ! i) :: u16))) t3"
    using t1 r t3 by (simp add: bit_index_def)
  then show ?case using Cons.IH [of "acc OR (if bs ! i then BV (bit_index order i) else 0)" t3] Cons.prems
    unfolding u by simp
qed

lemma bit_fold_or: "bit (fold (\<lambda>i v. v OR f i) is a) n \<longleftrightarrow> bit a n \<or> (\<exists>i \<in> set is. bit (f i) n)"
  for f :: "nat \<Rightarrow> u8"
  by (induction "is" arbitrary: a) (auto simp: bit_or_iff)

lemma collect_bits:
  "fold (\<lambda>i v. v OR (if map (\<lambda>i. bit val (bit_index order i)) [0..<8] ! i then BV (bit_index order i) else 0))
    [0..<8] 0 = (val :: u8)"
proof (rule bit_eqI)
  fix n
  assume "possible_bit TYPE(u8) n"
  then have n: "n < 8" by (simp add: possible_bit_def)
  have i: "bit_index order (bit_index order n) = n" "bit_index order n < 8"
    using n by (auto simp: bit_index_def)
  let ?f = "\<lambda>i. if map (\<lambda>i. bit val (bit_index order i)) [0..<8] ! i then BV (bit_index order i) else 0 :: u8"
  have "(\<exists>i \<in> set [0..<8]. bit (?f i) n) \<longleftrightarrow> bit val n"
    using n i by (auto simp: bit_BV split: if_splits intro!: bexI [of _ "bit_index order n"])
  then show "bit (fold (\<lambda>i v. v OR ?f i) [0..<8] 0) n = bit val n"
    using bit_fold_or [of ?f "[0..<8]" 0 n] by simp
qed

text \<open>
  \<^verbatim>\<open>shiftOut\<close> and \<^verbatim>\<open>shiftIn\<close> are inverse: with different data and clock pins and the clock low, a
  device that samples the data pin at the rising clock edges of \<^verbatim>\<open>shiftOut\<close> sees the eight bits of the
  value in the chosen order, and playing these eight levels back to \<^verbatim>\<open>shiftIn\<close> (on any pins, in the same
  order) returns the value.
\<close>

theorem shift_roundtrip:
  assumes "unat d < 31" and "unat c < 31" and "wire d \<noteq> wire c" and "\<not> level s (wire c)"
    and "unat d' < 31" and "unat c' < 31"
  shows "\<exists>t l u. shiftOut M d c order val s = Some t \<and> port_log t = port_log s @ l \<and>
    sampled (wire d) (wire c) (outputs s) l =
      map (\<lambda>i. bit val (if order = LSBFIRST then i else 7 - i)) [0..<8] \<and>
    shiftIn M (present d' (sampled (wire d) (wire c) (outputs s) l)) d' c' order s' = Some (val, u)"
proof -
  obtain t l where o: "shiftOut_loop M d c order val [0..<8] s = Some t" "port_log t = port_log s @ l"
    and l: "sampled (wire d) (wire c) (outputs s) l = map (\<lambda>i. bit val (bit_index order i)) [0..<8]"
    using shiftOut_loop_seen [OF assms(1-4)] by blast
  from shiftIn_loop_value [OF assms(5,6), of "[0..<8]" M "map (\<lambda>i. bit val (bit_index order i)) [0..<8]" order 0 s']
  obtain u where "shiftIn_loop M (present d' (sampled (wire d) (wire c) (outputs s) l)) d' c' order [0..<8] 0 s' =
      Some (val, u)"
    unfolding collect_bits l by auto
  then show ?thesis using o l by (auto simp: shiftOut_def shiftIn_def bit_index_def)
qed

theorem shift_roundtrip_witness:
  "\<exists>t l u. shiftOut atmega32u4 2 3 LSBFIRST 0xA5 avr_reset = Some t \<and>
    port_log t = port_log avr_reset @ l \<and>
    shiftIn atmega32u4 (present 7 (sampled (wire 2) (wire 3) (outputs avr_reset) l)) 7 8 LSBFIRST avr_reset =
      Some (0xA5, u)"
proof -
  have "wire 2 \<noteq> wire 3" "\<not> level avr_reset (wire 3)"
    by (simp_all add: wire_def pin_letters_def pin_bits_def level_def avr_reset_def)
  then show ?thesis
    using shift_roundtrip [of 2 3 avr_reset 7 8 atmega32u4 LSBFIRST "0xA5" avr_reset] by auto
qed

end
