(* ===== verification/Twi.thy ===== *)
theory Twi
  imports Wiring_Pins
begin

text \<open>
  \<^verbatim>\<open>libraries/Wire/src/utility/twi.c\<close>: the two-wire interface, whose interrupt handler \<^verbatim>\<open>TWI_vect\<close> is a
  state machine over the status codes of the hardware, and the blocking transfers \<^verbatim>\<open>twi_readFrom\<close> and
  \<^verbatim>\<open>twi_writeTo\<close> that start it and wait for it. A write outside a buffer is the fault \<open>Overrun\<close>, a stop
  condition that the hardware never completes \<open>StopStuck\<close>, a wait loop that is still waiting \<open>Waiting\<close>.
  The bus with one addressed device is \<open>bus_step\<close>, after the status tables of the part's data sheet;
  the blocking loops run it, one element of a list of bus events for each interrupt.
\<close>

section \<open>State\<close>

definition TWI_BUFFER_LENGTH :: nat where "TWI_BUFFER_LENGTH = 32"
definition TWI_FREQ :: nat where "TWI_FREQ = 100000"

definition TWI_READY :: u8 where [simp]: "TWI_READY = 0"
definition TWI_MRX :: u8 where [simp]: "TWI_MRX = 1"
definition TWI_MTX :: u8 where [simp]: "TWI_MTX = 2"
definition TWI_SRX :: u8 where [simp]: "TWI_SRX = 3"
definition TWI_STX :: u8 where [simp]: "TWI_STX = 4"

definition TWINT :: nat where [simp]: "TWINT = 7"
definition TWEA :: nat where [simp]: "TWEA = 6"
definition TWSTA :: nat where [simp]: "TWSTA = 5"
definition TWSTO :: nat where [simp]: "TWSTO = 4"
definition TWEN :: nat where [simp]: "TWEN = 2"
definition TWIE :: nat where [simp]: "TWIE = 0"

datatype fault = Waiting | Overrun | StopStuck

definition andThen :: "fault + 'a \<Rightarrow> ('a \<Rightarrow> fault + 'b) \<Rightarrow> fault + 'b" where
  "andThen m f = (case m of Inl e \<Rightarrow> Inl e | Inr x \<Rightarrow> f x)"

lemma andThen_simps [simp]: "andThen (Inl e) f = Inl e" "andThen (Inr x) f = f x"
  by (simp_all add: andThen_def)

text \<open>
  The variables of the file and the registers of the module. Below them the bus: whether a stop
  condition can complete, what the hardware does next, and the device on the bus with its address, the
  number of bytes it still acknowledges, the bytes it has accepted and the bytes it will send.
\<close>

datatype phase = Idle | Started | Sending | Receiving

record twi =
  twi_state :: u8
  twi_slarw :: u8
  twi_sendStop :: u8
  twi_inRepStart :: bool
  twi_masterBuffer :: "u8 list"
  twi_masterBufferIndex :: u8
  twi_masterBufferLength :: u8
  twi_txBuffer :: "u8 list"
  twi_txBufferIndex :: u8
  twi_txBufferLength :: u8
  twi_rxBuffer :: "u8 list"
  twi_rxBufferIndex :: u8
  twi_error :: u8
  TWCR :: u8
  TWDR :: u8
  TWSR :: u8
  TWBR :: u8
  TWAR :: u8
  core :: avr
  stop_stuck :: bool
  phase :: phase
  slave_addr :: u8
  slave_accepts :: nat
  slave_got :: "u8 list"
  slave_sends :: "u8 list"

text \<open>The user callbacks; they may call functions of this file.\<close>

record callbacks =
  twi_onSlaveTransmit :: "twi \<Rightarrow> twi"
  twi_onSlaveReceive :: "u8 list \<Rightarrow> u8 \<Rightarrow> twi \<Rightarrow> twi"

definition twcr :: "nat list \<Rightarrow> u8" where
  "twcr bits = fold (\<lambda>b r. r OR BV b) bits 0"

text \<open>
  Writing \<^verbatim>\<open>TWCR\<close>. When it requests a start condition without the interrupt, the condition is sent while no
  code of this file observes it.
\<close>

definition write_TWCR :: "u8 \<Rightarrow> twi \<Rightarrow> twi" where
  "write_TWCR v s = (if bit v TWSTA \<and> \<not> bit v TWIE then s\<lparr>TWCR := v, phase := Started\<rparr> else s\<lparr>TWCR := v\<rparr>)"

section \<open>Set-up\<close>

definition twi_init :: "mcu \<Rightarrow> twi \<Rightarrow> twi option" where
  "twi_init M s = do {
     let s = s\<lparr>twi_state := TWI_READY, twi_sendStop := 1, twi_inRepStart := False\<rparr>;
     c \<leftarrow> digitalWrite M 2 1 (core s);
     c \<leftarrow> digitalWrite M 3 1 c;
     let s = s\<lparr>core := c, TWSR := cbi (cbi (TWSR s) 0) 1\<rparr>;
     let s = s\<lparr>TWBR := of_int ((int (F_CPU M) div int TWI_FREQ - 16) div 2)\<rparr>;
     Some (write_TWCR (twcr [TWEN, TWIE, TWEA]) s)
   }"

definition twi_disable :: "mcu \<Rightarrow> twi \<Rightarrow> twi option" where
  "twi_disable M s = do {
     let s = write_TWCR (TWCR s AND NOT (twcr [TWEN, TWIE, TWEA])) s;
     c \<leftarrow> digitalWrite M 2 0 (core s);
     c \<leftarrow> digitalWrite M 3 0 c;
     Some (s\<lparr>core := c\<rparr>)
   }"

definition twi_setAddress :: "u8 \<Rightarrow> twi \<Rightarrow> twi" where
  "twi_setAddress address s = s\<lparr>TWAR := push_bit 1 address\<rparr>"

text \<open>The division is on unsigned 32-bit values: a quotient below 16 wraps around before it is halved.\<close>

definition twi_setFrequency :: "mcu \<Rightarrow> u32 \<Rightarrow> twi \<Rightarrow> twi" where
  "twi_setFrequency M frequency s = s\<lparr>TWBR := ucast (((of_nat (F_CPU M) div frequency) - 16) div 2)\<rparr>"

definition twi_attachSlaveRxEvent :: "(u8 list \<Rightarrow> u8 \<Rightarrow> twi \<Rightarrow> twi) \<Rightarrow> callbacks \<Rightarrow> callbacks" where
  "twi_attachSlaveRxEvent f cb = cb\<lparr>twi_onSlaveReceive := f\<rparr>"

definition twi_attachSlaveTxEvent :: "(twi \<Rightarrow> twi) \<Rightarrow> callbacks \<Rightarrow> callbacks" where
  "twi_attachSlaveTxEvent f cb = cb\<lparr>twi_onSlaveTransmit := f\<rparr>"

section \<open>The interrupt handler\<close>

definition twi_reply :: "bool \<Rightarrow> twi \<Rightarrow> twi" where
  "twi_reply ack s =
     (if ack then write_TWCR (twcr [TWEN, TWIE, TWINT, TWEA]) s
      else write_TWCR (twcr [TWEN, TWIE, TWINT]) s)"

text \<open>The hardware clears \<^verbatim>\<open>TWSTO\<close> when the stop condition is on the bus, and the bus is idle then.\<close>

definition twi_stop :: "twi \<Rightarrow> fault + twi" where
  "twi_stop s =
     (let s = write_TWCR (twcr [TWEN, TWIE, TWEA, TWINT, TWSTO]) s
      in if stop_stuck s then Inl StopStuck
         else Inr (s\<lparr>TWCR := cbi (TWCR s) TWSTO, phase := Idle, twi_state := TWI_READY\<rparr>))"

definition twi_releaseBus :: "twi \<Rightarrow> twi" where
  "twi_releaseBus s = (write_TWCR (twcr [TWEN, TWIE, TWEA, TWINT]) s)\<lparr>twi_state := TWI_READY\<rparr>"

definition TW_START :: u8 where [simp]: "TW_START = 0x08"
definition TW_REP_START :: u8 where [simp]: "TW_REP_START = 0x10"
definition TW_MT_SLA_ACK :: u8 where [simp]: "TW_MT_SLA_ACK = 0x18"
definition TW_MT_SLA_NACK :: u8 where [simp]: "TW_MT_SLA_NACK = 0x20"
definition TW_MT_DATA_ACK :: u8 where [simp]: "TW_MT_DATA_ACK = 0x28"
definition TW_MT_DATA_NACK :: u8 where [simp]: "TW_MT_DATA_NACK = 0x30"
definition TW_MT_ARB_LOST :: u8 where [simp]: "TW_MT_ARB_LOST = 0x38"
definition TW_MR_SLA_ACK :: u8 where [simp]: "TW_MR_SLA_ACK = 0x40"
definition TW_MR_SLA_NACK :: u8 where [simp]: "TW_MR_SLA_NACK = 0x48"
definition TW_MR_DATA_ACK :: u8 where [simp]: "TW_MR_DATA_ACK = 0x50"
definition TW_MR_DATA_NACK :: u8 where [simp]: "TW_MR_DATA_NACK = 0x58"
definition TW_SR_SLA_ACK :: u8 where [simp]: "TW_SR_SLA_ACK = 0x60"
definition TW_SR_ARB_LOST_SLA_ACK :: u8 where [simp]: "TW_SR_ARB_LOST_SLA_ACK = 0x68"
definition TW_SR_GCALL_ACK :: u8 where [simp]: "TW_SR_GCALL_ACK = 0x70"
definition TW_SR_ARB_LOST_GCALL_ACK :: u8 where [simp]: "TW_SR_ARB_LOST_GCALL_ACK = 0x78"
definition TW_SR_DATA_ACK :: u8 where [simp]: "TW_SR_DATA_ACK = 0x80"
definition TW_SR_DATA_NACK :: u8 where [simp]: "TW_SR_DATA_NACK = 0x88"
definition TW_SR_GCALL_DATA_ACK :: u8 where [simp]: "TW_SR_GCALL_DATA_ACK = 0x90"
definition TW_SR_GCALL_DATA_NACK :: u8 where [simp]: "TW_SR_GCALL_DATA_NACK = 0x98"
definition TW_SR_STOP :: u8 where [simp]: "TW_SR_STOP = 0xA0"
definition TW_ST_SLA_ACK :: u8 where [simp]: "TW_ST_SLA_ACK = 0xA8"
definition TW_ST_ARB_LOST_SLA_ACK :: u8 where [simp]: "TW_ST_ARB_LOST_SLA_ACK = 0xB0"
definition TW_ST_DATA_ACK :: u8 where [simp]: "TW_ST_DATA_ACK = 0xB8"
definition TW_ST_DATA_NACK :: u8 where [simp]: "TW_ST_DATA_NACK = 0xC0"
definition TW_ST_LAST_DATA :: u8 where [simp]: "TW_ST_LAST_DATA = 0xC8"
definition TW_NO_INFO :: u8 where [simp]: "TW_NO_INFO = 0xF8"
definition TW_BUS_ERROR :: u8 where [simp]: "TW_BUS_ERROR = 0x00"

text \<open>The end of a master transfer: stop, or keep the bus with a start condition of the next transfer.\<close>

definition finish_transfer :: "twi \<Rightarrow> fault + twi" where
  "finish_transfer s =
     (if twi_sendStop s \<noteq> 0 then twi_stop s
      else Inr ((write_TWCR (twcr [TWINT, TWSTA, TWEN]) (s\<lparr>twi_inRepStart := True\<rparr>))\<lparr>twi_state := TWI_READY\<rparr>))"

text \<open>\<^verbatim>\<open>twi_masterBuffer[twi_masterBufferIndex++] = TWDR\<close>\<close>

definition master_store :: "twi \<Rightarrow> fault + twi" where
  "master_store s =
     (if unat (twi_masterBufferIndex s) < TWI_BUFFER_LENGTH
      then Inr (s\<lparr>twi_masterBuffer := (twi_masterBuffer s)[unat (twi_masterBufferIndex s) := TWDR s],
                 twi_masterBufferIndex := twi_masterBufferIndex s + 1\<rparr>)
      else Inl Overrun)"

text \<open>\<^verbatim>\<open>TWDR = twi_txBuffer[twi_txBufferIndex++]\<close> and the reply, the common end of the slave transmitter.\<close>

definition slave_send_next :: "twi \<Rightarrow> fault + twi" where
  "slave_send_next s =
     (if unat (twi_txBufferIndex s) < TWI_BUFFER_LENGTH
      then (let s = s\<lparr>TWDR := twi_txBuffer s ! unat (twi_txBufferIndex s),
                      twi_txBufferIndex := twi_txBufferIndex s + 1\<rparr>
            in Inr (twi_reply (twi_txBufferIndex s < twi_txBufferLength s) s))
      else Inl Overrun)"

definition TWI_vect :: "callbacks \<Rightarrow> twi \<Rightarrow> fault + twi" where
  "TWI_vect cb s =
     (let st = TWSR s AND 0xF8
      in if st = TW_START \<or> st = TW_REP_START then
           Inr (twi_reply True (s\<lparr>TWDR := twi_slarw s\<rparr>))
         else if st = TW_MT_SLA_ACK \<or> st = TW_MT_DATA_ACK then
           (if twi_masterBufferIndex s < twi_masterBufferLength s then
              (if unat (twi_masterBufferIndex s) < TWI_BUFFER_LENGTH
               then Inr (twi_reply True (s\<lparr>TWDR := twi_masterBuffer s ! unat (twi_masterBufferIndex s),
                      twi_masterBufferIndex := twi_masterBufferIndex s + 1\<rparr>))
               else Inl Overrun)
            else finish_transfer s)
         else if st = TW_MT_SLA_NACK then twi_stop (s\<lparr>twi_error := TW_MT_SLA_NACK\<rparr>)
         else if st = TW_MT_DATA_NACK then twi_stop (s\<lparr>twi_error := TW_MT_DATA_NACK\<rparr>)
         else if st = TW_MT_ARB_LOST then Inr (twi_releaseBus (s\<lparr>twi_error := TW_MT_ARB_LOST\<rparr>))
         else if st = TW_MR_DATA_ACK \<or> st = TW_MR_SLA_ACK then
           andThen (if st = TW_MR_DATA_ACK then master_store s else Inr s)
             (\<lambda>s. Inr (twi_reply (twi_masterBufferIndex s < twi_masterBufferLength s) s))
         else if st = TW_MR_DATA_NACK then andThen (master_store s) finish_transfer
         else if st = TW_MR_SLA_NACK then twi_stop s
         else if st = TW_SR_SLA_ACK \<or> st = TW_SR_GCALL_ACK \<or> st = TW_SR_ARB_LOST_SLA_ACK \<or>
             st = TW_SR_ARB_LOST_GCALL_ACK then
           Inr (twi_reply True (s\<lparr>twi_state := TWI_SRX, twi_rxBufferIndex := 0\<rparr>))
         else if st = TW_SR_DATA_ACK \<or> st = TW_SR_GCALL_DATA_ACK then
           (if unat (twi_rxBufferIndex s) < TWI_BUFFER_LENGTH
            then Inr (twi_reply True (s\<lparr>twi_rxBuffer := (twi_rxBuffer s)[unat (twi_rxBufferIndex s) := TWDR s],
                   twi_rxBufferIndex := twi_rxBufferIndex s + 1\<rparr>))
            else Inr (twi_reply False s))
         else if st = TW_SR_STOP then
           (let s = twi_releaseBus s;
                s = (if unat (twi_rxBufferIndex s) < TWI_BUFFER_LENGTH
                     then s\<lparr>twi_rxBuffer := (twi_rxBuffer s)[unat (twi_rxBufferIndex s) := 0]\<rparr> else s);
                s = twi_onSlaveReceive cb (twi_rxBuffer s) (twi_rxBufferIndex s) s
            in Inr (s\<lparr>twi_rxBufferIndex := 0\<rparr>))
         else if st = TW_SR_DATA_NACK \<or> st = TW_SR_GCALL_DATA_NACK then Inr (twi_reply False s)
         else if st = TW_ST_SLA_ACK \<or> st = TW_ST_ARB_LOST_SLA_ACK then
           (let s = twi_onSlaveTransmit cb (s\<lparr>twi_state := TWI_STX, twi_txBufferIndex := 0, twi_txBufferLength := 0\<rparr>);
                s = (if twi_txBufferLength s = 0
                     then s\<lparr>twi_txBufferLength := 1, twi_txBuffer := (twi_txBuffer s)[0 := 0]\<rparr> else s)
            in slave_send_next s)
         else if st = TW_ST_DATA_ACK then slave_send_next s
         else if st = TW_ST_DATA_NACK \<or> st = TW_ST_LAST_DATA then
           Inr ((twi_reply True s)\<lparr>twi_state := TWI_READY\<rparr>)
         else if st = TW_NO_INFO then Inr s
         else if st = TW_BUS_ERROR then twi_stop (s\<lparr>twi_error := TW_BUS_ERROR\<rparr>)
         else Inr s)"


section \<open>The bus\<close>

text \<open>
  What happens at one interrupt: the transfer goes on as the addressed device lets it, or another master
  wins the bus, or the bus shows an illegal condition. The hardware acknowledges a received byte when
  \<^verbatim>\<open>TWEA\<close> is set. A device with nothing left to send leaves the line high.
\<close>

datatype bus_event = Proceed | ArbLost | BusError

definition bus_step :: "bus_event \<Rightarrow> twi \<Rightarrow> twi" where
  "bus_step ev s = (case ev of
     ArbLost \<Rightarrow> s\<lparr>TWSR := TW_MT_ARB_LOST, phase := Idle\<rparr>
   | BusError \<Rightarrow> s\<lparr>TWSR := TW_BUS_ERROR, phase := Idle\<rparr>
   | Proceed \<Rightarrow>
      (if bit (TWCR s) TWSTA then
         s\<lparr>TWSR := (if phase s = Idle then TW_START else TW_REP_START), phase := Started\<rparr>
       else (case phase s of
         Idle \<Rightarrow> s\<lparr>TWSR := TW_NO_INFO\<rparr>
       | Started \<Rightarrow>
          (let here = drop_bit 1 (TWDR s) = slave_addr s
           in if bit (TWDR s) 0
              then s\<lparr>TWSR := (if here then TW_MR_SLA_ACK else TW_MR_SLA_NACK),
                     phase := (if here then Receiving else Idle)\<rparr>
              else s\<lparr>TWSR := (if here then TW_MT_SLA_ACK else TW_MT_SLA_NACK),
                     phase := (if here then Sending else Idle)\<rparr>)
       | Sending \<Rightarrow>
          (if 0 < slave_accepts s
           then s\<lparr>TWSR := TW_MT_DATA_ACK, slave_accepts := slave_accepts s - 1,
                  slave_got := slave_got s @ [TWDR s]\<rparr>
           else s\<lparr>TWSR := TW_MT_DATA_NACK\<rparr>)
       | Receiving \<Rightarrow>
          s\<lparr>TWSR := (if bit (TWCR s) TWEA then TW_MR_DATA_ACK else TW_MR_DATA_NACK),
            TWDR := (case slave_sends s of [] \<Rightarrow> 0xFF | d # _ \<Rightarrow> d),
            slave_sends := tl (slave_sends s)\<rparr>)))"

definition interrupt :: "callbacks \<Rightarrow> bus_event \<Rightarrow> twi \<Rightarrow> fault + twi" where
  "interrupt cb ev s = TWI_vect cb (bus_step ev s)"

text \<open>The loops \<^verbatim>\<open>while(st == twi_state)\<close> and \<^verbatim>\<open>while(TWI_READY != twi_state)\<close> with the interrupts that end them.\<close>

fun wait_while :: "callbacks \<Rightarrow> (u8 \<Rightarrow> bool) \<Rightarrow> bus_event list \<Rightarrow> twi \<Rightarrow> fault + (twi \<times> bus_event list)" where
  "wait_while cb P [] s = (if P (twi_state s) then Inl Waiting else Inr (s, []))"
| "wait_while cb P (e # es) s =
     (if P (twi_state s) then andThen (interrupt cb e s) (wait_while cb P es) else Inr (s, e # es))"

section \<open>Transfers\<close>

text \<open>
  The two ways to begin a transfer. After a repeated start the module already holds the bus, so the
  address byte is written at once (no write collision is possible then).
\<close>

definition begin_transfer :: "twi \<Rightarrow> twi" where
  "begin_transfer s =
     (if twi_inRepStart s
      then write_TWCR (twcr [TWINT, TWEA, TWEN, TWIE]) (s\<lparr>twi_inRepStart := False, TWDR := twi_slarw s\<rparr>)
      else write_TWCR (twcr [TWEN, TWIE, TWEA, TWINT, TWSTA]) s)"

text \<open>The result is the number of bytes read, the bytes copied to \<^verbatim>\<open>data\<close>, the state and the events left.\<close>

definition twi_readFrom ::
  "callbacks \<Rightarrow> u8 \<Rightarrow> u8 \<Rightarrow> u8 \<Rightarrow> bus_event list \<Rightarrow> twi \<Rightarrow> fault + (u8 \<times> u8 list \<times> twi \<times> bus_event list)" where
  "twi_readFrom cb address len sendStop evs s =
     (if TWI_BUFFER_LENGTH < unat len then Inr (0, [], s, evs)
      else andThen (wait_while cb (\<lambda>st. st \<noteq> TWI_READY) evs s) (\<lambda>(s, evs).
        (let s = s\<lparr>twi_state := TWI_MRX, twi_sendStop := sendStop, twi_error := 0xFF,
                   twi_masterBufferIndex := 0, twi_masterBufferLength := len - 1,
                   twi_slarw := 1 OR push_bit 1 address\<rparr>
         in andThen (wait_while cb (\<lambda>st. st = TWI_MRX) evs (begin_transfer s)) (\<lambda>(s, evs).
           (let len = (if twi_masterBufferIndex s < len then twi_masterBufferIndex s else len)
            in Inr (len, take (unat len) (twi_masterBuffer s), s, evs))))))"

text \<open>\<open>data\<close> is the array of the caller with the given length.\<close>

definition twi_writeTo ::
  "callbacks \<Rightarrow> u8 \<Rightarrow> u8 list \<Rightarrow> bool \<Rightarrow> u8 \<Rightarrow> bus_event list \<Rightarrow> twi \<Rightarrow> fault + (u8 \<times> twi \<times> bus_event list)" where
  "twi_writeTo cb address data wait sendStop evs s =
     (if TWI_BUFFER_LENGTH < length data then Inr (1, s, evs)
      else andThen (wait_while cb (\<lambda>st. st \<noteq> TWI_READY) evs s) (\<lambda>(s, evs).
        (let s = s\<lparr>twi_state := TWI_MTX, twi_sendStop := sendStop, twi_error := 0xFF,
                   twi_masterBufferIndex := 0, twi_masterBufferLength := of_nat (length data),
                   twi_masterBuffer := data @ drop (length data) (twi_masterBuffer s),
                   twi_slarw := 0 OR push_bit 1 address\<rparr>
         in andThen (wait_while cb (\<lambda>st. wait \<and> st = TWI_MTX) evs (begin_transfer s)) (\<lambda>(s, evs).
           Inr (if twi_error s = 0xFF then 0
                else if twi_error s = TW_MT_SLA_NACK then 2
                else if twi_error s = TW_MT_DATA_NACK then 3 else 4, s, evs)))))"

definition twi_transmit :: "u8 list \<Rightarrow> twi \<Rightarrow> u8 \<times> twi" where
  "twi_transmit data s =
     (if TWI_BUFFER_LENGTH < unat (twi_txBufferLength s) + length data then (1, s)
      else if twi_state s \<noteq> TWI_STX then (2, s)
      else (0, s\<lparr>twi_txBuffer := take (unat (twi_txBufferLength s)) (twi_txBuffer s) @ data @
                   drop (unat (twi_txBufferLength s) + length data) (twi_txBuffer s),
                 twi_txBufferLength := twi_txBufferLength s + of_nat (length data)\<rparr>))"


section \<open>Master transmitter\<close>

lemma twcr_bits:
  "bit (twcr [2, 0, 7, 6]) n \<longleftrightarrow> n \<in> {2, 0, 7, 6}"
  "bit (twcr [2, 0, 7]) n \<longleftrightarrow> n \<in> {2, 0, 7}"
  "bit (twcr [2, 0, 6, 7]) n \<longleftrightarrow> n \<in> {2, 0, 6, 7}"
  "bit (twcr [7, 5, 2]) n \<longleftrightarrow> n \<in> {7, 5, 2}"
  "bit (twcr [7, 6, 2, 0]) n \<longleftrightarrow> n \<in> {7, 6, 2, 0}"
  "bit (twcr [2, 0, 6, 7, 5]) n \<longleftrightarrow> n \<in> {2, 0, 6, 7, 5}"
  "bit (twcr [2, 0, 6, 7, 4]) n \<longleftrightarrow> n \<in> {2, 0, 6, 7, 4}"
  by (auto simp: twcr_def bit_or_iff bit_BV)

lemma write_TWCR_plain:
  "bit v TWIE \<or> \<not> bit v TWSTA \<Longrightarrow> write_TWCR v s = s\<lparr>TWCR := v\<rparr>"
  by (auto simp: write_TWCR_def)

lemma twi_reply_eq: "twi_reply ack s = s\<lparr>TWCR := twcr (if ack then [2, 0, 7, 6] else [2, 0, 7])\<rparr>"
  unfolding twi_reply_def by (simp add: write_TWCR_plain twcr_bits)

text \<open>
  Between two transfers: the module is ready, and either the bus is idle or it is kept by a repeated
  start.
\<close>

definition master_ready :: "twi \<Rightarrow> bool" where
  "master_ready s \<longleftrightarrow> twi_state s = TWI_READY \<and> \<not> stop_stuck s \<and> length (twi_masterBuffer s) = 32 \<and>
     phase s = (if twi_inRepStart s then Started else Idle)"

text \<open>In a write, with the byte \<open>d\<close> on its way and \<open>ds\<close> still in the buffer.\<close>

definition sending :: "twi \<Rightarrow> u8 \<Rightarrow> u8 list \<Rightarrow> bool" where
  "sending s d ds \<longleftrightarrow> twi_state s = TWI_MTX \<and> phase s = Sending \<and> \<not> bit (TWCR s) TWSTA \<and> TWDR s = d \<and>
     twi_masterBufferIndex s \<le> twi_masterBufferLength s \<and> twi_masterBufferLength s \<le> 32 \<and>
     drop (unat (twi_masterBufferIndex s)) (take (unat (twi_masterBufferLength s)) (twi_masterBuffer s)) = ds \<and>
     length (twi_masterBuffer s) = 32 \<and> \<not> stop_stuck s \<and> \<not> twi_inRepStart s"

definition write_done :: "twi \<Rightarrow> u8 \<Rightarrow> u8 list \<Rightarrow> twi \<Rightarrow> bool" where
  "write_done s e got t \<longleftrightarrow> master_ready t \<and> twi_error t = e \<and> slave_got t = got \<and>
     twi_inRepStart t = (twi_sendStop s = 0 \<and> e = twi_error s)"

lemma u8_inc_le: "x < y \<Longrightarrow> x + 1 \<le> y" for x y :: u8
  by (rule inc_le)

lemma u8_inc_unat: "x < y \<Longrightarrow> unat (x + 1) = Suc (unat x)" for x y :: u8
  using unat_less_256 [of y] by (simp add: word_less_nat_alt unat_word_ariths)

lemma drop_take_Cons:
  "drop i (take n xs) = y # ys \<Longrightarrow> i < n \<and> i < length xs \<and> xs ! i = y \<and> drop (Suc i) (take n xs) = ys"
  by (metis Cons_nth_drop_Suc drop_eq_Nil length_take linorder_not_less list.inject list.simps(3)
      min_less_iff_conj nth_take)

text \<open>The handler by status code.\<close>

lemma vect_START:
  "TWSR s = 0x08 \<Longrightarrow> TWI_vect cb s = Inr (twi_reply True (s\<lparr>TWDR := twi_slarw s\<rparr>))"
  "TWSR s = 0x10 \<Longrightarrow> TWI_vect cb s = Inr (twi_reply True (s\<lparr>TWDR := twi_slarw s\<rparr>))"
  by (simp_all add: TWI_vect_def)

definition mt_next :: "twi \<Rightarrow> fault + twi" where
  "mt_next s =
    (if twi_masterBufferIndex s < twi_masterBufferLength s then
       (if unat (twi_masterBufferIndex s) < TWI_BUFFER_LENGTH
        then Inr (twi_reply True (s\<lparr>TWDR := twi_masterBuffer s ! unat (twi_masterBufferIndex s),
               twi_masterBufferIndex := twi_masterBufferIndex s + 1\<rparr>))
        else Inl Overrun)
     else finish_transfer s)"

lemma vect_MT_ACK:
  "TWSR s = 0x18 \<Longrightarrow> TWI_vect cb s = mt_next s"
  "TWSR s = 0x28 \<Longrightarrow> TWI_vect cb s = mt_next s"
  by (simp_all add: TWI_vect_def mt_next_def)

lemma vect_NACK:
  "TWSR s = 0x20 \<Longrightarrow> TWI_vect cb s = twi_stop (s\<lparr>twi_error := 0x20\<rparr>)"
  "TWSR s = 0x30 \<Longrightarrow> TWI_vect cb s = twi_stop (s\<lparr>twi_error := 0x30\<rparr>)"
  "TWSR s = 0x48 \<Longrightarrow> TWI_vect cb s = twi_stop s"
  "TWSR s = 0x38 \<Longrightarrow> TWI_vect cb s = Inr (twi_releaseBus (s\<lparr>twi_error := 0x38\<rparr>))"
  "TWSR s = 0 \<Longrightarrow> TWI_vect cb s = twi_stop (s\<lparr>twi_error := 0\<rparr>)"
  "TWSR s = 0xF8 \<Longrightarrow> TWI_vect cb s = Inr s"
  by (simp_all add: TWI_vect_def)

lemma vect_MR:
  "TWSR s = 0x40 \<Longrightarrow> TWI_vect cb s = Inr (twi_reply (twi_masterBufferIndex s < twi_masterBufferLength s) s)"
  "TWSR s = 0x50 \<Longrightarrow> TWI_vect cb s = andThen (master_store s)
     (\<lambda>s. Inr (twi_reply (twi_masterBufferIndex s < twi_masterBufferLength s) s))"
  "TWSR s = 0x58 \<Longrightarrow> TWI_vect cb s = andThen (master_store s) finish_transfer"
  by (simp_all add: TWI_vect_def)

lemma twi_stop_ok:
  "\<not> stop_stuck s \<Longrightarrow> twi_stop s = Inr (s\<lparr>TWCR := cbi (twcr [2, 0, 6, 7, 4]) 4, phase := Idle, twi_state := 0\<rparr>)"
  "stop_stuck s \<Longrightarrow> twi_stop s = Inl StopStuck"
  by (simp_all add: twi_stop_def write_TWCR_def twcr_bits Let_def)

lemma interrupt_sending:
  assumes "phase s = Sending" "\<not> bit (TWCR s) TWSTA" "0 < slave_accepts s"
  shows "interrupt cb Proceed s = mt_next (s\<lparr>TWSR := 0x28, slave_accepts := slave_accepts s - 1,
    slave_got := slave_got s @ [TWDR s]\<rparr>)"
  using assms by (simp add: interrupt_def vect_MT_ACK bus_step_def)

lemma mt_next_byte:
  assumes "drop (unat (twi_masterBufferIndex s)) (take (unat (twi_masterBufferLength s)) (twi_masterBuffer s)) = e # ds"
    "twi_masterBufferLength s \<le> 32" "length (twi_masterBuffer s) = 32"
  shows "mt_next s = Inr (s\<lparr>TWDR := e, twi_masterBufferIndex := twi_masterBufferIndex s + 1,
      TWCR := twcr [2, 0, 7, 6]\<rparr>)"
    "twi_masterBufferIndex s + 1 \<le> twi_masterBufferLength s"
    "drop (unat (twi_masterBufferIndex s + 1)) (take (unat (twi_masterBufferLength s)) (twi_masterBuffer s)) = ds"
proof -
  let ?i = "twi_masterBufferIndex s" and ?n = "twi_masterBufferLength s"
  have d: "unat ?i < unat ?n" "unat ?i < 32" "twi_masterBuffer s ! unat ?i = e"
    "drop (Suc (unat ?i)) (take (unat ?n) (twi_masterBuffer s)) = ds"
    using drop_take_Cons [OF assms(1)] assms(3) by auto
  then have lt: "?i < ?n" by (simp add: word_less_nat_alt)
  then show "mt_next s = Inr (s\<lparr>TWDR := e, twi_masterBufferIndex := ?i + 1, TWCR := twcr [2, 0, 7, 6]\<rparr>)"
    using d by (simp add: mt_next_def TWI_BUFFER_LENGTH_def twi_reply_eq)
  show "?i + 1 \<le> ?n" by (rule u8_inc_le [OF lt])
  show "drop (unat (?i + 1)) (take (unat ?n) (twi_masterBuffer s)) = ds"
    unfolding u8_inc_unat [OF lt] by (rule d(4))
qed

lemma send_step:
  assumes "sending s d (e # ds)" "0 < slave_accepts s"
  shows "\<exists>t. interrupt cb Proceed s = Inr t \<and> sending t e ds \<and> slave_accepts t = slave_accepts s - 1 \<and>
    slave_got t = slave_got s @ [d] \<and> twi_sendStop t = twi_sendStop s \<and> twi_error t = twi_error s"
proof -
  let ?s = "s\<lparr>TWSR := 0x28, slave_accepts := slave_accepts s - 1, slave_got := slave_got s @ [d]\<rparr>"
  have i: "interrupt cb Proceed s = mt_next ?s"
    using interrupt_sending [of s cb] assms by (simp add: sending_def)
  have "drop (unat (twi_masterBufferIndex ?s)) (take (unat (twi_masterBufferLength ?s)) (twi_masterBuffer ?s)) = e # ds"
    "twi_masterBufferLength ?s \<le> 32" "length (twi_masterBuffer ?s) = 32"
    using assms(1) by (simp_all add: sending_def)
  note n = mt_next_byte [OF this]
  show ?thesis unfolding i n(1) using n(2,3) assms(1)
    by (simp add: sending_def twcr_bits)
qed

lemma finish_transfer_done:
  assumes "twi_inRepStart s = False" "\<not> stop_stuck s" "length (twi_masterBuffer s) = 32" "phase s \<noteq> Idle"
  shows "\<exists>t. finish_transfer s = Inr t \<and> master_ready t \<and> twi_inRepStart t = (twi_sendStop s = 0) \<and>
    twi_error t = twi_error s \<and> slave_got t = slave_got s \<and> twi_masterBuffer t = twi_masterBuffer s \<and>
    twi_masterBufferIndex t = twi_masterBufferIndex s \<and> slave_sends t = slave_sends s"
  using assms
  by (auto simp: finish_transfer_def twi_stop_ok master_ready_def write_TWCR_def twcr_bits)

lemma send_last:
  assumes "sending s d []" "0 < slave_accepts s"
  shows "\<exists>t. interrupt cb Proceed s = Inr t \<and> write_done s (twi_error s) (slave_got s @ [d]) t"
proof -
  let ?s = "bus_step Proceed s"
  have "\<not> twi_masterBufferIndex s < twi_masterBufferLength s"
    using assms(1) by (auto simp: sending_def word_less_nat_alt word_le_nat_alt)
  then have e: "interrupt cb Proceed s = finish_transfer ?s"
    using assms interrupt_sending [of s cb] by (simp add: bus_step_def sending_def mt_next_def)
  show ?thesis unfolding e write_done_def
    using finish_transfer_done [of ?s] assms by (auto simp: bus_step_def sending_def)
qed

lemma send_refused:
  assumes "sending s d ds" "slave_accepts s = 0"
  shows "\<exists>t. interrupt cb Proceed s = Inr t \<and> master_ready t \<and> twi_error t = TW_MT_DATA_NACK \<and>
    slave_got t = slave_got s \<and> \<not> twi_inRepStart t"
  using assms by (simp add: interrupt_def vect_NACK twi_stop_ok bus_step_def sending_def master_ready_def)


lemma wait_step: "interrupt cb e s = Inr t \<Longrightarrow> P (twi_state s) \<Longrightarrow> wait_while cb P (e # es) s = wait_while cb P es t"
  by simp

lemma wait_over: "\<not> P (twi_state s) \<Longrightarrow> wait_while cb P evs s = Inr (s, evs)"
  by (cases evs) simp_all

declare wait_while.simps [simp del]

lemma send_loop:
  assumes "sending s d ds" "length ds < slave_accepts s" "P TWI_MTX" "\<not> P TWI_READY"
  shows "\<exists>t. wait_while cb P (replicate (length ds + 1) Proceed @ evs) s = Inr (t, evs) \<and>
    write_done s (twi_error s) (slave_got s @ d # ds) t"
  using assms(1,2)
proof (induction ds arbitrary: s d)
  case Nil
  have st: "P (twi_state s)" using Nil.prems(1) assms(3) by (simp add: sending_def)
  obtain t where t: "interrupt cb Proceed s = Inr t" "write_done s (twi_error s) (slave_got s @ [d]) t"
    using send_last [OF Nil.prems(1)] Nil.prems(2) by auto
  then have "\<not> P (twi_state t)" using assms(4) by (simp add: write_done_def master_ready_def)
  then show ?case using t wait_step [OF t(1), of P] st wait_over by simp
next
  case (Cons e ds)
  have st: "P (twi_state s)" using Cons.prems(1) assms(3) by (simp add: sending_def)
  obtain u where u: "interrupt cb Proceed s = Inr u" "sending u e ds" "slave_accepts u = slave_accepts s - 1"
      "slave_got u = slave_got s @ [d]" "twi_sendStop u = twi_sendStop s" "twi_error u = twi_error s"
    using send_step [OF Cons.prems(1)] Cons.prems(2) by auto
  have "length ds < slave_accepts u" using u(3) Cons.prems(2) by simp
  from Cons.IH [OF u(2) this] obtain t where
    "wait_while cb P (replicate (length ds + 1) Proceed @ evs) u = Inr (t, evs)"
    "write_done u (twi_error u) (slave_got u @ e # ds) t" by blast
  then show ?case using wait_step [OF u(1), of P] st u by (simp add: write_done_def)
qed

lemma send_loop_refused:
  assumes "sending s d ds" "slave_accepts s \<le> length ds" "P TWI_MTX" "\<not> P TWI_READY"
  shows "\<exists>t. wait_while cb P (replicate (slave_accepts s + 1) Proceed @ evs) s = Inr (t, evs) \<and>
    master_ready t \<and> twi_error t = TW_MT_DATA_NACK \<and> slave_got t = slave_got s @ take (slave_accepts s) (d # ds)"
  using assms(1,2)
proof (induction "slave_accepts s" arbitrary: s d ds)
  case 0
  have st: "P (twi_state s)" using 0(2) assms(3) by (simp add: sending_def)
  obtain t where t: "interrupt cb Proceed s = Inr t" "master_ready t" "twi_error t = TW_MT_DATA_NACK"
      "slave_got t = slave_got s"
    using send_refused [OF 0(2)] 0(1) by auto
  then have "\<not> P (twi_state t)" using assms(4) by (simp add: master_ready_def)
  then show ?case using t wait_step [OF t(1), of P] st wait_over 0(1) by simp
next
  case (Suc n)
  then obtain e es where ds: "ds = e # es" by (cases ds) auto
  have st: "P (twi_state s)" using Suc.prems(1) assms(3) by (simp add: sending_def)
  obtain u where u: "interrupt cb Proceed s = Inr u" "sending u e es" "slave_accepts u = slave_accepts s - 1"
      "slave_got u = slave_got s @ [d]"
    using send_step [of s d e es cb] Suc.prems(1) Suc.hyps(2) ds by auto
  have n: "n = slave_accepts u" using u(3) Suc.hyps(2) by simp
  have "slave_accepts u \<le> length es" using Suc.prems(2) Suc.hyps(2) ds n by simp
  from Suc.hyps(1) [OF n u(2) this] obtain t where
    "wait_while cb P (replicate (slave_accepts u + 1) Proceed @ evs) u = Inr (t, evs)"
    "master_ready t" "twi_error t = TW_MT_DATA_NACK" "slave_got t = slave_got u @ take (slave_accepts u) (e # es)"
    by blast
  moreover have "replicate (slave_accepts s + 1) Proceed @ evs = Proceed # replicate (slave_accepts u + 1) Proceed @ evs"
    "take (slave_accepts s) (d # ds) = d # take (slave_accepts u) (e # es)"
    using u(3) Suc.hyps(2) ds by (metis Suc_eq_plus1 append_Cons diff_Suc_1 replicate_Suc, metis diff_Suc_1 take_Suc_Cons)
  ultimately show ?case using wait_step [OF u(1), of P] st u(4) by simp
qed

text \<open>Both ways to begin lead to the address byte in \<^verbatim>\<open>TWDR\<close> after at most one interrupt.\<close>

lemma begin_addressed:
  assumes "phase s = (if twi_inRepStart s then Started else Idle)" "P (twi_state s)"
  shows "\<exists>c r. wait_while cb P (replicate (if twi_inRepStart s then 0 else 1) Proceed @ evs) (begin_transfer s) =
      wait_while cb P evs (s\<lparr>twi_inRepStart := False, TWDR := twi_slarw s, TWCR := c, TWSR := r, phase := Started\<rparr>) \<and>
    \<not> bit c TWSTA"
proof (cases "twi_inRepStart s")
  case True
  let ?t = "s\<lparr>twi_inRepStart := False, TWDR := twi_slarw s, TWCR := twcr [7, 6, 2, 0], TWSR := TWSR s, phase := Started\<rparr>"
  have "begin_transfer s = ?t"
    using True assms(1) by (simp add: begin_transfer_def write_TWCR_plain twcr_bits)
  then have "wait_while cb P (replicate (if twi_inRepStart s then 0 else 1) Proceed @ evs) (begin_transfer s) =
      wait_while cb P evs ?t" using True by simp
  moreover have "\<not> bit (twcr [7, 6, 2, 0]) TWSTA" by (simp add: twcr_bits)
  ultimately show ?thesis by blast
next
  case False
  let ?b = "begin_transfer s"
  let ?t = "s\<lparr>twi_inRepStart := False, TWDR := twi_slarw s, TWCR := twcr [2, 0, 7, 6], TWSR := 8, phase := Started\<rparr>"
  have b: "?b = s\<lparr>TWCR := twcr [2, 0, 6, 7, 5]\<rparr>"
    using False by (simp add: begin_transfer_def write_TWCR_plain twcr_bits)
  have i: "interrupt cb Proceed ?b = Inr ?t"
    unfolding b using False assms(1)
    by (cases s) (simp add: interrupt_def bus_step_def vect_START twi_reply_eq twcr_bits)
  have "P (twi_state ?b)" using assms(2) by (simp add: b)
  from wait_step [OF i, of P, OF this, of evs]
  have "wait_while cb P (replicate (if twi_inRepStart s then 0 else 1) Proceed @ evs) ?b = wait_while cb P evs ?t"
    using False by simp
  moreover have "\<not> bit (twcr [2, 0, 7, 6]) TWSTA" by (simp add: twcr_bits)
  ultimately show ?thesis by blast
qed


lemma slarw_bits:
  fixes r address :: u8
  assumes "address < 128" and that: "r = 0 \<or> r = 1"
  shows "drop_bit 1 (r OR push_bit 1 address) = address" "bit (r OR push_bit 1 address) 0 = (r = 1)"
proof -
  have "address AND mask 7 = address" using assms(1) by (intro less_mask_eq) simp
  then have a: "bit address n \<Longrightarrow> n < 7" for n by (metis bit_and_iff bit_mask_iff)
  show "drop_bit 1 (r OR push_bit 1 address) = address"
    using that by (intro bit_word_eqI) (auto simp: bit_simps mult.commute [of address 2] bit_double_iff dest: a)
  show "bit (r OR push_bit 1 address) 0 = (r = 1)"
    using that by (auto simp: bit_simps mult.commute [of address 2] bit_double_iff)
qed

text \<open>The address byte of a write, sent to a device that is there or not.\<close>

lemma write_addressed:
  assumes "phase s = Started" "\<not> bit (TWCR s) TWSTA" "TWDR s = 0 OR push_bit 1 address" "address < 128"
    "twi_state s = TWI_MTX" "twi_masterBufferIndex s = 0" "twi_masterBufferLength s = of_nat (length data)"
    "take (length data) (twi_masterBuffer s) = data" "length data \<le> 32" "length (twi_masterBuffer s) = 32"
    "\<not> stop_stuck s" "\<not> twi_inRepStart s" "twi_error s = 0xFF"
  shows "slave_addr s \<noteq> address \<Longrightarrow> \<exists>t. interrupt cb Proceed s = Inr t \<and> master_ready t \<and>
      twi_error t = TW_MT_SLA_NACK \<and> slave_got t = slave_got s"
    and "slave_addr s = address \<Longrightarrow> data = [] \<Longrightarrow> \<exists>t. interrupt cb Proceed s = Inr t \<and>
      write_done s 0xFF (slave_got s) t"
    and "slave_addr s = address \<Longrightarrow> data = d # ds \<Longrightarrow> \<exists>t. interrupt cb Proceed s = Inr t \<and>
      sending t d ds \<and> slave_accepts t = slave_accepts s \<and> slave_got t = slave_got s \<and>
      twi_error t = 0xFF \<and> twi_sendStop t = twi_sendStop s"
proof -
  note b = slarw_bits [OF assms(4), of 0, simplified]
  have n: "unat (of_nat (length data) :: u8) = length data" using assms(9) by (simp add: unat_of_nat)
  show "slave_addr s \<noteq> address \<Longrightarrow> \<exists>t. interrupt cb Proceed s = Inr t \<and> master_ready t \<and>
      twi_error t = TW_MT_SLA_NACK \<and> slave_got t = slave_got s"
    using assms b by (simp add: interrupt_def bus_step_def vect_NACK twi_stop_ok master_ready_def)
  let ?s = "s\<lparr>TWSR := 0x18, phase := Sending\<rparr>"
  have i: "interrupt cb Proceed s = mt_next ?s" if "slave_addr s = address"
    using that assms b by (simp add: interrupt_def bus_step_def vect_MT_ACK)
  show "\<exists>t. interrupt cb Proceed s = Inr t \<and> write_done s 0xFF (slave_got s) t"
    if "slave_addr s = address" "data = []"
    unfolding i [OF that(1)] write_done_def using finish_transfer_done [of ?s] assms that(2)
    by (auto simp: mt_next_def)
  show "\<exists>t. interrupt cb Proceed s = Inr t \<and> sending t d ds \<and> slave_accepts t = slave_accepts s \<and>
      slave_got t = slave_got s \<and> twi_error t = 0xFF \<and> twi_sendStop t = twi_sendStop s"
    if "slave_addr s = address" "data = d # ds"
  proof -
    have "drop (unat (twi_masterBufferIndex ?s)) (take (unat (twi_masterBufferLength ?s)) (twi_masterBuffer ?s)) = d # ds"
      "twi_masterBufferLength ?s \<le> 32" "length (twi_masterBuffer ?s) = 32"
      using assms that(2) n by (simp_all add: word_le_nat_alt)
    note m = mt_next_byte [OF this]
    show ?thesis unfolding i [OF that(1)] m(1) using m(2,3) assms n
      by (simp add: sending_def twcr_bits word_le_nat_alt)
  qed
qed

lemma write_loop:
  assumes "phase u = Started" "\<not> bit (TWCR u) TWSTA" "TWDR u = 0 OR push_bit 1 address" "address < 128"
    "twi_state u = TWI_MTX" "twi_masterBufferIndex u = 0" "twi_masterBufferLength u = of_nat (length data)"
    "take (length data) (twi_masterBuffer u) = data" "length data \<le> 32" "length (twi_masterBuffer u) = 32"
    "\<not> stop_stuck u" "\<not> twi_inRepStart u" "twi_error u = 0xFF"
  defines "k \<equiv> (if slave_addr u \<noteq> address then 1 else if slave_accepts u < length data
      then slave_accepts u + 2 else length data + 1)"
  shows "\<exists>t. wait_while cb (\<lambda>st. True \<and> st = TWI_MTX) (replicate k Proceed @ evs) u = Inr (t, evs) \<and> master_ready t \<and>
      twi_error t = (if slave_addr u \<noteq> address then TW_MT_SLA_NACK
        else if slave_accepts u < length data then TW_MT_DATA_NACK else 0xFF) \<and>
      slave_got t = slave_got u @ (if slave_addr u \<noteq> address then [] else take (slave_accepts u) data)"
proof -
  let ?P = "\<lambda>st. True \<and> st = TWI_MTX"
  have P: "?P TWI_MTX" "\<not> ?P TWI_READY" by simp_all
  note a = write_addressed [where cb = cb, OF assms(1-13)]
  have first: "wait_while cb ?P (Proceed # es) u = wait_while cb ?P es t" if "interrupt cb Proceed u = Inr t" for es t
    using wait_step [OF that, of ?P] assms(5) by simp
  have over: "wait_while cb ?P es t = Inr (t, es)" if "master_ready t" for es t
    using that by (intro wait_over) (simp add: master_ready_def)
  consider "slave_addr u \<noteq> address" | "slave_addr u = address" "data = []"
    | d ds where "slave_addr u = address" "data = d # ds" by (cases data) auto
  then show ?thesis
  proof cases
    case 1
    with a(1) first over show ?thesis by (auto simp: k_def)
  next
    case 2
    with a(2) first over show ?thesis by (auto simp: k_def write_done_def)
  next
    case 3
    then obtain v where v: "interrupt cb Proceed u = Inr v" "sending v d ds" "slave_accepts v = slave_accepts u"
        "slave_got v = slave_got u" "twi_error v = 0xFF"
      using a(3) assms(13) by auto
    show ?thesis
    proof (cases "slave_accepts u < length data")
      case True
      then show ?thesis using send_loop_refused [OF v(2) _ P, of cb evs] first [OF v(1)] v 3
        by (auto simp: k_def)
    next
      case False
      then show ?thesis using send_loop [OF v(2) _ P, of cb evs] first [OF v(1)] v 3
        by (auto simp: k_def write_done_def)
    qed
  qed
qed

lemma writeTo_outcome:
  assumes "master_ready s" and "address < 128" and "length data \<le> 32"
  shows "\<exists>t. twi_writeTo cb address data True stop (replicate ((if twi_inRepStart s then 0 else 1) +
        (if slave_addr s \<noteq> address then 1 else if slave_accepts s < length data then slave_accepts s + 2
         else length data + 1)) Proceed @ evs) s =
      Inr (if slave_addr s \<noteq> address then 2 else if slave_accepts s < length data then 3 else 0, t, evs) \<and>
    slave_got t = slave_got s @ (if slave_addr s \<noteq> address then [] else take (slave_accepts s) data) \<and>
    master_ready t"
proof -
  define s1 where "s1 = s\<lparr>twi_state := TWI_MTX, twi_sendStop := stop, twi_error := 0xFF,
    twi_masterBufferIndex := 0, twi_masterBufferLength := of_nat (length data),
    twi_masterBuffer := data @ drop (length data) (twi_masterBuffer s), twi_slarw := 0 OR push_bit 1 address\<rparr>"
  define k where "k = (if slave_addr s \<noteq> address then 1 else if slave_accepts s < length data
    then slave_accepts s + 2 else length data + 1)"
  let ?P = "\<lambda>st. True \<and> st = TWI_MTX"
  have "phase s1 = (if twi_inRepStart s1 then Started else Idle)" "?P (twi_state s1)"
    using assms(1) by (simp_all add: s1_def master_ready_def)
  from begin_addressed [where P = ?P and cb = cb and evs = "replicate k Proceed @ evs", OF this] obtain c r where
    w: "wait_while cb ?P (replicate (if twi_inRepStart s1 then 0 else 1) Proceed @ replicate k Proceed @ evs)
        (begin_transfer s1) =
      wait_while cb ?P (replicate k Proceed @ evs)
        (s1\<lparr>twi_inRepStart := False, TWDR := twi_slarw s1, TWCR := c, TWSR := r, phase := Started\<rparr>)"
    and c: "\<not> bit c TWSTA" by blast
  define u where "u = s1\<lparr>twi_inRepStart := False, TWDR := twi_slarw s1, TWCR := c, TWSR := r, phase := Started\<rparr>"
  have u: "phase u = Started" "\<not> bit (TWCR u) TWSTA" "TWDR u = 0 OR push_bit 1 address"
    "twi_state u = TWI_MTX" "twi_masterBufferIndex u = 0" "twi_masterBufferLength u = of_nat (length data)"
    "take (length data) (twi_masterBuffer u) = data" "length (twi_masterBuffer u) = 32"
    "\<not> stop_stuck u" "\<not> twi_inRepStart u" "twi_error u = 0xFF"
    using assms c by (simp_all add: u_def s1_def master_ready_def)
  have us: "slave_addr u = slave_addr s" "slave_accepts u = slave_accepts s" "slave_got u = slave_got s"
    "twi_inRepStart s1 = twi_inRepStart s" by (simp_all add: u_def s1_def)
  obtain t where t: "wait_while cb ?P (replicate k Proceed @ evs) u = Inr (t, evs)" "master_ready t"
      "twi_error t = (if slave_addr s \<noteq> address then TW_MT_SLA_NACK
        else if slave_accepts s < length data then TW_MT_DATA_NACK else 0xFF)"
      "slave_got t = slave_got s @ (if slave_addr s \<noteq> address then [] else take (slave_accepts s) data)"
    using write_loop [where cb = cb and evs = evs, OF u(1-3) assms(2) u(4-7) assms(3) u(8-11), unfolded us(1-3)]
    unfolding k_def by blast
  let ?F = "\<lambda>(s, evs :: bus_event list). Inr (if twi_error s = 0xFF then 0 :: u8
    else if twi_error s = TW_MT_SLA_NACK then 2 else if twi_error s = TW_MT_DATA_NACK then 3 else 4, s, evs)"
  have "wait_while cb (\<lambda>st. st \<noteq> TWI_READY) es s = Inr (s, es)" for es
    using assms(1) by (intro wait_over) (simp add: master_ready_def)
  moreover have "\<not> TWI_BUFFER_LENGTH < length data" using assms(3) by (simp add: TWI_BUFFER_LENGTH_def)
  ultimately have e: "twi_writeTo cb address data True stop es s =
      andThen (wait_while cb ?P es (begin_transfer s1)) ?F" for es
    unfolding twi_writeTo_def s1_def by (simp only: andThen_simps case_prod_conv Let_def if_False)
  have "twi_writeTo cb address data True stop (replicate ((if twi_inRepStart s then 0 else 1) + k) Proceed @ evs) s =
      Inr (if slave_addr s \<noteq> address then 2 else if slave_accepts s < length data then 3 else 0, t, evs)"
    unfolding e replicate_add append_assoc w [unfolded us(4)] u_def [symmetric] t(1) using t(3) by simp
  with t(2,4) show ?thesis unfolding k_def by blast
qed

text \<open>
  C36. \<^verbatim>\<open>twi_writeTo\<close> with up to 32 bytes, a stop or a repeated start at its end, from an idle bus or after a
  repeated start: if the addressed device is not there it returns 2 and nothing is transferred; if the
  device stops acknowledging after \<open>k\<close> bytes it returns 3 and exactly the first \<open>k\<close> bytes have arrived; and
  otherwise it returns 0 and the device got all bytes in order. In each case it returns after the
  interrupts of that many bytes, and the module is ready for the next transfer.
\<close>

theorem twi_write_outcome:
  assumes "master_ready s" and "address < 128" and "length data \<le> 32"
  shows "\<exists>t. twi_writeTo cb address data True stop (replicate ((if twi_inRepStart s then 0 else 1) +
        (if slave_addr s \<noteq> address then 1 else if slave_accepts s < length data then slave_accepts s + 2
         else length data + 1)) Proceed @ evs) s =
      Inr (if slave_addr s \<noteq> address then 2 else if slave_accepts s < length data then 3 else 0, t, evs) \<and>
    slave_got t = slave_got s @ (if slave_addr s \<noteq> address then [] else take (slave_accepts s) data) \<and>
    master_ready t"
  using assms by (rule writeTo_outcome)

definition demo_twi :: twi where
  "demo_twi = \<lparr>twi_state = 0, twi_slarw = 0, twi_sendStop = 1, twi_inRepStart = False,
     twi_masterBuffer = replicate 32 0, twi_masterBufferIndex = 0, twi_masterBufferLength = 0,
     twi_txBuffer = replicate 32 0, twi_txBufferIndex = 0, twi_txBufferLength = 0,
     twi_rxBuffer = replicate 32 0, twi_rxBufferIndex = 0, twi_error = 0xFF,
     TWCR = 0x45, TWDR = 0xFF, TWSR = 0xF8, TWBR = 72, TWAR = 0, core = avr_reset, stop_stuck = False,
     phase = Idle, slave_addr = 0x68, slave_accepts = 8, slave_got = [], slave_sends = [1, 2, 3, 4, 5, 6, 7]\<rparr>"

definition no_callbacks :: callbacks where
  "no_callbacks = \<lparr>twi_onSlaveTransmit = id, twi_onSlaveReceive = (\<lambda>_ _. id)\<rparr>"

lemma demo_ready: "master_ready demo_twi" "slave_addr demo_twi = 0x68" "slave_accepts demo_twi = 8"
  "slave_got demo_twi = []" "\<not> twi_inRepStart demo_twi" "slave_sends demo_twi = [1, 2, 3, 4, 5, 6, 7]"
  by (simp_all add: demo_twi_def master_ready_def)

theorem twi_write_outcome_witness:
  "\<exists>t. twi_writeTo no_callbacks 0x68 [0, 7] True 1 [Proceed, Proceed, Proceed, Proceed] demo_twi = Inr (0, t, []) \<and>
    slave_got t = [0, 7]"
  using twi_write_outcome [of demo_twi "0x68" "[0, 7]" no_callbacks 1 "[]"] demo_ready
  by (auto simp: word_less_nat_alt)

section \<open>Master receiver\<close>

text \<open>In a read of \<open>n\<close> bytes, with \<open>got\<close> already in the buffer; the hardware will acknowledge all but the last.\<close>

definition receiving :: "twi \<Rightarrow> nat \<Rightarrow> u8 list \<Rightarrow> bool" where
  "receiving s n got \<longleftrightarrow> twi_state s = TWI_MRX \<and> phase s = Receiving \<and> \<not> bit (TWCR s) TWSTA \<and>
     0 < n \<and> n \<le> 32 \<and> length got < n \<and> twi_masterBufferIndex s = of_nat (length got) \<and>
     twi_masterBufferLength s = of_nat n - 1 \<and> bit (TWCR s) TWEA = (length got + 1 < n) \<and>
     take (length got) (twi_masterBuffer s) = got \<and> length (twi_masterBuffer s) = 32 \<and>
     \<not> stop_stuck s \<and> \<not> twi_inRepStart s"

definition read_done :: "twi \<Rightarrow> u8 list \<Rightarrow> twi \<Rightarrow> bool" where
  "read_done s got t \<longleftrightarrow> master_ready t \<and> twi_masterBufferIndex t = of_nat (length got) \<and>
     take (length got) (twi_masterBuffer t) = got \<and> twi_inRepStart t = (twi_sendStop s = 0)"

lemma unat_u8_32: "n \<le> 32 \<Longrightarrow> unat (of_nat n :: u8) = n"
  by (simp add: unat_of_nat)

lemma u8_less_pred:
  assumes "i < 33" "0 < n" "n \<le> 32"
  shows "(of_nat i :: u8) < of_nat n - 1 \<longleftrightarrow> i + 1 < n"
proof -
  have e: "(of_nat n - 1 :: u8) = of_nat (n - 1)" using assms(2) by simp
  have u: "unat (of_nat (n - 1) :: u8) = n - 1" "unat (of_nat i :: u8) = i"
    using assms by (intro unat_u8_32; simp)+
  show ?thesis unfolding word_less_nat_alt e u using assms(2) by linarith
qed

lemma interrupt_receiving:
  assumes "phase s = Receiving" "\<not> bit (TWCR s) TWSTA" "slave_sends s = d # ds"
  shows "interrupt cb Proceed s = TWI_vect cb (s\<lparr>TWSR := (if bit (TWCR s) TWEA then 0x50 else 0x58),
    TWDR := d, slave_sends := ds\<rparr>)"
  using assms by (simp add: interrupt_def bus_step_def)

lemma receive_step:
  assumes "receiving s n got" "length got + 1 < n" "slave_sends s = d # ds"
  shows "\<exists>t. interrupt cb Proceed s = Inr t \<and> receiving t n (got @ [d]) \<and> slave_sends t = ds \<and>
    twi_sendStop t = twi_sendStop s"
proof -
  note r = assms(1) [unfolded receiving_def]
  let ?i = "length got"
  have i: "unat (of_nat ?i :: u8) = ?i" "?i < 32" using r by (simp_all add: unat_u8_32)
  have b: "bit (TWCR s) TWEA" using r assms(2) by simp
  let ?u = "s\<lparr>TWSR := 0x50, TWDR := d, slave_sends := ds,
    twi_masterBuffer := (twi_masterBuffer s)[?i := d], twi_masterBufferIndex := of_nat ?i + 1\<rparr>"
  have "interrupt cb Proceed s = Inr (twi_reply (twi_masterBufferIndex ?u < twi_masterBufferLength ?u) ?u)"
    using r b interrupt_receiving [OF _ _ assms(3), of cb] i
    by (simp add: vect_MR master_store_def TWI_BUFFER_LENGTH_def)
  moreover have "(twi_masterBufferIndex ?u < twi_masterBufferLength ?u) = (Suc ?i + 1 < n)"
    using r u8_less_pred [of "Suc ?i" n] assms(2) by (simp add: add.commute)
  moreover have "take (Suc ?i) ((twi_masterBuffer s)[?i := d]) = got @ [d]"
    using r i by (simp add: take_Suc_conv_app_nth)
  ultimately show ?thesis using r assms(2)
    by (simp add: receiving_def twi_reply_eq twcr_bits add.commute)
qed

lemma receive_last:
  assumes "receiving s n got" "length got + 1 = n" "slave_sends s = d # ds"
  shows "\<exists>t. interrupt cb Proceed s = Inr t \<and> read_done s (got @ [d]) t \<and> slave_sends t = ds"
proof -
  note r = assms(1) [unfolded receiving_def]
  let ?i = "length got"
  have i: "unat (of_nat ?i :: u8) = ?i" "?i < 32" using r by (simp_all add: unat_u8_32)
  have b: "\<not> bit (TWCR s) TWEA" using r assms(2) by simp
  let ?u = "s\<lparr>TWSR := 0x58, TWDR := d, slave_sends := ds,
    twi_masterBuffer := (twi_masterBuffer s)[?i := d], twi_masterBufferIndex := of_nat ?i + 1\<rparr>"
  have "interrupt cb Proceed s = finish_transfer ?u"
    using r b interrupt_receiving [OF _ _ assms(3), of cb] i
    by (simp add: vect_MR master_store_def TWI_BUFFER_LENGTH_def)
  moreover have "take (Suc ?i) ((twi_masterBuffer s)[?i := d]) = got @ [d]"
    using r i by (simp add: take_Suc_conv_app_nth)
  ultimately show ?thesis using r finish_transfer_done [of ?u]
    by (auto simp: read_done_def add.commute)
qed

lemma receive_loop:
  assumes "receiving s n got" "n \<le> length got + length (slave_sends s)" "P TWI_MRX" "\<not> P TWI_READY"
  shows "\<exists>t. wait_while cb P (replicate (n - length got) Proceed @ evs) s = Inr (t, evs) \<and>
    read_done s (got @ take (n - length got) (slave_sends s)) t \<and>
    slave_sends t = drop (n - length got) (slave_sends s)"
  using assms(1,2)
proof (induction "n - length got" arbitrary: s got)
  case 0
  then show ?case by (simp add: receiving_def)
next
  case (Suc m)
  have st: "P (twi_state s)" using Suc.prems(1) assms(3) by (simp add: receiving_def)
  obtain d ds where d: "slave_sends s = d # ds"
    using Suc.prems Suc.hyps(2) by (cases "slave_sends s") auto
  have k: "n - length got = Suc m" using Suc.hyps(2) by simp
  show ?case
  proof (cases "length got + 1 = n")
    case True
    obtain t where t: "interrupt cb Proceed s = Inr t" "read_done s (got @ [d]) t" "slave_sends t = ds"
      using receive_last [OF Suc.prems(1) True d] by blast
    then have "\<not> P (twi_state t)" using assms(4) by (simp add: read_done_def master_ready_def)
    moreover have "m = 0" using True k by simp
    ultimately show ?thesis using t wait_step [OF t(1), of P] st wait_over d by (simp add: k)
  next
    case False
    then have lt: "length got + 1 < n" using k by simp
    obtain u where u: "interrupt cb Proceed s = Inr u" "receiving u n (got @ [d])" "slave_sends u = ds"
        "twi_sendStop u = twi_sendStop s"
      using receive_step [OF Suc.prems(1) lt d] by blast
    have m: "m = n - length (got @ [d])" using k by simp
    have "n \<le> length (got @ [d]) + length (slave_sends u)" using Suc.prems(2) d u(3) by simp
    from Suc.hyps(1) [OF m u(2) this] obtain t where
      "wait_while cb P (replicate m Proceed @ evs) u = Inr (t, evs)"
      "read_done u ((got @ [d]) @ take m ds) t" "slave_sends t = drop m ds"
      using m u(3) by auto
    then show ?thesis using wait_step [OF u(1), of P] st u(4) d by (simp add: k read_done_def)
  qed
qed

lemma read_addressed:
  assumes "phase s = Started" "\<not> bit (TWCR s) TWSTA" "TWDR s = 1 OR push_bit 1 address" "address < 128"
    "twi_state s = TWI_MRX" "twi_masterBufferIndex s = 0" "twi_masterBufferLength s = of_nat n - 1"
    "0 < n" "n \<le> 32" "length (twi_masterBuffer s) = 32" "\<not> stop_stuck s" "\<not> twi_inRepStart s"
  shows "slave_addr s \<noteq> address \<Longrightarrow> \<exists>t. interrupt cb Proceed s = Inr t \<and> master_ready t \<and>
      twi_masterBufferIndex t = 0"
    and "slave_addr s = address \<Longrightarrow> \<exists>t. interrupt cb Proceed s = Inr t \<and> receiving t n [] \<and>
      slave_sends t = slave_sends s"
proof -
  note b = slarw_bits [OF assms(4), of 1, simplified]
  show "slave_addr s \<noteq> address \<Longrightarrow> \<exists>t. interrupt cb Proceed s = Inr t \<and> master_ready t \<and>
      twi_masterBufferIndex t = 0"
    using assms b by (simp add: interrupt_def bus_step_def vect_NACK twi_stop_ok master_ready_def)
  have "(0 :: u8) < of_nat n - 1 \<longleftrightarrow> 1 < n" using u8_less_pred [of 0 n] assms(8,9) by simp
  then show "slave_addr s = address \<Longrightarrow> \<exists>t. interrupt cb Proceed s = Inr t \<and> receiving t n [] \<and>
      slave_sends t = slave_sends s"
    using assms b by (simp add: interrupt_def bus_step_def vect_MR receiving_def twi_reply_eq twcr_bits)
qed

text \<open>The part of a read after the address byte has been placed.\<close>

lemma read_loop:
  fixes P :: "u8 \<Rightarrow> bool"
  assumes s: "phase s = Started" "\<not> bit (TWCR s) TWSTA" "TWDR s = 1 OR push_bit 1 address" "address < 128"
    "twi_state s = TWI_MRX" "twi_masterBufferIndex s = 0" "twi_masterBufferLength s = of_nat n - 1"
    "0 < n" "n \<le> 32" "length (twi_masterBuffer s) = 32" "\<not> stop_stuck s" "\<not> twi_inRepStart s"
    and n: "n \<le> length (slave_sends s)" and P: "P TWI_MRX" "\<not> P TWI_READY"
  defines "k \<equiv> if slave_addr s = address then n else 0"
  shows "\<exists>t. wait_while cb P (replicate (1 + k) Proceed @ evs) s = Inr (t, evs) \<and> master_ready t \<and>
    twi_masterBufferIndex t = of_nat k \<and> take k (twi_masterBuffer t) = take k (slave_sends s)"
proof -
  have first: "wait_while cb P (Proceed # es) s = wait_while cb P es t" if "interrupt cb Proceed s = Inr t" for es t
    using wait_step [OF that, of P] s(5) P by simp
  have over: "wait_while cb P es t = Inr (t, es)" if "master_ready t" for es t
    using that P by (intro wait_over) (simp add: master_ready_def)
  show ?thesis
  proof (cases "slave_addr s = address")
    case False
    then show ?thesis using read_addressed(1) [OF s] first over by (fastforce simp: k_def)
  next
    case True
    then obtain u where u: "interrupt cb Proceed s = Inr u" "receiving u n []" "slave_sends u = slave_sends s"
      using read_addressed(2) [OF s] by blast
    from receive_loop [where P = P and cb = cb and evs = evs, OF u(2) _ P] n u(3) obtain t where
      "wait_while cb P (replicate n Proceed @ evs) u = Inr (t, evs)" "read_done u (take n (slave_sends s)) t"
      by auto
    then show ?thesis using first [OF u(1)] True n by (auto simp: k_def read_done_def)
  qed
qed

lemma twi_readFrom_ready:
  assumes "twi_state s = TWI_READY" "unat len \<le> 32"
  shows "twi_readFrom cb address len stop es s =
    andThen (wait_while cb (\<lambda>st. st = TWI_MRX) es (begin_transfer (s\<lparr>twi_state := TWI_MRX, twi_sendStop := stop,
        twi_error := 0xFF, twi_masterBufferIndex := 0, twi_masterBufferLength := len - 1,
        twi_slarw := 1 OR push_bit 1 address\<rparr>)))
      (\<lambda>(s, evs). Inr (let l = (if twi_masterBufferIndex s < len then twi_masterBufferIndex s else len)
         in (l, take (unat l) (twi_masterBuffer s), s, evs)))"
proof -
  have "wait_while cb (\<lambda>st. st \<noteq> TWI_READY) es s = Inr (s, es)" for es
    using assms(1) by (intro wait_over) simp
  moreover have "\<not> TWI_BUFFER_LENGTH < unat len" using assms(2) by (simp add: TWI_BUFFER_LENGTH_def)
  ultimately show ?thesis
    unfolding twi_readFrom_def by (simp only: andThen_simps case_prod_conv Let_def if_False)
qed

lemma readFrom_outcome:
  assumes "master_ready s" and "address < 128" and "0 < len" and "len \<le> 32"
    and "unat len \<le> length (slave_sends s)"
  shows "\<exists>t. twi_readFrom cb address len stop
      (replicate ((if twi_inRepStart s then 0 else 1) + (1 + (if slave_addr s = address then unat len else 0))) Proceed
        @ evs) s =
    Inr (if slave_addr s = address then len else 0,
         if slave_addr s = address then take (unat len) (slave_sends s) else [], t, evs) \<and> master_ready t"
proof -
  define s1 where "s1 = s\<lparr>twi_state := TWI_MRX, twi_sendStop := stop, twi_error := 0xFF,
    twi_masterBufferIndex := 0, twi_masterBufferLength := len - 1, twi_slarw := 1 OR push_bit 1 address\<rparr>"
  define k where "k = (if slave_addr s = address then unat len else 0)"
  let ?P = "\<lambda>st. st = TWI_MRX" and ?es = "replicate (1 + k) Proceed @ evs"
  have n: "0 < unat len" "unat len \<le> 32" using assms(3,4) by (simp_all add: word_less_nat_alt word_le_nat_alt)
  have "phase s1 = (if twi_inRepStart s1 then Started else Idle)" "?P (twi_state s1)"
    using assms(1) by (simp_all add: s1_def master_ready_def)
  from begin_addressed [where P = ?P and cb = cb and evs = ?es, OF this] obtain c r where
    w: "wait_while cb ?P (replicate (if twi_inRepStart s1 then 0 else 1) Proceed @ ?es) (begin_transfer s1) =
      wait_while cb ?P ?es
        (s1\<lparr>twi_inRepStart := False, TWDR := twi_slarw s1, TWCR := c, TWSR := r, phase := Started\<rparr>)"
    and c: "\<not> bit c TWSTA" by blast
  define u where "u = s1\<lparr>twi_inRepStart := False, TWDR := twi_slarw s1, TWCR := c, TWSR := r, phase := Started\<rparr>"
  have "\<exists>t. wait_while cb ?P (replicate (1 + (if slave_addr u = address then unat len else 0)) Proceed @ evs) u =
      Inr (t, evs) \<and> master_ready t \<and>
    twi_masterBufferIndex t = of_nat (if slave_addr u = address then unat len else 0) \<and>
    take (if slave_addr u = address then unat len else 0) (twi_masterBuffer t) =
      take (if slave_addr u = address then unat len else 0) (slave_sends u)"
    by (rule read_loop) (use assms c n in \<open>simp_all add: u_def s1_def master_ready_def\<close>)
  then obtain t where t: "wait_while cb ?P ?es u = Inr (t, evs)" "master_ready t"
      "twi_masterBufferIndex t = of_nat k" "take k (twi_masterBuffer t) = take k (slave_sends s)"
    by (auto simp: u_def s1_def k_def)
  have "twi_state s = TWI_READY" using assms(1) by (simp add: master_ready_def)
  note e = twi_readFrom_ready [where len = len, OF this n(2), of cb address stop, folded s1_def]
  have "twi_inRepStart s1 = twi_inRepStart s" by (simp add: s1_def)
  then have "twi_readFrom cb address len stop (replicate ((if twi_inRepStart s then 0 else 1) + (1 + k)) Proceed @ evs) s =
      Inr (if slave_addr s = address then len else 0,
         if slave_addr s = address then take (unat len) (slave_sends s) else [], t, evs)"
    unfolding e replicate_add [of "if twi_inRepStart s then 0 else 1"] append_assoc
    using w t assms(3)
    by (cases "slave_addr s = address") (simp_all add: u_def [symmetric] k_def Let_def)
  then show ?thesis using t(2) unfolding k_def by blast
qed

text \<open>
  C37. \<^verbatim>\<open>twi_readFrom\<close> of 1 to 32 bytes from a device that has them returns exactly the requested number of
  bytes, the ones the device sent, in order, having acknowledged all but the last; from an address where
  no device answers it returns no byte. It returns after that many interrupts and leaves the module
  ready.
\<close>

theorem twi_read_outcome:
  assumes "master_ready s" and "address < 128" and "0 < len" and "len \<le> 32"
    and "unat len \<le> length (slave_sends s)"
  shows "\<exists>t. twi_readFrom cb address len stop
      (replicate ((if twi_inRepStart s then 0 else 1) + (1 + (if slave_addr s = address then unat len else 0))) Proceed
        @ evs) s =
    Inr (if slave_addr s = address then len else 0,
         if slave_addr s = address then take (unat len) (slave_sends s) else [], t, evs) \<and> master_ready t"
  using assms by (rule readFrom_outcome)

theorem twi_read_outcome_witness:
  "\<exists>t. twi_readFrom no_callbacks 0x68 3 1 (replicate 5 Proceed) demo_twi =
    Inr (3, [1, 2, 3], t, [])"
  using twi_read_outcome [of demo_twi "0x68" 3 no_callbacks 1 "[]"] demo_ready
  by (auto simp: word_less_nat_alt word_le_nat_alt)


section \<open>Memory safety of transfers\<close>

text \<open>
  What holds at every interrupt of a master transfer, whatever the bus does: the index stays within the
  length, the length within the buffer, and in a read the hardware is told to acknowledge another byte
  only while more than one is expected.
\<close>

definition mrx_inv :: "twi \<Rightarrow> bool" where
  "mrx_inv s \<longleftrightarrow> twi_masterBufferLength s < 32 \<and> twi_masterBufferIndex s \<le> twi_masterBufferLength s \<and>
     bit (twi_slarw s) 0 \<and> (bit (TWCR s) TWSTA \<or> phase s = Idle \<or> phase s = Started \<and> bit (TWDR s) 0 \<or>
       phase s = Receiving \<and> (bit (TWCR s) TWEA \<longrightarrow> twi_masterBufferIndex s < twi_masterBufferLength s))"

definition mtx_inv :: "twi \<Rightarrow> bool" where
  "mtx_inv s \<longleftrightarrow> twi_masterBufferLength s \<le> 32 \<and> \<not> bit (twi_slarw s) 0 \<and>
     (bit (TWCR s) TWSTA \<or> phase s = Idle \<or> phase s = Started \<and> \<not> bit (TWDR s) 0 \<or> phase s = Sending)"

definition safe :: "u8 \<Rightarrow> (twi \<Rightarrow> bool) \<Rightarrow> fault + twi \<Rightarrow> bool" where
  "safe st I r \<longleftrightarrow> (case r of Inl e \<Rightarrow> e \<noteq> Overrun | Inr t \<Rightarrow> twi_state t = st \<longrightarrow> I t)"

lemma safe_stop: "0 \<noteq> st \<Longrightarrow> safe st I (twi_stop s)"
  by (cases "stop_stuck s") (simp_all add: safe_def twi_stop_ok)

lemma safe_finish: "0 \<noteq> st \<Longrightarrow> safe st I (finish_transfer s)"
  using safe_stop [of st I s] by (auto simp: finish_transfer_def safe_def write_TWCR_def)

lemma interrupt_glitch: "0 \<noteq> st \<Longrightarrow> ev \<noteq> Proceed \<Longrightarrow> safe st I (interrupt cb ev s)"
  by (cases ev) (auto simp: interrupt_def bus_step_def vect_NACK safe_stop,
      simp add: safe_def twi_releaseBus_def)

lemma mrx_step:
  assumes "mrx_inv s"
  shows "safe TWI_MRX mrx_inv (interrupt cb ev s)"
proof (cases "ev = Proceed")
  case False
  then show ?thesis by (intro interrupt_glitch) simp_all
next
  case True
  note inv = assms [unfolded mrx_inv_def]
  have ii: "unat (twi_masterBufferIndex s) < 32"
    using inv by (simp add: word_less_nat_alt word_le_nat_alt)
  consider (sta) "bit (TWCR s) TWSTA" | (idle) "\<not> bit (TWCR s) TWSTA" "phase s = Idle"
    | (addr) "\<not> bit (TWCR s) TWSTA" "phase s = Started" "bit (TWDR s) 0"
    | (rx) "\<not> bit (TWCR s) TWSTA" "phase s = Receiving"
      "bit (TWCR s) TWEA \<longrightarrow> twi_masterBufferIndex s < twi_masterBufferLength s"
    using inv by blast
  then show ?thesis
  proof cases
    case sta
    then have "interrupt cb ev s = Inr (s\<lparr>TWSR := (if phase s = Idle then 8 else 16), phase := Started,
        TWDR := twi_slarw s, TWCR := twcr [2, 0, 7, 6]\<rparr>)"
      using True by (simp add: interrupt_def bus_step_def vect_START twi_reply_eq)
    then show ?thesis using inv by (simp add: safe_def mrx_inv_def)
  next
    case idle
    then show ?thesis using True inv
      by (simp add: interrupt_def bus_step_def vect_NACK safe_def mrx_inv_def)
  next
    case addr
    then show ?thesis using True inv
      by (cases "drop_bit 1 (TWDR s) = slave_addr s")
        (simp_all add: interrupt_def bus_step_def vect_NACK vect_MR safe_stop twi_reply_eq,
         simp add: safe_def mrx_inv_def twcr_bits)
  next
    case rx
    let ?u = "bus_step Proceed s"
    have m: "master_store ?u = Inr (?u\<lparr>twi_masterBuffer := (twi_masterBuffer ?u)[unat (twi_masterBufferIndex ?u) := TWDR ?u],
        twi_masterBufferIndex := twi_masterBufferIndex s + 1\<rparr>)"
      using rx ii by (simp add: bus_step_def master_store_def TWI_BUFFER_LENGTH_def)
    show ?thesis
    proof (cases "bit (TWCR s) TWEA")
      case False
      then have "interrupt cb ev s = andThen (master_store ?u) finish_transfer"
        using rx True by (simp add: interrupt_def bus_step_def vect_MR)
      then show ?thesis unfolding m by (simp add: safe_finish)
    next
      case A: True
      then have "interrupt cb ev s = andThen (master_store ?u)
          (\<lambda>s. Inr (twi_reply (twi_masterBufferIndex s < twi_masterBufferLength s) s))"
        using rx True by (simp add: interrupt_def bus_step_def vect_MR)
      moreover have "twi_masterBufferIndex s + 1 \<le> twi_masterBufferLength s" using rx A by (intro u8_inc_le) simp
      ultimately show ?thesis unfolding m using rx inv
        by (simp add: safe_def mrx_inv_def twi_reply_eq twcr_bits bus_step_def)
    qed
  qed
qed

lemma mtx_step:
  assumes "mtx_inv s"
  shows "safe TWI_MTX mtx_inv (interrupt cb ev s)"
proof (cases "ev = Proceed")
  case False
  then show ?thesis by (intro interrupt_glitch) simp_all
next
  case True
  note inv = assms [unfolded mtx_inv_def]
  have nxt: "safe TWI_MTX mtx_inv (mt_next t)"
    if "phase t = Sending" "twi_masterBufferLength t \<le> 32" "\<not> bit (twi_slarw t) 0" for t
    using that safe_finish [of TWI_MTX mtx_inv t]
    by (auto simp: mt_next_def TWI_BUFFER_LENGTH_def word_less_nat_alt word_le_nat_alt)
      (simp add: safe_def mtx_inv_def twi_reply_eq word_le_nat_alt)
  consider (sta) "bit (TWCR s) TWSTA" | (idle) "\<not> bit (TWCR s) TWSTA" "phase s = Idle"
    | (addr) "\<not> bit (TWCR s) TWSTA" "phase s = Started" "\<not> bit (TWDR s) 0"
    | (tx) "\<not> bit (TWCR s) TWSTA" "phase s = Sending"
    using inv by blast
  then show ?thesis
  proof cases
    case sta
    then have "interrupt cb ev s = Inr (s\<lparr>TWSR := (if phase s = Idle then 8 else 16), phase := Started,
        TWDR := twi_slarw s, TWCR := twcr [2, 0, 7, 6]\<rparr>)"
      using True by (simp add: interrupt_def bus_step_def vect_START twi_reply_eq)
    then show ?thesis using inv by (simp add: safe_def mtx_inv_def)
  next
    case idle
    then show ?thesis using True inv
      by (simp add: interrupt_def bus_step_def vect_NACK safe_def mtx_inv_def)
  next
    case addr
    then show ?thesis using True inv
      by (cases "drop_bit 1 (TWDR s) = slave_addr s")
        (simp_all add: interrupt_def bus_step_def vect_NACK vect_MT_ACK safe_stop nxt [simplified])
  next
    case tx
    then show ?thesis using True inv
      by (cases "slave_accepts s = 0")
        (simp_all add: interrupt_def bus_step_def vect_NACK vect_MT_ACK safe_stop nxt [simplified])
  qed
qed

lemma wait_safe:
  assumes "\<And>s ev. I s \<Longrightarrow> safe st I (interrupt cb ev s)" and "\<And>x. P x \<Longrightarrow> x = st" and "twi_state s = st \<Longrightarrow> I s"
  shows "wait_while cb P evs s \<noteq> Inl Overrun"
  using assms(3)
proof (induction evs arbitrary: s)
  case Nil
  then show ?case by (simp add: wait_while.simps)
next
  case (Cons e es)
  show ?case
  proof (cases "P (twi_state s)")
    case True
    then have "safe st I (interrupt cb e s)" using assms(1,2) Cons.prems by blast
    then show ?thesis using Cons.IH True
      by (cases "interrupt cb e s") (auto simp: wait_while.simps safe_def)
  qed (simp add: wait_while.simps)
qed

text \<open>
  C38. Whatever happens on the bus (any device behaviour, arbitration lost or bus errors at any
  interrupt, stop conditions that never complete), a transfer that starts with the module ready never
  writes or reads outside the 32-byte master buffer: for every write, and for every read of at least one
  byte.
\<close>

theorem transfers_never_overrun:
  assumes "master_ready s \<or> stop_stuck s \<and> twi_state s = TWI_READY \<and> phase s = (if twi_inRepStart s then Started else Idle)"
    and "address < 128" and "0 < len"
  shows "twi_readFrom cb address len stop evs s \<noteq> Inl Overrun \<and>
    twi_writeTo cb address data wait stop evs s \<noteq> Inl Overrun"
proof -
  have ready: "twi_state s = TWI_READY" "phase s = (if twi_inRepStart s then Started else Idle)"
    using assms(1) by (auto simp: master_ready_def)
  have w: "wait_while cb (\<lambda>st. st \<noteq> TWI_READY) evs s = Inr (s, evs)" using ready(1) by (intro wait_over) simp
  have r: "wait_while cb (\<lambda>st. st = TWI_MRX) evs (begin_transfer (s\<lparr>twi_state := TWI_MRX, twi_sendStop := stop,
      twi_error := 0xFF, twi_masterBufferIndex := 0, twi_masterBufferLength := len - 1,
      twi_slarw := 1 OR push_bit 1 address\<rparr>)) \<noteq> Inl Overrun" if "\<not> 32 < unat len"
  proof (rule wait_safe [where st = TWI_MRX and I = mrx_inv])
    have "len \<noteq> 0" using assms(3) by auto
    then have "unat (len - 1) < 32" using that unat_minus_one [of len] unat_gt_0 [of len] by simp
    then show "mrx_inv (begin_transfer (s\<lparr>twi_state := TWI_MRX, twi_sendStop := stop, twi_error := 0xFF,
        twi_masterBufferIndex := 0, twi_masterBufferLength := len - 1, twi_slarw := 1 OR push_bit 1 address\<rparr>))"
      using ready(2) slarw_bits(2) [OF assms(2), of 1]
      by (simp add: begin_transfer_def write_TWCR_plain twcr_bits mrx_inv_def word_less_nat_alt)
  qed (use mrx_step in simp_all)
  have t: "wait_while cb (\<lambda>st. wait \<and> st = TWI_MTX) evs (begin_transfer (s\<lparr>twi_state := TWI_MTX, twi_sendStop := stop,
      twi_error := 0xFF, twi_masterBufferIndex := 0, twi_masterBufferLength := of_nat (length data),
      twi_masterBuffer := data @ drop (length data) (twi_masterBuffer s),
      twi_slarw := 0 OR push_bit 1 address\<rparr>)) \<noteq> Inl Overrun" if "\<not> 32 < length data"
  proof (rule wait_safe [where st = TWI_MTX and I = mtx_inv])
    have "(of_nat (length data) :: u8) \<le> 32" using that by (simp add: word_le_nat_alt unat_of_nat)
    then show "mtx_inv (begin_transfer (s\<lparr>twi_state := TWI_MTX, twi_sendStop := stop, twi_error := 0xFF,
        twi_masterBufferIndex := 0, twi_masterBufferLength := of_nat (length data),
        twi_masterBuffer := data @ drop (length data) (twi_masterBuffer s), twi_slarw := 0 OR push_bit 1 address\<rparr>))"
      using ready(2) slarw_bits(2) [OF assms(2), of 0]
      by (simp add: begin_transfer_def write_TWCR_plain twcr_bits mtx_inv_def)
  qed (use mtx_step in simp_all)
  have a: "andThen m (\<lambda>(s, evs). Inr (f s evs)) \<noteq> Inl Overrun" if "m \<noteq> Inl Overrun"
    for m :: "fault + (twi \<times> bus_event list)" and f :: "twi \<Rightarrow> bus_event list \<Rightarrow> 'a"
    using that by (cases m) auto
  show ?thesis
    using r t unfolding twi_readFrom_def twi_writeTo_def TWI_BUFFER_LENGTH_def w
    by (auto simp only: andThen_simps case_prod_conv Let_def intro!: a split: if_splits)
qed

theorem transfers_never_overrun_witness:
  "twi_readFrom no_callbacks 0x68 32 0 (replicate 100 Proceed) demo_twi \<noteq> Inl Overrun"
  using transfers_never_overrun [of demo_twi "0x68" 32 no_callbacks 0 "replicate 100 Proceed" "[]" True]
    demo_ready by (simp add: word_less_nat_alt)

lemma flood:
  assumes "twi_state s = TWI_MRX" "phase s = Receiving" "\<not> bit (TWCR s) TWSTA" "bit (TWCR s) TWEA"
    "twi_masterBufferIndex s = of_nat i" "i \<le> 32" "twi_masterBufferLength s = 255" "P TWI_MRX"
  shows "wait_while cb P (replicate (33 - i) Proceed @ evs) s = Inl Overrun"
  using assms
proof (induction "32 - i" arbitrary: s i)
  case 0
  let ?u = "bus_step Proceed s"
  have i: "i = 32" using 0 by simp
  then have "interrupt cb Proceed s = Inl Overrun"
    using 0 by (simp add: interrupt_def bus_step_def vect_MR master_store_def TWI_BUFFER_LENGTH_def)
  then show ?case using 0 i by (simp add: wait_while.simps)
next
  case (Suc m)
  let ?u = "s\<lparr>TWSR := 0x50, TWDR := (case slave_sends s of [] \<Rightarrow> 0xFF | d # _ \<Rightarrow> d), slave_sends := tl (slave_sends s)\<rparr>"
  let ?t = "?u\<lparr>twi_masterBuffer := (twi_masterBuffer s)[i := TWDR ?u], twi_masterBufferIndex := of_nat (Suc i),
    TWCR := twcr [2, 0, 7, 6]\<rparr>"
  have i: "unat (of_nat i :: u8) = i" "i < 32" using Suc.hyps(2) by (simp_all add: unat_of_nat)
  have "unat (of_nat (Suc i) :: u8) = Suc i" using i(2) by (intro unat_u8_32) simp
  then have l: "(of_nat (Suc i) :: u8) < 255" using i(2) by (simp add: word_less_nat_alt)
  have "interrupt cb Proceed s = Inr ?t"
    using Suc.prems i l
    by (simp add: interrupt_def bus_step_def vect_MR master_store_def TWI_BUFFER_LENGTH_def twi_reply_eq add.commute)
  then have "wait_while cb P (Proceed # es) s = wait_while cb P es ?t" for es
    using Suc.prems(1,8) by (simp add: wait_while.simps)
  moreover have "wait_while cb P (replicate (33 - Suc i) Proceed @ evs) ?t = Inl Overrun"
    by (rule Suc.hyps(1)) (use Suc.prems Suc.hyps(2) in \<open>simp_all add: twcr_bits\<close>)
  moreover have "33 - i = Suc (33 - Suc i)" using i(2) by simp
  ultimately show ?case by simp
qed

text \<open>
  A read of zero bytes is not safe: the expected length wraps around to 255, the handler keeps
  acknowledging, and with a device that answers the 33rd received byte is written past the end of the
  32-byte buffer.
\<close>

theorem zero_length_read_overruns:
  assumes "master_ready s" and "address < 128" and "slave_addr s = address"
  shows "twi_readFrom cb address 0 stop
    (replicate ((if twi_inRepStart s then 0 else 1) + (1 + 33)) Proceed @ evs) s = Inl Overrun"
proof -
  define s1 where "s1 = s\<lparr>twi_state := TWI_MRX, twi_sendStop := stop, twi_error := 0xFF,
    twi_masterBufferIndex := 0, twi_masterBufferLength := 0 - 1, twi_slarw := 1 OR push_bit 1 address\<rparr>"
  let ?P = "\<lambda>st. st = TWI_MRX" and ?es = "replicate (1 + 33) Proceed @ evs"
  have "phase s1 = (if twi_inRepStart s1 then Started else Idle)" "?P (twi_state s1)"
    using assms(1) by (simp_all add: s1_def master_ready_def)
  from begin_addressed [where P = ?P and cb = cb and evs = ?es, OF this] obtain c r where
    w: "wait_while cb ?P (replicate (if twi_inRepStart s1 then 0 else 1) Proceed @ ?es) (begin_transfer s1) =
      wait_while cb ?P ?es
        (s1\<lparr>twi_inRepStart := False, TWDR := twi_slarw s1, TWCR := c, TWSR := r, phase := Started\<rparr>)"
    and c: "\<not> bit c TWSTA" by blast
  define u where "u = s1\<lparr>twi_inRepStart := False, TWDR := twi_slarw s1, TWCR := c, TWSR := r, phase := Started\<rparr>"
  let ?v = "u\<lparr>TWSR := 0x40, phase := Receiving, TWCR := twcr [2, 0, 7, 6]\<rparr>"
  have i: "interrupt cb Proceed u = Inr ?v"
    using c assms slarw_bits [OF assms(2), of 1]
    by (simp add: interrupt_def bus_step_def u_def s1_def vect_MR twi_reply_eq word_gt_0)
  have "wait_while cb ?P (replicate (33 - 0) Proceed @ evs) ?v = Inl Overrun"
    by (rule flood) (simp_all add: twcr_bits u_def s1_def)
  moreover have "wait_while cb ?P ?es u = wait_while cb ?P (replicate 33 Proceed @ evs) ?v"
    unfolding replicate_add append_assoc using wait_step [OF i, of ?P] by (simp add: u_def s1_def)
  ultimately have o: "wait_while cb ?P ?es u = Inl Overrun" by simp
  have "twi_state s = TWI_READY" "unat (0 :: u8) \<le> 32" using assms(1) by (simp_all add: master_ready_def)
  note e = twi_readFrom_ready [where len = 0, OF this, of cb address stop, folded s1_def]
  have "twi_inRepStart s1 = twi_inRepStart s" by (simp add: s1_def)
  then show ?thesis unfolding e replicate_add [of "if twi_inRepStart s then 0 else 1"] append_assoc
    using w o by (simp add: u_def [symmetric])
qed


theorem zero_length_read_overruns_witness:
  "twi_readFrom no_callbacks 0x68 0 1 (replicate 35 Proceed) demo_twi = Inl Overrun"
  using zero_length_read_overruns [of demo_twi "0x68" no_callbacks 1 "[]"] demo_ready
  by (simp add: word_less_nat_alt)

end
