(* ===== verification/Wire.thy ===== *)
theory Wire
  imports Twi
begin

text \<open>
  The class \<^verbatim>\<open>TwoWire\<close> of the Wire library (\<^verbatim>\<open>Wire.cpp\<close>): the transmit and the receive buffer above the
  functions of \<^verbatim>\<open>twi.c\<close>. The interface of \<^verbatim>\<open>twi.h\<close> is the record \<open>bus\<close>, an argument of the class; at the end
  it is the module of theory \<^verbatim>\<open>Twi\<close> with devices behind it. The drivers of the chips on the bus use
  this theory through the locale \<open>wire_bus\<close>. The text of the class that makes one call from several
  argument types is one definition.
\<close>

section \<open>The class\<close>

record 'b bus =
  bus_init :: "'b \<Rightarrow> 'b"
  bus_disable :: "'b \<Rightarrow> 'b"
  bus_setAddress :: "u8 \<Rightarrow> 'b \<Rightarrow> 'b"
  bus_setFrequency :: "u32 \<Rightarrow> 'b \<Rightarrow> 'b"
  writeTo :: "u8 \<Rightarrow> u8 list \<Rightarrow> u8 \<Rightarrow> 'b \<Rightarrow> fault + u8 \<times> 'b"
  readFrom :: "u8 \<Rightarrow> u8 \<Rightarrow> u8 \<Rightarrow> 'b \<Rightarrow> fault + u8 \<times> u8 list \<times> 'b"
  transmit :: "u8 list \<Rightarrow> 'b \<Rightarrow> u8 \<times> 'b"

record 'b wire =
  rxBuffer :: "u8 list"
  rxBufferIndex :: u8
  rxBufferLength :: u8
  txAddress :: u8
  txBuffer :: "u8 list"
  txBufferIndex :: u8
  txBufferLength :: u8
  transmitting :: bool
  attached :: bool
  write_error :: bool
  bus_of :: 'b

definition BUFFER_LENGTH :: nat where "BUFFER_LENGTH = 32"

definition Wire_begin :: "'b bus \<Rightarrow> 'b wire \<Rightarrow> 'b wire" where
  "Wire_begin B w = w\<lparr>rxBufferIndex := 0, rxBufferLength := 0, txBufferIndex := 0, txBufferLength := 0,
     bus_of := bus_init B (bus_of w)\<rparr>"

definition Wire_begin_slave :: "'b bus \<Rightarrow> u8 \<Rightarrow> 'b wire \<Rightarrow> 'b wire" where
  "Wire_begin_slave B address w = Wire_begin B (w\<lparr>bus_of := bus_setAddress B address (bus_of w), attached := True\<rparr>)"

definition Wire_end :: "'b bus \<Rightarrow> 'b wire \<Rightarrow> 'b wire" where
  "Wire_end B w = w\<lparr>bus_of := bus_disable B (bus_of w)\<rparr>"

definition Wire_setClock :: "'b bus \<Rightarrow> u32 \<Rightarrow> 'b wire \<Rightarrow> 'b wire" where
  "Wire_setClock B clock w = w\<lparr>bus_of := bus_setFrequency B clock (bus_of w)\<rparr>"

definition beginTransmission :: "u8 \<Rightarrow> 'b wire \<Rightarrow> 'b wire" where
  "beginTransmission address w = w\<lparr>transmitting := True, txAddress := address, txBufferIndex := 0, txBufferLength := 0\<rparr>"

definition endTransmission :: "'b bus \<Rightarrow> u8 \<Rightarrow> 'b wire \<Rightarrow> fault + u8 \<times> 'b wire" where
  "endTransmission B sendStop w =
    andThen (writeTo B (txAddress w) (take (unat (txBufferLength w)) (txBuffer w)) sendStop (bus_of w))
      (\<lambda>(ret, b). Inr (ret, w\<lparr>bus_of := b, txBufferIndex := 0, txBufferLength := 0, transmitting := False\<rparr>))"

definition Wire_write :: "'b bus \<Rightarrow> u8 \<Rightarrow> 'b wire \<Rightarrow> fault + nat \<times> 'b wire" where
  "Wire_write B data w =
    (if transmitting w
     then if BUFFER_LENGTH \<le> unat (txBufferLength w) then Inr (0, w\<lparr>write_error := True\<rparr>)
          else if unat (txBufferIndex w) < length (txBuffer w)
          then Inr (1, w\<lparr>txBuffer := (txBuffer w)[unat (txBufferIndex w) := data],
                 txBufferIndex := txBufferIndex w + 1, txBufferLength := txBufferIndex w + 1\<rparr>)
          else Inl Overrun
     else Inr (1, w\<lparr>bus_of := snd (transmit B [data] (bus_of w))\<rparr>))"

fun write_each :: "'b bus \<Rightarrow> u8 list \<Rightarrow> 'b wire \<Rightarrow> fault + 'b wire" where
  "write_each B [] w = Inr w"
| "write_each B (d # ds) w = andThen (Wire_write B d w) (\<lambda>(_, w). write_each B ds w)"

definition Wire_write_bytes :: "'b bus \<Rightarrow> u8 list \<Rightarrow> 'b wire \<Rightarrow> fault + nat \<times> 'b wire" where
  "Wire_write_bytes B ds w =
    (if transmitting w then andThen (write_each B ds w) (\<lambda>w. Inr (length ds, w))
     else Inr (length ds, w\<lparr>bus_of := snd (transmit B ds (bus_of w))\<rparr>))"

text \<open>The bytes of an internal address, the most significant first: \<^verbatim>\<open>while (isize-- > 0)\<close>.\<close>

fun internal_address :: "nat \<Rightarrow> u32 \<Rightarrow> u8 list" where
  "internal_address 0 iaddress = []"
| "internal_address (Suc isize) iaddress = ucast (drop_bit (isize * 8) iaddress) # internal_address isize iaddress"

definition requestFrom :: "'b bus \<Rightarrow> u8 \<Rightarrow> u8 \<Rightarrow> u32 \<Rightarrow> u8 \<Rightarrow> u8 \<Rightarrow> 'b wire \<Rightarrow> fault + u8 \<times> 'b wire" where
  "requestFrom B address quantity iaddress isize sendStop w =
    andThen
      (if 0 < isize
       then andThen (write_each B (internal_address (unat (if 3 < isize then 3 else isize)) iaddress)
              (beginTransmission address w))
            (\<lambda>w. andThen (endTransmission B 0 w) (\<lambda>(_, w). Inr w))
       else Inr w)
      (\<lambda>w. let quantity = (if BUFFER_LENGTH < unat quantity then of_nat BUFFER_LENGTH else quantity)
        in andThen (readFrom B address quantity sendStop (bus_of w))
          (\<lambda>(n, bytes, b). if length (rxBuffer w) < length bytes then Inl Overrun
             else Inr (n, w\<lparr>rxBuffer := bytes @ drop (length bytes) (rxBuffer w), rxBufferIndex := 0,
               rxBufferLength := n, bus_of := b\<rparr>)))"

definition Wire_available :: "'b wire \<Rightarrow> int" where
  "Wire_available w = uint (rxBufferLength w) - uint (rxBufferIndex w)"

definition Wire_read :: "'b wire \<Rightarrow> int \<times> 'b wire" where
  "Wire_read w =
    (if rxBufferIndex w < rxBufferLength w
     then (uint (rxBuffer w ! unat (rxBufferIndex w)), w\<lparr>rxBufferIndex := rxBufferIndex w + 1\<rparr>)
     else (- 1, w))"

definition Wire_peek :: "'b wire \<Rightarrow> int" where
  "Wire_peek w = (if rxBufferIndex w < rxBufferLength w then uint (rxBuffer w ! unat (rxBufferIndex w)) else - 1)"

text \<open>The services of the slave side; the functions of the user, which may be absent, are arguments.\<close>

definition onReceiveService :: "(int \<Rightarrow> 'b wire \<Rightarrow> 'b wire) option \<Rightarrow> u8 list \<Rightarrow> 'b wire \<Rightarrow> fault + 'b wire" where
  "onReceiveService user inBytes w =
    (case user of None \<Rightarrow> Inr w
     | Some f \<Rightarrow>
       if rxBufferIndex w < rxBufferLength w then Inr w
       else if length (rxBuffer w) < length inBytes then Inl Overrun
       else Inr (f (int (length inBytes)) (w\<lparr>rxBuffer := inBytes @ drop (length inBytes) (rxBuffer w),
              rxBufferIndex := 0, rxBufferLength := of_nat (length inBytes)\<rparr>)))"

definition onRequestService :: "('b wire \<Rightarrow> 'b wire) option \<Rightarrow> 'b wire \<Rightarrow> 'b wire" where
  "onRequestService user w =
    (case user of None \<Rightarrow> w | Some f \<Rightarrow> f (w\<lparr>txBufferIndex := 0, txBufferLength := 0\<rparr>))"

section \<open>Devices and what a bus promises\<close>

text \<open>
  The devices on a bus, seen from the master: which addresses answer, how many bytes of a write they
  acknowledge, what they do with the bytes, which bytes a read gets and what it moves.
\<close>

record 'c chips =
  answers :: "u8 \<Rightarrow> 'c \<Rightarrow> bool"
  takes :: "u8 \<Rightarrow> 'c \<Rightarrow> nat"
  receive :: "u8 \<Rightarrow> u8 list \<Rightarrow> 'c \<Rightarrow> 'c"
  sends :: "u8 \<Rightarrow> 'c \<Rightarrow> nat \<Rightarrow> u8"
  advance :: "u8 \<Rightarrow> nat \<Rightarrow> 'c \<Rightarrow> 'c"

definition write_code :: "'c chips \<Rightarrow> u8 \<Rightarrow> nat \<Rightarrow> 'c \<Rightarrow> u8" where
  "write_code D a n c = (if \<not> answers D a c then 2 else if takes D a c < n then 3 else 0)"

definition after_write :: "'c chips \<Rightarrow> u8 \<Rightarrow> u8 list \<Rightarrow> 'c \<Rightarrow> 'c" where
  "after_write D a ds c = (if answers D a c then receive D a (take (takes D a c) ds) c else c)"

definition read_bytes :: "'c chips \<Rightarrow> u8 \<Rightarrow> nat \<Rightarrow> 'c \<Rightarrow> u8 list" where
  "read_bytes D a n c = (if answers D a c then map (sends D a c) [0..<n] else [])"

definition after_read :: "'c chips \<Rightarrow> u8 \<Rightarrow> nat \<Rightarrow> 'c \<Rightarrow> 'c" where
  "after_read D a n c = (if answers D a c then advance D a n c else c)"

definition wire_ok :: "'b wire \<Rightarrow> bool" where
  "wire_ok w \<longleftrightarrow> length (txBuffer w) = 32 \<and> length (rxBuffer w) = 32 \<and> rxBufferIndex w \<le> rxBufferLength w \<and>
     rxBufferLength w \<le> 32"

text \<open>The bytes that were received and not yet read.\<close>

definition pending :: "'b wire \<Rightarrow> u8 list" where
  "pending w = drop (unat (rxBufferIndex w)) (take (unat (rxBufferLength w)) (rxBuffer w))"

text \<open>A whole write of a driver: address, bytes, and a stop or a repeated start.\<close>

definition send_with :: "'b bus \<Rightarrow> u8 \<Rightarrow> u8 \<Rightarrow> u8 list \<Rightarrow> 'b wire \<Rightarrow> fault + u8 \<times> 'b wire" where
  "send_with B stop a ds w = andThen (write_each B ds (beginTransmission a w)) (endTransmission B stop)"

definition send_bytes :: "'b bus \<Rightarrow> u8 \<Rightarrow> u8 list \<Rightarrow> 'b wire \<Rightarrow> fault + u8 \<times> 'b wire" where
  "send_bytes B a ds w = send_with B 1 a ds w"

text \<open>Reading several bytes one after the other.\<close>

fun read_n :: "nat \<Rightarrow> 'b wire \<Rightarrow> int list \<times> 'b wire" where
  "read_n 0 w = ([], w)"
| "read_n (Suc n) w = (let (v, w) = Wire_read w; (vs, w) = read_n n w in (v # vs, w))"

section \<open>The buffers\<close>

lemma write_each_fills:
  assumes "transmitting w" "length (txBuffer w) = 32" "unat (txBufferIndex w) = k" "txBufferLength w = txBufferIndex w"
    "k + length ds \<le> 32"
  shows "write_each B ds w = Inr (w\<lparr>txBuffer := take k (txBuffer w) @ ds @ drop (k + length ds) (txBuffer w),
    txBufferIndex := of_nat (k + length ds), txBufferLength := of_nat (k + length ds)\<rparr>)"
  using assms
proof (induction ds arbitrary: w k)
  case Nil
  then have "txBufferIndex w = of_nat k" by auto
  with Nil show ?case by simp
next
  case (Cons d ds)
  let ?w = "w\<lparr>txBuffer := (txBuffer w)[k := d], txBufferIndex := txBufferIndex w + 1, txBufferLength := txBufferIndex w + 1\<rparr>"
  have k: "k < 32" using Cons(6) by simp
  have w: "Wire_write B d w = Inr (1, ?w)" using Cons(2-5) k by (simp add: Wire_write_def BUFFER_LENGTH_def)
  have i: "unat (txBufferIndex ?w) = Suc k" using Cons(4) k by (simp add: unat_word_ariths)
  have "take (Suc k) ((txBuffer w)[k := d]) = take k (txBuffer w) @ [d]"
    using k Cons(3) by (simp add: take_Suc_conv_app_nth)
  with Cons(1) [of ?w "Suc k"] Cons(2-6) i show ?case by (simp add: w)
qed

lemma send_with_fills:
  assumes "wire_ok w" "length ds \<le> 32"
  shows "\<exists>buf. length buf = 32 \<and> send_with B stop a ds w = andThen (writeTo B a ds stop (bus_of w))
    (\<lambda>(ret, b). Inr (ret, w\<lparr>txAddress := a, txBuffer := buf, bus_of := b, txBufferIndex := 0, txBufferLength := 0,
       transmitting := False\<rparr>))"
proof -
  let ?w = "beginTransmission a w"
  have "write_each B ds ?w = Inr (?w\<lparr>txBuffer := take 0 (txBuffer ?w) @ ds @ drop (0 + length ds) (txBuffer ?w),
      txBufferIndex := of_nat (0 + length ds), txBufferLength := of_nat (0 + length ds)\<rparr>)"
    by (rule write_each_fills) (use assms in \<open>simp_all add: beginTransmission_def wire_ok_def\<close>)
  then show ?thesis using assms
    by (intro exI [of _ "ds @ drop (length ds) (txBuffer w)"])
      (simp add: send_with_def endTransmission_def beginTransmission_def wire_ok_def unat_u8_32)
qed

lemma Wire_read_pending:
  assumes "wire_ok w" "pending w = x # xs"
  shows "Wire_read w = (uint x, w\<lparr>rxBufferIndex := rxBufferIndex w + 1\<rparr>)"
    "wire_ok (w\<lparr>rxBufferIndex := rxBufferIndex w + 1\<rparr>)" "pending (w\<lparr>rxBufferIndex := rxBufferIndex w + 1\<rparr>) = xs"
proof -
  have i: "rxBufferIndex w < rxBufferLength w" and ln: "unat (rxBufferLength w) \<le> 32"
    using assms by (auto simp: pending_def wire_ok_def word_less_nat_alt word_le_nat_alt intro: ccontr)
  have u: "unat (rxBufferIndex w + 1) = Suc (unat (rxBufferIndex w))" by (rule u8_inc_unat [OF i])
  have d: "pending w = rxBuffer w ! unat (rxBufferIndex w) # pending (w\<lparr>rxBufferIndex := rxBufferIndex w + 1\<rparr>)"
    unfolding pending_def using i assms(1) ln
    by (simp add: u Cons_nth_drop_Suc [symmetric] word_less_nat_alt wire_ok_def)
  show "Wire_read w = (uint x, w\<lparr>rxBufferIndex := rxBufferIndex w + 1\<rparr>)"
      "pending (w\<lparr>rxBufferIndex := rxBufferIndex w + 1\<rparr>) = xs"
    using d assms(2) i by (simp_all add: Wire_read_def)
  show "wire_ok (w\<lparr>rxBufferIndex := rxBufferIndex w + 1\<rparr>)"
    using assms(1) u8_inc_le [OF i] by (simp add: wire_ok_def)
qed

lemma Wire_read_empty: "pending w = [] \<Longrightarrow> wire_ok w \<Longrightarrow> Wire_read w = (- 1, w)"
  by (auto simp: pending_def wire_ok_def Wire_read_def word_less_nat_alt word_le_nat_alt)

lemma read_n_pending:
  assumes "wire_ok w" "pending w = xs @ ys" "n = length xs"
  shows "\<exists>i. read_n n w = (map uint xs, w\<lparr>rxBufferIndex := i\<rparr>) \<and> wire_ok (w\<lparr>rxBufferIndex := i\<rparr>) \<and>
    pending (w\<lparr>rxBufferIndex := i\<rparr>) = ys"
  using assms
proof (induction xs arbitrary: w n)
  case Nil
  then show ?case by (intro exI [of _ "rxBufferIndex w"]) simp
next
  case (Cons x xs)
  note r = Wire_read_pending [OF Cons(2), of x "xs @ ys"]
  from Cons(1) [OF r(2) r(3)] Cons(3) obtain i where
    "read_n (length xs) (w\<lparr>rxBufferIndex := rxBufferIndex w + 1\<rparr>) = (map uint xs, w\<lparr>rxBufferIndex := i\<rparr>)"
    "wire_ok (w\<lparr>rxBufferIndex := i\<rparr>)" "pending (w\<lparr>rxBufferIndex := i\<rparr>) = ys" by auto
  then show ?case using Cons(3,4) r(1) by (intro exI [of _ i]) simp
qed

lemma read_n_empty: "pending w = [] \<Longrightarrow> wire_ok w \<Longrightarrow> read_n n w = (replicate n (- 1), w)"
  by (induction n) (simp_all add: Wire_read_empty)

section \<open>What a bus promises\<close>

text \<open>A bus that carries out the transfers of the devices \<open>D\<close> behind it.\<close>

locale wire_bus =
  fixes B :: "'b bus" and D :: "'c chips" and ready :: "'b \<Rightarrow> bool" and dev :: "'b \<Rightarrow> 'c"
  assumes written: "ready b \<Longrightarrow> a < 128 \<Longrightarrow> length ds \<le> 32 \<Longrightarrow>
      \<exists>b'. writeTo B a ds stop b = Inr (write_code D a (length ds) (dev b), b') \<and> ready b' \<and>
        dev b' = after_write D a ds (dev b)"
    and fetched: "ready b \<Longrightarrow> a < 128 \<Longrightarrow> 0 < n \<Longrightarrow> n \<le> 32 \<Longrightarrow>
      \<exists>b'. readFrom B a n stop b = Inr (if answers D a (dev b) then n else 0, read_bytes D a (unat n) (dev b), b') \<and>
        ready b' \<and> dev b' = after_read D a (unat n) (dev b)"
begin

definition good :: "'b wire \<Rightarrow> bool" where
  "good w \<longleftrightarrow> wire_ok w \<and> ready (bus_of w)"

definition chip :: "'b wire \<Rightarrow> 'c" where
  "chip w = dev (bus_of w)"

lemma send_any:
  assumes "good w" "a < 128" "length ds \<le> 32"
  shows "\<exists>w'. send_with B stop a ds w = Inr (write_code D a (length ds) (chip w), w') \<and> good w' \<and>
    chip w' = after_write D a ds (chip w) \<and> pending w' = pending w \<and> txAddress w' = a \<and> txBufferLength w' = 0"
proof -
  obtain buf where b: "length buf = 32" "send_with B stop a ds w = andThen (writeTo B a ds stop (bus_of w))
    (\<lambda>(ret, b). Inr (ret, w\<lparr>txAddress := a, txBuffer := buf, bus_of := b, txBufferIndex := 0, txBufferLength := 0,
       transmitting := False\<rparr>))"
    using send_with_fills [of w ds B stop a] assms by (auto simp: good_def)
  from written [of "bus_of w" a ds stop] assms show ?thesis
    by (auto simp: b good_def chip_def wire_ok_def pending_def)
qed

lemmas send = send_any [where stop = 1, folded send_bytes_def]

text \<open>Ending a transmission that was not begun writes no byte to the last address.\<close>

lemma finish:
  assumes "good w" "txAddress w < 128" "txBufferLength w = 0"
  shows "\<exists>w'. endTransmission B stop w = Inr (write_code D (txAddress w) 0 (chip w), w') \<and> good w' \<and>
    chip w' = after_write D (txAddress w) [] (chip w)"
  using written [of "bus_of w" "txAddress w" "[]" stop] assms
  by (auto simp: endTransmission_def good_def chip_def wire_ok_def)

lemma request:
  assumes "good w" "a < 128" "0 < n" "n \<le> 32"
  shows "\<exists>w'. requestFrom B a n 0 0 stop w = Inr (if answers D a (chip w) then n else 0, w') \<and> good w' \<and>
    chip w' = after_read D a (unat n) (chip w) \<and> pending w' = read_bytes D a (unat n) (chip w) \<and>
    txAddress w' = txAddress w \<and> txBufferLength w' = txBufferLength w"
proof -
  have n: "unat n \<le> 32" using assms(4) by (simp add: word_le_nat_alt)
  have len: "length (read_bytes D a (unat n) c) = (if answers D a c then unat n else 0)" for c
    by (simp add: read_bytes_def)
  from fetched [of "bus_of w" a n stop] assms obtain b' where
    "readFrom B a n stop (bus_of w) = Inr (if answers D a (chip w) then n else 0, read_bytes D a (unat n) (chip w), b')"
    "ready b'" "dev b' = after_read D a (unat n) (chip w)" by (auto simp: good_def chip_def)
  then show ?thesis using assms(1,4) n len [of "chip w"]
    by (auto simp: requestFrom_def BUFFER_LENGTH_def good_def chip_def wire_ok_def pending_def Let_def)
qed

lemma reads:
  assumes "good w" "pending w = xs @ ys" "n = length xs"
  shows "\<exists>w'. read_n n w = (map uint xs, w') \<and> good w' \<and> chip w' = chip w \<and> pending w' = ys \<and>
    txAddress w' = txAddress w \<and> txBufferLength w' = txBufferLength w"
  using read_n_pending [OF _ assms(2,3)] assms(1) by (force simp: good_def chip_def)

end

section \<open>The two-wire module as a bus\<close>

text \<open>
  The module of theory \<^verbatim>\<open>Twi\<close> with devices on its bus, which no other master disturbs. For each transfer the bus
  of that theory is set to what the addressed device does; the 35 interrupts offered are enough for the
  start condition, the address and 32 bytes, and one for an answer that ends a write.
\<close>

record 'c line =
  module :: twi
  on_line :: 'c

definition offer :: "'c chips \<Rightarrow> u8 \<Rightarrow> nat \<Rightarrow> 'c line \<Rightarrow> twi" where
  "offer D a n l = (module l)\<lparr>slave_addr := (if answers D a (on_line l) then a else a XOR 1),
     slave_accepts := takes D a (on_line l), slave_got := [], slave_sends := map (sends D a (on_line l)) [0..<n]\<rparr>"

definition line_writeTo :: "callbacks \<Rightarrow> 'c chips \<Rightarrow> u8 \<Rightarrow> u8 list \<Rightarrow> u8 \<Rightarrow> 'c line \<Rightarrow> fault + u8 \<times> 'c line" where
  "line_writeTo cb D a ds stop l =
    andThen (twi_writeTo cb a ds True stop (replicate 35 Proceed) (offer D a 0 l))
      (\<lambda>(ret, t, _). Inr (ret, \<lparr>module = t, on_line =
         (if answers D a (on_line l) then receive D a (slave_got t) (on_line l) else on_line l)\<rparr>))"

definition line_readFrom :: "callbacks \<Rightarrow> 'c chips \<Rightarrow> u8 \<Rightarrow> u8 \<Rightarrow> u8 \<Rightarrow> 'c line \<Rightarrow> fault + u8 \<times> u8 list \<times> 'c line" where
  "line_readFrom cb D a n stop l =
    andThen (twi_readFrom cb a n stop (replicate 35 Proceed) (offer D a (unat n) l))
      (\<lambda>(ret, bytes, t, _). Inr (ret, bytes, \<lparr>module = t, on_line =
         (if answers D a (on_line l) then advance D a (unat ret) (on_line l) else on_line l)\<rparr>))"

definition on_module :: "(twi \<Rightarrow> twi option) \<Rightarrow> 'c line \<Rightarrow> 'c line" where
  "on_module f l = (case f (module l) of None \<Rightarrow> l | Some t \<Rightarrow> l\<lparr>module := t\<rparr>)"

definition twi_bus :: "mcu \<Rightarrow> callbacks \<Rightarrow> 'c chips \<Rightarrow> 'c line bus" where
  "twi_bus M cb D = \<lparr>bus_init = on_module (twi_init M), bus_disable = on_module (twi_disable M),
     bus_setAddress = (\<lambda>a. on_module (\<lambda>s. Some (twi_setAddress a s))),
     bus_setFrequency = (\<lambda>f. on_module (\<lambda>s. Some (twi_setFrequency M f s))),
     writeTo = line_writeTo cb D, readFrom = line_readFrom cb D,
     transmit = (\<lambda>ds l. let (ret, t) = twi_transmit ds (module l) in (ret, l\<lparr>module := t\<rparr>))\<rparr>"

lemma xor_1_neq: "a XOR 1 \<noteq> a" for a :: u8
proof
  assume "a XOR 1 = a"
  then have "bit (a XOR 1) 0 = bit a 0" by simp
  then show False by (simp add: bit_xor_iff)
qed

lemma enough_interrupts: "n \<le> 35 \<Longrightarrow> replicate 35 Proceed = replicate n Proceed @ replicate (35 - n) Proceed"
  by (simp add: replicate_add [symmetric])

interpretation twi_line: wire_bus "twi_bus M cb D" D "\<lambda>l. master_ready (module l)" on_line for M cb D
proof
  fix b :: "'a line" and a n stop :: u8 and ds :: "u8 list"
  let ?c = "on_line b"
  assume r: "master_ready (module b)" and a: "a < 128"
  have o: "master_ready (offer D a k b)" "twi_inRepStart (offer D a k b) = twi_inRepStart (module b)" for k
    using r by (simp_all add: offer_def master_ready_def)
  show "\<exists>b'. writeTo (twi_bus M cb D) a ds stop b = Inr (write_code D a (length ds) ?c, b') \<and>
      master_ready (module b') \<and> on_line b' = after_write D a ds ?c" if ds: "length ds \<le> 32"
  proof -
    let ?s = "offer D a 0 b"
    let ?n = "(if twi_inRepStart ?s then 0 else 1) + (if slave_addr ?s \<noteq> a then 1
        else if slave_accepts ?s < length ds then slave_accepts ?s + 2 else length ds + 1)"
    have "?n \<le> 35" using ds by simp
    from writeTo_outcome [OF o(1) [of 0] a ds, where cb = cb and stop = stop and evs = "replicate (35 - ?n) Proceed", folded enough_interrupts [OF this]]
    show ?thesis using xor_1_neq [of a]
      by (auto simp: twi_bus_def line_writeTo_def write_code_def after_write_def offer_def)
  qed
  show "\<exists>b'. readFrom (twi_bus M cb D) a n stop b = Inr (if answers D a ?c then n else 0, read_bytes D a (unat n) ?c, b') \<and>
      master_ready (module b') \<and> on_line b' = after_read D a (unat n) ?c" if n: "0 < n" "n \<le> 32"
  proof -
    let ?s = "offer D a (unat n) b"
    let ?n = "(if twi_inRepStart ?s then 0 else 1) + (1 + (if slave_addr ?s = a then unat n else 0))"
    have "?n \<le> 35" "unat n \<le> length (slave_sends ?s)" using n(2) by (simp_all add: word_le_nat_alt offer_def)
    from readFrom_outcome [OF o(1) a n this(2), where cb = cb and stop = stop and evs = "replicate (35 - ?n) Proceed", folded enough_interrupts [OF this(1)]]
    show ?thesis using xor_1_neq [of a]
      by (auto simp: twi_bus_def line_readFrom_def read_bytes_def after_read_def offer_def)
  qed
qed

text \<open>A fresh object of the class on an idle module, with devices in the state \<open>c\<close>.\<close>

definition idle_wire :: "'c \<Rightarrow> 'c line wire" where
  "idle_wire c = \<lparr>rxBuffer = replicate 32 0, rxBufferIndex = 0, rxBufferLength = 0, txAddress = 0, txBuffer = replicate 32 0,
     txBufferIndex = 0, txBufferLength = 0, transmitting = False, attached = False, write_error = False,
     bus_of = \<lparr>module = demo_twi, on_line = c\<rparr>\<rparr>"

lemma idle_wire_ok: "wire_ok (idle_wire c)" "master_ready (module (bus_of (idle_wire c)))" "on_line (bus_of (idle_wire c)) = c"
  by (simp_all add: idle_wire_def wire_ok_def demo_ready)

end
