(* ===== verification/Clock_Chip.thy ===== *)
theory Clock_Chip
  imports Wire Calendar
begin

text \<open>
  The driver of the clock chip MCP7941x (\<^verbatim>\<open>firmware/MCP79412RTC.cpp\<close>) over the class of theory \<^verbatim>\<open>Wire\<close>: time of
  day, battery-backed memory, the EEPROM of the chip, calibration, identity, power-failure time
  stamps, alarms. The bus is the argument \<open>B\<close>. A function that fails does so with a fault of the bus; the
  conversion of a date that leaves the table of months is \<open>None\<close> inside the result.
\<close>

section \<open>Registers\<close>

definition RTC_ADDR :: u8 where "RTC_ADDR = 0x6F"
definition EEPROM_ADDR :: u8 where "EEPROM_ADDR = 0x57"
definition TIME_REG :: u8 where "TIME_REG = 0"
definition DAY_REG :: u8 where "DAY_REG = 3"
definition YEAR_REG :: u8 where "YEAR_REG = 6"
definition CTRL_REG :: u8 where "CTRL_REG = 7"
definition CALIB_REG :: u8 where "CALIB_REG = 8"
definition ALM0_REG :: u8 where "ALM0_REG = 0x0A"
definition ALM1_REG :: u8 where "ALM1_REG = 0x11"
definition ALM0_DAY :: u8 where "ALM0_DAY = 0x0D"
definition PWRDWN_TS_REG :: u8 where "PWRDWN_TS_REG = 0x18"
definition TIMESTAMP_SIZE :: u8 where "TIMESTAMP_SIZE = 8"
definition SRAM_START_ADDR :: u8 where "SRAM_START_ADDR = 0x20"
definition SRAM_SIZE :: nat where "SRAM_SIZE = 64"
definition EEPROM_SIZE :: nat where "EEPROM_SIZE = 128"
definition EEPROM_PAGE_SIZE :: nat where "EEPROM_PAGE_SIZE = 8"
definition UNIQUE_ID_ADDR :: u8 where "UNIQUE_ID_ADDR = 0xF0"
definition UNIQUE_ID_SIZE :: u8 where "UNIQUE_ID_SIZE = 8"

definition OUT_BIT :: nat where "OUT_BIT = 7"
definition SQWE :: nat where "SQWE = 6"
definition ALM0 :: nat where "ALM0 = 4"
definition ST :: nat where "ST = 7"
definition HR1224 :: nat where "HR1224 = 6"
definition OSCON :: nat where "OSCON = 5"
definition VBAT :: nat where "VBAT = 4"
definition VBATEN :: nat where "VBATEN = 3"
definition LP :: nat where "LP = 5"
definition ALMIF :: nat where "ALMIF = 3"
definition ALM_DISABLE :: u8 where "ALM_DISABLE = 8"

definition dec2bcd :: "u8 \<Rightarrow> u8" where
  "dec2bcd n = n + 6 * (n div 10)"

definition bcd2dec :: "u8 \<Rightarrow> u8" where
  "bcd2dec n = n - 6 * drop_bit 4 n"

definition tmYearToY2k :: "u8 \<Rightarrow> u8" where "tmYearToY2k y = y - 30"
definition y2kYearToTm :: "u8 \<Rightarrow> u8" where "y2kYearToTm y = y + 30"

section \<open>Memory of the chip\<close>

definition ramWrite :: "'b bus \<Rightarrow> u8 \<Rightarrow> u8 list \<Rightarrow> 'b wire \<Rightarrow> fault + 'b wire" where
  "ramWrite B addr values w = andThen (send_bytes B RTC_ADDR (addr # values) w) (\<lambda>(_, w). Inr w)"

definition fetch :: "'b bus \<Rightarrow> u8 \<Rightarrow> u8 \<Rightarrow> u8 \<Rightarrow> 'b wire \<Rightarrow> fault + u8 list \<times> 'b wire" where
  "fetch B chip_addr addr nBytes w =
    andThen (send_bytes B chip_addr [addr] w) (\<lambda>(_, w).
    andThen (requestFrom B chip_addr nBytes 0 0 1 w) (\<lambda>(_, w).
      let (vs, w) = read_n (unat nBytes) w in Inr (map word_of_int vs, w)))"

definition ramRead :: "'b bus \<Rightarrow> u8 \<Rightarrow> u8 \<Rightarrow> 'b wire \<Rightarrow> fault + u8 list \<times> 'b wire" where
  "ramRead B addr nBytes w = fetch B RTC_ADDR addr nBytes w"

definition ramRead1 :: "'b bus \<Rightarrow> u8 \<Rightarrow> 'b wire \<Rightarrow> fault + u8 \<times> 'b wire" where
  "ramRead1 B addr w = andThen (ramRead B addr 1 w) (\<lambda>(vs, w). Inr (hd vs, w))"

definition sram_address :: "u8 \<Rightarrow> u8" where
  "sram_address addr = (addr AND (of_nat SRAM_SIZE - 1)) + SRAM_START_ADDR"

definition sramWrite1 :: "'b bus \<Rightarrow> u8 \<Rightarrow> u8 \<Rightarrow> 'b wire \<Rightarrow> fault + 'b wire" where
  "sramWrite1 B addr value w = ramWrite B (sram_address addr) [value] w"

text \<open>An array comes with the number of its bytes; \<^verbatim>\<open>addr + nBytes\<close> is computed in 16 bits and does not wrap.\<close>

definition sramWrite :: "'b bus \<Rightarrow> u8 \<Rightarrow> u8 list \<Rightarrow> 'b wire \<Rightarrow> fault + 'b wire" where
  "sramWrite B addr values w =
    (if 1 \<le> length values \<and> length values \<le> BUFFER_LENGTH - 1 \<and> unat addr + length values \<le> SRAM_SIZE
     then ramWrite B (sram_address addr) values w else Inr w)"

definition sramRead1 :: "'b bus \<Rightarrow> u8 \<Rightarrow> 'b wire \<Rightarrow> fault + u8 \<times> 'b wire" where
  "sramRead1 B addr w = ramRead1 B (sram_address addr) w"

text \<open>The result is \<open>None\<close> when the array of the caller is left as it was.\<close>

definition sramRead :: "'b bus \<Rightarrow> u8 \<Rightarrow> u8 \<Rightarrow> 'b wire \<Rightarrow> fault + u8 list option \<times> 'b wire" where
  "sramRead B addr nBytes w =
    (if 1 \<le> nBytes \<and> unat nBytes \<le> BUFFER_LENGTH \<and> unat addr + unat nBytes \<le> SRAM_SIZE
     then andThen (ramRead B (sram_address addr) nBytes w) (\<lambda>(vs, w). Inr (Some vs, w)) else Inr (None, w))"

text \<open>\<^verbatim>\<open>eepromWait\<close> asks until the chip answers; \<open>None\<close> when it never does.\<close>

partial_function (option) wait_loop :: "'b bus \<Rightarrow> u8 \<Rightarrow> 'b wire \<Rightarrow> (fault + u8 \<times> 'b wire) option" where
  "wait_loop B waitCount w =
    (case send_bytes B EEPROM_ADDR [0] w of Inl e \<Rightarrow> Some (Inl e)
     | Inr (txStatus, w) \<Rightarrow> if txStatus \<noteq> 0 then wait_loop B (waitCount + 1) w else Some (Inr (waitCount + 1, w)))"

definition eepromWait :: "'b bus \<Rightarrow> 'b wire \<Rightarrow> (fault + u8 \<times> 'b wire) option" where
  "eepromWait B w = wait_loop B 0 w"

definition eeprom_send :: "'b bus \<Rightarrow> u8 \<Rightarrow> u8 list \<Rightarrow> 'b wire \<Rightarrow> (fault + 'b wire) option" where
  "eeprom_send B addr values w =
    (case send_bytes B EEPROM_ADDR (addr # values) w of Inl e \<Rightarrow> Some (Inl e)
     | Inr (_, w) \<Rightarrow> map_option (\<lambda>r. andThen r (\<lambda>(_, w). Inr w)) (eepromWait B w))"

definition eepromWrite1 :: "'b bus \<Rightarrow> u8 \<Rightarrow> u8 \<Rightarrow> 'b wire \<Rightarrow> (fault + 'b wire) option" where
  "eepromWrite1 B addr value w = eeprom_send B (addr AND (of_nat EEPROM_SIZE - 1)) [value] w"

definition eepromWrite :: "'b bus \<Rightarrow> u8 \<Rightarrow> u8 list \<Rightarrow> 'b wire \<Rightarrow> (fault + 'b wire) option" where
  "eepromWrite B addr values w =
    (if 1 \<le> length values \<and> length values \<le> EEPROM_PAGE_SIZE
     then eeprom_send B (addr AND NOT (of_nat EEPROM_PAGE_SIZE - 1) AND (of_nat EEPROM_SIZE - 1)) values w
     else Some (Inr w))"

definition eepromRead :: "'b bus \<Rightarrow> u8 \<Rightarrow> u8 \<Rightarrow> 'b wire \<Rightarrow> fault + u8 list option \<times> 'b wire" where
  "eepromRead B addr nBytes w =
    (if 1 \<le> nBytes \<and> unat nBytes \<le> BUFFER_LENGTH \<and> unat addr + unat nBytes \<le> EEPROM_SIZE
     then andThen (fetch B EEPROM_ADDR (addr AND (of_nat EEPROM_SIZE - 1)) nBytes w) (\<lambda>(vs, w). Inr (Some vs, w))
     else Inr (None, w))"

definition eepromRead1 :: "'b bus \<Rightarrow> u8 \<Rightarrow> 'b wire \<Rightarrow> fault + u8 list option \<times> 'b wire" where
  "eepromRead1 B addr w = eepromRead B (addr AND (of_nat EEPROM_SIZE - 1)) 1 w"

section \<open>Time of day\<close>

definition rtc_write :: "'b bus \<Rightarrow> tmElements \<Rightarrow> 'b wire \<Rightarrow> fault + 'b wire" where
  "rtc_write B tm w =
    andThen (send_bytes B RTC_ADDR [TIME_REG, 0x00, dec2bcd (Minute tm), dec2bcd (Hour tm), Wday tm OR BV VBATEN,
        dec2bcd (Day tm), dec2bcd (Month tm), dec2bcd (tmYearToY2k (Year tm))] w) (\<lambda>(_, w).
    andThen (send_bytes B RTC_ADDR [TIME_REG, dec2bcd (Second tm) OR BV ST] w) (\<lambda>(_, w). Inr w))"

text \<open>The bytes of the seven time registers as a date; the chip is assumed to run in 24-hour mode.\<close>

definition tm_of_registers :: "u8 list \<Rightarrow> tmElements" where
  "tm_of_registers vs = \<lparr>Second = bcd2dec (vs ! 0 AND NOT (BV ST)), Minute = bcd2dec (vs ! 1),
     Hour = bcd2dec (vs ! 2 AND NOT (BV HR1224)), Wday = vs ! 3 AND NOT (BV OSCON OR BV VBAT OR BV VBATEN),
     Day = bcd2dec (vs ! 4), Month = bcd2dec (vs ! 5 AND NOT (BV LP)), Year = y2kYearToTm (bcd2dec (vs ! 6))\<rparr>"

definition rtc_read :: "'b bus \<Rightarrow> 'b wire \<Rightarrow> fault + tmElements option \<times> 'b wire" where
  "rtc_read B w =
    andThen (send_bytes B RTC_ADDR [TIME_REG] w) (\<lambda>(ret, w).
      if ret \<noteq> 0 then Inr (None, w)
      else andThen (requestFrom B RTC_ADDR 7 0 0 1 w) (\<lambda>(_, w).
        let (vs, w) = read_n 7 w in Inr (Some (tm_of_registers (map word_of_int vs)), w)))"

definition rtc_get :: "'b bus \<Rightarrow> 'b wire \<Rightarrow> fault + u32 option \<times> 'b wire" where
  "rtc_get B w = andThen (rtc_read B w) (\<lambda>(r, w).
     case r of None \<Rightarrow> Inr (Some 0, w) | Some tm \<Rightarrow> Inr (makeTime tm, w))"

text \<open>\<^verbatim>\<open>breakTime\<close> ends for every time (theory \<^verbatim>\<open>Calendar\<close>), so the first case does not occur.\<close>

definition rtc_set :: "'b bus \<Rightarrow> u32 \<Rightarrow> 'b wire \<Rightarrow> (fault + 'b wire) option" where
  "rtc_set B t w = (case breakTime t of None \<Rightarrow> None | Some tm \<Rightarrow> Some (rtc_write B tm w))"

definition isRunning :: "'b bus \<Rightarrow> 'b wire \<Rightarrow> fault + bool \<times> 'b wire" where
  "isRunning B w =
    andThen (send_bytes B RTC_ADDR [TIME_REG] w) (\<lambda>(_, w).
    andThen (requestFrom B RTC_ADDR 1 0 0 1 w) (\<lambda>(_, w).
      let (v, w) = Wire_read w in Inr ((word_of_int v :: u8) AND BV ST \<noteq> 0, w)))"

section \<open>Calibration, identity\<close>

definition calibRead :: "'b bus \<Rightarrow> 'b wire \<Rightarrow> fault + int \<times> 'b wire" where
  "calibRead B w = andThen (ramRead1 B CALIB_REG w) (\<lambda>(val, w).
     Inr (if val AND 0x80 \<noteq> 0 then - uint (val AND 0x7F) else uint val, w))"

definition calib_byte :: "int \<Rightarrow> u8" where
  "calib_byte value = (let calibVal = word_of_int \<bar>value\<bar> in if value < 0 then calibVal + 128 else calibVal)"

definition calibWrite :: "'b bus \<Rightarrow> int \<Rightarrow> 'b wire \<Rightarrow> fault + 'b wire" where
  "calibWrite B value w =
    (if - 127 \<le> value \<and> value \<le> 127 then ramWrite B CALIB_REG [calib_byte value] w else Inr w)"

definition idRead :: "'b bus \<Rightarrow> 'b wire \<Rightarrow> fault + u8 list \<times> 'b wire" where
  "idRead B w = fetch B EEPROM_ADDR UNIQUE_ID_ADDR UNIQUE_ID_SIZE w"

definition eui64 :: "u8 list \<Rightarrow> u8 list" where
  "eui64 rtcID =
    (if rtcID ! 0 = 0xFF \<and> rtcID ! 1 = 0xFF
     then rtcID[0 := rtcID ! 2, 1 := rtcID ! 3, 2 := rtcID ! 4, 3 := 0xFF, 4 := 0xFE] else rtcID)"

definition getEUI64 :: "'b bus \<Rightarrow> 'b wire \<Rightarrow> fault + u8 list \<times> 'b wire" where
  "getEUI64 B w = andThen (idRead B w) (\<lambda>(rtcID, w). Inr (eui64 rtcID, w))"

section \<open>Power failure\<close>

definition stamp :: "u8 \<Rightarrow> u8 list \<Rightarrow> tmElements" where
  "stamp yr vs = \<lparr>Second = 0, Minute = bcd2dec (vs ! 0), Hour = bcd2dec (vs ! 1 AND NOT (BV HR1224)), Wday = 0,
     Day = bcd2dec (vs ! 2), Month = bcd2dec (vs ! 3 AND 0x1F), Year = yr\<rparr>"

text \<open>The time stamps carry no year: a power-down that seems later than the power-up was in the year before.
  The outer option of the result is the reading past the table of months.\<close>

definition stamps :: "u8 \<Rightarrow> u8 list \<Rightarrow> (u32 \<times> u32) option" where
  "stamps yr vs = do {
     let dn = stamp yr (take 4 vs);
     let up = stamp yr (drop 4 vs);
     powerDown \<leftarrow> makeTime dn;
     powerUp \<leftarrow> makeTime up;
     powerDown \<leftarrow> (if powerUp < powerDown then makeTime (dn\<lparr>Year := Year dn - 1\<rparr>) else Some powerDown);
     Some (powerDown, powerUp)
   }"

definition powerFail :: "'b bus \<Rightarrow> 'b wire \<Rightarrow> fault + (u32 \<times> u32) option option \<times> 'b wire" where
  "powerFail B w =
    andThen (ramRead1 B DAY_REG w) (\<lambda>(day, w).
    andThen (ramRead1 B YEAR_REG w) (\<lambda>(yr, w).
      let yr = y2kYearToTm (bcd2dec yr)
      in if day AND BV VBAT \<noteq> 0
         then andThen (fetch B RTC_ADDR PWRDWN_TS_REG TIMESTAMP_SIZE w) (\<lambda>(vs, w).
              andThen (ramWrite B DAY_REG [day AND NOT (BV VBAT)] w) (\<lambda>w. Inr (Some (stamps yr vs), w)))
         else Inr (None, w)))"

section \<open>Outputs and alarms\<close>

text \<open>Most functions read a register, change it and write it back.\<close>

definition modify :: "'b bus \<Rightarrow> u8 \<Rightarrow> (u8 \<Rightarrow> u8) \<Rightarrow> 'b wire \<Rightarrow> fault + 'b wire" where
  "modify B reg f w = andThen (ramRead1 B reg w) (\<lambda>(v, w). ramWrite B reg [f v] w)"

definition squareWave :: "'b bus \<Rightarrow> u8 \<Rightarrow> 'b wire \<Rightarrow> fault + 'b wire" where
  "squareWave B freq w = modify B CTRL_REG (\<lambda>ctrlReg. if 3 < freq then ctrlReg AND NOT (BV SQWE)
     else ctrlReg AND 0xF8 OR BV SQWE OR freq) w"

definition rtc_out :: "'b bus \<Rightarrow> bool \<Rightarrow> 'b wire \<Rightarrow> fault + 'b wire" where
  "rtc_out B high w = modify B CTRL_REG (\<lambda>ctrlReg. if high then ctrlReg OR BV OUT_BIT else ctrlReg AND NOT (BV OUT_BIT)) w"

definition alarmPolarity :: "'b bus \<Rightarrow> bool \<Rightarrow> 'b wire \<Rightarrow> fault + 'b wire" where
  "alarmPolarity B polarity w =
     modify B ALM0_DAY (\<lambda>alm0Day. if polarity then alm0Day OR BV OUT_BIT else alm0Day AND NOT (BV OUT_BIT)) w"

definition vbaten :: "'b bus \<Rightarrow> bool \<Rightarrow> 'b wire \<Rightarrow> fault + 'b wire" where
  "vbaten B enable w = modify B DAY_REG (\<lambda>day. if enable then day OR BV VBATEN else day AND NOT (BV VBATEN)) w"

definition alarm_register :: "u8 \<Rightarrow> u8 \<Rightarrow> u8" where
  "alarm_register base alarmNumber = base + (alarmNumber AND 1) * (ALM1_REG - ALM0_REG)"

definition setAlarm :: "'b bus \<Rightarrow> u8 \<Rightarrow> u32 \<Rightarrow> 'b wire \<Rightarrow> (fault + 'b wire) option" where
  "setAlarm B alarmNumber alarmTime w =
    (case breakTime alarmTime of None \<Rightarrow> None
     | Some tm \<Rightarrow> Some (andThen (ramRead1 B (alarm_register ALM0_DAY alarmNumber) w) (\<lambda>(day, w).
         andThen (send_bytes B RTC_ADDR [alarm_register ALM0_REG alarmNumber, dec2bcd (Second tm), dec2bcd (Minute tm),
           dec2bcd (Hour tm), (day AND 0xF8) + Wday tm, dec2bcd (Day tm), dec2bcd (Month tm)] w) (\<lambda>(_, w). Inr w))))"

definition enableAlarm :: "'b bus \<Rightarrow> u8 \<Rightarrow> u8 \<Rightarrow> 'b wire \<Rightarrow> fault + 'b wire" where
  "enableAlarm B alarmNumber alarmType w =
    andThen (ramRead1 B CTRL_REG w) (\<lambda>(ctrl, w).
      if alarmType < ALM_DISABLE
      then andThen (modify B (alarm_register ALM0_DAY alarmNumber) (\<lambda>day. day AND 0x87 OR push_bit 4 alarmType) w)
             (\<lambda>w. ramWrite B CTRL_REG [ctrl OR BV (ALM0 + unat (alarmNumber AND 1))] w)
      else ramWrite B CTRL_REG [ctrl AND NOT (BV (ALM0 + unat (alarmNumber AND 1)))] w)"

definition alarm :: "'b bus \<Rightarrow> u8 \<Rightarrow> 'b wire \<Rightarrow> fault + bool \<times> 'b wire" where
  "alarm B alarmNumber w =
    (let reg = alarm_register ALM0_DAY alarmNumber
     in andThen (ramRead1 B reg w) (\<lambda>(day, w).
          if day AND BV ALMIF \<noteq> 0 then andThen (ramWrite B reg [day AND NOT (BV ALMIF)] w) (\<lambda>w. Inr (True, w))
          else Inr (False, w)))"

section \<open>Decimal digits and masks\<close>

lemma bcd_roundtrip:
  assumes "unat n < 100"
  shows "bcd2dec (dec2bcd n) = n" "unat (dec2bcd n) = 16 * (unat n div 10) + unat n mod 10"
proof -
  let ?q = "unat n div 10"
  have q: "unat n = 10 * ?q + unat n mod 10" "?q < 10" using assms by simp_all
  have u: "unat (n div 10) = ?q" by (simp add: unat_div)
  have "unat (6 * (n div 10)) = 6 * ?q" using q(2) u by (simp add: unat_word_ariths)
  then show e: "unat (dec2bcd n) = 16 * ?q + unat n mod 10"
    using q assms unfolding dec2bcd_def by (simp add: unat_word_ariths)
  have "unat (drop_bit 4 (dec2bcd n)) = ?q"
    using e by (simp add: drop_bit_eq_div unat_div)
  then have "drop_bit 4 (dec2bcd n) = n div 10" using u by (simp add: word_unat_eq_iff)
  then show "bcd2dec (dec2bcd n) = n" by (simp add: bcd2dec_def dec2bcd_def)
qed

lemma high_bits: "unat x < 2 ^ n \<Longrightarrow> n \<le> i \<Longrightarrow> \<not> bit x i" for x :: u8
proof -
  assume "unat x < 2 ^ n" "n \<le> i"
  then have "bit x i = bit (take_bit n (unat x)) i" by (simp add: take_bit_nat_eq_self bit_unsigned_iff)
  then show "\<not> bit x i" using \<open>n \<le> i\<close> by (simp add: bit_take_bit_iff)
qed

lemma mask_id: "unat x < 2 ^ n \<Longrightarrow> (\<And>i. i < n \<Longrightarrow> bit m i) \<Longrightarrow> x AND m = x" for x m :: u8
  by (rule bit_eqI) (metis bit_and_iff high_bits not_le_imp_less)

lemma bcd_bounds:
  "unat n < 60 \<Longrightarrow> unat (dec2bcd n) < 2 ^ 7" "unat n < 24 \<Longrightarrow> unat (dec2bcd n) < 2 ^ 6" "unat n \<le> 12 \<Longrightarrow> unat (dec2bcd n) < 2 ^ 5"
proof -
  have e: "unat (dec2bcd n) \<le> 16 * (unat n div 10) + 9" if "unat n < 60" using bcd_roundtrip(2) [of n] that by simp
  show "unat n < 60 \<Longrightarrow> unat (dec2bcd n) < 2 ^ 7" using e by simp
  show "unat n < 24 \<Longrightarrow> unat (dec2bcd n) < 2 ^ 6" using e by simp
  show "unat n \<le> 12 \<Longrightarrow> unat (dec2bcd n) < 2 ^ 5" using e by simp
qed

lemma sign_bits: "x AND 0x80 \<noteq> 0 \<longleftrightarrow> 128 \<le> unat x" "unat (x AND 0x7F) = unat x mod 128" for x :: u8
proof -
  have e: "(0x80 :: u8) = BV 7" "(0x7F :: u8) = mask 7" by (simp_all add: BV_def mask_eq_exp_minus_1)
  have "unat x div 128 \<le> 1" using unsigned_less [of x, where 'a = nat] by simp
  then have "odd (unat x div 128) \<longleftrightarrow> 128 \<le> unat x" by (cases "unat x div 128") (auto simp: div_eq_0_iff)
  then have b: "bit x 7 \<longleftrightarrow> 128 \<le> unat x"
    using bit_unsigned_iff [of x 7, where 'a = nat] by (simp add: bit_iff_odd)
  show "x AND 0x80 \<noteq> 0 \<longleftrightarrow> 128 \<le> unat x" unfolding e(1) and_BV_neq_0 by (rule b)
  show "unat (x AND 0x7F) = unat x mod 128"
    unfolding e(2) take_bit_eq_mask [symmetric] by (simp add: take_bit_eq_mod unat_mod)
qed

lemma calib_value:
  assumes "- 127 \<le> v" "v \<le> 127"
  shows "(if calib_byte v AND 0x80 \<noteq> 0 then - uint (calib_byte v AND 0x7F) else uint (calib_byte v)) = v"
proof -
  define k where "k = nat \<bar>v\<bar>"
  have k: "k < 128" "\<bar>v\<bar> = int k" using assms by (simp_all add: k_def)
  then have "unat (calib_byte v) = (if v < 0 then k + 128 else k)"
    by (simp add: calib_byte_def Let_def unat_word_ariths unat_of_nat)
  then show ?thesis using k sign_bits [of "calib_byte v"] by (auto simp: uint_nat)
qed

section \<open>A chip of registers\<close>

text \<open>
  What the data sheet of the chip says about an access that stays in one block of its memory (the
  registers below \<open>0x20\<close>, the battery-backed memory up to \<open>0x5F\<close>): the first byte of a write is the address,
  the others are stored from there on; a read returns the bytes from the address on. Some bits belong to
  the hardware; \<open>own\<close> masks the others. The clock does not tick between the accesses considered.
\<close>

definition in_block :: "u8 \<Rightarrow> nat \<Rightarrow> bool" where
  "in_block r n \<longleftrightarrow> unat r + n \<le> 0x20 \<or> 0x20 \<le> unat r \<and> unat r + n \<le> 0x60"

definition register_device :: "'c chips \<Rightarrow> u8 \<Rightarrow> ('c \<Rightarrow> u8 \<Rightarrow> u8) \<Rightarrow> ('c \<Rightarrow> u8) \<Rightarrow> (u8 \<Rightarrow> u8) \<Rightarrow> bool" where
  "register_device D A cells ptr own \<longleftrightarrow>
     (\<forall>c. answers D A c \<and> 32 \<le> takes D A c) \<and>
     (\<forall>c r ds x. length ds \<le> 31 \<longrightarrow> in_block r (length ds) \<longrightarrow> cells (receive D A (r # ds) c) x AND own x =
        (if unat (x - r) < length ds then ds ! unat (x - r) else cells c x) AND own x) \<and>
     (\<forall>c r. ptr (receive D A [r] c) = r) \<and>
     (\<forall>c i. in_block (ptr c) (Suc i) \<longrightarrow> sends D A c i = cells c (ptr c + of_nat i)) \<and>
     (\<forall>c n x. cells (advance D A n c) x AND own x = cells c x AND own x)"

locale register_chip = wire_bus B D ready dev
  for B :: "'b bus" and D :: "'c chips" and ready :: "'b \<Rightarrow> bool" and dev :: "'b \<Rightarrow> 'c" +
  fixes A :: u8 and cells :: "'c \<Rightarrow> u8 \<Rightarrow> u8" and ptr :: "'c \<Rightarrow> u8" and own :: "u8 \<Rightarrow> u8"
  assumes device: "register_device D A cells ptr own" and address: "A < 128"
begin

definition view :: "'b wire \<Rightarrow> u8 \<Rightarrow> u8" where
  "view w x = cells (chip w) x AND own x"

lemma present: "answers D A c" "32 \<le> takes D A c"
  using device by (simp_all add: register_device_def)

lemma store:
  assumes "good w" "length ds \<le> 31" "in_block r (length ds)"
  shows "\<exists>w'. send_bytes B A (r # ds) w = Inr (0, w') \<and> good w' \<and>
    view w' = (\<lambda>x. if unat (x - r) < length ds then ds ! unat (x - r) AND own x else view w x)"
proof -
  have t: "take (takes D A c) (r # ds) = r # ds" "write_code D A (length (r # ds)) c = 0" for c
    using present [of c] assms(2) by (simp_all add: write_code_def)
  from send [OF assms(1) address, of "r # ds"] assms(2) obtain w' where
    w': "send_bytes B A (r # ds) w = Inr (0, w')" "good w'" "chip w' = receive D A (r # ds) (chip w)"
    using t by (auto simp: after_write_def present)
  have "view w' x = (if unat (x - r) < length ds then ds ! unat (x - r) AND own x else view w x)" for x
    using device assms(2,3) unfolding view_def w'(3) register_device_def by auto
  with w'(1,2) show ?thesis by auto
qed

lemma in_block_0: "in_block r n \<Longrightarrow> in_block r 0"
  by (auto simp: in_block_def)

lemma point:
  assumes "good w" "in_block r n"
  shows "\<exists>w'. send_bytes B A [r] w = Inr (0, w') \<and> good w' \<and> view w' = view w \<and> ptr (chip w') = r"
proof -
  have t: "take (takes D A c) [r] = [r]" "write_code D A 1 c = 0" for c
    using present [of c] by (simp_all add: write_code_def)
  from send [OF assms(1) address, of "[r]"] obtain w' where
    w': "send_bytes B A [r] w = Inr (0, w')" "good w'" "chip w' = receive D A [r] (chip w)"
    using t by (auto simp: after_write_def present)
  from store [OF assms(1), of "[]" r] in_block_0 [OF assms(2)] w'(1) have "view w' = view w" by auto
  moreover have "ptr (chip w') = r" using device by (simp add: w'(3) register_device_def)
  ultimately show ?thesis using w' by blast
qed

lemma request_block:
  assumes "good w" "in_block (ptr (chip w)) (unat n)" "0 < n" "n \<le> 32"
  shows "\<exists>vs w' w''. requestFrom B A n 0 0 1 w = Inr (n, w'') \<and> read_n (unat n) w'' = (map uint vs, w') \<and> good w' \<and>
    length vs = unat n \<and> view w' = view w \<and>
    (\<forall>i<unat n. vs ! i AND own (ptr (chip w) + of_nat i) = view w (ptr (chip w) + of_nat i))"
proof -
  let ?vs = "map (sends D A (chip w)) [0..<unat n]"
  from request [OF assms(1) address assms(3,4), of 1] obtain w'' where
    r: "requestFrom B A n 0 0 1 w = Inr (n, w'')" "good w''" "chip w'' = advance D A (unat n) (chip w)" "pending w'' = ?vs"
    by (auto simp: present after_read_def read_bytes_def)
  from reads [OF r(2), of ?vs "[]" "unat n"] r(4) obtain w' where
    r': "read_n (unat n) w'' = (map uint ?vs, w')" "good w'" "chip w' = chip w''" by auto
  have s: "sends D A c i = cells c (ptr c + of_nat i)" if "in_block (ptr c) (Suc i)" for c i
    using device that by (simp add: register_device_def)
  have "in_block (ptr (chip w)) (Suc i)" if "i < unat n" for i using assms(2) that by (auto simp: in_block_def)
  then have "\<forall>i<unat n. ?vs ! i AND own (ptr (chip w) + of_nat i) = view w (ptr (chip w) + of_nat i)"
    by (simp add: s view_def)
  moreover have "view w' = view w" using device by (simp add: view_def r'(3) r(3) register_device_def fun_eq_iff)
  ultimately show ?thesis using r(1) r'(1,2) by (intro exI [of _ ?vs]) auto
qed

lemma load:
  assumes "good w" "in_block r (unat n)" "0 < n" "n \<le> 32"
  shows "\<exists>vs w'. fetch B A r n w = Inr (vs, w') \<and> good w' \<and> length vs = unat n \<and> view w' = view w \<and>
    (\<forall>i<unat n. vs ! i AND own (r + of_nat i) = view w (r + of_nat i))"
proof -
  from point [OF assms(1,2)] obtain w1 where
    p: "send_bytes B A [r] w = Inr (0, w1)" "good w1" "view w1 = view w" "ptr (chip w1) = r" by blast
  from request_block [OF p(2) _ assms(3,4)] assms(2) p(3,4) obtain vs w2 w3 where
    q: "requestFrom B A n 0 0 1 w1 = Inr (n, w2)" "read_n (unat n) w2 = (map uint vs, w3)" "good w3" "length vs = unat n"
      "view w3 = view w" "\<forall>i<unat n. vs ! i AND own (r + of_nat i) = view w (r + of_nat i)" by auto
  then show ?thesis using p(1) by (intro exI [of _ vs]) (auto simp: fetch_def o_def)
qed

end

section \<open>Setting and reading the time\<close>

definition rtc_own :: "u8 \<Rightarrow> u8" where
  "rtc_own x = (if x = DAY_REG then NOT (BV OSCON OR BV VBAT) else if x = 5 then NOT (BV LP) else - 1)"

lemma tm_of_registers_written:
  assumes "valid_date tm" "unat (Wday tm) < 8" "30 \<le> unat (Year tm)" "unat (Year tm) < 130"
    "vs ! 0 = dec2bcd (Second tm) OR BV ST" "vs ! 1 = dec2bcd (Minute tm)" "vs ! 2 = dec2bcd (Hour tm)"
    "vs ! 3 AND NOT (BV OSCON OR BV VBAT) = (Wday tm OR BV VBATEN) AND NOT (BV OSCON OR BV VBAT)"
    "vs ! 4 = dec2bcd (Day tm)" "vs ! 5 AND NOT (BV LP) = dec2bcd (Month tm) AND NOT (BV LP)"
    "vs ! 6 = dec2bcd (tmYearToY2k (Year tm))"
  shows "tm_of_registers vs = tm"
proof -
  note b = bit_and_iff bit_or_iff bit_not_iff bit_BV
  have v: "unat (Second tm) < 60" "unat (Minute tm) < 60" "unat (Hour tm) < 24" "unat (Month tm) \<le> 12"
    "unat (Month tm) - 1 < 12" "unat (Day tm) \<le> month_length (Year tm) (unat (Month tm) - 1)"
    using assms(1) by (auto simp: valid_date_def)
  have d: "unat (Day tm) < 100" using month_length_31 [OF v(5), of "Year tm"] v(6) by simp
  have y: "unat (tmYearToY2k (Year tm)) < 100"
    using assms(3,4) by (simp add: tmYearToY2k_def unat_sub word_le_nat_alt)
  have s: "vs ! 0 AND NOT (BV ST) = dec2bcd (Second tm)" unfolding assms(5)
    using high_bits [OF bcd_bounds(1) [OF v(1)]] by (intro bit_eqI) (auto simp: b ST_def)
  have h: "vs ! 2 AND NOT (BV HR1224) = dec2bcd (Hour tm)" unfolding assms(7)
    using high_bits [OF bcd_bounds(2) [OF v(3)]] by (intro bit_eqI) (auto simp: b HR1224_def)
  have m: "vs ! 5 AND NOT (BV LP) = dec2bcd (Month tm)" unfolding assms(10)
    using high_bits [OF bcd_bounds(3) [OF v(4)]] by (intro bit_eqI) (auto simp: b LP_def)
  have "vs ! 3 AND NOT (BV OSCON OR BV VBAT OR BV VBATEN) = (vs ! 3 AND NOT (BV OSCON OR BV VBAT)) AND NOT (BV VBATEN)"
    by (intro bit_eqI) (auto simp: b)
  also have "\<dots> = Wday tm" unfolding assms(8)
    using high_bits [of "Wday tm" 3] assms(2) by (intro bit_eqI) (auto simp: b OSCON_def VBAT_def VBATEN_def)
  finally have w: "vs ! 3 AND NOT (BV OSCON OR BV VBAT OR BV VBATEN) = Wday tm" .
  show ?thesis
    unfolding tm_of_registers_def s h m w assms(6,9,11)
    using v d y bcd_roundtrip(1) by (simp add: y2kYearToTm_def tmYearToY2k_def)
qed

lemma leap_before_2100: "i < 130 \<Longrightarrow> LEAP_YEAR i \<longleftrightarrow> i mod 4 = 2"
proof -
  assume i: "i < 130"
  have "(1970 + i) mod 4 = 0 \<longleftrightarrow> i mod 4 = 2" by presburger
  moreover have "i = 30" if z: "(1970 + i) mod 100 = 0"
  proof -
    obtain k where k: "1970 + i = 100 * k" using z by (meson dvd_def mod_0_imp_dvd)
    then have "k = 20" using i by linarith
    then show ?thesis using k by simp
  qed
  ultimately have c: "i \<noteq> 30 \<Longrightarrow> (1970 + i) mod 100 \<noteq> 0" and d: "(1970 + i) mod 4 = 0 \<longleftrightarrow> i mod 4 = 2" by blast+
  show ?thesis
  proof (cases "i = 30")
    case False
    with c d show ?thesis unfolding LEAP_YEAR_def by (metis add_gr_0 zero_less_numeral)
  qed (simp add: LEAP_YEAR_def)
qed

lemma days_before_2100: "y \<le> 130 \<Longrightarrow> days_before y = 365 * y + (y + 1) div 4"
proof (induction y)
  case (Suc y)
  have "(Suc y + 1) div 4 = (y + 1) div 4 + (if y mod 4 = 2 then 1 else 0)" by presburger
  then show ?case using Suc by (simp add: days_before_Suc year_days_def leap_before_2100)
qed (simp add: days_before_def)

lemma century: "days_before 30 = 10957" "days_before 130 = 47482"
  by (simp_all add: days_before_2100)

text \<open>The times whose year the chip can hold: from 2000 to 2099.\<close>

lemma year_in_century:
  assumes "946684800 \<le> unat t" "unat t < 4102444800" "days_before (unat y) \<le> unat t div 86400"
    "unat t div 86400 < days_before (Suc (unat y))"
  shows "30 \<le> unat y" "unat y < 130"
proof -
  have d: "10957 \<le> unat t div 86400" "unat t div 86400 < 47482" using assms(1,2) by linarith+
  show "30 \<le> unat y" using days_before_mono [of "Suc (unat y)" 30] century d assms(4) by (cases "30 \<le> unat y") auto
  show "unat y < 130" using days_before_mono [of 130 "unat y"] century d assms(3) by (cases "unat y < 130") auto
qed

locale clock_device = register_chip B D ready dev RTC_ADDR cells ptr rtc_own
  for B :: "'b bus" and D :: "'c chips" and ready :: "'b \<Rightarrow> bool" and dev :: "'b \<Rightarrow> 'c" and cells :: "'c \<Rightarrow> u8 \<Rightarrow> u8"
    and ptr :: "'c \<Rightarrow> u8"
begin

lemma rtc_write_stores:
  assumes "good w"
  shows "\<exists>w'. rtc_write B tm w = Inr w' \<and> good w' \<and> (\<forall>i<7. view w' (of_nat i) =
    [dec2bcd (Second tm) OR BV ST, dec2bcd (Minute tm), dec2bcd (Hour tm), Wday tm OR BV VBATEN, dec2bcd (Day tm),
     dec2bcd (Month tm), dec2bcd (tmYearToY2k (Year tm))] ! i AND rtc_own (of_nat i))"
proof -
  let ?s = "dec2bcd (Second tm) OR BV ST"
  define ds where "ds = [0x00, dec2bcd (Minute tm), dec2bcd (Hour tm), Wday tm OR BV VBATEN, dec2bcd (Day tm),
    dec2bcd (Month tm), dec2bcd (tmYearToY2k (Year tm))]"
  have blk: "length ds = 7" "in_block 0 7" "in_block 0 1" by (simp_all add: in_block_def ds_def)
  from store [OF assms, of ds 0] blk obtain w1 where
    w1: "send_bytes B RTC_ADDR (0 # ds) w = Inr (0, w1)" "good w1"
      "view w1 = (\<lambda>x. if unat x < 7 then ds ! unat x AND rtc_own x else view w x)" by (auto cong: if_cong)
  from store [OF w1(2), of "[?s]" 0] blk obtain w2 where
    w2: "send_bytes B RTC_ADDR [0, ?s] w1 = Inr (0, w2)" "good w2"
      "view w2 = (\<lambda>x. if unat x < 1 then [?s] ! unat x AND rtc_own x else view w1 x)" by (auto cong: if_cong)
  have "rtc_write B tm w = Inr w2" using w1(1) w2(1) by (simp add: rtc_write_def TIME_REG_def ds_def)
  moreover have "view w2 (of_nat i) = (?s # tl ds) ! i AND rtc_own (of_nat i)" if "i < 7" for i
  proof -
    have "unat (of_nat i :: u8) = i" using that by (simp add: unat_of_nat)
    then show ?thesis using that by (cases i) (simp_all add: w2(3) w1(3) nth_tl blk(1))
  qed
  ultimately show ?thesis using w2(2) by (simp add: ds_def)
qed

lemma rtc_read_view:
  assumes "good w"
  shows "\<exists>vs w'. rtc_read B w = Inr (Some (tm_of_registers vs), w') \<and> length vs = 7 \<and> good w' \<and> view w' = view w \<and>
    (\<forall>i<7. vs ! i AND rtc_own (of_nat i) = view w (of_nat i))"
proof -
  have blk: "in_block 0 7" by (simp add: in_block_def)
  from point [OF assms blk] obtain w1 where
    p: "send_bytes B RTC_ADDR [0] w = Inr (0, w1)" "good w1" "view w1 = view w" "ptr (chip w1) = 0" by blast
  from request_block [OF p(2), of 7] p(3,4) blk obtain vs w2 w3 where
    "requestFrom B RTC_ADDR 7 0 0 1 w1 = Inr (7, w2)" "read_n 7 w2 = (map uint vs, w3)" "good w3" "length vs = 7"
    "view w3 = view w" "\<forall>i<7. vs ! i AND rtc_own (of_nat i) = view w (of_nat i)" by (auto simp: word_le_nat_alt)
  then show ?thesis using p(1) by (intro exI [of _ vs]) (auto simp: rtc_read_def TIME_REG_def o_def)
qed

lemma rtc_set_get:
  assumes "good w" "946684800 \<le> unat t" "unat t < 4102444800"
  shows "\<exists>w1 w2. rtc_set B t w = Some (Inr w1) \<and> rtc_get B w1 = Inr (Some t, w2) \<and> good w2"
proof -
  obtain tm where tm: "breakTime t = Some tm" "valid_date tm" "makeTime tm = Some t"
      "unat (Wday tm) = (unat t div 86400 + 4) mod 7 + 1"
      "days_before (unat (Year tm)) \<le> unat t div 86400" "unat t div 86400 < days_before (Suc (unat (Year tm)))"
    using break_make [of t] by blast
  have wd: "unat (Wday tm) < 8" unfolding tm(4) by (simp add: less_Suc_eq_le)
  from rtc_write_stores [OF assms(1), of tm] obtain w1 where
    w1: "rtc_write B tm w = Inr w1" "good w1" "\<forall>i<7. view w1 (of_nat i) =
      [dec2bcd (Second tm) OR BV ST, dec2bcd (Minute tm), dec2bcd (Hour tm), Wday tm OR BV VBATEN, dec2bcd (Day tm),
       dec2bcd (Month tm), dec2bcd (tmYearToY2k (Year tm))] ! i AND rtc_own (of_nat i)" by blast
  from rtc_read_view [OF w1(2)] obtain vs w2 where
    w2: "rtc_read B w1 = Inr (Some (tm_of_registers vs), w2)" "good w2"
      "\<forall>i<7. vs ! i AND rtc_own (of_nat i) = view w1 (of_nat i)" by blast
  have e: "i < 7 \<Longrightarrow> vs ! i AND rtc_own (of_nat i) = [dec2bcd (Second tm) OR BV ST, dec2bcd (Minute tm), dec2bcd (Hour tm),
       Wday tm OR BV VBATEN, dec2bcd (Day tm), dec2bcd (Month tm), dec2bcd (tmYearToY2k (Year tm))] ! i AND
       rtc_own (of_nat i)" for i using w2(3) w1(3) by simp
  have "tm_of_registers vs = tm"
    using e [of 0] e [of 1] e [of 2] e [of 3] e [of 4] e [of 5] e [of 6]
    by (intro tm_of_registers_written [OF tm(2) wd year_in_century [OF assms(2,3) tm(5,6)]])
      (simp_all add: rtc_own_def DAY_REG_def)
  then show ?thesis using tm(1,3) w1(1) w2(1,2) by (simp add: rtc_set_def rtc_get_def)
qed

lemma rtc_own_plain: "x \<noteq> DAY_REG \<Longrightarrow> x \<noteq> 5 \<Longrightarrow> rtc_own x = - 1"
  by (simp add: rtc_own_def)

lemma ram_store_load:
  assumes "good w" "1 \<le> length vs" "length vs \<le> 31" "in_block r (length vs)" "\<forall>i<length vs. rtc_own (r + of_nat i) = - 1"
  shows "\<exists>w1 w2. ramWrite B r vs w = Inr w1 \<and> ramRead B r (of_nat (length vs)) w1 = Inr (vs, w2) \<and> good w2"
proof -
  from store [OF assms(1,3,4)] obtain w1 where
    w1: "send_bytes B RTC_ADDR (r # vs) w = Inr (0, w1)" "good w1"
      "view w1 = (\<lambda>x. if unat (x - r) < length vs then vs ! unat (x - r) AND rtc_own x else view w x)" by blast
  let ?n = "of_nat (length vs) :: u8"
  have n: "unat ?n = length vs" using assms(3) by (simp add: unat_of_nat)
  then have "0 < ?n" "?n \<le> 32" using assms(2,3) by (auto simp: word_less_nat_alt word_le_nat_alt)
  from load [OF w1(2) _ this, of r] assms(4) n obtain us w2 where
    w2: "fetch B RTC_ADDR r ?n w1 = Inr (us, w2)" "good w2" "length us = length vs"
      "\<forall>i<length vs. us ! i AND rtc_own (r + of_nat i) = view w1 (r + of_nat i)" by auto
  have "us ! i = vs ! i" if "i < length vs" for i
  proof -
    have "unat (r + of_nat i - r) = i" using that assms(3) by (simp add: unat_of_nat)
    then show ?thesis using w2(4) assms(5) that by (simp add: w1(3))
  qed
  then have "us = vs" using w2(3) by (simp add: list_eq_iff_nth_eq)
  then show ?thesis using w1(1) w2(1,2) by (simp add: ramWrite_def ramRead_def)
qed

lemma sram_address_plain:
  assumes "unat addr + n \<le> 64" "1 \<le> n"
  shows "unat (sram_address addr) = unat addr + 32"
proof -
  have "(63 :: u8) = mask 6" by (simp add: mask_eq_exp_minus_1)
  moreover have "addr AND mask 6 = addr" by (rule mask_id [of _ 6]) (use assms in \<open>simp_all add: bit_mask_iff\<close>)
  ultimately have "addr AND 63 = addr" by (simp only:)
  then show ?thesis using assms by (simp add: sram_address_def SRAM_SIZE_def SRAM_START_ADDR_def unat_word_ariths)
qed

lemma sram_store_load:
  assumes "good w" "1 \<le> length vs" "length vs \<le> 31" "unat addr + length vs \<le> 64"
  shows "\<exists>w1 w2. sramWrite B addr vs w = Inr w1 \<and> sramRead B addr (of_nat (length vs)) w1 = Inr (Some vs, w2) \<and> good w2"
proof -
  note a = sram_address_plain [OF assms(4,2)]
  have n: "unat (of_nat (length vs) :: u8) = length vs" using assms(3) by (simp add: unat_of_nat)
  have "rtc_own (sram_address addr + of_nat i) = - 1" if "i < length vs" for i
  proof -
    have "unat (sram_address addr + of_nat i) = unat addr + 32 + i"
      using a that assms(3,4) by (simp add: unat_word_ariths unat_of_nat)
    then show ?thesis by (intro rtc_own_plain) (auto simp: DAY_REG_def)
  qed
  moreover have "in_block (sram_address addr) (length vs)" using a assms(4) by (simp add: in_block_def)
  ultimately obtain w1 w2 where "ramWrite B (sram_address addr) vs w = Inr w1"
      "ramRead B (sram_address addr) (of_nat (length vs)) w1 = Inr (vs, w2)" "good w2"
    using ram_store_load [OF assms(1-3)] by blast
  then show ?thesis using assms(2-4) n
    by (simp add: sramWrite_def sramRead_def SRAM_SIZE_def BUFFER_LENGTH_def word_le_nat_alt)
qed

lemma calib_store_load:
  assumes "good w" "- 127 \<le> v" "v \<le> 127"
  shows "\<exists>w1 w2. calibWrite B v w = Inr w1 \<and> calibRead B w1 = Inr (v, w2) \<and> good w2"
proof -
  have "in_block CALIB_REG 1" "rtc_own CALIB_REG = - 1"
    by (simp_all add: in_block_def CALIB_REG_def rtc_own_def DAY_REG_def)
  then obtain w1 w2 where "ramWrite B CALIB_REG [calib_byte v] w = Inr w1"
      "ramRead B CALIB_REG 1 w1 = Inr ([calib_byte v], w2)" "good w2"
    using ram_store_load [OF assms(1), of "[calib_byte v]" CALIB_REG] by auto
  then show ?thesis using assms(2,3) calib_value [OF assms(2,3)]
    by (simp add: calibWrite_def calibRead_def ramRead1_def)
qed

end

text \<open>Without the chip: reading the time gives 0, and the wait for a write to the EEPROM does not end.\<close>

context wire_bus
begin

lemma rtc_get_absent:
  assumes "good w" "\<not> answers D RTC_ADDR (chip w)"
  shows "\<exists>w'. rtc_get B w = Inr (Some 0, w') \<and> good w'"
  using send [OF assms(1), of RTC_ADDR "[TIME_REG]"] assms(2)
  by (auto simp: rtc_get_def rtc_read_def write_code_def RTC_ADDR_def word_less_nat_alt)

lemma wait_loop_returns:
  "wait_loop C n w = Some r \<Longrightarrow> C = B \<longrightarrow> good w \<longrightarrow> answers D EEPROM_ADDR (chip w)"
proof (induction C n w r rule: wait_loop.raw_induct [rotated, consumes 1, case_names step])
  case (step wl C n w r)
  show ?case
  proof (intro impI, rule ccontr)
    assume a: "C = B" "good w" "\<not> answers D EEPROM_ADDR (chip w)"
    have "EEPROM_ADDR < 128" by (simp add: EEPROM_ADDR_def word_less_nat_alt)
    from send [OF a(2) this, of "[0]"] a(3) obtain w' where
      "send_bytes B EEPROM_ADDR [0] w = Inr (2, w')" "good w'" "chip w' = chip w"
      by (auto simp: write_code_def after_write_def)
    with step(1) [of B "n + 1" w' r] step(2) a(1,3) show False by simp
  qed
qed

lemma eepromWait_absent: "good w \<Longrightarrow> \<not> answers D EEPROM_ADDR (chip w) \<Longrightarrow> eepromWait B w = None"
  using wait_loop_returns [of B 0 w] by (cases "wait_loop B 0 w") (auto simp: eepromWait_def)

end

section \<open>The chip on the bus of the processor\<close>

text \<open>A memory of registers behind one address is such a chip.\<close>

definition register_file :: "u8 \<Rightarrow> ((u8 \<Rightarrow> u8) \<times> u8) chips" where
  "register_file A = \<lparr>answers = (\<lambda>a _. a = A), takes = (\<lambda>_ _. 32),
     receive = (\<lambda>_ ds (m, p). case ds of [] \<Rightarrow> (m, p)
       | r # ds \<Rightarrow> (\<lambda>x. if unat (x - r) < length ds then ds ! unat (x - r) else m x, r + of_nat (length ds))),
     sends = (\<lambda>_ (m, p) i. m (p + of_nat i)), advance = (\<lambda>_ n (m, p). (m, p + of_nat n))\<rparr>"

lemma register_file_device: "register_device (register_file A) A fst snd own"
  by (auto simp: register_device_def register_file_def split: prod.splits)

lemma clock_on_line:
  assumes "register_device D RTC_ADDR cells ptr rtc_own"
  shows "clock_device (twi_bus M cb D) D (\<lambda>l. master_ready (module l)) on_line cells ptr"
  by unfold_locales (use assms in \<open>simp_all add: RTC_ADDR_def word_less_nat_alt\<close>)

interpretation clock_file: clock_device "twi_bus M cb (register_file RTC_ADDR)" "register_file RTC_ADDR"
    "\<lambda>l. master_ready (module l)" on_line fst snd for M cb
  by (rule clock_on_line [OF register_file_device])

text \<open>
  C19. The clock keeps what it is given. For a chip that stores its registers as the data sheet says, connected
  through the Wire buffers and the interrupt-driven two-wire module, setting a time of the years 2000 to
  2099 ends, and reading the clock gives that time back as long as it has not ticked: through the
  calendar, the decimal digits, the two transfers that stop and start the oscillator, and the
  status bits that the chip mixes in.
\<close>

theorem clock_roundtrip:
  assumes "register_device D RTC_ADDR cells ptr rtc_own" "wire_ok w" "master_ready (module (bus_of w))"
    "946684800 \<le> unat t" "unat t < 4102444800"
  shows "\<exists>w1 w2. rtc_set (twi_bus M cb D) t w = Some (Inr w1) \<and> rtc_get (twi_bus M cb D) w1 = Inr (Some t, w2)"
  using clock_device.rtc_set_get [OF clock_on_line [OF assms(1), of M cb] _ assms(4,5), of w] assms(2,3)
  by (auto simp: twi_line.good_def)

theorem clock_roundtrip_witness:
  "\<exists>w1 w2. rtc_set (twi_bus atmega32u4 no_callbacks (register_file RTC_ADDR)) 1500000000 (idle_wire (\<lambda>_. 0, 0)) = Some (Inr w1) \<and>
    rtc_get (twi_bus atmega32u4 no_callbacks (register_file RTC_ADDR)) w1 = Inr (Some 1500000000, w2)"
  by (rule clock_roundtrip [OF register_file_device idle_wire_ok(1,2)]) simp_all

text \<open>
  The battery-backed memory of the clock chip. A block of 1 to 31 bytes that fits is stored and read back
  unchanged; a block that does not fit is neither stored nor read.
\<close>

theorem sram_roundtrip:
  assumes "register_device D RTC_ADDR cells ptr rtc_own" "wire_ok w" "master_ready (module (bus_of w))"
    "length vs \<le> 31"
  shows "if 1 \<le> length vs \<and> unat addr + length vs \<le> 64
    then \<exists>w1 w2. sramWrite (twi_bus M cb D) addr vs w = Inr w1 \<and>
      sramRead (twi_bus M cb D) addr (of_nat (length vs)) w1 = Inr (Some vs, w2)
    else sramWrite (twi_bus M cb D) addr vs w = Inr w \<and>
      sramRead (twi_bus M cb D) addr (of_nat (length vs)) w = Inr (None, w)"
proof (cases "1 \<le> length vs \<and> unat addr + length vs \<le> 64")
  case True
  then show ?thesis
    using clock_device.sram_store_load [OF clock_on_line [OF assms(1), of M cb] _ _ assms(4), of w addr] assms(2,3)
    by (auto simp: twi_line.good_def)
next
  case False
  have "unat (of_nat (length vs) :: u8) = length vs" using assms(4) by (simp add: unat_of_nat)
  with False show ?thesis by (auto simp: sramWrite_def sramRead_def SRAM_SIZE_def word_le_nat_alt)
qed

theorem sram_roundtrip_witness:
  "\<exists>w1 w2. sramWrite (twi_bus atmega32u4 no_callbacks (register_file RTC_ADDR)) 8 [1, 2, 3] (idle_wire (\<lambda>_. 0, 0)) = Inr w1 \<and>
    sramRead (twi_bus atmega32u4 no_callbacks (register_file RTC_ADDR)) 8 3 w1 = Inr (Some [1, 2, 3], w2)"
  using sram_roundtrip [OF register_file_device idle_wire_ok(1,2), of "[1, 2, 3]" 8 atmega32u4 no_callbacks] by simp

end
