(* ===== verification/Check_Sum.thy ===== *)
theory Check_Sum
  imports Wagman_Prelude
begin

text \<open>
  The check sum of the humidity sensor (\<^verbatim>\<open>check_crc\<close> of \<^verbatim>\<open>firmware/HTU21D.cpp\<close>): the division of the code, the shift
  register that defines the check sum, their agreement and the errors that are found.
\<close>

section \<open>Check sum\<close>

fun crc_loop :: "nat \<Rightarrow> nat \<Rightarrow> u32 \<Rightarrow> u32 \<Rightarrow> u32" where
  "crc_loop 0 i remainder divsor = remainder"
| "crc_loop (Suc left) i remainder divsor =
     crc_loop left (Suc i) (if bit remainder (23 - i) then remainder XOR divsor else remainder) (drop_bit 1 divsor)"

definition SHIFTED_DIVISOR :: u32 where "SHIFTED_DIVISOR = 0x988000"

definition check_crc :: "u16 \<Rightarrow> u8 \<Rightarrow> u8" where
  "check_crc message check_value = ucast (crc_loop 16 0 (push_bit 8 (ucast message) OR ucast check_value) SHIFTED_DIVISOR)"

text \<open>
  The check sum by its definition: the register of 8 bits for the polynomial \<open>x^8 + x^5 + x^4 + 1\<close>, fed
  with the bits of the message from the highest on.
\<close>

fun crc8_loop :: "nat \<Rightarrow> u16 \<Rightarrow> u8 \<Rightarrow> u8" where
  "crc8_loop 0 m r = r"
| "crc8_loop (Suc i) m r = crc8_loop i m (if bit r 7 \<noteq> bit m i then push_bit 1 r XOR 0x31 else push_bit 1 r)"

definition crc8 :: "u16 \<Rightarrow> u8" where
  "crc8 m = crc8_loop 16 m 0"

section \<open>The check sum is the register's\<close>

lemma crc_loop_xor: "crc_loop n i (r XOR r') d = crc_loop n i r d XOR crc_loop n i r' d"
proof (induction n arbitrary: i r r' d)
  case (Suc n)
  show ?case
    using Suc [of "Suc i" r "r'" "drop_bit 1 d"] Suc [of "Suc i" "r XOR d" r' "drop_bit 1 d"]
      Suc [of "Suc i" r "r' XOR d" "drop_bit 1 d"] Suc [of "Suc i" "r XOR d" "r' XOR d" "drop_bit 1 d"]
    by (auto simp: bit_xor_iff ac_simps)
qed simp

lemma push_ucast_xor:
  "(push_bit 8 (ucast (m XOR m' :: u16)) OR ucast (c XOR c' :: u8) :: u32) =
   (push_bit 8 (ucast m) OR ucast c) XOR (push_bit 8 (ucast m') OR ucast c')"
  by (rule bit_eqI) (auto simp: bit_xor_iff bit_or_iff bit_push_bit_iff bit_ucast_iff dest: bit_imp_le_length)

lemma check_crc_xor: "check_crc (m XOR m') (c XOR c') = check_crc m c XOR check_crc m' c'"
  unfolding check_crc_def push_ucast_xor crc_loop_xor by (rule bit_eqI) (simp add: bit_xor_iff bit_ucast_iff)

lemma crc8_loop_xor: "crc8_loop n (m XOR m') (r XOR r') = crc8_loop n m r XOR crc8_loop n m' r'"
proof (induction n arbitrary: r r')
  case (Suc n)
  have p: "push_bit 1 (r XOR r') = push_bit 1 r XOR push_bit 1 r'" for r r' :: u8
    by (rule bit_eqI) (auto simp: bit_xor_iff bit_push_bit_iff)
  show ?case
    using Suc [of "push_bit 1 r" "push_bit 1 r'"] Suc [of "push_bit 1 r XOR 0x31" "push_bit 1 r'"]
      Suc [of "push_bit 1 r" "push_bit 1 r' XOR 0x31"] Suc [of "push_bit 1 r XOR 0x31" "push_bit 1 r' XOR 0x31"]
    by (auto simp: bit_xor_iff p ac_simps simp del: push_bit_of_1)
qed simp

text \<open>Two functions that respect exclusive or and agree on single bits are equal.\<close>

lemma xor_linear_eq:
  fixes f g :: "'a::len word \<Rightarrow> u8"
  assumes "\<And>x y. f (x XOR y) = f x XOR f y" "\<And>x y. g (x XOR y) = g x XOR g y"
    "\<And>k. k < LENGTH('a) \<Longrightarrow> f (BV k) = g (BV k)"
  shows "f x = g x"
proof -
  have z: "f 0 = 0" "g 0 = 0" using assms(1) [of 0 0] assms(2) [of 0 0] by simp_all
  have "f (take_bit n x) = g (take_bit n x)" if "n \<le> LENGTH('a)" for n
    using that
  proof (induction n)
    case (Suc n)
    have "take_bit (Suc n) x = take_bit n x XOR (if bit x n then BV n else 0)"
      by (rule bit_eqI) (auto simp: bit_take_bit_iff bit_xor_iff less_Suc_eq)
    then show ?case using Suc assms by (simp add: z)
  qed (simp add: z)
  from this [of "LENGTH('a)"] show ?thesis by (simp add: take_bit_length_eq)
qed

lemma crc8_step:
  "crc8_loop (numeral k) m r = crc8_loop (pred_numeral k) m (if bit r 7 \<noteq> bit m (pred_numeral k)
     then push_bit 1 r XOR 0x31 else push_bit 1 r)"
  by (simp add: numeral_eq_Suc)

lemma crc_step:
  "crc_loop (numeral k) i r d = crc_loop (pred_numeral k) (i + 1) (if bit r (23 - i) then r XOR d else r) (drop_bit 1 d)"
  by (simp add: numeral_eq_Suc)

lemma crc_of_bits: "k < 16 \<Longrightarrow> check_crc (BV k) 0 = crc8 (BV k)"
proof -
  assume "k < 16"
  then have "k = 0 \<or> k = 1 \<or> k = 2 \<or> k = 3 \<or> k = 4 \<or> k = 5 \<or> k = 6 \<or> k = 7 \<or> k = 8 \<or> k = 9 \<or> k = 10 \<or>
      k = 11 \<or> k = 12 \<or> k = 13 \<or> k = 14 \<or> k = 15" by presburger
  then show ?thesis
    by (elim disjE) (simp_all add: BV_def check_crc_def SHIFTED_DIVISOR_def crc8_def crc_step crc8_step)
qed

lemma crc_loop_small: "n + i \<le> 16 \<Longrightarrow> \<forall>j\<ge>8. \<not> bit r j \<Longrightarrow> crc_loop n i r d = r"
  by (induction n arbitrary: i d) auto

lemma crc_of_check: "check_crc 0 c = c"
proof -
  have "\<forall>j\<ge>8. \<not> bit (ucast c :: u32) j" by (auto simp: bit_ucast_iff dest: bit_imp_le_length)
  then have "check_crc 0 c = ucast (ucast c :: u32)" by (simp add: check_crc_def crc_loop_small)
  also have "\<dots> = c" by (rule bit_eqI) (simp add: bit_ucast_iff)
  finally show ?thesis .
qed

lemma check_crc_crc8: "check_crc m c = crc8 m XOR c"
proof -
  have "check_crc m 0 = crc8 m"
    by (rule xor_linear_eq [where f = "\<lambda>m. check_crc m 0" and g = crc8])
      (use check_crc_xor [of _ _ 0 0] crc8_loop_xor [of 16 _ _ 0 0] crc_of_bits in \<open>simp_all add: crc8_def\<close>)
  then show ?thesis using check_crc_xor [of m 0 0 c] crc_of_check by simp
qed

text \<open>The bit \<open>p\<close> of the 24 transmitted bits, the check sum in the lowest eight.\<close>

definition flip :: "nat \<Rightarrow> u16 \<times> u8 \<Rightarrow> u16 \<times> u8" where
  "flip p = (\<lambda>(m, c). if p < 8 then (m, c XOR BV p) else (m XOR BV (p - 8), c))"

definition syndrome :: "nat \<Rightarrow> u8" where
  "syndrome p = (if p < 8 then BV p else crc8 (BV (p - 8)))"

lemma flip_crc: "check_crc (fst (flip p x)) (snd (flip p x)) = check_crc (fst x) (snd x) XOR syndrome p"
proof -
  have "crc8 (m XOR m') = crc8 m XOR crc8 m'" for m m' using crc8_loop_xor [of 16 m m' 0 0] by (simp add: crc8_def)
  then show ?thesis by (simp add: flip_def syndrome_def check_crc_crc8 ac_simps split: prod.split)
qed

lemma syndromes: "map syndrome [0..<24] =
    [0x01, 0x02, 0x04, 0x08, 0x10, 0x20, 0x40, 0x80, 0x31, 0x62, 0xC4, 0xB9,
     0x43, 0x86, 0x3D, 0x7A, 0xF4, 0xD9, 0x83, 0x37, 0x6E, 0xDC, 0x89, 0x23]"
  by (simp add: syndrome_def upt_rec BV_def crc8_def crc8_step)

lemma syndrome_distinct: "p < 24 \<Longrightarrow> q < 24 \<Longrightarrow> p \<noteq> q \<Longrightarrow> syndrome p \<noteq> syndrome q" "p < 24 \<Longrightarrow> syndrome p \<noteq> 0"
proof -
  have "distinct (map syndrome [0..<24])" "0 \<notin> set (map syndrome [0..<24])" unfolding syndromes by simp_all
  then show "p < 24 \<Longrightarrow> q < 24 \<Longrightarrow> p \<noteq> q \<Longrightarrow> syndrome p \<noteq> syndrome q" "p < 24 \<Longrightarrow> syndrome p \<noteq> 0"
    by (auto simp: distinct_map inj_on_def)
qed

text \<open>
  C21. The check sum of the humidity sensor is the cyclic redundancy check of its data sheet: the long
  division of the code accepts exactly the check value that the shift register of the polynomial computes, and
  when one or two of the 24 transmitted bits of an accepted reading are inverted, the reading is
  refused.
\<close>

theorem crc_detects:
  assumes "p < 24" "q < 24"
  shows "(check_crc m c = 0 \<longleftrightarrow> c = crc8 m) \<and>
    (check_crc m c = 0 \<longrightarrow> check_crc (fst (flip p (m, c))) (snd (flip p (m, c))) \<noteq> 0 \<and>
      (p \<noteq> q \<longrightarrow> check_crc (fst (flip p (flip q (m, c)))) (snd (flip p (flip q (m, c)))) \<noteq> 0))"
proof -
  have x: "a XOR b = 0 \<longleftrightarrow> b = a" for a b :: u8 by (metis xor.left_neutral xor.right_neutral xor_self_eq xor.assoc)
  have "check_crc m c = 0 \<longleftrightarrow> c = crc8 m" by (simp add: check_crc_crc8 x)
  moreover have "check_crc m c = 0 \<Longrightarrow> check_crc (fst (flip p (m, c))) (snd (flip p (m, c))) \<noteq> 0"
    using flip_crc [of p "(m, c)"] syndrome_distinct(2) [OF assms(1)] by simp
  moreover have "check_crc m c = 0 \<Longrightarrow> p \<noteq> q \<Longrightarrow>
      check_crc (fst (flip p (flip q (m, c)))) (snd (flip p (flip q (m, c)))) \<noteq> 0"
    using flip_crc [of p "flip q (m, c)"] flip_crc [of q "(m, c)"] syndrome_distinct(1) [OF assms] x by auto
  ultimately show ?thesis by blast
qed

text \<open>A reading of the data sheet, \<open>0x683A\<close> with the check value \<open>0x7C\<close>, and two inverted bits.\<close>

theorem crc_detects_witness:
  "check_crc 0x683A 0x7C = 0 \<and> check_crc 0x683A 0x74 \<noteq> 0 \<and> check_crc 0x6A3A 0x74 \<noteq> 0"
proof -
  have a: "check_crc 0x683A 0x7C = 0" by (simp add: check_crc_def SHIFTED_DIVISOR_def crc_step)
  have "flip 3 (0x683A, 0x7C) = (0x683A, 0x74)" "flip 17 (0x683A, 0x74) = (0x6A3A, 0x74)" by (simp_all add: flip_def BV_def)
  then have f: "fst (flip 3 (0x683A, 0x7C)) = 0x683A" "snd (flip 3 (0x683A, 0x7C)) = 0x74"
    "fst (flip 17 (flip 3 (0x683A, 0x7C))) = 0x6A3A" "snd (flip 17 (flip 3 (0x683A, 0x7C))) = 0x74" by simp_all
  show ?thesis
    using crc_detects [of 3 17 "0x683A" "0x7C"] crc_detects [of 17 3 "0x683A" "0x7C"] a unfolding f by simp
qed

end
