(* ===== verification/Sensors.thy ===== *)
theory Sensors
  imports Wire Check_Sum
begin

text \<open>
  The sensors of the board over the class of theory \<^verbatim>\<open>Wire\<close>: humidity and temperature (\<^verbatim>\<open>firmware/HTU21D.cpp\<close>), the
  converter of the thermistors (\<^verbatim>\<open>MCP342X.cpp\<close>), the current sensors (\<^verbatim>\<open>getAddressCurrent\<close> of \<^verbatim>\<open>Wagman.cpp\<close>). The
  readings of the humidity sensor are returned as \<^verbatim>\<open>float\<close>, which holds the 16-bit values exactly; they are
  16-bit words here. Delays are left out.
\<close>

section \<open>Humidity and temperature\<close>

definition HTDU21D_ADDRESS :: u8 where "HTDU21D_ADDRESS = 0x40"
definition TRIGGER_TEMP_MEASURE_NOHOLD :: u8 where "TRIGGER_TEMP_MEASURE_NOHOLD = 0xF3"
definition TRIGGER_HUMD_MEASURE_NOHOLD :: u8 where "TRIGGER_HUMD_MEASURE_NOHOLD = 0xF5"
definition WRITE_USER_REG :: u8 where "WRITE_USER_REG = 0xE6"
definition READ_USER_REG :: u8 where "READ_USER_REG = 0xE7"

text \<open>A wait of a given number of turns for three bytes; no interrupt adds any.\<close>

fun timed_out :: "nat \<Rightarrow> 'b wire \<Rightarrow> bool" where
  "timed_out 0 w = True"
| "timed_out (Suc left) w = (if Wire_available w < 3 then timed_out left w else False)"

definition raw_value :: "int list \<Rightarrow> u16" where
  "raw_value vs = push_bit 8 (ucast (word_of_int (vs ! 0) :: u8)) OR ucast (word_of_int (vs ! 1) :: u8)"

definition measure_raw :: "'b bus \<Rightarrow> u8 \<Rightarrow> nat \<Rightarrow> 'b wire \<Rightarrow> fault + u16 \<times> 'b wire" where
  "measure_raw B trigger turns w =
    andThen (send_bytes B HTDU21D_ADDRESS [trigger] w) (\<lambda>(_, w).
    andThen (requestFrom B HTDU21D_ADDRESS 3 0 0 1 w) (\<lambda>(_, w).
      if timed_out turns w then Inr (998, w)
      else let (vs, w) = read_n 3 w; raw = raw_value vs
        in Inr (if check_crc raw (word_of_int (vs ! 2)) \<noteq> 0 then 999 else raw AND 0xFFFC, w)))"

definition readHumidity :: "'b bus \<Rightarrow> 'b wire \<Rightarrow> fault + u16 \<times> 'b wire" where
  "readHumidity B w = measure_raw B TRIGGER_HUMD_MEASURE_NOHOLD 100 w"

definition readTemperature :: "'b bus \<Rightarrow> 'b wire \<Rightarrow> fault + u16 \<times> 'b wire" where
  "readTemperature B w = measure_raw B TRIGGER_TEMP_MEASURE_NOHOLD 101 w"

definition read_user_register :: "'b bus \<Rightarrow> 'b wire \<Rightarrow> fault + u8 \<times> 'b wire" where
  "read_user_register B w =
    andThen (send_bytes B HTDU21D_ADDRESS [READ_USER_REG] w) (\<lambda>(_, w).
    andThen (requestFrom B HTDU21D_ADDRESS 1 0 0 1 w) (\<lambda>(_, w).
      let (v, w) = Wire_read w in Inr (word_of_int v, w)))"

definition setResolution :: "'b bus \<Rightarrow> u8 \<Rightarrow> 'b wire \<Rightarrow> fault + 'b wire" where
  "setResolution B resolution w =
    andThen (read_user_register B w) (\<lambda>(userRegister, w).
      let userRegister = userRegister AND 0x7E OR resolution AND 0x81
      in andThen (send_bytes B HTDU21D_ADDRESS [WRITE_USER_REG, userRegister] w) (\<lambda>(_, w). Inr w))"

section \<open>The converter of the thermistors\<close>

definition MCP342X_address :: "u8 \<Rightarrow> u8 \<Rightarrow> u8 \<Rightarrow> u8" where
  "MCP342X_address A0 A1 old =
    (let L = 0; H = 1; F = 2
     in if A0 = L \<and> A1 = L \<or> A0 = F \<and> A1 = F then 0x68
        else if A0 = L \<and> A1 = F then 0x69
        else if A0 = L \<and> A1 = H then 0x6A
        else if A0 = H \<and> A1 = L then 0x6C
        else if A0 = H \<and> A1 = F then 0x6D
        else if A0 = H \<and> A1 = H then 0x6E
        else if A0 = F \<and> A1 = L then 0x6B
        else if A0 = F \<and> A1 = H then 0x6F
        else old)"

fun select_loop :: "nat \<Rightarrow> 'b bus \<Rightarrow> u8 \<Rightarrow> u8 \<Rightarrow> 'b wire \<Rightarrow> fault + 'b wire" where
  "select_loop 0 B a reg w = Inr w"
| "select_loop (Suc left) B a reg w =
     andThen (send_bytes B a [reg] w) (\<lambda>(ret, w). if ret = 0 then Inr w else select_loop left B a reg w)"

definition selectChannel :: "'b bus \<Rightarrow> u8 \<Rightarrow> u8 \<Rightarrow> u8 \<Rightarrow> 'b wire \<Rightarrow> fault + 'b wire" where
  "selectChannel B I2C_ADDRESS channel gain w =
    select_loop 10 B I2C_ADDRESS (BV 7 OR push_bit 5 channel OR 0 OR BV 3 OR gain) w"

definition readADC :: "'b bus \<Rightarrow> u8 \<Rightarrow> 'b wire \<Rightarrow> fault + u16 \<times> 'b wire" where
  "readADC B I2C_ADDRESS w =
    andThen (requestFrom B I2C_ADDRESS 3 0 0 1 w) (\<lambda>(_, w).
      if timed_out 10 w then Inr (0xFFFF, w) else let (vs, w) = read_n 3 w in Inr (raw_value vs, w))"

text \<open>\<^verbatim>\<open>getThermistor\<close>: port 0 is read by the converter of the processor, whose reading is an argument.\<close>

definition getThermistor :: "'b bus \<Rightarrow> u8 \<Rightarrow> bool \<Rightarrow> u16 \<Rightarrow> u8 \<Rightarrow> 'b wire \<Rightarrow> fault + u16 \<times> 'b wire" where
  "getThermistor B I2C_ADDRESS wire_enabled analog port w =
    (if \<not> wire_enabled then Inr (0xFFFF, w)
     else if \<not> port < 5 then Inr (0, w)
     else if port = 0 then Inr (analog, w)
     else andThen (selectChannel B I2C_ADDRESS (port - 1) 0 w) (\<lambda>w.
       andThen (readADC B I2C_ADDRESS w) (\<lambda>(v, w). Inr (drop_bit 5 v, w))))"

section \<open>The current sensors\<close>

definition SYSTEM_CURRENT_ADDRESS :: u8 where "SYSTEM_CURRENT_ADDRESS = 0x60"

definition PORT_CURRENT_ADDRESS :: "u8 list" where "PORT_CURRENT_ADDRESS = [0x62, 0x68, 0x6A, 0x63, 0x6B]"

definition MILLIAMPS_PER_STEP :: u16 where "MILLIAMPS_PER_STEP = 16"

text \<open>One attempt; \<open>None\<close> stands for \<^verbatim>\<open>continue\<close>.\<close>

definition current_attempt :: "'b bus \<Rightarrow> u8 \<Rightarrow> 'b wire \<Rightarrow> fault + u16 option \<times> 'b wire" where
  "current_attempt B addr w =
    andThen (send_with B 0 addr [0] w) (\<lambda>(ret, w).
      if ret \<noteq> 0 then Inr (None, w)
      else andThen (requestFrom B addr 3 0 0 1 w) (\<lambda>(n, w).
        if n \<noteq> 3 then Inr (None, w)
        else if timed_out 100 w then Inr (None, w)
        else let (vs, w) = read_n 3 w;
                 csb = word_of_int (vs ! 1) AND 1 :: u8;
                 lsb = word_of_int (vs ! 2) :: u8
          in andThen (endTransmission B 1 w) (\<lambda>(ret, w).
               if ret \<noteq> 0 then Inr (None, w)
               else Inr (Some ((push_bit 8 (ucast csb) OR ucast lsb) * MILLIAMPS_PER_STEP), w))))"

fun current_loop :: "nat \<Rightarrow> 'b bus \<Rightarrow> u8 \<Rightarrow> 'b wire \<Rightarrow> fault + u16 \<times> 'b wire" where
  "current_loop 0 B addr w = Inr (0xFFFF, w)"
| "current_loop (Suc left) B addr w =
     andThen (current_attempt B addr w) (\<lambda>(r, w).
       case r of None \<Rightarrow> current_loop left B addr w | Some v \<Rightarrow> Inr (v, w))"

definition getAddressCurrent :: "'b bus \<Rightarrow> bool \<Rightarrow> u8 \<Rightarrow> 'b wire \<Rightarrow> fault + u16 \<times> 'b wire" where
  "getAddressCurrent B wire_enabled addr w = (if \<not> wire_enabled then Inr (0xFFFF, w) else current_loop 10 B addr w)"

definition getPortCurrent :: "'b bus \<Rightarrow> bool \<Rightarrow> u8 \<Rightarrow> 'b wire \<Rightarrow> fault + u16 \<times> 'b wire" where
  "getPortCurrent B wire_enabled port w =
    (if \<not> wire_enabled then Inr (0xFFFF, w)
     else if \<not> port < 5 then Inr (0, w)
     else getAddressCurrent B wire_enabled (PORT_CURRENT_ADDRESS ! unat port) w)"

section \<open>Readings\<close>

lemma available_pending: "wire_ok w \<Longrightarrow> Wire_available w = int (length (pending w))"
  unfolding Wire_available_def uint_nat by (simp add: pending_def wire_ok_def word_le_nat_alt of_nat_diff)

lemma timed_out_pending: "wire_ok w \<Longrightarrow> timed_out n w \<longleftrightarrow> n = 0 \<or> length (pending w) < 3"
  by (induction n) (auto simp: available_pending)

text \<open>What the humidity sensor's answer is worth, for a device in the state \<open>c\<close>.\<close>

definition measured :: "'c chips \<Rightarrow> u8 \<Rightarrow> 'c \<Rightarrow> u16" where
  "measured D trigger c =
    (let c = after_write D HTDU21D_ADDRESS [trigger] c; bytes = sends D HTDU21D_ADDRESS c;
         raw = push_bit 8 (ucast (bytes 0)) OR ucast (bytes 1)
     in if \<not> answers D HTDU21D_ADDRESS c then 998 else if bytes 2 = crc8 raw then raw AND 0xFFFC else 999)"

lemma check_crc_zero: "check_crc m c = 0 \<longleftrightarrow> c = crc8 m"
  unfolding check_crc_crc8 by (metis xor.left_neutral xor.right_neutral xor_self_eq xor.assoc)

lemma upt_3: "[0..<3] = [0, 1, 2 :: nat]"
  by (simp add: upt_rec)

text \<open>What a current sensor in the state \<open>c\<close> answers, in milliamperes: nine bits of 16 each.\<close>

definition current_value :: "'c chips \<Rightarrow> u8 \<Rightarrow> 'c \<Rightarrow> u16" where
  "current_value D a c =
    (let bytes = sends D a (receive D a [0] c)
     in (push_bit 8 (ucast (bytes 1 AND 1)) OR ucast (bytes 2)) * MILLIAMPS_PER_STEP)"

lemma current_value_bound: "current_value D a c \<le> 8176"
proof -
  have "unat ((push_bit 8 (ucast (b AND 1)) OR ucast l :: u16) * 16) \<le> 8176" for b l :: u8
  proof -
    let ?x = "push_bit 8 (ucast (b AND 1)) OR ucast l :: u16"
    have "take_bit 9 ?x = ?x"
      by (rule bit_eqI) (auto simp: bit_take_bit_iff bit_or_iff bit_and_iff bit_push_bit_iff bit_ucast_iff bit_1_iff
          dest: bit_imp_le_length)
    then have "unat ?x = unat (?x mod 512)" by (simp add: take_bit_eq_mod)
    also have "\<dots> < 512" by (simp add: unat_mod)
    finally have "unat ?x < 512" .
    then show ?thesis by (simp add: unat_word_ariths)
  qed
  then show ?thesis by (simp add: current_value_def Let_def MILLIAMPS_PER_STEP_def word_le_nat_alt)
qed

context wire_bus
begin

lemma triple:
  assumes "good w" "a < 128"
  shows "\<exists>w'. requestFrom B a 3 0 0 1 w = Inr (if answers D a (chip w) then 3 else 0, w') \<and> good w' \<and>
    chip w' = after_read D a 3 (chip w) \<and> txAddress w' = txAddress w \<and> txBufferLength w' = txBufferLength w \<and>
    (\<forall>n>0. timed_out n w' \<longleftrightarrow> \<not> answers D a (chip w)) \<and>
    (answers D a (chip w) \<longrightarrow> (\<exists>w''. read_n 3 w' = (map (\<lambda>i. uint (sends D a (chip w) i)) [0, 1, 2], w'') \<and> good w'' \<and>
       chip w'' = chip w' \<and> txAddress w'' = txAddress w \<and> txBufferLength w'' = txBufferLength w))"
proof -
  have "(0 :: u8) < 3" "(3 :: u8) \<le> 32" by (simp_all add: word_less_nat_alt word_le_nat_alt)
  from request [OF assms this, of 1] obtain w' where
    w': "requestFrom B a 3 0 0 1 w = Inr (if answers D a (chip w) then 3 else 0, w')" "good w'"
      "chip w' = after_read D a 3 (chip w)" "pending w' = read_bytes D a 3 (chip w)"
      "txAddress w' = txAddress w" "txBufferLength w' = txBufferLength w" by auto
  have t: "\<forall>n>0. timed_out n w' \<longleftrightarrow> \<not> answers D a (chip w)"
    using w'(2,4) by (simp add: timed_out_pending good_def read_bytes_def del: timed_out.simps)
  have "answers D a (chip w) \<longrightarrow> (\<exists>w''. read_n 3 w' = (map (\<lambda>i. uint (sends D a (chip w) i)) [0, 1, 2], w'') \<and> good w'' \<and>
       chip w'' = chip w' \<and> txAddress w'' = txAddress w \<and> txBufferLength w'' = txBufferLength w)"
    using reads [OF w'(2), of "map (sends D a (chip w)) [0, 1, 2]" "[]" 3] w'(4-6)
    by (auto simp: read_bytes_def upt_3 numeral_2_eq_2)
  with w' t show ?thesis by blast
qed

lemma measure_outcome:
  assumes "good w"
  shows "\<exists>w'. measure_raw B trigger (Suc n) w = Inr (measured D trigger (chip w), w') \<and> good w'"
proof -
  have a: "HTDU21D_ADDRESS < 128" by (simp add: HTDU21D_ADDRESS_def word_less_nat_alt)
  from send [OF assms a, of "[trigger]"] obtain r w1 where
    w1: "send_bytes B HTDU21D_ADDRESS [trigger] w = Inr (r, w1)" "good w1"
      "chip w1 = after_write D HTDU21D_ADDRESS [trigger] (chip w)" by auto
  from triple [OF w1(2) a] obtain r' w2 where
    w2: "requestFrom B HTDU21D_ADDRESS 3 0 0 1 w1 = Inr (r', w2)" "good w2"
      "timed_out (Suc n) w2 \<longleftrightarrow> \<not> answers D HTDU21D_ADDRESS (chip w1)"
      "answers D HTDU21D_ADDRESS (chip w1) \<Longrightarrow> \<exists>w3. read_n 3 w2 = (map (\<lambda>i. uint (sends D HTDU21D_ADDRESS (chip w1) i)) [0, 1, 2], w3) \<and> good w3"
    by (metis zero_less_Suc)
  show ?thesis
  proof (cases "answers D HTDU21D_ADDRESS (chip w1)")
    case True
    then show ?thesis using w1 w2
      by (auto simp: measure_raw_def measured_def Let_def raw_value_def check_crc_zero simp del: timed_out.simps)
  next
    case False
    then show ?thesis using w1 w2 by (simp add: measure_raw_def measured_def Let_def del: timed_out.simps)
  qed
qed

lemma attempt_outcome:
  assumes "good w" "a < 128"
  shows "\<exists>r w'. current_attempt B a w = Inr (r, w') \<and> good w' \<and> (\<forall>v. r = Some v \<longrightarrow> v \<le> 8176) \<and>
    ((\<forall>c. answers D a c \<and> 1 \<le> takes D a c) \<longrightarrow> r = Some (current_value D a (chip w))) \<and>
    ((\<forall>c. \<not> answers D a c) \<longrightarrow> r = None)"
proof -
  from send_any [OF assms, of "[0]" 0] obtain w1 where
    w1: "send_with B 0 a [0] w = Inr (write_code D a 1 (chip w), w1)" "good w1"
      "chip w1 = after_write D a [0] (chip w)" "txAddress w1 = a" "txBufferLength w1 = 0" by auto
  from triple [OF w1(2) assms(2)] obtain w2 where
    w2: "requestFrom B a 3 0 0 1 w1 = Inr (if answers D a (chip w1) then 3 else 0, w2)" "good w2"
      "timed_out 100 w2 \<longleftrightarrow> \<not> answers D a (chip w1)"
      "answers D a (chip w1) \<Longrightarrow> \<exists>w3. read_n 3 w2 = (map (\<lambda>i. uint (sends D a (chip w1) i)) [0, 1, 2], w3) \<and> good w3 \<and>
         txAddress w3 = a \<and> txBufferLength w3 = 0"
    unfolding w1(4,5) by (metis zero_less_numeral)
  show ?thesis
  proof (cases "write_code D a 1 (chip w) = 0 \<and> answers D a (chip w1)")
    case False
    then have "current_attempt B a w = Inr (None, if write_code D a 1 (chip w) = 0 then w2 else w1)"
      using w1(1) w2(1) by (auto simp: current_attempt_def simp del: timed_out.simps)
    moreover have "\<not> (\<forall>c. answers D a c \<and> 1 \<le> takes D a c)"
      using False unfolding write_code_def by (metis not_less)
    ultimately show ?thesis using w1(2) w2(2) by (cases "write_code D a 1 (chip w) = 0") auto
  next
    case True
    then obtain w3 where w3: "read_n 3 w2 = (map (\<lambda>i. uint (sends D a (chip w1) i)) [0, 1, 2], w3)" "good w3"
      "txAddress w3 = a" "txBufferLength w3 = 0" using w2(4) by blast
    from finish [of w3 1] w3 assms(2) obtain w4 where
      w4: "endTransmission B 1 w3 = Inr (write_code D a 0 (chip w3), w4)" "good w4" by auto
    have "chip w1 = receive D a [0] (chip w)"
      using True w1(3) by (auto simp: write_code_def after_write_def split: if_splits)
    then have v: "current_attempt B a w = Inr (if write_code D a 0 (chip w3) \<noteq> 0 then None
        else Some (current_value D a (chip w)), w4)"
      using True w1(1) w2(1,3) w3(1) w4(1)
      by (simp add: current_attempt_def current_value_def Let_def del: timed_out.simps)
    show ?thesis using v w4(2) True current_value_bound by (auto simp: write_code_def)
  qed
qed

lemma current_loop_outcome:
  assumes "good w" "a < 128"
  shows "\<exists>v w'. current_loop n B a w = Inr (v, w') \<and> good w' \<and> (v = 0xFFFF \<or> v \<le> 8176) \<and>
    ((\<forall>c. answers D a c \<and> 1 \<le> takes D a c) \<and> 0 < n \<longrightarrow> v = current_value D a (chip w)) \<and>
    ((\<forall>c. \<not> answers D a c) \<longrightarrow> v = 0xFFFF)"
  using assms
proof (induction n arbitrary: w)
  case (Suc n)
  from attempt_outcome [OF Suc(2,3)] obtain r w1 where
    r: "current_attempt B a w = Inr (r, w1)" "good w1" "\<And>v. r = Some v \<Longrightarrow> v \<le> 8176"
      "(\<forall>c. answers D a c \<and> 1 \<le> takes D a c) \<Longrightarrow> r = Some (current_value D a (chip w))"
      "(\<forall>c. \<not> answers D a c) \<Longrightarrow> r = None" by blast
  show ?case
  proof (cases r)
    case None
    from Suc(1) [OF r(2) Suc(3)] show ?thesis using r None by auto
  next
    case (Some v)
    then show ?thesis using r by auto
  qed
qed simp

end

text \<open>The error value of the converter does not survive the shift: a thermistor reading of the ports 1 to 4 is at
  most 2047.\<close>

lemma thermistor_bound:
  assumes "getThermistor B a True analog port w = Inr (v, w')" "port \<noteq> 0" "port < 5"
  shows "v \<le> 2047"
proof -
  have b: "drop_bit 5 x \<le> (2047 :: u16)" for x :: u16
  proof -
    have "unat x div 32 \<le> 2047" using unsigned_less [of x, where 'a = nat] by simp
    then show ?thesis by (simp add: word_le_nat_alt drop_bit_eq_div unat_div)
  qed
  obtain w1 where w1: "selectChannel B a (port - 1) 0 w = Inr w1"
    using assms by (cases "selectChannel B a (port - 1) 0 w") (auto simp: getThermistor_def)
  then obtain x w2 where "readADC B a w1 = Inr (x, w2)"
    using assms by (cases "readADC B a w1") (auto simp: getThermistor_def)
  with w1 assms b [of x] show ?thesis by (auto simp: getThermistor_def)
qed

text \<open>
  C22. A reading of the humidity sensor through the buffers and the two-wire module, on a bus that no other master
  disturbs, ends whatever the devices on the bus do: it is 998 when no sensor answers, 999 when the check value
  is not the check sum of the two data bytes, and otherwise the two data bytes with the status bits cleared (not
  the humidity in per cent, whose computation is commented out); the three cases cannot be confused.
\<close>

theorem humidity_reading:
  assumes "wire_ok w" "master_ready (module (bus_of w))"
  shows "\<exists>v w'. readHumidity (twi_bus M cb D) w = Inr (v, w') \<and> wire_ok w' \<and> master_ready (module (bus_of w')) \<and>
    v = measured D TRIGGER_HUMD_MEASURE_NOHOLD (on_line (bus_of w)) \<and> (v = 998 \<or> v = 999 \<or> v AND 3 = 0)"
proof -
  have m: "0xFFFC AND 3 = (0 :: u16)" by simp
  have "measured D t c = 998 \<or> measured D t c = 999 \<or> measured D t c AND 3 = 0" for t c
    by (auto simp: measured_def Let_def and.assoc m)
  then show ?thesis
    using twi_line.measure_outcome [of w M cb D TRIGGER_HUMD_MEASURE_NOHOLD 99] assms
    by (auto simp: readHumidity_def twi_line.good_def twi_line.chip_def)
qed

text \<open>A device that answers always the same.\<close>

definition constant_chip :: "u8 \<Rightarrow> u8 list \<Rightarrow> unit chips" where
  "constant_chip a bytes = \<lparr>answers = (\<lambda>b _. b = a), takes = (\<lambda>_ _. 32), receive = (\<lambda>_ _ c. c), sends = (\<lambda>_ _ i. bytes ! i),
     advance = (\<lambda>_ _ c. c)\<rparr>"

theorem humidity_reading_witness:
  "\<exists>w'. readHumidity (twi_bus atmega32u4 no_callbacks (constant_chip 0x40 [0x4E, 0x85, 0x6B])) (idle_wire ()) = Inr (0x4E84, w')"
proof -
  have "check_crc 0x4E85 0x6B = 0" by (simp add: check_crc_def SHIFTED_DIVISOR_def crc_step)
  then have "measured (constant_chip 0x40 [0x4E, 0x85, 0x6B]) TRIGGER_HUMD_MEASURE_NOHOLD () = 0x4E84"
    by (simp add: measured_def constant_chip_def HTDU21D_ADDRESS_def after_write_def Let_def check_crc_zero)
  then show ?thesis
    using humidity_reading [OF idle_wire_ok(1,2), of atmega32u4 no_callbacks "constant_chip 0x40 [0x4E, 0x85, 0x6B]" "()"]
    by (auto simp: idle_wire_ok)
qed

text \<open>
  C23. On a bus that no other master disturbs a reading of a port's current ends after at most ten attempts.
  Whatever the devices do, the result is the error value or at most 8176 mA; a sensor that is always there
  gives its nine bits times 16 mA; without a sensor the result is the error value.
\<close>

theorem current_reading:
  assumes "wire_ok w" "master_ready (module (bus_of w))" "port < 5" "PORT_CURRENT_ADDRESS ! unat port = a"
  shows "\<exists>v w'. getPortCurrent (twi_bus M cb D) True port w = Inr (v, w') \<and> (v = 0xFFFF \<or> v \<le> 8176) \<and>
    ((\<forall>c. answers D a c \<and> 1 \<le> takes D a c) \<longrightarrow> v = current_value D a (on_line (bus_of w))) \<and>
    ((\<forall>c. \<not> answers D a c) \<longrightarrow> v = 0xFFFF)"
proof -
  have "\<forall>b\<in>set PORT_CURRENT_ADDRESS. b < 128" "length PORT_CURRENT_ADDRESS = 5"
    by (simp_all add: PORT_CURRENT_ADDRESS_def word_less_nat_alt)
  moreover have "unat port < 5" using assms(3) by (simp add: word_less_nat_alt)
  ultimately have "a < 128" using assms(4) nth_mem [of "unat port" PORT_CURRENT_ADDRESS] by auto
  from twi_line.current_loop_outcome [OF _ this, of w 10 M cb D] assms(1,2) show ?thesis
    using assms(3,4) by (auto simp: getPortCurrent_def getAddressCurrent_def twi_line.good_def twi_line.chip_def)
qed

theorem current_reading_witness:
  "\<exists>w'. getPortCurrent (twi_bus atmega32u4 no_callbacks (constant_chip 0x62 [0, 1, 44])) True 0 (idle_wire ()) = Inr (4800, w')"
proof -
  have "current_value (constant_chip 0x62 [0, 1, 44]) 0x62 () = 4800"
    by (simp add: current_value_def constant_chip_def MILLIAMPS_PER_STEP_def)
  then show ?thesis
    using current_reading [OF idle_wire_ok(1,2), of 0 "0x62" atmega32u4 no_callbacks "constant_chip 0x62 [0, 1, 44]" "()"]
    by (auto simp: idle_wire_ok PORT_CURRENT_ADDRESS_def constant_chip_def)
qed

end
