(* ===== verification/Wiring_Analog.thy ===== *)
theory Wiring_Analog
  imports Wiring_Pins
begin

text \<open>
  The converter and PWM output (\<^verbatim>\<open>wiring_analog.c\<close>) and pulse measurement (\<^verbatim>\<open>wiring_pulse.c\<close> with the
  counting routine of \<^verbatim>\<open>wiring_pulse.S\<close>). Results of the converter, samples of an input port and readings
  of the clock come from outside and are arguments; \<^verbatim>\<open>pulseInLong\<close> rests on the locale \<open>microclock\<close>.
\<close>

section \<open>wiring_analog.c\<close>

definition analogReference :: "u8 \<Rightarrow> avr \<Rightarrow> avr" where
  "analogReference mode s = s\<lparr>analog_reference := mode\<rparr>"

text \<open>
  The converter is outside: \<open>adc\<close> gives the low and high result byte for the contents of \<^verbatim>\<open>ADMUX\<close> and
  \<^verbatim>\<open>ADCSRB\<close>, or \<open>None\<close> when \<^verbatim>\<open>ADSC\<close> never clears and the loop waits for ever. The board's variant defines
  \<^verbatim>\<open>analogPinToChannel\<close> and the part is the 32U4, so the first of the numbering branches is compiled.
\<close>

definition analogRead ::
  "mcu \<Rightarrow> (u8 \<Rightarrow> u8 \<Rightarrow> (u8 \<times> u8) option) \<Rightarrow> u8 \<Rightarrow> avr \<Rightarrow> (u16 \<times> avr) option" where
  "analogRead M adc pin s = do {
     let pin = (if cpu M = ATmega32U4 \<and> pin \<ge> 18 then pin - 18 else pin);
     pin \<leftarrow> analogPinToChannel pin;
     let s = (if hasr M ADCSRB \<and> hasb M (MUX 5)
       then set_reg ADCSRB ((regs s ADCSRB AND NOT (BV (bitno M (MUX 5)))) OR
              push_bit (bitno M (MUX 5)) (drop_bit 3 pin AND 1)) s else s);
     let s = (if hasr M ADMUX
       then set_reg ADMUX (push_bit 6 (analog_reference s) OR (pin AND 7)) s else s);
     if hasr M ADCSRA \<and> hasr M ADCL then do {
       let s = sbi_r M ADCSRA ADSC s;
       (low, high) \<leftarrow> adc (regs s ADMUX) (regs s ADCSRB);
       let s = set_reg ADCH high (set_reg ADCL low (cbi_r M ADCSRA ADSC s));
       Some (push_bit 8 (ucast high) OR ucast low, s)
     } else Some (0, s)
   }"

text \<open>The switch of \<^verbatim>\<open>analogWrite\<close> over the PWM channels; \<open>None\<close> for the default branch.\<close>

definition analogWrite_pwm :: "mcu \<Rightarrow> u8 \<Rightarrow> u16 \<Rightarrow> avr \<Rightarrow> avr option" where
  "analogWrite_pwm M timer val s =
     (if hasr M (TCCR 0) \<and> hasb M (COM 0 0) \<and> cpu M \<noteq> ATmega8 \<and> timer = TIMER0A
        then Some (set_ocr M (OCR 0) val (sbi_r M (TCCR 0) (COM 0 0) s))
      else if hasr M (TCCRA 0) \<and> hasb M (COMA 0 1) \<and> timer = TIMER0A
        then Some (set_ocr M (OCRA 0) val (sbi_r M (TCCRA 0) (COMA 0 1) s))
      else if hasr M (TCCRA 0) \<and> hasb M (COMB 0 1) \<and> timer = TIMER0B
        then Some (set_ocr M (OCRB 0) val (sbi_r M (TCCRA 0) (COMB 0 1) s))
      else if hasr M (TCCRA 1) \<and> hasb M (COMA 1 1) \<and> timer = TIMER1A
        then Some (set_ocr M (OCRA 1) val (sbi_r M (TCCRA 1) (COMA 1 1) s))
      else if hasr M (TCCRA 1) \<and> hasb M (COMB 1 1) \<and> timer = TIMER1B
        then Some (set_ocr M (OCRB 1) val (sbi_r M (TCCRA 1) (COMB 1 1) s))
      else if hasr M (TCCRA 1) \<and> hasb M (COMC 1 1) \<and> timer = TIMER1C
        then Some (set_ocr M (OCRC 1) val (sbi_r M (TCCRA 1) (COMC 1 1) s))
      else if hasr M (TCCR 2) \<and> hasb M (COM 2 1) \<and> timer = TIMER2
        then Some (set_ocr M (OCR 2) val (sbi_r M (TCCR 2) (COM 2 1) s))
      else if hasr M (TCCRA 2) \<and> hasb M (COMA 2 1) \<and> timer = TIMER2A
        then Some (set_ocr M (OCRA 2) val (sbi_r M (TCCRA 2) (COMA 2 1) s))
      else if hasr M (TCCRA 2) \<and> hasb M (COMB 2 1) \<and> timer = TIMER2B
        then Some (set_ocr M (OCRB 2) val (sbi_r M (TCCRA 2) (COMB 2 1) s))
      else if hasr M (TCCRA 3) \<and> hasb M (COMA 3 1) \<and> timer = TIMER3A
        then Some (set_ocr M (OCRA 3) val (sbi_r M (TCCRA 3) (COMA 3 1) s))
      else if hasr M (TCCRA 3) \<and> hasb M (COMB 3 1) \<and> timer = TIMER3B
        then Some (set_ocr M (OCRB 3) val (sbi_r M (TCCRA 3) (COMB 3 1) s))
      else if hasr M (TCCRA 3) \<and> hasb M (COMC 3 1) \<and> timer = TIMER3C
        then Some (set_ocr M (OCRC 3) val (sbi_r M (TCCRA 3) (COMC 3 1) s))
      else if hasr M (TCCRA 4) \<and> timer = TIMER4A
        then (let s = sbi_r M (TCCRA 4) (COMA 4 1) s;
                  s = (if hasb M (COMA 4 0) then cbi_r M (TCCRA 4) (COMA 4 0) s else s)
              in Some (set_ocr M (OCRA 4) val s))
      else if hasr M (TCCRA 4) \<and> hasb M (COMB 4 1) \<and> timer = TIMER4B
        then Some (set_ocr M (OCRB 4) val (sbi_r M (TCCRA 4) (COMB 4 1) s))
      else if hasr M (TCCRA 4) \<and> hasb M (COMC 4 1) \<and> timer = TIMER4C
        then Some (set_ocr M (OCRC 4) val (sbi_r M (TCCRA 4) (COMC 4 1) s))
      else if hasr M (TCCRC 4) \<and> hasb M (COMD 4 1) \<and> timer = TIMER4D
        then (let s = sbi_r M (TCCRC 4) (COMD 4 1) s;
                  s = (if hasb M (COMD 4 0) then cbi_r M (TCCRC 4) (COMD 4 0) s else s)
              in Some (set_ocr M (OCRD 4) val s))
      else if hasr M (TCCRA 5) \<and> hasb M (COMA 5 1) \<and> timer = TIMER5A
        then Some (set_ocr M (OCRA 5) val (sbi_r M (TCCRA 5) (COMA 5 1) s))
      else if hasr M (TCCRA 5) \<and> hasb M (COMB 5 1) \<and> timer = TIMER5B
        then Some (set_ocr M (OCRB 5) val (sbi_r M (TCCRA 5) (COMB 5 1) s))
      else if hasr M (TCCRA 5) \<and> hasb M (COMC 5 1) \<and> timer = TIMER5C
        then Some (set_ocr M (OCRC 5) val (sbi_r M (TCCRA 5) (COMC 5 1) s))
      else None)"

definition analogWrite :: "mcu \<Rightarrow> u8 \<Rightarrow> u16 \<Rightarrow> avr \<Rightarrow> avr option" where
  "analogWrite M pin val s = do {
     s \<leftarrow> pinMode pin OUTPUT s;
     if val = 0 then digitalWrite M pin LOW s
     else if val = 255 then digitalWrite M pin HIGH s
     else do {
       timer \<leftarrow> digitalPinToTimer pin;
       case analogWrite_pwm M timer val s of
         Some s \<Rightarrow> Some s
       | None \<Rightarrow> if sint val < 128 then digitalWrite M pin LOW s else digitalWrite M pin HIGH s
     }
   }"


section \<open>wiring_pulse.c\<close>

text \<open>
  The three loops of \<^verbatim>\<open>countPulseASM\<close>; \<open>port n\<close> is the \<open>n\<close>-th sample of the input register. The first
  two give the remaining budget and the number of the next sample, or \<open>None\<close> when the budget ran out.
\<close>

function (sequential) count_wait :: "bool \<Rightarrow> (nat \<Rightarrow> u8) \<Rightarrow> u8 \<Rightarrow> u8 \<Rightarrow> u32 \<Rightarrow> nat \<Rightarrow> (u32 \<times> nat) option" where
  "count_wait eq port msk stateMask maxloops n =
     (if (port n AND msk = stateMask) = eq then
        (let maxloops = maxloops - 1
         in if maxloops = 0 then None else count_wait eq port msk stateMask maxloops (n + 1))
      else Some (maxloops, n + 1))"
  by auto
termination
proof (relation "measure (\<lambda>(eq, port, msk, stateMask, maxloops, n). unat (maxloops - 1))")
  fix maxloops x :: u32
  assume "x = maxloops - 1" "x \<noteq> 0"
  then have "unat (x - 1) < unat (maxloops - 1)" by (metis measure_unat)
  then show "((eq, port, msk, stateMask, x, n + 1), (eq, port, msk, stateMask, maxloops, n))
    \<in> measure (\<lambda>(eq, port, msk, stateMask, maxloops, n). unat (maxloops - 1))"
    for eq and port :: "nat \<Rightarrow> u8" and msk stateMask :: u8 and n :: nat by simp
qed simp

declare count_wait.simps [simp del]

function (sequential) count_width :: "(nat \<Rightarrow> u8) \<Rightarrow> u8 \<Rightarrow> u8 \<Rightarrow> u32 \<Rightarrow> u32 \<Rightarrow> nat \<Rightarrow> u32" where
  "count_width port msk stateMask maxloops width n =
     (if port n AND msk = stateMask then
        (let width = width + 1
         in if width = maxloops then 0 else count_width port msk stateMask maxloops width (n + 1))
      else width)"
  by auto
termination
proof (relation "measure (\<lambda>(port, msk, stateMask, maxloops, width, n). unat (maxloops - width - 1))")
  fix maxloops width x :: u32
  assume x: "x = width + 1" "x \<noteq> maxloops"
  then have "maxloops - width - 1 \<noteq> 0" by (auto simp: algebra_simps)
  then have "unat (maxloops - width - 1 - 1) < unat (maxloops - width - 1)" by (rule measure_unat)
  then have "unat (maxloops - x - 1) < unat (maxloops - width - 1)" by (simp add: x diff_diff_add)
  then show "((port, msk, stateMask, maxloops, x, n + 1), (port, msk, stateMask, maxloops, width, n))
    \<in> measure (\<lambda>(port, msk, stateMask, maxloops, width, n). unat (maxloops - width - 1))"
    for port :: "nat \<Rightarrow> u8" and msk stateMask :: u8 and n :: nat by simp
qed simp

declare count_width.simps [simp del]

definition countPulseASM :: "(nat \<Rightarrow> u8) \<Rightarrow> u8 \<Rightarrow> u8 \<Rightarrow> u32 \<Rightarrow> u32" where
  "countPulseASM port msk stateMask maxloops =
     (case count_wait True port msk stateMask maxloops 0 of
        None \<Rightarrow> 0
      | Some (maxloops, n) \<Rightarrow>
         (case count_wait False port msk stateMask maxloops n of
            None \<Rightarrow> 0
          | Some (maxloops, n) \<Rightarrow> count_width port msk stateMask maxloops 0 n))"

text \<open>\<open>sample r\<close> is the sequence of values of the input register \<open>r\<close>.\<close>

definition pulseIn :: "mcu \<Rightarrow> (io \<Rightarrow> nat \<Rightarrow> u8) \<Rightarrow> u8 \<Rightarrow> u8 \<Rightarrow> u32 \<Rightarrow> u32 option" where
  "pulseIn M sample pin state timeout = do {
     bit \<leftarrow> digitalPinToBitMask pin;
     port \<leftarrow> digitalPinToPort pin;
     let stateMask = (if state \<noteq> 0 then bit else 0);
     let maxloops = timeout * of_nat (clockCyclesPerMicrosecond M) div 16;
     inp \<leftarrow> portInputRegister port;
     let width = countPulseASM (sample inp) bit stateMask maxloops;
     Some (if width \<noteq> 0 then (width * 16 + 16) div of_nat (clockCyclesPerMicrosecond M) else 0)
   }"

text \<open>
  \<^verbatim>\<open>pulseInLong\<close> alternates reads of the port and of the clock; both are indexed by one count of reads.
  A wait ends with \<open>Inl\<close> on a timeout and with \<open>Inr\<close> and the number of the next read otherwise; it is
  \<open>None\<close> when it never ends.
\<close>

partial_function (option) pulse_wait ::
  "bool \<Rightarrow> (nat \<Rightarrow> u8) \<Rightarrow> (nat \<Rightarrow> u32) \<Rightarrow> u8 \<Rightarrow> u8 \<Rightarrow> u32 \<Rightarrow> u32 \<Rightarrow> nat \<Rightarrow> (unit + nat) option" where
  "pulse_wait eq port clk msk stateMask startMicros timeout n =
     (if (port n AND msk = stateMask) = eq then
        (if clk (n + 1) - startMicros > timeout then Some (Inl ())
         else pulse_wait eq port clk msk stateMask startMicros timeout (n + 2))
      else Some (Inr (n + 1)))"

definition pulseInLong :: "(io \<Rightarrow> nat \<Rightarrow> u8) \<Rightarrow> (nat \<Rightarrow> u32) \<Rightarrow> u8 \<Rightarrow> u8 \<Rightarrow> u32 \<Rightarrow> u32 option" where
  "pulseInLong sample clk pin state timeout = do {
     bit \<leftarrow> digitalPinToBitMask pin;
     port \<leftarrow> digitalPinToPort pin;
     let stateMask = (if state \<noteq> 0 then bit else 0);
     inp \<leftarrow> portInputRegister port;
     let startMicros = clk 0;
     w \<leftarrow> pulse_wait True (sample inp) clk bit stateMask startMicros timeout 1;
     (case w of Inl _ \<Rightarrow> Some 0
      | Inr n \<Rightarrow> do {
          w \<leftarrow> pulse_wait False (sample inp) clk bit stateMask startMicros timeout n;
          (case w of Inl _ \<Rightarrow> Some 0
           | Inr n \<Rightarrow> do {
               let start = clk n;
               w \<leftarrow> pulse_wait True (sample inp) clk bit stateMask startMicros timeout (n + 1);
               (case w of Inl _ \<Rightarrow> Some 0 | Inr n \<Rightarrow> Some (clk n - start))
             })
        })
   }"


section \<open>PWM and the converter\<close>

text \<open>The PWM pins of the board: control register, position of the connect bit, compare register.\<close>

definition pwm_channel :: "nat \<Rightarrow> (io \<times> nat \<times> io) option" where
  "pwm_channel pin = map_of [(3, (TCCRA 0, 5, OCRB 0)), (5, (TCCRA 3, 7, OCRA 3)), (6, (TCCRC 4, 3, OCRD 4)),
     (9, (TCCRA 1, 7, OCRA 1)), (10, (TCCRA 1, 5, OCRB 1)), (11, (TCCRA 0, 7, OCRA 0)),
     (13, (TCCRA 4, 7, OCRA 4))] pin"

lemma pinMode_OUTPUT:
  assumes "unat pin < 31"
  shows "pinMode pin OUTPUT s = Some (set_reg (DDR (fst (wire pin)))
    (sbi (regs s (DDR (fst (wire pin)))) (snd (wire pin))) s)"
proof -
  note l = pin_lookup [OF assms]
  obtain p where p: "digitalPinToPort pin = Some p" "p \<noteq> NOT_A_PIN" "port_letter p = Some (fst (wire pin))"
    using l(2) by blast
  then show ?thesis
    using l by (simp add: pinMode_def portModeRegister_def portOutputRegister_def or_BV atomic_def
        cli_def write_reg_def set_reg_def Let_def fun_eq_iff)
qed

lemma timer_of_pin:
  assumes "unat pin < 31"
  shows "pwm_channel (unat pin) = None \<and> digital_pin_to_timer_PGM ! unat pin = NOT_ON_TIMER \<or>
    (unat pin, digital_pin_to_timer_PGM ! unat pin) \<in>
      {(3, TIMER0B), (5, TIMER3A), (6, TIMER4D), (9, TIMER1A), (10, TIMER1B), (11, TIMER0A), (13, TIMER4A)}"
proof -
  have "list_all (\<lambda>i. pwm_channel i = None \<and> digital_pin_to_timer_PGM ! i = NOT_ON_TIMER \<or>
    (i, digital_pin_to_timer_PGM ! i) \<in> {(3, TIMER0B), (5, TIMER3A), (6, TIMER4D), (9, TIMER1A),
      (10, TIMER1B), (11, TIMER0A), (13, TIMER4A)}) [0..<31]"
    by (simp add: upt_rec pwm_channel_def digital_pin_to_timer_PGM_def)
  then show ?thesis using assms by (simp add: list_all_iff)
qed

lemma pwm_none: "analogWrite_pwm M NOT_ON_TIMER v s = None"
  by (simp add: analogWrite_pwm_def)

lemma wide_32u4: "wide atmega32u4 r = (r \<in> {OCRA 1, OCRB 1, OCRC 1, OCRA 3, OCRB 3, OCRC 3})"
  by (simp add: atmega32u4_def)

lemma pwm_32u4:
  "analogWrite_pwm atmega32u4 TIMER0A v s = Some (set_ocr atmega32u4 (OCRA 0) v (sbi_r atmega32u4 (TCCRA 0) (COMA 0 1) s))"
  "analogWrite_pwm atmega32u4 TIMER0B v s = Some (set_ocr atmega32u4 (OCRB 0) v (sbi_r atmega32u4 (TCCRA 0) (COMB 0 1) s))"
  "analogWrite_pwm atmega32u4 TIMER1A v s = Some (set_ocr atmega32u4 (OCRA 1) v (sbi_r atmega32u4 (TCCRA 1) (COMA 1 1) s))"
  "analogWrite_pwm atmega32u4 TIMER1B v s = Some (set_ocr atmega32u4 (OCRB 1) v (sbi_r atmega32u4 (TCCRA 1) (COMB 1 1) s))"
  "analogWrite_pwm atmega32u4 TIMER3A v s = Some (set_ocr atmega32u4 (OCRA 3) v (sbi_r atmega32u4 (TCCRA 3) (COMA 3 1) s))"
  "analogWrite_pwm atmega32u4 TIMER4A v s = Some (set_ocr atmega32u4 (OCRA 4) v
     (cbi_r atmega32u4 (TCCRA 4) (COMA 4 0) (sbi_r atmega32u4 (TCCRA 4) (COMA 4 1) s)))"
  "analogWrite_pwm atmega32u4 TIMER4D v s = Some (set_ocr atmega32u4 (OCRD 4) v
     (cbi_r atmega32u4 (TCCRC 4) (COMD 4 0) (sbi_r atmega32u4 (TCCRC 4) (COMD 4 1) s)))"
  by (simp_all add: analogWrite_pwm_def)

lemma pwm_some:
  assumes "pwm_channel (unat pin) = Some (r, b, ov)" "unat pin < 31" "v < 256"
  shows "\<exists>t. analogWrite_pwm atmega32u4 (digital_pin_to_timer_PGM ! unat pin) v s = Some t \<and>
    bit (regs t r) b \<and> ocr t ov = v \<and> (\<forall>c. regs t (DDR c) = regs s (DDR c))"
proof -
  have v: "v AND 255 = v"
    using assms(3) less_mask_eq [of v 8] by (simp add: mask_eq_exp_minus_1)
  let ?t = "digital_pin_to_timer_PGM ! unat pin"
  have o: "ocr (set_ocr atmega32u4 x v y) x = v" for x y by (simp add: set_ocr_def v)
  consider "unat pin = 3" "?t = TIMER0B" | "unat pin = 5" "?t = TIMER3A" | "unat pin = 6" "?t = TIMER4D"
    | "unat pin = 9" "?t = TIMER1A" | "unat pin = 10" "?t = TIMER1B" | "unat pin = 11" "?t = TIMER0A"
    | "unat pin = 13" "?t = TIMER4A"
    using timer_of_pin [OF assms(2)] assms(1) by auto
  then show ?thesis
  proof cases
    case 1 then show ?thesis using assms(1) unfolding 1(2) pwm_32u4
      by (auto simp add: pwm_channel_def o avr_simps bit_sbi) next
    case 2 then show ?thesis using assms(1) unfolding 2(2) pwm_32u4
      by (auto simp add: pwm_channel_def o avr_simps bit_sbi) next
    case 3 then show ?thesis using assms(1) unfolding 3(2) pwm_32u4
      by (auto simp add: pwm_channel_def o avr_simps bit_sbi bit_cbi) next
    case 4 then show ?thesis using assms(1) unfolding 4(2) pwm_32u4
      by (auto simp add: pwm_channel_def o avr_simps bit_sbi) next
    case 5 then show ?thesis using assms(1) unfolding 5(2) pwm_32u4
      by (auto simp add: pwm_channel_def o avr_simps bit_sbi) next
    case 6 then show ?thesis using assms(1) unfolding 6(2) pwm_32u4
      by (auto simp add: pwm_channel_def o avr_simps bit_sbi) next
    case 7 then show ?thesis using assms(1) unfolding 7(2) pwm_32u4
      by (auto simp add: pwm_channel_def o avr_simps bit_sbi bit_cbi)
  qed
qed

lemma pwm_off_disconnects:
  assumes "pwm_channel (unat pin) = Some (r, b, ov)" "unat pin < 31"
  shows "\<not> bit (regs (pwm_off atmega32u4 pin s) r) b" "r \<noteq> PORT c"
  using timer_of_pin [OF assms(2)] assms(1)
  by (auto simp: pwm_channel_def pwm_off_def turnOffPWM_def Let_def avr_simps bit_cbi)

text \<open>
  \<^verbatim>\<open>analogWrite\<close> with a duty cycle strictly between 0 and 255 makes the pin an output on every pin;
  on the seven PWM pins it connects the pin's own comparator and loads exactly the duty cycle, on the
  others it drives the pin high from 128 on; and a later \<^verbatim>\<open>digitalWrite\<close> disconnects the comparator again.
\<close>

theorem analogWrite_pwm_or_level:
  assumes "unat pin < 31" and "0 < v" and "v < 255"
  shows "\<exists>t u. analogWrite atmega32u4 pin v s = Some t \<and>
    bit (regs t (DDR (fst (wire pin)))) (snd (wire pin)) \<and>
    digitalWrite atmega32u4 pin val t = Some u \<and>
    (case pwm_channel (unat pin) of
       Some (r, b, ov) \<Rightarrow> bit (regs t r) b \<and> ocr t ov = v \<and> \<not> bit (regs u r) b
     | None \<Rightarrow> level t (wire pin) = (128 \<le> v))"
proof -
  let ?s = "set_reg (DDR (fst (wire pin))) (sbi (regs s (DDR (fst (wire pin)))) (snd (wire pin))) s"
  have d: "bit (regs ?s (DDR (fst (wire pin)))) (snd (wire pin))"
    using pin_lookup(4) [OF assms(1)] by (simp add: avr_simps bit_sbi)
  have "sint v = uint v"
    using assms(3) uint_ge_0 [of v] unfolding sint_uint word_less_def
    by (intro signed_take_bit_int_eq_self) (simp_all add: order_trans [of _ 0])
  then have v: "v \<noteq> 0" "v \<noteq> 255" "sint v < 128 \<longleftrightarrow> \<not> 128 \<le> v" "v < 256"
    using assms(2,3) by (auto simp: word_less_def word_le_def)
  note aw = analogWrite_def pinMode_OUTPUT [OF assms(1)] pin_lookup(3) [OF assms(1)]
  show ?thesis
  proof (cases "pwm_channel (unat pin)")
    case None
    then have "digital_pin_to_timer_PGM ! unat pin = NOT_ON_TIMER"
      using timer_of_pin [OF assms(1)] by (auto simp: pwm_channel_def)
    then have a: "analogWrite atmega32u4 pin v s =
        digitalWrite atmega32u4 pin (if 128 \<le> v then HIGH else LOW) ?s"
      unfolding aw using v pwm_none by simp
    obtain t where t: "digitalWrite atmega32u4 pin (if 128 \<le> v then HIGH else LOW) ?s = Some t"
        "\<And>c. regs t (DDR c) = regs ?s (DDR c)"
      by (simp add: digitalWrite_eq [OF assms(1)] write_port_fields pwm_off_frame)
    then show ?thesis using a None d digitalWrite_level [OF assms(1,1) t(1)] digitalWrite_eq [OF assms(1)]
      by (simp split: if_splits)
  next
    case (Some q)
    then obtain r b ov where q: "pwm_channel (unat pin) = Some (r, b, ov)" by (cases q) auto
    obtain t where t: "analogWrite_pwm atmega32u4 (digital_pin_to_timer_PGM ! unat pin) v ?s = Some t"
        "bit (regs t r) b" "ocr t ov = v" "\<And>c. regs t (DDR c) = regs ?s (DDR c)"
      using pwm_some [OF q assms(1) v(4)] by blast
    have "analogWrite atmega32u4 pin v s = Some t" unfolding aw using v t(1) by simp
    moreover obtain u where "digitalWrite atmega32u4 pin val t = Some u" "\<not> bit (regs u r) b"
      using pwm_off_disconnects [OF q assms(1)] by (simp add: digitalWrite_eq [OF assms(1)] write_port_fields)
    ultimately show ?thesis using t d q by simp
  qed
qed

theorem analogWrite_pwm_or_level_witness:
  "\<exists>t. analogWrite atmega32u4 9 100 avr_reset = Some t \<and> ocr t (OCRA 1) = 100"
  using analogWrite_pwm_or_level [of 9 100 avr_reset 0]
  by (auto simp: pwm_channel_def word_less_nat_alt)


lemma analogRead_32u4:
  assumes "i < 12"
  shows "analogRead atmega32u4 adc (of_nat i) s =
    (let ch = analog_pin_to_channel_PGM ! i;
         mux = push_bit 6 (analog_reference s) OR (ch AND 7);
         b = (regs s ADCSRB AND NOT (BV 5)) OR push_bit 5 (drop_bit 3 ch AND 1)
     in map_option (\<lambda>(low, high). (push_bit 8 (ucast high) OR ucast low,
        set_reg ADCH high (set_reg ADCL low (cbi_r atmega32u4 ADCSRA ADSC (sbi_r atmega32u4 ADCSRA ADSC
          (set_reg ADMUX mux (set_reg ADCSRB b s))))))) (adc mux b))"
    and "analogRead atmega32u4 adc (of_nat (i + 18)) s = analogRead atmega32u4 adc (of_nat i) s"
proof -
  have u: "unat (of_nat i :: u8) = i" "unat (of_nat (i + 18) :: u8) = i + 18"
    using assms unfolding unat_of_nat by simp_all
  have c: "\<not> (of_nat i :: u8) \<ge> 18" "(of_nat (i + 18) :: u8) \<ge> 18"
    unfolding word_le_nat_alt u using assms by simp_all
  have l: "length analog_pin_to_channel_PGM = 12" by (simp add: analog_pin_to_channel_PGM_def)
  have d: "(of_nat (i + 18) :: u8) - 18 = of_nat i" by simp
  show "analogRead atmega32u4 adc (of_nat (i + 18)) s = analogRead atmega32u4 adc (of_nat i) s"
    unfolding analogRead_def using c d by simp
  have "analogPinToChannel (of_nat i) = Some (analog_pin_to_channel_PGM ! i)"
    using assms by (simp only: analogPinToChannel_def pgm_read_def u l if_True)
  then show "analogRead atmega32u4 adc (of_nat i) s =
    (let ch = analog_pin_to_channel_PGM ! i;
         mux = push_bit 6 (analog_reference s) OR (ch AND 7);
         b = (regs s ADCSRB AND NOT (BV 5)) OR push_bit 5 (drop_bit 3 ch AND 1)
     in map_option (\<lambda>(low, high). (push_bit 8 (ucast high) OR ucast low,
        set_reg ADCH high (set_reg ADCL low (cbi_r atmega32u4 ADCSRA ADSC (sbi_r atmega32u4 ADCSRA ADSC
          (set_reg ADMUX mux (set_reg ADCSRB b s))))))) (adc mux b))"
    unfolding analogRead_def using c
    by (cases "adc (push_bit 6 (analog_reference s) OR (analog_pin_to_channel_PGM ! i AND 7))
       ((regs s ADCSRB AND NOT (BV 5)) OR push_bit 5 (drop_bit 3 (analog_pin_to_channel_PGM ! i) AND 1))")
      (simp_all add: Let_def avr_simps set_reg_fields split: prod.splits)
qed

text \<open>
  \<^verbatim>\<open>analogRead\<close> accepts the twelve inputs as numbers 0 to 11 and as pin numbers 18 to 29 alike. The
  converter runs with the input's channel of the 32U4 selected (the low three bits in \<^verbatim>\<open>ADMUX\<close>, bit 3 in
  \<^verbatim>\<open>MUX5\<close>), with the reference last chosen in the two top bits, and the result is the two bytes it
  delivered, high byte first.
\<close>

theorem analogRead_selects_channel:
  assumes "i < 12" and "\<And>a b. adc a b = Some (lo a b, hi a b)"
  shows "\<exists>t a b. analogRead atmega32u4 adc (of_nat i) s = Some (push_bit 8 (ucast (hi a b)) OR ucast (lo a b), t) \<and>
    analogRead atmega32u4 adc (of_nat (i + 18)) s = analogRead atmega32u4 adc (of_nat i) s \<and>
    unat (a AND 7) + (if bit b 5 then 8 else 0) = [7, 6, 5, 4, 1, 0, 8, 10, 11, 12, 13, 9] ! i \<and>
    drop_bit 6 a = analog_reference s AND 3"
proof -
  define ch where "ch = analog_pin_to_channel_PGM ! i"
  define mux where "mux = push_bit 6 (analog_reference s) OR (ch AND 7)"
  define b where "b = (regs s ADCSRB AND NOT (BV 5)) OR push_bit 5 (drop_bit 3 ch AND 1)"
  have m: "(7 :: u8) = mask 3" "(3 :: u8) = mask 2" by (simp_all add: mask_eq_exp_minus_1)
  have "mux AND 7 = ch AND 7"
    unfolding mux_def m by (rule bit_word_eqI) (auto simp: bit_simps)
  moreover have "bit b 5 = bit ch 3" unfolding b_def by (auto simp: bit_simps bit_BV)
  moreover have "drop_bit 6 mux = analog_reference s AND 3"
    unfolding mux_def m by (rule bit_word_eqI) (auto simp: bit_simps)
  moreover have "list_all (\<lambda>i. unat (analog_pin_to_channel_PGM ! i AND 7) +
      (if bit (analog_pin_to_channel_PGM ! i) 3 then 8 else 0) = [7, 6, 5, 4, 1, 0, 8, 10, 11, 12, 13, 9] ! i) [0..<12]"
    by (simp add: upt_rec analog_pin_to_channel_PGM_def)
  then have "unat (ch AND 7) + (if bit ch 3 then 8 else 0) = [7, 6, 5, 4, 1, 0, 8, 10, 11, 12, 13, 9] ! i"
    using assms(1) by (simp add: list_all_iff ch_def)
  ultimately show ?thesis
    using analogRead_32u4 [OF assms(1), of adc s, folded ch_def, unfolded Let_def, folded mux_def b_def]
      assms(2) by (intro exI conjI) auto
qed

theorem analogRead_selects_channel_witness:
  "\<exists>v t. analogRead atmega32u4 (\<lambda>a b. Some (a, b)) 26 avr_reset = Some (v, t)"
  using analogRead_selects_channel [of 8 "\<lambda>a b. Some (a, b)" "\<lambda>a b. a" "\<lambda>a b. b" avr_reset] by auto


section \<open>Pulses\<close>

lemma count_wait_run:
  assumes "\<And>i. i < k \<Longrightarrow> (port (n + i) AND m = sm) = eq" "(port (n + k) AND m = sm) \<noteq> eq" "k < unat maxloops"
  shows "count_wait eq port m sm maxloops n = Some (maxloops - of_nat k, n + k + 1)"
  using assms
proof (induction k arbitrary: n maxloops)
  case 0
  then show ?case by (subst count_wait.simps) simp
next
  case (Suc k)
  have u: "unat (maxloops - 1) = unat maxloops - 1" using Suc.prems(3) by (intro unat_minus_one) auto
  then have "unat (maxloops - 1) \<noteq> 0" using Suc.prems(3) by simp
  then have z: "maxloops - 1 \<noteq> 0" by auto
  have "count_wait eq port m sm (maxloops - 1) (Suc n) = Some (maxloops - 1 - of_nat k, Suc n + k + 1)"
  proof (rule Suc.IH)
    show "(port (Suc n + i) AND m = sm) = eq" if "i < k" for i using Suc.prems(1) [of "Suc i"] that by simp
  qed (use Suc.prems(2,3) u in simp_all)
  moreover have "(port n AND m = sm) = eq" using Suc.prems(1) [of 0] by simp
  ultimately show ?case using z by (subst count_wait.simps) (simp add: Let_def algebra_simps)
qed

lemma count_width_run:
  assumes "\<And>i. i < k \<Longrightarrow> port (n + i) AND m = sm" "port (n + k) AND m \<noteq> sm" "unat width + k < unat maxloops"
  shows "count_width port m sm maxloops width n = width + of_nat k"
  using assms
proof (induction k arbitrary: n width)
  case 0
  then show ?case by (subst count_width.simps) simp
next
  case (Suc k)
  have u: "unat (width + 1) = unat width + 1"
    using Suc.prems(3) unat_lt2p_any [of maxloops] by (simp add: unat_word_ariths)
  then have z: "width + 1 \<noteq> maxloops" using Suc.prems(3) by auto
  have "count_width port m sm maxloops (width + 1) (Suc n) = width + 1 + of_nat k"
  proof (rule Suc.IH)
    show "port (Suc n + i) AND m = sm" if "i < k" for i using Suc.prems(1) [of "Suc i"] that by simp
  qed (use Suc.prems(2,3) u in simp_all)
  moreover have "port n AND m = sm" using Suc.prems(1) [of 0] by simp
  ultimately show ?case using z by (subst count_width.simps) (simp add: Let_def algebra_simps)
qed

text \<open>
  \<^verbatim>\<open>pulseIn\<close> measures the next full pulse: when the input is in the given state for \<open>a\<close> samples, out of it
  for \<open>b + 1\<close>, and then in it for \<open>w + 1\<close>, all within the loop budget of the timeout, the count is \<open>w\<close> and the
  result its length in microseconds at 16 cycles for each sample.
\<close>

theorem pulseIn_measures:
  assumes "unat pin < 31" and "0 < w"
    and "\<And>i. i < a \<Longrightarrow> in_state i" and "\<not> in_state a"
    and "\<And>i. a < i \<Longrightarrow> i \<le> a + b \<Longrightarrow> \<not> in_state i" and "\<And>i. i \<le> w \<Longrightarrow> in_state (a + b + 1 + i)"
    and "\<not> in_state (a + b + w + 2)"
    and "\<And>i. in_state i = (bit (sample (PIN (fst (wire pin))) i) (snd (wire pin)) = (state \<noteq> 0))"
    and "a + b + w < unat (timeout * 16 div 16 :: u32)"
  shows "pulseIn atmega32u4 sample pin state timeout = Some ((of_nat w * 16 + 16) div 16)"
proof -
  note l = pin_lookup [OF assms(1)]
  obtain p where p: "digitalPinToPort pin = Some p" "port_letter p = Some (fst (wire pin))"
    using l(2) by blast
  define m where "m = (BV (snd (wire pin)) :: u8)"
  define sm where "sm = (if state \<noteq> 0 then m else 0)"
  define port where "port = sample (PIN (fst (wire pin)))"
  define ml where "ml = (timeout * 16 div 16 :: u32)"
  have st: "(port i AND m = sm) = in_state i" for i
  proof -
    have "port i AND m = (if bit (port i) (snd (wire pin)) then m else 0)"
      unfolding m_def using l(4) by (intro bit_word_eqI) (auto simp: bit_simps bit_BV)
    moreover have "bit m (snd (wire pin))" using l(4) by (simp add: m_def bit_BV)
    then have "m \<noteq> 0" by auto
    ultimately show ?thesis using assms(8) [of i] by (auto simp: port_def sm_def)
  qed
  have ml: "a + b + w < unat ml" using assms(9) by (simp only: ml_def)
  have w1: "count_wait True port m sm ml 0 = Some (ml - of_nat a, a + 1)"
    using count_wait_run [of a port 0 m sm True ml] assms(3,4) ml by (simp add: st)
  have u1: "unat (ml - of_nat a) = unat ml - a"
    using ml by (intro unat_diff_of_nat) simp
  have w2: "count_wait False port m sm (ml - of_nat a) (a + 1) = Some (ml - of_nat a - of_nat b, a + 1 + b + 1)"
    using assms(5,6) ml u1 assms(6) [of 0] by (intro count_wait_run) (auto simp: st)
  have u2: "unat (ml - of_nat a - of_nat b) = unat ml - a - b"
    using ml u1 unat_diff_of_nat [of b "ml - of_nat a"] by simp
  have w3: "count_width port m sm (ml - of_nat a - of_nat b) 0 (a + 1 + b + 1) = 0 + of_nat w"
    using assms(6) [of "Suc i" for i] assms(6,7) ml u2 by (intro count_width_run) (auto simp: st add.assoc)
  have "countPulseASM port m sm ml = of_nat w"
    unfolding countPulseASM_def w1 by (simp only: option.case prod.case w2 w3) simp
  moreover have "(of_nat w :: u32) \<noteq> 0"
    using ml assms(2) unat_of_nat_below [of w ml] by auto
  moreover have "clockCyclesPerMicrosecond atmega32u4 = 16" by (simp add: clockCyclesPerMicrosecond_def)
  ultimately show ?thesis
    using l p unfolding m_def [symmetric] port_def ml_def
    by (simp add: pulseIn_def portInputRegister_def sm_def [symmetric] Let_def)
qed


theorem pulseIn_measures_witness:
  "pulseIn atmega32u4 (\<lambda>_ i. if 2 \<le> i \<and> i < 8 then 0x10 else 0) 4 1 1000 = Some ((5 * 16 + 16) div 16)"
  using pulseIn_measures [of 4 5 0 "\<lambda>i. 2 \<le> i \<and> i < 8" 1 "\<lambda>_ i. if 2 \<le> i \<and> i < 8 then 0x10 else 0" 1 1000]
  by (simp add: wire_def pin_bits_def)

context microclock begin

lemma elapsed_since_start:
  assumes "T n \<le> T 0 + 4294967295"
  shows "unat (clk n - clk 0) = T n - T 0"
proof -
  have e: "clk n - clk 0 = of_nat (T n - T 0)" using T_mono [of 0 n] by (simp add: reading)
  show ?thesis unfolding e unat_of_nat using assms by simp
qed

text \<open>A wait of \<^verbatim>\<open>pulseInLong\<close> ends whatever the port does, and soon after the timeout at the latest.\<close>

lemma pulse_wait_ends:
  assumes "T n \<le> T 0 + unat timeout + k" "1000 \<le> k" "unat timeout + k + 2000 < 4294967296"
  shows "\<exists>r. pulse_wait eq port clk m sm (clk 0) timeout n = Some r \<and>
    (\<forall>n'. r = Inr n' \<longrightarrow> n < n' \<and> T n' \<le> T 0 + unat timeout + k + 1000)"
proof -
  obtain N where N: "T 0 + unat timeout + k + 1 \<le> T N" using unbounded by blast
  show ?thesis using assms(1)
  proof (induction "N - n" arbitrary: n rule: less_induct)
    case less
    have "n < N" using T_mono [of N n] less.prems N by (cases "n < N") auto
    show ?case
    proof (cases "(port n AND m = sm) = eq")
      case False
      then show ?thesis using gap [of n] less.prems
        by (subst pulse_wait.simps) auto
    next
      case True
      have "unat (clk (Suc n) - clk 0) = T (Suc n) - T 0"
        using gap [of n] less.prems assms(3) by (intro elapsed_since_start) simp
      then have c: "clk (Suc n) - clk 0 > timeout \<longleftrightarrow> unat timeout < T (Suc n) - T 0"
        by (simp add: word_less_nat_alt)
      show ?thesis
      proof (cases "unat timeout < T (Suc n) - T 0")
        case True
        then show ?thesis using \<open>(port n AND m = sm) = eq\<close> c
          by (subst pulse_wait.simps) auto
      next
        case False
        then have T2: "T (n + 2) \<le> T 0 + unat timeout + k"
          using gap [of "Suc n"] T_mono [of 0 "Suc n"] assms(2) by simp
        have "pulse_wait eq port clk m sm (clk 0) timeout n = pulse_wait eq port clk m sm (clk 0) timeout (n + 2)"
          using \<open>(port n AND m = sm) = eq\<close> c False by (subst pulse_wait.simps) simp
        moreover have "N - (n + 2) < N - n" using \<open>n < N\<close> by simp
        ultimately show ?thesis using less.hyps [OF _ T2] by fastforce
      qed
    qed
  qed
qed

lemma pulseInLong_ends:
  assumes "unat pin < 31" "unat timeout < 4294957296"
  shows "\<exists>v. pulseInLong sample clk pin state timeout = Some v \<and> unat v \<le> unat timeout + 6000"
proof -
  note l = pin_lookup [OF assms(1)]
  obtain p where p: "digitalPinToPort pin = Some p" "port_letter p = Some (fst (wire pin))"
    using l(2) by blast
  define m where "m = (BV (snd (wire pin)) :: u8)"
  define sm where "sm = (if state \<noteq> 0 then m else 0)"
  define port where "port = sample (PIN (fst (wire pin)))"
  let ?W = "\<lambda>eq. pulse_wait eq port clk m sm (clk 0) timeout"
  have eq: "pulseInLong sample clk pin state timeout =
    Option.bind (?W True 1) (\<lambda>w. case w of Inl _ \<Rightarrow> Some 0 | Inr n \<Rightarrow>
      Option.bind (?W False n) (\<lambda>w. case w of Inl _ \<Rightarrow> Some 0 | Inr n \<Rightarrow>
        Option.bind (?W True (Suc n)) (\<lambda>w. case w of Inl _ \<Rightarrow> Some 0 | Inr n' \<Rightarrow> Some (clk n' - clk n))))"
    using l p unfolding m_def [symmetric] port_def
    by (simp add: pulseInLong_def portInputRegister_def sm_def [symmetric] Let_def)
  obtain r1 where r1: "?W True 1 = Some r1"
      "\<And>n. r1 = Inr n \<Longrightarrow> T n \<le> T 0 + unat timeout + 2000"
    using pulse_wait_ends [of 1 timeout 1000 True port m sm] gap [of 0] assms(2) by (auto simp: ac_simps)
  show ?thesis
  proof (cases r1)
    case (Inl u)
    then show ?thesis unfolding eq r1(1) by simp
  next
    case (Inr n)
    obtain r2 where r2: "?W False n = Some r2" "\<And>n. r2 = Inr n \<Longrightarrow> T n \<le> T 0 + unat timeout + 3000"
      using pulse_wait_ends [of n timeout 2000 False port m sm] r1(2) Inr assms(2) by (auto simp: ac_simps)
    show ?thesis
    proof (cases r2)
      case (Inl u)
      then show ?thesis unfolding eq r1(1) using r2(1) Inr by simp
    next
      case i2: (Inr n2)
      have "T (Suc n2) \<le> T 0 + unat timeout + 4000" using r2(2) [OF i2] gap [of n2] by simp
      then obtain r3 where r3: "?W True (Suc n2) = Some r3"
          "\<And>n. r3 = Inr n \<Longrightarrow> Suc n2 < n \<and> T n \<le> T 0 + unat timeout + 5000"
        using pulse_wait_ends [of "Suc n2" timeout 4000 True port m sm] assms(2) by (auto simp: ac_simps)
      show ?thesis
      proof (cases r3)
        case (Inl u)
        then show ?thesis unfolding eq r1(1) using r2(1) r3(1) Inr i2 by simp
      next
        case i3: (Inr n3)
        have "clk n3 - clk n2 = of_nat (T n3 - T n2)"
          using T_mono [of n2 n3] r3(2) [OF i3] by (simp add: reading)
        moreover have "T n3 - T n2 \<le> unat timeout + 5000" using r3(2) [OF i3] T_mono [of 0 n2] by linarith
        moreover have "unat (of_nat k :: u32) \<le> k" for k by (simp add: unat_of_nat)
        ultimately have "unat (clk n3 - clk n2) \<le> unat timeout + 5000" by (metis order_trans)
        then show ?thesis unfolding eq r1(1) using r2(1) r3(1) Inr i2 i3 by simp
      qed
    qed
  qed
qed

end

text \<open>
  \<^verbatim>\<open>pulseInLong\<close> returns for every signal at the pin, within ten milliseconds of the longest timeout it
  can count, as long as time advances by at most a millisecond between two of its reads; its result is
  never more than six milliseconds longer than the timeout.
\<close>

theorem pulseInLong_returns:
  assumes "\<And>i. clk i = of_nat (T i)" and "\<And>i. T i \<le> T (Suc i)"
    and "\<And>i. T (Suc i) \<le> T i + 1000" and "\<And>n. \<exists>i. n \<le> T i"
    and "unat pin < 31" and "unat timeout < 4294957296"
  shows "\<exists>v. pulseInLong sample clk pin state timeout = Some v \<and> unat v \<le> unat timeout + 6000"
  by (rule microclock.pulseInLong_ends [where T = T]) (use assms in \<open>simp_all add: microclock_def\<close>)

theorem pulseInLong_returns_witness:
  "\<exists>v. pulseInLong (\<lambda>_ _. 0) board_clk 4 1 1000 = Some v \<and> unat v \<le> 7000"
  using pulseInLong_returns [of board_clk "\<lambda>i. 4 * i" 4 1000 "\<lambda>_ _. 0" 1, OF timer0_clock.reading
      timer0_clock.advances timer0_clock.gap timer0_clock.unbounded] by simp

end
