(* ===== verification/Wiring_Interrupts.thy ===== *)
theory Wiring_Interrupts
  imports Avr_Io
begin

text \<open>
  \<^verbatim>\<open>cores/arduino/WInterrupts.c\<close>: the table of user handlers for the external interrupts, attaching and
  detaching them, and the interrupt vectors that call them. A handler is a function on the world it acts
  on; \<^verbatim>\<open>nothing\<close> is the identity. The three register layouts the source distinguishes (32U4; parts with
  \<^verbatim>\<open>EICRA\<close>, \<^verbatim>\<open>EICRB\<close> and \<^verbatim>\<open>EIMSK\<close>; all others) are kept; \<open>None\<close> stands for a part on which the source stops
  with \<^verbatim>\<open>#error\<close>.
\<close>

record 'w ints =
  iregs :: "io \<Rightarrow> u8"
  intFunc :: "('w \<Rightarrow> 'w) list"

definition nothing :: "'w \<Rightarrow> 'w" where
  "nothing w = w"

definition EXTERNAL_NUM_INTERRUPTS :: "mcu \<Rightarrow> nat" where
  "EXTERNAL_NUM_INTERRUPTS M =
     (if cpu M \<in> {ATmega1280, ATmega2560, ATmega128RFA1, ATmega256RFR2, AT90USB_162_family} then 8
      else if cpu M = ATmega644_family then 3
      else if cpu M = ATmega32U4 then 5
      else 2)"

definition intFunc_init :: "mcu \<Rightarrow> ('w \<Rightarrow> 'w) list" where
  "intFunc_init M = replicate (EXTERNAL_NUM_INTERRUPTS M) nothing"

text \<open>
  The statement pair that every case of the switch consists of: put the mode into the sense bits
  \<^verbatim>\<open>ISCk0\<close> and \<^verbatim>\<open>ISCk1\<close> of a control register, and set or clear the mask bit \<^verbatim>\<open>INTk\<close>.
\<close>

definition set_sense :: "mcu \<Rightarrow> io \<Rightarrow> nat \<Rightarrow> u16 \<Rightarrow> 'w ints \<Rightarrow> 'w ints" where
  "set_sense M r k mode s = s\<lparr>iregs := (iregs s)(r :=
     (iregs s r AND NOT (BV (bitno M (ISC k 0)) OR BV (bitno M (ISC k 1)))) OR
     ucast (push_bit (bitno M (ISC k 0)) mode))\<rparr>"

definition set_mask :: "mcu \<Rightarrow> io \<Rightarrow> nat \<Rightarrow> 'w ints \<Rightarrow> 'w ints" where
  "set_mask M r k s = s\<lparr>iregs := (iregs s)(r := iregs s r OR BV (bitno M (INTn k)))\<rparr>"

definition clear_mask :: "mcu \<Rightarrow> io \<Rightarrow> nat \<Rightarrow> 'w ints \<Rightarrow> 'w ints" where
  "clear_mask M r k s = s\<lparr>iregs := (iregs s)(r := iregs s r AND NOT (BV (bitno M (INTn k))))\<rparr>"

definition trigger :: "mcu \<Rightarrow> io \<Rightarrow> io \<Rightarrow> nat \<Rightarrow> u16 \<Rightarrow> 'w ints \<Rightarrow> 'w ints" where
  "trigger M ctl msk k mode s = set_mask M msk k (set_sense M ctl k mode s)"

section \<open>attachInterrupt\<close>

definition attach_32u4 :: "mcu \<Rightarrow> u8 \<Rightarrow> u16 \<Rightarrow> 'w ints \<Rightarrow> 'w ints" where
  "attach_32u4 M n mode s =
     (if n = 0 then trigger M EICRA EIMSK 0 mode s
      else if n = 1 then trigger M EICRA EIMSK 1 mode s
      else if n = 2 then trigger M EICRA EIMSK 2 mode s
      else if n = 3 then trigger M EICRA EIMSK 3 mode s
      else if n = 4 then trigger M EICRB EIMSK 6 mode s
      else s)"

definition attach_mega :: "mcu \<Rightarrow> u8 \<Rightarrow> u16 \<Rightarrow> 'w ints \<Rightarrow> 'w ints" where
  "attach_mega M n mode s =
     (if n = 2 then trigger M EICRA EIMSK 0 mode s
      else if n = 3 then trigger M EICRA EIMSK 1 mode s
      else if n = 4 then trigger M EICRA EIMSK 2 mode s
      else if n = 5 then trigger M EICRA EIMSK 3 mode s
      else if n = 0 then trigger M EICRB EIMSK 4 mode s
      else if n = 1 then trigger M EICRB EIMSK 5 mode s
      else if n = 6 then trigger M EICRB EIMSK 6 mode s
      else if n = 7 then trigger M EICRB EIMSK 7 mode s
      else s)"

text \<open>Cases 1 and 2 leave the registers alone on parts the source does not know, case 0 is an error there.\<close>

definition attach_other :: "mcu \<Rightarrow> u8 \<Rightarrow> u16 \<Rightarrow> 'w ints \<Rightarrow> 'w ints option" where
  "attach_other M n mode s =
     (let isc0 = (\<lambda>k. hasb M (ISC k 0)); isc01 = (\<lambda>k. hasb M (ISC k 0) \<and> hasb M (ISC k 1))
      in if n = 0 then
        (if hasr M EICRA \<and> isc0 0 \<and> hasr M EIMSK then Some (trigger M EICRA EIMSK 0 mode s)
         else if hasr M MCUCR \<and> isc0 0 \<and> hasr M GICR then Some (trigger M MCUCR GICR 0 mode s)
         else if hasr M MCUCR \<and> isc0 0 \<and> hasr M GIMSK then Some (trigger M MCUCR GIMSK 0 mode s)
         else None)
      else if n = 1 \<or> n = 2 then
        (let k = unat n
         in Some (if hasr M EICRA \<and> isc01 k \<and> hasr M EIMSK then trigger M EICRA EIMSK k mode s
            else if hasr M MCUCR \<and> isc01 k \<and> hasr M GICR then trigger M MCUCR GICR k mode s
            else if hasr M MCUCR \<and> isc0 k \<and> hasr M GIMSK then trigger M MCUCR GIMSK k mode s
            else s))
      else Some s)"

definition attachInterrupt :: "mcu \<Rightarrow> u8 \<Rightarrow> ('w \<Rightarrow> 'w) \<Rightarrow> u16 \<Rightarrow> 'w ints \<Rightarrow> 'w ints option" where
  "attachInterrupt M interruptNum userFunc mode s =
     (if unat interruptNum < EXTERNAL_NUM_INTERRUPTS M then
        (let s = s\<lparr>intFunc := (intFunc s)[unat interruptNum := userFunc]\<rparr>
         in if cpu M = ATmega32U4 then Some (attach_32u4 M interruptNum mode s)
            else if hasr M EICRA \<and> hasr M EICRB \<and> hasr M EIMSK
              then Some (attach_mega M interruptNum mode s)
            else attach_other M interruptNum mode s)
      else Some s)"

section \<open>detachInterrupt and the vectors\<close>

definition detach_32u4 :: "mcu \<Rightarrow> u8 \<Rightarrow> 'w ints \<Rightarrow> 'w ints" where
  "detach_32u4 M n s =
     (if n = 0 then clear_mask M EIMSK 0 s
      else if n = 1 then clear_mask M EIMSK 1 s
      else if n = 2 then clear_mask M EIMSK 2 s
      else if n = 3 then clear_mask M EIMSK 3 s
      else if n = 4 then clear_mask M EIMSK 6 s
      else s)"

definition detach_mega :: "mcu \<Rightarrow> u8 \<Rightarrow> 'w ints \<Rightarrow> 'w ints" where
  "detach_mega M n s =
     (if n = 2 then clear_mask M EIMSK 0 s
      else if n = 3 then clear_mask M EIMSK 1 s
      else if n = 4 then clear_mask M EIMSK 2 s
      else if n = 5 then clear_mask M EIMSK 3 s
      else if n = 0 then clear_mask M EIMSK 4 s
      else if n = 1 then clear_mask M EIMSK 5 s
      else if n = 6 then clear_mask M EIMSK 6 s
      else if n = 7 then clear_mask M EIMSK 7 s
      else s)"

definition detach_other :: "mcu \<Rightarrow> u8 \<Rightarrow> 'w ints \<Rightarrow> 'w ints option" where
  "detach_other M n s =
     (if n = 0 then
        (if hasr M EIMSK \<and> hasb M (INTn 0) then Some (clear_mask M EIMSK 0 s)
         else if hasr M GICR \<and> hasb M (ISC 0 0) then Some (clear_mask M GICR 0 s)
         else if hasr M GIMSK \<and> hasb M (INTn 0) then Some (clear_mask M GIMSK 0 s)
         else None)
      else if n = 1 \<or> n = 2 then
        (let k = unat n
         in Some (if hasr M EIMSK \<and> hasb M (INTn k) then clear_mask M EIMSK k s
            else if hasr M GICR \<and> hasb M (INTn k) then clear_mask M GICR k s
            else if hasr M GIMSK \<and> hasb M (INTn k) then clear_mask M GIMSK k s
            else s))
      else Some s)"

definition detachInterrupt :: "mcu \<Rightarrow> u8 \<Rightarrow> 'w ints \<Rightarrow> 'w ints option" where
  "detachInterrupt M interruptNum s =
     (if unat interruptNum < EXTERNAL_NUM_INTERRUPTS M then do {
        s \<leftarrow> (if cpu M = ATmega32U4 then Some (detach_32u4 M interruptNum s)
              else if hasr M EICRA \<and> hasr M EICRB \<and> hasr M EIMSK then Some (detach_mega M interruptNum s)
              else detach_other M interruptNum s);
        Some (s\<lparr>intFunc := (intFunc s)[unat interruptNum := nothing]\<rparr>)
      } else Some s)"

text \<open>\<^verbatim>\<open>IMPLEMENT_ISR(INTk_vect, EXTERNAL_INT_i)\<close>: the slot that the vector of hardware interrupt \<open>k\<close> calls.\<close>

definition vector_slot :: "mcu \<Rightarrow> nat \<Rightarrow> nat option" where
  "vector_slot M k =
     (if cpu M = ATmega32U4 then map_of [(0, 0), (1, 1), (2, 2), (3, 3), (6, 4)] k
      else if hasr M EICRA \<and> hasr M EICRB
        then map_of [(0, 2), (1, 3), (2, 4), (3, 5), (4, 0), (5, 1), (6, 6), (7, 7)] k
      else map_of ([(0, 0), (1, 1)] @ (if hasr M EICRA \<and> hasb M (ISC 2 0) then [(2, 2)] else [])) k)"

text \<open>A request of hardware interrupt \<open>k\<close>: it is served when its mask bit is set.\<close>

definition INT_vect :: "mcu \<Rightarrow> nat \<Rightarrow> 'w ints \<Rightarrow> 'w \<Rightarrow> 'w" where
  "INT_vect M k s w =
     (if bit (iregs s EIMSK) (bitno M (INTn k)) then
        (case vector_slot M k of Some i \<Rightarrow> (intFunc s ! i) w | None \<Rightarrow> w)
      else w)"

section \<open>Handlers run exactly while attached\<close>

text \<open>The hardware interrupt behind an interrupt number of the 32U4.\<close>

definition line_32u4 :: "nat \<Rightarrow> nat" where
  "line_32u4 n = (if n = 4 then 6 else n)"

text \<open>The sense bits of hardware interrupt \<open>k\<close> on the 32U4.\<close>

definition sense_32u4 :: "nat \<Rightarrow> 'w ints \<Rightarrow> u8" where
  "sense_32u4 k s = (if k = 6 then drop_bit 4 (iregs s EICRB) else drop_bit (2 * k) (iregs s EICRA)) AND 3"


lemma sense_update:
  assumes "mode < 4" "i < 4" "k < 4"
  shows "drop_bit (2 * k) (((x :: u8) AND NOT (BV (2 * i) OR BV (Suc (2 * i)))) OR
      ucast (push_bit (2 * i) (mode :: u16))) AND 3 = (if k = i then ucast mode else drop_bit (2 * k) x AND 3)"
    (is "drop_bit (2 * k) ?y AND 3 = _")
proof -
  have e: "mode AND mask 2 = mode" using assms(1) by (intro less_mask_eq) simp
  have m: "bit mode j \<Longrightarrow> j < 2" for j by (metis e bit_and_iff bit_mask_iff)
  have t: "(3 :: u8) = mask 2" by (simp add: mask_eq_exp_minus_1)
  have y: "bit ?y (2 * k + j) = (if k = i then bit mode j else bit x (2 * k + j))" if "j < 2" for j
  proof -
    have j: "2 * k + j < 8" using that assms(3) by linarith
    have "2 * k + j = 2 * i \<or> 2 * k + j = Suc (2 * i) \<longleftrightarrow> k = i" using that by linarith
    moreover have "2 * i \<le> 2 * k + j \<Longrightarrow> k \<noteq> i \<Longrightarrow> \<not> bit mode (2 * k + j - 2 * i)"
      using m [of "2 * k + j - 2 * i"] that by linarith
    ultimately show ?thesis
      using j that assms(2) by (cases "k = i") (auto simp: bit_or_iff bit_and_iff bit_not_iff bit_BV
          bit_ucast_iff bit_push_bit_iff)
  qed
  have "drop_bit (2 * k) z AND mask 2 = (if k = i then ucast mode else drop_bit (2 * k) x AND mask 2)"
    if z: "\<And>j. j < 2 \<Longrightarrow> bit z (2 * k + j) = (if k = i then bit mode j else bit x (2 * k + j))" for z :: u8
  proof (rule bit_word_eqI)
    fix j
    assume "j < LENGTH(8)"
    then show "bit (drop_bit (2 * k) z AND mask 2) j =
      bit (if k = i then ucast mode else drop_bit (2 * k) x AND mask 2) j"
      using z [of j] m [of j]
      by (cases "j < 2") (auto simp: bit_and_iff bit_drop_bit_eq bit_mask_iff bit_ucast_iff)
  qed
  from this [of ?y, OF y] show ?thesis unfolding t .
qed

lemma attach_32u4_eq:
  assumes "unat n < 5"
  shows "attachInterrupt atmega32u4 n f mode s = Some (trigger atmega32u4 (if n = 4 then EICRB else EICRA) EIMSK
    (line_32u4 (unat n)) mode (s\<lparr>intFunc := (intFunc s)[unat n := f]\<rparr>))"
    "detachInterrupt atmega32u4 n s =
      Some ((clear_mask atmega32u4 EIMSK (line_32u4 (unat n)) s)\<lparr>intFunc := (intFunc s)[unat n := nothing]\<rparr>)"
proof -
  have "n \<in> {0, 1, 2, 3, 4}" using assms u8_less_5 [of n] by (simp add: word_less_nat_alt)
  then show "attachInterrupt atmega32u4 n f mode s = Some (trigger atmega32u4 (if n = 4 then EICRB else EICRA) EIMSK
    (line_32u4 (unat n)) mode (s\<lparr>intFunc := (intFunc s)[unat n := f]\<rparr>))"
    "detachInterrupt atmega32u4 n s =
      Some ((clear_mask atmega32u4 EIMSK (line_32u4 (unat n)) s)\<lparr>intFunc := (intFunc s)[unat n := nothing]\<rparr>)"
    by (auto simp: attachInterrupt_def detachInterrupt_def EXTERNAL_NUM_INTERRUPTS_def attach_32u4_def
        detach_32u4_def line_32u4_def clear_mask_def Let_def)
qed

lemma line_cases:
  fixes n :: u8
  assumes "unat n < 5" "k \<in> {0, 1, 2, 3, 6}"
  shows "vector_slot atmega32u4 k = Some (if k = 6 then 4 else k)"
    "k = line_32u4 (unat n) \<longleftrightarrow> (if k = 6 then 4 else k) = unat n"
    "bitno atmega32u4 (INTn k) = k" "bitno atmega32u4 (INTn (line_32u4 (unat n))) = line_32u4 (unat n)"
    "line_32u4 (unat n) < 8" "k < 8"
  using assms by (auto simp: vector_slot_def line_32u4_def)

lemma INT_vect_trigger:
  fixes n :: u8
  assumes "unat n < 5" "k \<in> {0, 1, 2, 3, 6}" "length (intFunc s) = 5"
  shows "INT_vect atmega32u4 k (trigger atmega32u4 (if n = 4 then EICRB else EICRA) EIMSK (line_32u4 (unat n)) mode
      (s\<lparr>intFunc := (intFunc s)[unat n := f]\<rparr>)) =
    (if k = line_32u4 (unat n) then f else INT_vect atmega32u4 k s)"
  using line_cases [OF assms(1,2)] assms(1,3)
  by (auto simp: fun_eq_iff INT_vect_def trigger_def set_mask_def set_sense_def bit_or_iff bit_BV nth_list_update
      simp del: atmega32u4_simps)

lemma INT_vect_clear:
  fixes n :: u8
  assumes "unat n < 5" "k \<in> {0, 1, 2, 3, 6}" "length (intFunc s) = 5"
  shows "INT_vect atmega32u4 k ((clear_mask atmega32u4 EIMSK (line_32u4 (unat n)) s)\<lparr>intFunc :=
      (intFunc s)[unat n := nothing]\<rparr>) = (if k = line_32u4 (unat n) then id else INT_vect atmega32u4 k s)"
  using line_cases [OF assms(1,2)] assms(1,3)
  by (auto simp: fun_eq_iff INT_vect_def clear_mask_def bit_and_iff bit_not_iff bit_BV nth_list_update
      simp del: atmega32u4_simps)

lemma sense_trigger:
  fixes n :: u8
  assumes "unat n < 5" "k \<in> {0, 1, 2, 3, 6}" "mode < 4"
  shows "sense_32u4 k (trigger atmega32u4 (if n = 4 then EICRB else EICRA) EIMSK (line_32u4 (unat n)) mode s) =
    (if k = line_32u4 (unat n) then ucast mode else sense_32u4 k s)"
proof (cases "unat n = 4")
  case True
  then have "n = 4" by (simp add: word_unat_eq_iff)
  then show ?thesis using sense_update [OF assms(3), of 2 2 "iregs s EICRB"] assms(2)
    by (auto simp: sense_32u4_def trigger_def set_mask_def set_sense_def line_32u4_def)
next
  case False
  then have n: "unat n < 4" "n \<noteq> 4" "line_32u4 (unat n) = unat n" using assms(1) by (auto simp: line_32u4_def)
  then show ?thesis using assms(2) sense_update [OF assms(3) n(1), of k "iregs s EICRA"]
    by (auto simp: sense_32u4_def trigger_def set_mask_def set_sense_def)
qed

lemma sense_intFunc: "sense_32u4 k (s\<lparr>intFunc := g\<rparr>) = sense_32u4 k s"
  by (simp add: sense_32u4_def)

lemma sense_clear: "sense_32u4 k ((clear_mask M EIMSK j s)\<lparr>intFunc := g\<rparr>) = sense_32u4 k s"
  by (simp add: sense_32u4_def clear_mask_def)

text \<open>
  On the 32U4 with its five external interrupts: \<^verbatim>\<open>attachInterrupt\<close> enables exactly the hardware line
  behind the number, with the given trigger mode, and from then on a request on that line runs the
  attached handler while requests and trigger modes of all other lines are unchanged; \<^verbatim>\<open>detachInterrupt\<close>
  masks the line again, so that a request on it runs nothing.
\<close>

theorem attach_detach_line:
  assumes "unat n < 5" and "mode < 4" and "length (intFunc s) = 5"
  shows "\<exists>t u. attachInterrupt atmega32u4 n f mode s = Some t \<and> detachInterrupt atmega32u4 n t = Some u \<and>
    (\<forall>k \<in> {0, 1, 2, 3, 6}.
       INT_vect atmega32u4 k t = (if k = line_32u4 (unat n) then f else INT_vect atmega32u4 k s) \<and>
       sense_32u4 k t = (if k = line_32u4 (unat n) then ucast mode else sense_32u4 k s) \<and>
       INT_vect atmega32u4 k u = (if k = line_32u4 (unat n) then id else INT_vect atmega32u4 k s) \<and>
       sense_32u4 k u = sense_32u4 k t)"
proof -
  let ?t = "trigger atmega32u4 (if n = 4 then EICRB else EICRA) EIMSK (line_32u4 (unat n)) mode
    (s\<lparr>intFunc := (intFunc s)[unat n := f]\<rparr>)"
  let ?u = "(clear_mask atmega32u4 EIMSK (line_32u4 (unat n)) ?t)\<lparr>intFunc := (intFunc ?t)[unat n := nothing]\<rparr>"
  have l: "length (intFunc ?t) = 5"
    using assms(3) by (simp add: trigger_def set_mask_def set_sense_def)
  have "INT_vect atmega32u4 k ?t = (if k = line_32u4 (unat n) then f else INT_vect atmega32u4 k s) \<and>
       sense_32u4 k ?t = (if k = line_32u4 (unat n) then ucast mode else sense_32u4 k s) \<and>
       INT_vect atmega32u4 k ?u = (if k = line_32u4 (unat n) then id else INT_vect atmega32u4 k s) \<and>
       sense_32u4 k ?u = sense_32u4 k ?t" if k: "k \<in> {0, 1, 2, 3, 6}" for k
  proof (intro conjI)
    show T: "INT_vect atmega32u4 k ?t = (if k = line_32u4 (unat n) then f else INT_vect atmega32u4 k s)"
      by (rule INT_vect_trigger [OF assms(1) k assms(3)])
    show "sense_32u4 k ?t = (if k = line_32u4 (unat n) then ucast mode else sense_32u4 k s)"
      by (rule sense_trigger [OF assms(1) k assms(2), of "s\<lparr>intFunc := (intFunc s)[unat n := f]\<rparr>",
            unfolded sense_intFunc])
    show "INT_vect atmega32u4 k ?u = (if k = line_32u4 (unat n) then id else INT_vect atmega32u4 k s)"
      unfolding INT_vect_clear [OF assms(1) k l] T by simp
    show "sense_32u4 k ?u = sense_32u4 k ?t" by (rule sense_clear)
  qed
  then show ?thesis unfolding attach_32u4_eq [OF assms(1)] by blast
qed

theorem attach_detach_line_witness:
  "\<exists>t. attachInterrupt atmega32u4 4 Suc 3 \<lparr>iregs = (\<lambda>_. 0), intFunc = intFunc_init atmega32u4\<rparr> = Some t \<and>
    INT_vect atmega32u4 6 t 41 = 42"
proof -
  have "length (intFunc \<lparr>iregs = (\<lambda>_. 0), intFunc = intFunc_init atmega32u4 :: (nat \<Rightarrow> nat) list\<rparr>) = 5"
    by (simp add: intFunc_init_def EXTERNAL_NUM_INTERRUPTS_def)
  from attach_detach_line [of 4 3, OF _ _ this, of Suc] show ?thesis
    by (auto simp: line_32u4_def word_less_nat_alt)
qed

end
