(* ===== verification/Usb_Endpoint.thy ===== *)
theory Usb_Endpoint
  imports Wagman_Prelude "HOL-Library.Monad_Syntax"
begin

text \<open>
  The endpoint layer of the USB stack of the boot loader (LUFA 111009, directory
  \<^verbatim>\<open>Drivers/USB/Core/AVR8\<close>: \<^verbatim>\<open>Endpoint_AVR8.c/.h\<close>, \<^verbatim>\<open>EndpointStream_AVR8.c\<close> with its templates,
  \<^verbatim>\<open>USBInterrupt_AVR8.c/.h\<close>, \<^verbatim>\<open>USBController_AVR8.c/.h\<close>, \<^verbatim>\<open>Device_AVR8.h\<close>), built with the options of
  \<^verbatim>\<open>caterina/Makefile\<close>: device mode only, ordered endpoint configuration, a control endpoint of eight
  bytes, one configuration, automatic PLL, no start-of-frame events.

  The state is the register file of the USB device controller, the variables of the stack and the
  other end of the cable: \<open>host\<close> is the sequence of things the host does, \<open>in_log\<close> the packets it has
  collected from each IN endpoint. The host acts while the device waits for it: \<open>poll\<close> takes the next
  action of the host, lets the hardware react and serves the USB interrupt if the global interrupt flag
  is set. An action the hardware cannot accept (an OUT packet for a full bank, an IN token when no
  packet is ready) is answered by NAK and has no effect. When the host does nothing any more a waiting
  loop runs forever; the functions return \<open>None\<close> for that.
\<close>

section \<open>State\<close>

datatype device_state = Unattached | Powered | Default | Addressed | Configured | Suspended

datatype host_ev =
    OutPkt nat "u8 list"
  | SetupPkt "u8 list"
  | InTok nat
  | BusReset
  | BusSuspend
  | BusResume
  | Plug
  | Unplug
  | Sof

datatype ep_error =
    NoError | EndpointStalled | DeviceDisconnected | BusSuspended | TimedOut
  | IncompleteTransfer | HostAborted

text \<open>
  One endpoint: \<open>fifo\<close> is the bank the processor reads or fills through \<^verbatim>\<open>UEDATX\<close>, \<open>sent\<close> the packet
  handed to the controller that waits for an IN token. \<open>TXINI\<close>, \<open>RXOUTI\<close> and \<open>RXSTPI\<close> are the flags of
  \<^verbatim>\<open>UEINTX\<close>, \<open>STALLRQ\<close> and \<open>EPEN\<close> bits of \<^verbatim>\<open>UECONX\<close>.
\<close>

record ep =
  EPEN :: bool
  UECFG0X :: u8
  UECFG1X :: u8
  UEIENX :: u8
  fifo :: "u8 list"
  sent :: "u8 list option"
  TXINI :: bool
  RXOUTI :: bool
  RXSTPI :: bool
  STALLRQ :: bool
  RSTDT :: bool

record USB_Request_Header =
  bmRequestType :: u8
  bRequest :: u8
  wValue :: u16
  wIndex :: u16
  wLength :: u16

record usb =
  I_bit :: bool
  UENUM :: u8
  eps :: "nat \<Rightarrow> ep"
  UEINT :: u8
  UDADDR :: u8
  UDFNUM :: u16
  UDCON :: u8
  UDIEN :: u8
  UDINT :: u8
  USBCON :: u8
  USBINT :: u8
  UHWCON :: u8
  PLLCSR :: u8
  PLLFRQ :: u8
  VBUS :: bool
  USB_IsInitialized :: bool
  USB_DeviceState :: device_state
  USB_Device_ConfigurationNumber :: u8
  USB_ControlRequest :: USB_Request_Header
  host :: "host_ev list"
  in_log :: "nat \<Rightarrow> u8 list list"

text \<open>The endpoint the register \<^verbatim>\<open>UENUM\<close> selects, and a change of its registers.\<close>

definition cur :: "'a usb_scheme \<Rightarrow> nat" where
  "cur u = unat (UENUM u AND 7)"

definition sel :: "'a usb_scheme \<Rightarrow> ep" where
  "sel u = eps u (cur u)"

definition on_ep :: "nat \<Rightarrow> (ep \<Rightarrow> ep) \<Rightarrow> 'a usb_scheme \<Rightarrow> 'a usb_scheme" where
  "on_ep n f u = u\<lparr>eps := (eps u)(n := f (eps u n))\<rparr>"

definition on_sel :: "(ep \<Rightarrow> ep) \<Rightarrow> 'a usb_scheme \<Rightarrow> 'a usb_scheme" where
  "on_sel f u = on_ep (cur u) f u"

text \<open>What the configuration registers mean: direction, type, bank size, and whether the controller
  accepts them (the bank fits the endpoint: 64 bytes, 256 for endpoint 1).\<close>

definition ep_in :: "ep \<Rightarrow> bool" where
  "ep_in e \<longleftrightarrow> bit (UECFG0X e) 0"

definition ep_control :: "ep \<Rightarrow> bool" where
  "ep_control e \<longleftrightarrow> drop_bit 6 (UECFG0X e) = 0"

definition ep_size :: "ep \<Rightarrow> nat" where
  "ep_size e = 8 * 2 ^ unat (drop_bit 4 (UECFG1X e) AND 7)"

definition ep_max :: "nat \<Rightarrow> nat" where
  "ep_max n = (if n = 1 then 256 else 64)"

definition ep_cfgok :: "nat \<Rightarrow> ep \<Rightarrow> bool" where
  "ep_cfgok n e \<longleftrightarrow> EPEN e \<and> bit (UECFG1X e) 1 \<and> ep_size e \<le> ep_max n"

definition ep_flush :: "ep \<Rightarrow> ep" where
  "ep_flush e = e\<lparr>fifo := [], sent := None, TXINI := ep_in e \<or> ep_control e,
     RXOUTI := False, RXSTPI := False\<rparr>"

definition set_UECFG1X :: "u8 \<Rightarrow> ep \<Rightarrow> ep" where
  "set_UECFG1X v e = (if bit v 1 then ep_flush (e\<lparr>UECFG1X := v\<rparr>)
     else e\<lparr>UECFG1X := v, fifo := [], sent := None, TXINI := False, RXOUTI := False, RXSTPI := False\<rparr>)"

section \<open>Endpoint primitives\<close>

definition Endpoint_SelectEndpoint :: "u8 \<Rightarrow> 'a usb_scheme \<Rightarrow> 'a usb_scheme" where
  "Endpoint_SelectEndpoint n u = u\<lparr>UENUM := n\<rparr>"

definition Endpoint_GetCurrentEndpoint :: "'a usb_scheme \<Rightarrow> u8" where
  "Endpoint_GetCurrentEndpoint u = UENUM u AND 0x07"

definition Endpoint_BytesInEndpoint :: "'a usb_scheme \<Rightarrow> nat" where
  "Endpoint_BytesInEndpoint u = length (fifo (sel u))"

definition Endpoint_ResetEndpoint :: "u8 \<Rightarrow> 'a usb_scheme \<Rightarrow> 'a usb_scheme" where
  "Endpoint_ResetEndpoint n u = on_ep (unat n) ep_flush u"

definition Endpoint_EnableEndpoint :: "'a usb_scheme \<Rightarrow> 'a usb_scheme" where
  "Endpoint_EnableEndpoint u = on_sel (EPEN_update (\<lambda>_. True)) u"

definition Endpoint_DisableEndpoint :: "'a usb_scheme \<Rightarrow> 'a usb_scheme" where
  "Endpoint_DisableEndpoint u = on_sel (EPEN_update (\<lambda>_. False)) u"

definition Endpoint_IsEnabled :: "'a usb_scheme \<Rightarrow> bool" where
  "Endpoint_IsEnabled u = EPEN (sel u)"

definition Endpoint_IsReadWriteAllowed :: "'a usb_scheme \<Rightarrow> bool" where
  "Endpoint_IsReadWriteAllowed u = (let e = sel u in \<not> STALLRQ e \<and>
     (if ep_in e then TXINI e \<and> length (fifo e) < ep_size e else RXOUTI e \<and> fifo e \<noteq> []))"

definition Endpoint_IsConfigured :: "'a usb_scheme \<Rightarrow> bool" where
  "Endpoint_IsConfigured u = ep_cfgok (cur u) (sel u)"

definition Endpoint_IsINReady :: "'a usb_scheme \<Rightarrow> bool" where
  "Endpoint_IsINReady u = TXINI (sel u)"

definition Endpoint_IsOUTReceived :: "'a usb_scheme \<Rightarrow> bool" where
  "Endpoint_IsOUTReceived u = RXOUTI (sel u)"

definition Endpoint_IsSETUPReceived :: "'a usb_scheme \<Rightarrow> bool" where
  "Endpoint_IsSETUPReceived u = RXSTPI (sel u)"

text \<open>Clearing a flag of \<^verbatim>\<open>UEINTX\<close> gives the bank back: a received packet is dropped, a filled bank is
  handed to the controller. Clearing a flag that is not set has no effect.\<close>

definition ep_clear_setup :: "ep \<Rightarrow> ep" where
  "ep_clear_setup e = (if RXSTPI e then e\<lparr>RXSTPI := False, fifo := []\<rparr> else e)"

definition ep_clear_in :: "ep \<Rightarrow> ep" where
  "ep_clear_in e = (if TXINI e then e\<lparr>TXINI := False, sent := Some (fifo e), fifo := []\<rparr> else e)"

definition ep_clear_out :: "ep \<Rightarrow> ep" where
  "ep_clear_out e = (if RXOUTI e then e\<lparr>RXOUTI := False, fifo := []\<rparr> else e)"

definition Endpoint_ClearSETUP :: "'a usb_scheme \<Rightarrow> 'a usb_scheme" where
  "Endpoint_ClearSETUP u = on_sel ep_clear_setup u"

definition Endpoint_ClearIN :: "'a usb_scheme \<Rightarrow> 'a usb_scheme" where
  "Endpoint_ClearIN u = on_sel ep_clear_in u"

definition Endpoint_ClearOUT :: "'a usb_scheme \<Rightarrow> 'a usb_scheme" where
  "Endpoint_ClearOUT u = on_sel ep_clear_out u"

definition Endpoint_StallTransaction :: "'a usb_scheme \<Rightarrow> 'a usb_scheme" where
  "Endpoint_StallTransaction u = on_sel (STALLRQ_update (\<lambda>_. True)) u"

definition Endpoint_ClearStall :: "'a usb_scheme \<Rightarrow> 'a usb_scheme" where
  "Endpoint_ClearStall u = on_sel (STALLRQ_update (\<lambda>_. False)) u"

definition Endpoint_IsStalled :: "'a usb_scheme \<Rightarrow> bool" where
  "Endpoint_IsStalled u = STALLRQ (sel u)"

definition Endpoint_ResetDataToggle :: "'a usb_scheme \<Rightarrow> 'a usb_scheme" where
  "Endpoint_ResetDataToggle u = on_sel (RSTDT_update (\<lambda>_. True)) u"

definition Endpoint_GetEndpointDirection_IN :: "'a usb_scheme \<Rightarrow> bool" where
  "Endpoint_GetEndpointDirection_IN u = ep_in (sel u)"

text \<open>The data register: reading pops the bank (an empty bank reads as 0), writing appends to a bank
  the processor owns; a byte that does not fit is lost.\<close>

definition Endpoint_Read_8 :: "'a usb_scheme \<Rightarrow> u8 \<times> 'a usb_scheme" where
  "Endpoint_Read_8 u = (case fifo (sel u) of [] \<Rightarrow> (0, u)
     | b # bs \<Rightarrow> (b, on_sel (fifo_update (\<lambda>_. bs)) u))"

definition ep_write :: "u8 \<Rightarrow> ep \<Rightarrow> ep" where
  "ep_write b e = (if TXINI e \<and> length (fifo e) < ep_size e then e\<lparr>fifo := fifo e @ [b]\<rparr> else e)"

definition Endpoint_Write_8 :: "u8 \<Rightarrow> 'a usb_scheme \<Rightarrow> 'a usb_scheme" where
  "Endpoint_Write_8 b u = on_sel (ep_write b) u"

definition Endpoint_Discard_8 :: "'a usb_scheme \<Rightarrow> 'a usb_scheme" where
  "Endpoint_Discard_8 u = snd (Endpoint_Read_8 u)"

definition Endpoint_Write_16_LE :: "u16 \<Rightarrow> 'a usb_scheme \<Rightarrow> 'a usb_scheme" where
  "Endpoint_Write_16_LE w u = Endpoint_Write_8 (ucast (drop_bit 8 w)) (Endpoint_Write_8 (ucast w) u)"

lemmas ep_ops = Endpoint_SelectEndpoint_def Endpoint_GetCurrentEndpoint_def Endpoint_BytesInEndpoint_def
  Endpoint_ResetEndpoint_def Endpoint_EnableEndpoint_def Endpoint_DisableEndpoint_def
  Endpoint_IsEnabled_def Endpoint_IsReadWriteAllowed_def Endpoint_IsConfigured_def
  Endpoint_IsINReady_def Endpoint_IsOUTReceived_def Endpoint_IsSETUPReceived_def
  Endpoint_ClearSETUP_def Endpoint_ClearIN_def Endpoint_ClearOUT_def Endpoint_StallTransaction_def
  Endpoint_ClearStall_def Endpoint_IsStalled_def Endpoint_ResetDataToggle_def
  Endpoint_GetEndpointDirection_IN_def Endpoint_Write_8_def Endpoint_Discard_8_def

section \<open>Configuring endpoints\<close>

text \<open>The loop \<^verbatim>\<open>while (CheckBytes < Bytes)\<close> doubles a 16-bit counter; above 32768 the counter wraps to
  0 and the loop does not end, which is the value \<open>None\<close>.\<close>

partial_function (option) EPSizeMask_loop :: "u16 \<Rightarrow> u8 \<Rightarrow> u16 \<Rightarrow> u8 option" where
  "EPSizeMask_loop Bytes MaskVal CheckBytes =
     (if CheckBytes < Bytes then EPSizeMask_loop Bytes (MaskVal + 1) (push_bit 1 CheckBytes)
      else Some (push_bit 4 MaskVal))"

definition Endpoint_BytesToEPSizeMask :: "u16 \<Rightarrow> u8 option" where
  "Endpoint_BytesToEPSizeMask Bytes = EPSizeMask_loop Bytes 0 8"

definition Endpoint_ConfigureEndpoint_Prv :: "u8 \<Rightarrow> u8 \<Rightarrow> u8 \<Rightarrow> 'a usb_scheme \<Rightarrow> bool \<times> 'a usb_scheme" where
  "Endpoint_ConfigureEndpoint_Prv Number UECFG0XData UECFG1XData u =
    (let u = Endpoint_SelectEndpoint Number u;
         u = Endpoint_EnableEndpoint u;
         u = on_sel (set_UECFG1X 0) u;
         u = on_sel (UECFG0X_update (\<lambda>_. UECFG0XData)) u;
         u = on_sel (set_UECFG1X UECFG1XData) u
     in (Endpoint_IsConfigured u, u))"

definition EP_TYPE_CONTROL :: u8 where "EP_TYPE_CONTROL = 0x00"
definition EP_TYPE_BULK :: u8 where "EP_TYPE_BULK = 0x02"
definition EP_TYPE_INTERRUPT :: u8 where "EP_TYPE_INTERRUPT = 0x03"
definition ENDPOINT_DIR_OUT :: u8 where "ENDPOINT_DIR_OUT = 0x00"
definition ENDPOINT_DIR_IN :: u8 where "ENDPOINT_DIR_IN = 0x80"
definition ENDPOINT_BANK_SINGLE :: u8 where "ENDPOINT_BANK_SINGLE = push_bit 2 0"
definition ENDPOINT_CONTROLEP :: u8 where "ENDPOINT_CONTROLEP = 0"
definition ENDPOINT_TOTAL_ENDPOINTS :: nat where "ENDPOINT_TOTAL_ENDPOINTS = 7"
definition USB_Device_ControlEndpointSize :: nat where "USB_Device_ControlEndpointSize = 8"

definition Endpoint_ConfigureEndpoint ::
    "u8 \<Rightarrow> u8 \<Rightarrow> u8 \<Rightarrow> u16 \<Rightarrow> u8 \<Rightarrow> 'a usb_scheme \<Rightarrow> (bool \<times> 'a usb_scheme) option" where
  "Endpoint_ConfigureEndpoint Number Type Direction Size Banks u =
    map_option (\<lambda>mask. Endpoint_ConfigureEndpoint_Prv Number
        (push_bit 6 Type OR (if Direction \<noteq> 0 then BV 0 else 0)) (BV 1 OR Banks OR mask) u)
      (Endpoint_BytesToEPSizeMask Size)"

fun ClearEndpoints_from :: "nat \<Rightarrow> 'a usb_scheme \<Rightarrow> 'a usb_scheme" where
  "ClearEndpoints_from 0 u = u"
| "ClearEndpoints_from (Suc left) u =
    (let u = Endpoint_SelectEndpoint (of_nat (ENDPOINT_TOTAL_ENDPOINTS - Suc left)) u;
         u = on_sel (\<lambda>e. e\<lparr>UEIENX := 0, TXINI := False, RXOUTI := False, RXSTPI := False\<rparr>) u;
         u = on_sel (set_UECFG1X 0) u
     in ClearEndpoints_from left (Endpoint_DisableEndpoint u))"

definition Endpoint_ClearEndpoints :: "'a usb_scheme \<Rightarrow> 'a usb_scheme" where
  "Endpoint_ClearEndpoints u = ClearEndpoints_from ENDPOINT_TOTAL_ENDPOINTS (u\<lparr>UEINT := 0\<rparr>)"

end
