(* ===== verification/Usb_Controller.thy ===== *)
theory Usb_Controller
  imports Usb_Endpoint
begin

text \<open>
  The controller layer of the USB stack: \<^verbatim>\<open>USBController_AVR8.c/.h\<close> (initialisation, PLL, pads),
  \<^verbatim>\<open>USBInterrupt_AVR8.c/.h\<close> (interrupt sources and the handler \<^verbatim>\<open>USB_GEN_vect\<close>), \<^verbatim>\<open>Device_AVR8.h\<close>
  (address and frame number), and the reaction of the hardware to what the host does. The static
  options of the build are 0: full speed, regulator on, automatic PLL. The event callbacks
  \<^verbatim>\<open>EVENT_USB_Device_Connect\<close>, \<^verbatim>\<open>_Disconnect\<close>, \<^verbatim>\<open>_Suspend\<close>, \<^verbatim>\<open>_WakeUp\<close> and \<^verbatim>\<open>_Reset\<close> are the empty stubs of
  \<^verbatim>\<open>Events.c\<close>, as the boot loader defines none of them. A PLL that is switched on locks.
\<close>

section \<open>Interrupt sources\<close>

datatype usb_interrupt =
    USB_INT_VBUSTI | USB_INT_WAKEUPI | USB_INT_SUSPI | USB_INT_EORSTI | USB_INT_SOFI | USB_INT_RXSTPI

fun USB_INT_Enable :: "usb_interrupt \<Rightarrow> 'a usb_scheme \<Rightarrow> 'a usb_scheme" where
  "USB_INT_Enable USB_INT_VBUSTI u = u\<lparr>USBCON := sbi (USBCON u) 0\<rparr>"
| "USB_INT_Enable USB_INT_WAKEUPI u = u\<lparr>UDIEN := sbi (UDIEN u) 4\<rparr>"
| "USB_INT_Enable USB_INT_SUSPI u = u\<lparr>UDIEN := sbi (UDIEN u) 0\<rparr>"
| "USB_INT_Enable USB_INT_EORSTI u = u\<lparr>UDIEN := sbi (UDIEN u) 3\<rparr>"
| "USB_INT_Enable USB_INT_SOFI u = u\<lparr>UDIEN := sbi (UDIEN u) 2\<rparr>"
| "USB_INT_Enable USB_INT_RXSTPI u = on_sel (\<lambda>e. e\<lparr>UEIENX := sbi (UEIENX e) 3\<rparr>) u"

fun USB_INT_Disable :: "usb_interrupt \<Rightarrow> 'a usb_scheme \<Rightarrow> 'a usb_scheme" where
  "USB_INT_Disable USB_INT_VBUSTI u = u\<lparr>USBCON := cbi (USBCON u) 0\<rparr>"
| "USB_INT_Disable USB_INT_WAKEUPI u = u\<lparr>UDIEN := cbi (UDIEN u) 4\<rparr>"
| "USB_INT_Disable USB_INT_SUSPI u = u\<lparr>UDIEN := cbi (UDIEN u) 0\<rparr>"
| "USB_INT_Disable USB_INT_EORSTI u = u\<lparr>UDIEN := cbi (UDIEN u) 3\<rparr>"
| "USB_INT_Disable USB_INT_SOFI u = u\<lparr>UDIEN := cbi (UDIEN u) 2\<rparr>"
| "USB_INT_Disable USB_INT_RXSTPI u = on_sel (\<lambda>e. e\<lparr>UEIENX := cbi (UEIENX e) 3\<rparr>) u"

fun USB_INT_Clear :: "usb_interrupt \<Rightarrow> 'a usb_scheme \<Rightarrow> 'a usb_scheme" where
  "USB_INT_Clear USB_INT_VBUSTI u = u\<lparr>USBINT := cbi (USBINT u) 0\<rparr>"
| "USB_INT_Clear USB_INT_WAKEUPI u = u\<lparr>UDINT := cbi (UDINT u) 4\<rparr>"
| "USB_INT_Clear USB_INT_SUSPI u = u\<lparr>UDINT := cbi (UDINT u) 0\<rparr>"
| "USB_INT_Clear USB_INT_EORSTI u = u\<lparr>UDINT := cbi (UDINT u) 3\<rparr>"
| "USB_INT_Clear USB_INT_SOFI u = u\<lparr>UDINT := cbi (UDINT u) 2\<rparr>"
| "USB_INT_Clear USB_INT_RXSTPI u = on_sel ep_clear_setup u"

fun USB_INT_IsEnabled :: "usb_interrupt \<Rightarrow> 'a usb_scheme \<Rightarrow> bool" where
  "USB_INT_IsEnabled USB_INT_VBUSTI u = bit (USBCON u) 0"
| "USB_INT_IsEnabled USB_INT_WAKEUPI u = bit (UDIEN u) 4"
| "USB_INT_IsEnabled USB_INT_SUSPI u = bit (UDIEN u) 0"
| "USB_INT_IsEnabled USB_INT_EORSTI u = bit (UDIEN u) 3"
| "USB_INT_IsEnabled USB_INT_SOFI u = bit (UDIEN u) 2"
| "USB_INT_IsEnabled USB_INT_RXSTPI u = bit (UEIENX (sel u)) 3"

fun USB_INT_HasOccurred :: "usb_interrupt \<Rightarrow> 'a usb_scheme \<Rightarrow> bool" where
  "USB_INT_HasOccurred USB_INT_VBUSTI u = bit (USBINT u) 0"
| "USB_INT_HasOccurred USB_INT_WAKEUPI u = bit (UDINT u) 4"
| "USB_INT_HasOccurred USB_INT_SUSPI u = bit (UDINT u) 0"
| "USB_INT_HasOccurred USB_INT_EORSTI u = bit (UDINT u) 3"
| "USB_INT_HasOccurred USB_INT_SOFI u = bit (UDINT u) 2"
| "USB_INT_HasOccurred USB_INT_RXSTPI u = RXSTPI (sel u)"

definition USB_INT_DisableAllInterrupts :: "'a usb_scheme \<Rightarrow> 'a usb_scheme" where
  "USB_INT_DisableAllInterrupts u = u\<lparr>USBCON := cbi (USBCON u) 0, UDIEN := 0\<rparr>"

definition USB_INT_ClearAllInterrupts :: "'a usb_scheme \<Rightarrow> 'a usb_scheme" where
  "USB_INT_ClearAllInterrupts u = u\<lparr>USBINT := 0, UDINT := 0\<rparr>"

section \<open>Controller\<close>

definition USB_PLL_On :: "'a usb_scheme \<Rightarrow> 'a usb_scheme" where
  "USB_PLL_On u = u\<lparr>PLLCSR := BV 4 OR BV 1 OR BV 0\<rparr>"

definition USB_PLL_Off :: "'a usb_scheme \<Rightarrow> 'a usb_scheme" where
  "USB_PLL_Off u = u\<lparr>PLLCSR := 0\<rparr>"

definition USB_PLL_IsReady :: "'a usb_scheme \<Rightarrow> bool" where
  "USB_PLL_IsReady u = bit (PLLCSR u) 0"

definition USB_REG_On :: "'a usb_scheme \<Rightarrow> 'a usb_scheme" where
  "USB_REG_On u = u\<lparr>UHWCON := sbi (UHWCON u) 0\<rparr>"

definition USB_REG_Off :: "'a usb_scheme \<Rightarrow> 'a usb_scheme" where
  "USB_REG_Off u = u\<lparr>UHWCON := cbi (UHWCON u) 0\<rparr>"

definition USB_OTGPAD_On :: "'a usb_scheme \<Rightarrow> 'a usb_scheme" where
  "USB_OTGPAD_On u = u\<lparr>USBCON := sbi (USBCON u) 4\<rparr>"

definition USB_OTGPAD_Off :: "'a usb_scheme \<Rightarrow> 'a usb_scheme" where
  "USB_OTGPAD_Off u = u\<lparr>USBCON := cbi (USBCON u) 4\<rparr>"

definition USB_CLK_Freeze :: "'a usb_scheme \<Rightarrow> 'a usb_scheme" where
  "USB_CLK_Freeze u = u\<lparr>USBCON := sbi (USBCON u) 5\<rparr>"

definition USB_CLK_Unfreeze :: "'a usb_scheme \<Rightarrow> 'a usb_scheme" where
  "USB_CLK_Unfreeze u = u\<lparr>USBCON := cbi (USBCON u) 5\<rparr>"

definition USB_Detach :: "'a usb_scheme \<Rightarrow> 'a usb_scheme" where
  "USB_Detach u = u\<lparr>UDCON := sbi (UDCON u) 0\<rparr>"

definition USB_Attach :: "'a usb_scheme \<Rightarrow> 'a usb_scheme" where
  "USB_Attach u = u\<lparr>UDCON := cbi (UDCON u) 0\<rparr>"

definition USB_Device_SetFullSpeed :: "'a usb_scheme \<Rightarrow> 'a usb_scheme" where
  "USB_Device_SetFullSpeed u = u\<lparr>UDCON := cbi (UDCON u) 2\<rparr>"

text \<open>Clearing \<^verbatim>\<open>USBE\<close> resets the controller: its endpoints, address and device registers go back to
  their reset values.\<close>

definition ep_reset :: ep where
  "ep_reset = \<lparr>EPEN = False, UECFG0X = 0, UECFG1X = 0, UEIENX = 0, fifo = [], sent = None,
     TXINI = False, RXOUTI = False, RXSTPI = False, STALLRQ = False, RSTDT = False\<rparr>"

definition USB_Controller_Disable :: "'a usb_scheme \<Rightarrow> 'a usb_scheme" where
  "USB_Controller_Disable u = u\<lparr>USBCON := cbi (USBCON u) 7, eps := (\<lambda>_. ep_reset), UENUM := 0, UEINT := 0,
     UDADDR := 0, UDFNUM := 0, UDCON := BV 0, UDIEN := 0, UDINT := 0\<rparr>"

definition USB_Controller_Reset :: "'a usb_scheme \<Rightarrow> 'a usb_scheme" where
  "USB_Controller_Reset u = (let u = USB_Controller_Disable u in u\<lparr>USBCON := sbi (USBCON u) 7\<rparr>)"

definition USB_Init_Device :: "'a usb_scheme \<Rightarrow> 'a usb_scheme option" where
  "USB_Init_Device u = do {
     let u = u\<lparr>USB_DeviceState := Unattached, USB_Device_ConfigurationNumber := 0\<rparr>;
     let u = USB_Device_SetFullSpeed u;
     let u = USB_INT_Enable USB_INT_VBUSTI u;
     (ok, u) \<leftarrow> Endpoint_ConfigureEndpoint ENDPOINT_CONTROLEP EP_TYPE_CONTROL ENDPOINT_DIR_OUT
        (of_nat USB_Device_ControlEndpointSize) ENDPOINT_BANK_SINGLE u;
     let u = USB_INT_Clear USB_INT_SUSPI u;
     let u = USB_INT_Enable USB_INT_SUSPI u;
     let u = USB_INT_Enable USB_INT_EORSTI u;
     Some (USB_Attach u)
   }"

definition USB_ResetInterface :: "'a usb_scheme \<Rightarrow> 'a usb_scheme option" where
  "USB_ResetInterface u = do {
     let u = USB_INT_ClearAllInterrupts (USB_INT_DisableAllInterrupts u);
     let u = USB_Controller_Reset u;
     let u = USB_CLK_Unfreeze u;
     let u = USB_PLL_Off u;
     u \<leftarrow> USB_Init_Device u;
     Some (USB_OTGPAD_On u)
   }"

definition USB_Init :: "'a usb_scheme \<Rightarrow> 'a usb_scheme option" where
  "USB_Init u =
    (let u = USB_REG_On u;
         u = u\<lparr>PLLFRQ := BV 6 OR BV 3 OR BV 1\<rparr>;
         u = u\<lparr>USB_IsInitialized := True\<rparr>
     in USB_ResetInterface u)"

definition USB_Disable :: "'a usb_scheme \<Rightarrow> 'a usb_scheme" where
  "USB_Disable u =
    (let u = USB_INT_ClearAllInterrupts (USB_INT_DisableAllInterrupts u);
         u = USB_Controller_Disable (USB_Detach u);
         u = USB_PLL_Off u;
         u = USB_REG_Off u;
         u = USB_OTGPAD_Off u
     in u\<lparr>USB_IsInitialized := False\<rparr>)"

section \<open>Device registers\<close>

definition USB_Device_GetFrameNumber :: "'a usb_scheme \<Rightarrow> u16" where
  "USB_Device_GetFrameNumber u = UDFNUM u"

definition USB_Device_SetDeviceAddress :: "u8 \<Rightarrow> 'a usb_scheme \<Rightarrow> 'a usb_scheme" where
  "USB_Device_SetDeviceAddress Address u =
    (let Temp = (UDADDR u AND BV 7) OR (Address AND 0x7F)
     in u\<lparr>UDADDR := Temp OR BV 7\<rparr>)"

definition USB_Device_IsAddressSet :: "'a usb_scheme \<Rightarrow> bool" where
  "USB_Device_IsAddressSet u = bit (UDADDR u) 7"

section \<open>The general interrupt\<close>

text \<open>One definition per source the handler \<^verbatim>\<open>USB_GEN_vect\<close> serves, and the handler.\<close>

definition gen_vbus :: "'a usb_scheme \<Rightarrow> 'a usb_scheme" where
  "gen_vbus u =
    (if USB_INT_HasOccurred USB_INT_VBUSTI u \<and> USB_INT_IsEnabled USB_INT_VBUSTI u
     then let u = USB_INT_Clear USB_INT_VBUSTI u
          in if VBUS u then (USB_PLL_On u)\<lparr>USB_DeviceState := Powered\<rparr>
             else (USB_PLL_Off u)\<lparr>USB_DeviceState := Unattached\<rparr>
     else u)"

definition gen_suspend :: "'a usb_scheme \<Rightarrow> 'a usb_scheme" where
  "gen_suspend u =
    (if USB_INT_HasOccurred USB_INT_SUSPI u \<and> USB_INT_IsEnabled USB_INT_SUSPI u
     then let u = USB_INT_Enable USB_INT_WAKEUPI (USB_INT_Disable USB_INT_SUSPI u);
              u = USB_PLL_Off (USB_CLK_Freeze u)
          in u\<lparr>USB_DeviceState := Suspended\<rparr>
     else u)"

definition configured_or_powered :: "'a usb_scheme \<Rightarrow> device_state" where
  "configured_or_powered u =
    (if USB_Device_ConfigurationNumber u \<noteq> 0 then Configured
     else if USB_Device_IsAddressSet u then Configured else Powered)"

definition gen_wakeup :: "'a usb_scheme \<Rightarrow> 'a usb_scheme" where
  "gen_wakeup u =
    (if USB_INT_HasOccurred USB_INT_WAKEUPI u \<and> USB_INT_IsEnabled USB_INT_WAKEUPI u
     then let u = USB_CLK_Unfreeze (USB_PLL_On u);
              u = USB_INT_Clear USB_INT_WAKEUPI u;
              u = USB_INT_Enable USB_INT_SUSPI (USB_INT_Disable USB_INT_WAKEUPI u)
          in u\<lparr>USB_DeviceState := configured_or_powered u\<rparr>
     else u)"

definition gen_reset :: "'a usb_scheme \<Rightarrow> 'a usb_scheme" where
  "gen_reset u =
    (if USB_INT_HasOccurred USB_INT_EORSTI u \<and> USB_INT_IsEnabled USB_INT_EORSTI u
     then let u = USB_INT_Clear USB_INT_EORSTI u;
              u = u\<lparr>USB_DeviceState := Default, USB_Device_ConfigurationNumber := 0\<rparr>;
              u = USB_INT_Disable USB_INT_SUSPI (USB_INT_Clear USB_INT_SUSPI u);
              u = USB_INT_Enable USB_INT_WAKEUPI u
          in (case Endpoint_ConfigureEndpoint ENDPOINT_CONTROLEP EP_TYPE_CONTROL ENDPOINT_DIR_OUT
                (of_nat USB_Device_ControlEndpointSize) ENDPOINT_BANK_SINGLE u of
                None \<Rightarrow> u | Some (ok, u) \<Rightarrow> u)
     else u)"

definition USB_GEN_vect :: "'a usb_scheme \<Rightarrow> 'a usb_scheme" where
  "USB_GEN_vect u = gen_reset (gen_wakeup (gen_suspend (gen_vbus u)))"

section \<open>What the host does\<close>

definition accepts_out :: "nat \<Rightarrow> u8 list \<Rightarrow> ep \<Rightarrow> bool" where
  "accepts_out n bs e \<longleftrightarrow> ep_cfgok n e \<and> \<not> STALLRQ e \<and> \<not> RXOUTI e \<and> \<not> RXSTPI e \<and>
     (ep_control e \<or> \<not> ep_in e) \<and> length bs \<le> ep_size e"

text \<open>A reset of the bus clears the address and disables all endpoints but the control endpoint. Activity
  on a suspended bus ends the suspend condition.\<close>

fun hw_event :: "host_ev \<Rightarrow> 'a usb_scheme \<Rightarrow> 'a usb_scheme" where
  "hw_event (OutPkt n bs) u =
    (if accepts_out n bs (eps u n) then on_ep n (\<lambda>e. e\<lparr>fifo := bs, RXOUTI := True\<rparr>) u else u)"
| "hw_event (SetupPkt bs) u =
    (if ep_cfgok 0 (eps u 0) \<and> length bs = 8
     then on_ep 0 (\<lambda>e. (ep_flush e)\<lparr>fifo := bs, RXSTPI := True, STALLRQ := False\<rparr>) u else u)"
| "hw_event (InTok n) u =
    (case sent (eps u n) of
       None \<Rightarrow> u
     | Some p \<Rightarrow> if ep_cfgok n (eps u n) \<and> \<not> STALLRQ (eps u n)
         then (on_ep n (\<lambda>e. e\<lparr>sent := None, TXINI := True\<rparr>) u)
                \<lparr>in_log := (in_log u)(n := in_log u n @ [p])\<rparr>
         else u)"
| "hw_event BusReset u = u\<lparr>UDADDR := 0, UDINT := sbi (UDINT u) 3,
     eps := (\<lambda>n. if n = 0 then eps u n else ep_reset)\<rparr>"
| "hw_event BusSuspend u = u\<lparr>UDINT := sbi (UDINT u) 0\<rparr>"
| "hw_event BusResume u = u\<lparr>UDINT := cbi (sbi (UDINT u) 4) 0\<rparr>"
| "hw_event Plug u = u\<lparr>VBUS := True, USBINT := sbi (USBINT u) 0\<rparr>"
| "hw_event Unplug u = u\<lparr>VBUS := False, USBINT := sbi (USBINT u) 0\<rparr>"
| "hw_event Sof u = u\<lparr>UDFNUM := (UDFNUM u + 1) AND 0x7FF\<rparr>"

text \<open>
  With the global interrupt flag set the handler runs when an enabled source is flagged, and runs again
  if one is still flagged when it returns; \<open>serve_calm\<close> shows that after two runs none is. A run that
  finds no enabled source flagged changes nothing.
\<close>

definition serve :: "'a usb_scheme \<Rightarrow> 'a usb_scheme" where
  "serve u = (if I_bit u then USB_GEN_vect (USB_GEN_vect u) else u)"

definition bus_step :: "host_ev \<Rightarrow> 'a usb_scheme \<Rightarrow> 'a usb_scheme" where
  "bus_step ev u = serve (hw_event ev u)"

definition poll :: "'a usb_scheme \<Rightarrow> 'a usb_scheme option" where
  "poll u = (case host u of [] \<Rightarrow> None | ev # evs \<Rightarrow> Some (bus_step ev (u\<lparr>host := evs\<rparr>)))"

section \<open>Endpoint sizes\<close>

lemma BytesToEPSizeMask_8 [simp]: "Endpoint_BytesToEPSizeMask 8 = Some 0"
  by (simp add: Endpoint_BytesToEPSizeMask_def EPSizeMask_loop.simps)

lemma BytesToEPSizeMask_16 [simp]: "Endpoint_BytesToEPSizeMask 16 = Some 0x10"
  by (simp add: Endpoint_BytesToEPSizeMask_def EPSizeMask_loop.simps [of 16 0 8]
      EPSizeMask_loop.simps [of 16 1 16])

definition control_ep :: "ep \<Rightarrow> ep" where
  "control_ep e = e\<lparr>EPEN := True, UECFG0X := 0, UECFG1X := 2, fifo := [], sent := None,
     TXINI := True, RXOUTI := False, RXSTPI := False\<rparr>"

lemma configure_control:
  "Endpoint_ConfigureEndpoint ENDPOINT_CONTROLEP EP_TYPE_CONTROL ENDPOINT_DIR_OUT
      (of_nat USB_Device_ControlEndpointSize) ENDPOINT_BANK_SINGLE u =
    Some (True, on_ep 0 control_ep (u\<lparr>UENUM := 0\<rparr>))"
  apply (simp add: Endpoint_ConfigureEndpoint_def USB_Device_ControlEndpointSize_def
      Endpoint_ConfigureEndpoint_Prv_def ENDPOINT_CONTROLEP_def EP_TYPE_CONTROL_def ENDPOINT_DIR_OUT_def
      ENDPOINT_BANK_SINGLE_def Let_def ep_ops on_sel_def cur_def on_ep_def set_UECFG1X_def
      control_ep_def sel_def)
  apply (simp add: ep_cfgok_def ep_flush_def ep_size_def ep_max_def BV_def ep_in_def ep_control_def)
  done

section \<open>The interrupt handler leaves nothing pending\<close>

definition calm :: "'a usb_scheme \<Rightarrow> bool" where
  "calm u \<longleftrightarrow> \<not> (bit (USBINT u) 0 \<and> bit (USBCON u) 0) \<and> \<not> (bit (UDINT u) 0 \<and> bit (UDIEN u) 0) \<and>
     \<not> (bit (UDINT u) 4 \<and> bit (UDIEN u) 4) \<and> \<not> (bit (UDINT u) 3 \<and> bit (UDIEN u) 3)"

named_theorems usb_simps "effect of the operations on the fields of the USB state"

lemma on_ep_fields [usb_simps]:
  "I_bit (on_ep n f u) = I_bit u" "UENUM (on_ep n f u) = UENUM u" "UDADDR (on_ep n f u) = UDADDR u"
  "UDIEN (on_ep n f u) = UDIEN u" "UDINT (on_ep n f u) = UDINT u" "USBCON (on_ep n f u) = USBCON u"
  "USBINT (on_ep n f u) = USBINT u" "VBUS (on_ep n f u) = VBUS u" "host (on_ep n f u) = host u"
  "USB_DeviceState (on_ep n f u) = USB_DeviceState u" "in_log (on_ep n f u) = in_log u"
  "USB_Device_ConfigurationNumber (on_ep n f u) = USB_Device_ConfigurationNumber u"
  "USB_ControlRequest (on_ep n f u) = USB_ControlRequest u" "UDFNUM (on_ep n f u) = UDFNUM u"
  "usb.more (on_ep n f u) = usb.more u"
  by (simp_all add: on_ep_def)

lemma eps_on_ep [usb_simps]: "eps (on_ep n f u) k = (if k = n then f (eps u n) else eps u k)"
  by (simp add: on_ep_def)

lemma gen_vbus_fields [usb_simps]:
  "I_bit (gen_vbus u) = I_bit u" "UDIEN (gen_vbus u) = UDIEN u" "UDINT (gen_vbus u) = UDINT u"
  "USBCON (gen_vbus u) = USBCON u" "host (gen_vbus u) = host u" "eps (gen_vbus u) = eps u"
  "bit (USBINT (gen_vbus u)) 0 \<longleftrightarrow> bit (USBINT u) 0 \<and> \<not> bit (USBCON u) 0"
  by (auto simp: gen_vbus_def Let_def USB_PLL_On_def USB_PLL_Off_def bit_cbi)

lemma gen_suspend_fields [usb_simps]:
  "I_bit (gen_suspend u) = I_bit u" "UDINT (gen_suspend u) = UDINT u" "USBINT (gen_suspend u) = USBINT u"
  "bit (USBCON (gen_suspend u)) 0 \<longleftrightarrow> bit (USBCON u) 0" "host (gen_suspend u) = host u"
  "bit (UDIEN (gen_suspend u)) 0 \<longleftrightarrow> bit (UDIEN u) 0 \<and> \<not> bit (UDINT u) 0"
  "bit (UDIEN (gen_suspend u)) 4 \<longleftrightarrow> bit (UDIEN u) 4 \<or> bit (UDIEN u) 0 \<and> bit (UDINT u) 0"
  "bit (UDIEN (gen_suspend u)) 3 \<longleftrightarrow> bit (UDIEN u) 3" "eps (gen_suspend u) = eps u"
  by (auto simp: gen_suspend_def Let_def USB_CLK_Freeze_def USB_PLL_Off_def bit_cbi bit_sbi)

lemma gen_wakeup_fields [usb_simps]:
  "I_bit (gen_wakeup u) = I_bit u" "USBINT (gen_wakeup u) = USBINT u" "host (gen_wakeup u) = host u"
  "bit (USBCON (gen_wakeup u)) 0 \<longleftrightarrow> bit (USBCON u) 0"
  "bit (UDIEN (gen_wakeup u)) 0 \<longleftrightarrow> bit (UDIEN u) 0 \<or> bit (UDIEN u) 4 \<and> bit (UDINT u) 4"
  "bit (UDIEN (gen_wakeup u)) 4 \<longleftrightarrow> bit (UDIEN u) 4 \<and> \<not> bit (UDINT u) 4"
  "bit (UDIEN (gen_wakeup u)) 3 \<longleftrightarrow> bit (UDIEN u) 3"
  "bit (UDINT (gen_wakeup u)) 0 \<longleftrightarrow> bit (UDINT u) 0" "bit (UDINT (gen_wakeup u)) 3 \<longleftrightarrow> bit (UDINT u) 3"
  "bit (UDINT (gen_wakeup u)) 4 \<longleftrightarrow> bit (UDINT u) 4 \<and> \<not> bit (UDIEN u) 4" "eps (gen_wakeup u) = eps u"
  by (auto simp: gen_wakeup_def Let_def USB_CLK_Unfreeze_def USB_PLL_On_def bit_cbi bit_sbi)

lemma gen_reset_fields [usb_simps]:
  "I_bit (gen_reset u) = I_bit u" "USBINT (gen_reset u) = USBINT u" "host (gen_reset u) = host u"
  "USBCON (gen_reset u) = USBCON u"
  "bit (UDIEN (gen_reset u)) 0 \<longleftrightarrow> bit (UDIEN u) 0 \<and> \<not> (bit (UDIEN u) 3 \<and> bit (UDINT u) 3)"
  "bit (UDIEN (gen_reset u)) 4 \<longleftrightarrow> bit (UDIEN u) 4 \<or> bit (UDIEN u) 3 \<and> bit (UDINT u) 3"
  "bit (UDIEN (gen_reset u)) 3 \<longleftrightarrow> bit (UDIEN u) 3"
  "bit (UDINT (gen_reset u)) 0 \<longleftrightarrow> bit (UDINT u) 0 \<and> \<not> (bit (UDIEN u) 3 \<and> bit (UDINT u) 3)"
  "bit (UDINT (gen_reset u)) 3 \<longleftrightarrow> bit (UDINT u) 3 \<and> \<not> bit (UDIEN u) 3"
  "bit (UDINT (gen_reset u)) 4 \<longleftrightarrow> bit (UDINT u) 4"
  by (auto simp: gen_reset_def Let_def configure_control usb_simps bit_cbi bit_sbi)

lemma USB_GEN_vect_fields [usb_simps]:
  "I_bit (USB_GEN_vect u) = I_bit u" "host (USB_GEN_vect u) = host u"
  "bit (USBCON (USB_GEN_vect u)) 0 \<longleftrightarrow> bit (USBCON u) 0"
  by (simp_all add: USB_GEN_vect_def usb_simps)

lemma serve_calm: "I_bit u \<Longrightarrow> calm (serve u)"
  by (simp add: serve_def calm_def USB_GEN_vect_def usb_simps) blast

lemma USB_GEN_vect_calm: "calm u \<Longrightarrow> USB_GEN_vect u = u"
  by (auto simp: calm_def USB_GEN_vect_def gen_vbus_def gen_suspend_def gen_wakeup_def gen_reset_def)

lemma serve_idle: "calm u \<Longrightarrow> serve u = u"
  by (simp add: serve_def USB_GEN_vect_calm)

lemma serve_fields [usb_simps]:
  "I_bit (serve u) = I_bit u" "host (serve u) = host u"
  "bit (USBCON (serve u)) 0 \<longleftrightarrow> bit (USBCON u) 0"
  by (simp_all add: serve_def usb_simps)

lemma hw_event_fields [usb_simps]:
  "I_bit (hw_event ev u) = I_bit u" "host (hw_event ev u) = host u"
  "USBCON (hw_event ev u) = USBCON u"
  by (cases ev; simp add: usb_simps split: option.splits)+

lemma bus_step_fields [usb_simps]:
  "I_bit (bus_step ev u) = I_bit u" "host (bus_step ev u) = host u"
  "bit (USBCON (bus_step ev u)) 0 \<longleftrightarrow> bit (USBCON u) 0"
  by (simp_all add: bus_step_def usb_simps)

lemma poll_SomeE:
  assumes "poll u = Some u'"
  obtains ev where "host u = ev # host u'" "u' = bus_step ev (u\<lparr>host := host u'\<rparr>)"
  using assms by (auto simp: poll_def usb_simps split: list.splits)

lemma poll_shorter [simp]: "poll u = Some u' \<Longrightarrow> length (host u') < length (host u)"
  by (erule poll_SomeE) simp

section \<open>Unplugging is noticed\<close>

text \<open>The device sees the host leave: interrupts are on, the \<^verbatim>\<open>VBUS\<close> interrupt is enabled, nothing is
  pending, and it is unattached already or the host will unplug it.\<close>

definition leaving :: "'a usb_scheme \<Rightarrow> bool" where
  "leaving u \<longleftrightarrow> I_bit u \<and> bit (USBCON u) 0 \<and> calm u \<and>
     (USB_DeviceState u = Unattached \<or> Unplug \<in> set (host u))"

lemma unplug_unattached:
  assumes "I_bit u" "bit (USBCON u) 0" "calm u"
  shows "USB_DeviceState (bus_step Unplug u) = Unattached" "calm (bus_step Unplug u)"
proof -
  let ?v = "hw_event Unplug u"
  let ?w = "gen_vbus ?v"
  have w: "USB_DeviceState ?w = Unattached"
    using assms(2) by (simp add: gen_vbus_def Let_def USB_PLL_Off_def bit_sbi)
  have c: "calm ?w" using assms(2,3) by (simp add: calm_def usb_simps)
  then have "USB_GEN_vect ?v = ?w"
    by (auto simp: USB_GEN_vect_def calm_def gen_suspend_def gen_wakeup_def gen_reset_def)
  then have "bus_step Unplug u = ?w"
    using assms(1) c by (simp add: bus_step_def serve_def USB_GEN_vect_calm)
  with w c show "USB_DeviceState (bus_step Unplug u) = Unattached" "calm (bus_step Unplug u)" by simp_all
qed

lemma leaving_poll:
  assumes "leaving u" "USB_DeviceState u \<noteq> Unattached"
  obtains u' where "poll u = Some u'" "leaving u'"
proof -
  from assms obtain ev evs where h: "host u = ev # evs" by (cases "host u") (auto simp: leaving_def)
  let ?u = "bus_step ev (u\<lparr>host := evs\<rparr>)"
  have c: "calm ?u" using assms by (simp add: bus_step_def leaving_def serve_calm usb_simps)
  have "leaving ?u"
  proof (cases "ev = Unplug")
    case True
    have "calm (u\<lparr>host := evs\<rparr>)" using assms by (auto simp: leaving_def calm_def)
    with True assms c show ?thesis
      by (simp add: leaving_def usb_simps unplug_unattached)
  next
    case False
    with assms h c show ?thesis by (auto simp: leaving_def usb_simps)
  qed
  moreover have "poll u = Some ?u" by (simp add: poll_def h)
  ultimately show thesis using that by blast
qed

section \<open>Properties of the controller layer\<close>

lemma EPSizeMask_value:
  assumes "b \<le> (256 :: u16)"
  shows "Endpoint_BytesToEPSizeMask b = Some (if b \<le> 8 then 0 else if b \<le> 16 then 0x10 else
    if b \<le> 32 then 0x20 else if b \<le> 64 then 0x30 else if b \<le> 128 then 0x40 else 0x50)"
  using assms unfolding Endpoint_BytesToEPSizeMask_def
  by (simp add: EPSizeMask_loop.simps [of b 0 8] EPSizeMask_loop.simps [of b 1 16]
      EPSizeMask_loop.simps [of b 2 32] EPSizeMask_loop.simps [of b 3 64]
      EPSizeMask_loop.simps [of b 4 128] EPSizeMask_loop.simps [of b 5 256] not_le [symmetric])

definition size_class :: "u16 \<Rightarrow> nat" where
  "size_class b = (if b \<le> 8 then 0 else if b \<le> 16 then 1 else if b \<le> 32 then 2 else if b \<le> 64 then 3
     else if b \<le> 128 then 4 else 5)"

lemma size_class_fits: "b \<le> 256 \<Longrightarrow> unat b \<le> 8 * 2 ^ size_class b"
  by (auto simp: size_class_def word_le_nat_alt)

lemma size_class_least: "unat b \<le> 8 * 2 ^ k \<Longrightarrow> size_class b \<le> k"
  by (cases k; cases "k - 1"; cases "k - 2"; cases "k - 3"; cases "k - 4")
    (auto simp: size_class_def word_le_nat_alt split: if_splits)

lemma EPSizeMask_size:
  "b \<le> 256 \<Longrightarrow> \<exists>mask. Endpoint_BytesToEPSizeMask b = Some mask \<and>
     ep_size (e\<lparr>UECFG1X := BV 1 OR ENDPOINT_BANK_SINGLE OR mask\<rparr>) = 8 * 2 ^ size_class b \<and>
     bit (BV 1 OR ENDPOINT_BANK_SINGLE OR mask) 1"
  by (simp add: EPSizeMask_value size_class_def ep_size_def ENDPOINT_BANK_SINGLE_def BV_def bit_simps)

lemma u8_less_4: "(d :: u8) < 4 \<Longrightarrow> d = 0 \<or> d = 1 \<or> d = 2 \<or> d = 3"
  using u8_less_5 [of d] by (auto simp: word_less_nat_alt)

lemma u8_and_7:
  assumes "n < (7 :: u8)"
  shows "n AND 7 = n"
proof -
  have "unat n < 7" using assms by (simp add: word_less_nat_alt)
  then have "unat n \<in> {0, 1, 2, 3, 4, 5, 6}" by auto
  moreover have "n = of_nat (unat n)" by simp
  ultimately have "n = 0 \<or> n = 1 \<or> n = 2 \<or> n = 3 \<or> n = 4 \<or> n = 5 \<or> n = 6"
    by (auto dest: arg_cong [where f = "of_nat :: nat \<Rightarrow> u8"])
  then show ?thesis by auto
qed

lemma cfg0_meaning:
  assumes "ty < (4 :: u8)"
  shows "ep_in (e\<lparr>UECFG0X := push_bit 6 ty OR (if dir \<noteq> 0 then BV 0 else 0)\<rparr>) \<longleftrightarrow> dir \<noteq> (0 :: u8)"
    "ep_control (e\<lparr>UECFG0X := push_bit 6 ty OR (if dir \<noteq> 0 then BV 0 else 0)\<rparr>) \<longleftrightarrow> ty = 0"
  using u8_less_4 [OF assms] by (auto simp: ep_in_def ep_control_def BV_def)

definition configured_ep :: "u8 \<Rightarrow> u8 \<Rightarrow> ep \<Rightarrow> ep" where
  "configured_ep cfg0 cfg1 e = ep_flush (e\<lparr>EPEN := True, UECFG0X := cfg0, UECFG1X := cfg1\<rparr>)"

lemma configure_Prv:
  assumes "n < 7" "bit c1 1"
  shows "Endpoint_ConfigureEndpoint_Prv n c0 c1 u =
    (ep_cfgok (unat n) (configured_ep c0 c1 (eps u (unat n))),
     on_ep (unat n) (configured_ep c0 c1) (u\<lparr>UENUM := n\<rparr>))"
proof -
  have "n AND 7 = n" by (rule u8_and_7 [OF assms(1)])
  then show ?thesis
    using assms(2) by (simp add: Endpoint_ConfigureEndpoint_Prv_def Let_def ep_ops on_sel_def cur_def sel_def
        on_ep_def set_UECFG1X_def configured_ep_def ep_flush_def ep_in_def ep_control_def)
qed

text \<open>
  Configuring an endpoint. For every endpoint number below seven, every transfer type and every
  size that the endpoint's memory allows, \<^verbatim>\<open>Endpoint_ConfigureEndpoint\<close> succeeds: the endpoint is
  selected, enabled, has the direction and type asked for, an empty bank of the smallest size that
  holds the requested number of bytes, and is ready to be filled exactly if it is an IN or control
  endpoint. No other endpoint changes.
\<close>

theorem configure_endpoint:
  assumes "n < 7" "ty < 4" "unat sz \<le> ep_max (unat n)"
  shows "\<exists>u'. Endpoint_ConfigureEndpoint n ty dir sz ENDPOINT_BANK_SINGLE u = Some (True, u') \<and>
    UENUM u' = n \<and> (\<forall>k. k \<noteq> unat n \<longrightarrow> eps u' k = eps u k) \<and>
    (let e = eps u' (unat n) in EPEN e \<and> (ep_in e \<longleftrightarrow> dir \<noteq> 0) \<and> (ep_control e \<longleftrightarrow> ty = 0) \<and>
       unat sz \<le> ep_size e \<and> (\<forall>k. unat sz \<le> 8 * 2 ^ k \<longrightarrow> ep_size e \<le> 8 * 2 ^ k) \<and>
       fifo e = [] \<and> sent e = None \<and> \<not> RXOUTI e \<and> \<not> RXSTPI e \<and> (TXINI e \<longleftrightarrow> dir \<noteq> 0 \<or> ty = 0))"
proof -
  let ?c0 = "push_bit 6 ty OR (if dir \<noteq> 0 then BV 0 else 0)"
  let ?e = "eps u (unat n)"
  have sz: "sz \<le> 256" using assms(3) by (simp add: ep_max_def word_le_nat_alt split: if_splits)
  then obtain mask where m: "Endpoint_BytesToEPSizeMask sz = Some mask"
      and size: "ep_size (?e\<lparr>UECFG1X := BV 1 OR ENDPOINT_BANK_SINGLE OR mask\<rparr>) = 8 * 2 ^ size_class sz"
      and b: "bit (BV 1 OR ENDPOINT_BANK_SINGLE OR mask) 1"
    using EPSizeMask_size by blast
  let ?c1 = "BV 1 OR ENDPOINT_BANK_SINGLE OR mask"
  let ?f = "configured_ep ?c0 ?c1 ?e"
  have s: "ep_size ?f = 8 * 2 ^ size_class sz"
    using size by (simp add: configured_ep_def ep_flush_def ep_size_def)
  have "\<exists>k. ep_max (unat n) = 8 * 2 ^ k"
    by (rule exI [of _ "if unat n = 1 then 5 else 3"]) (simp add: ep_max_def)
  then have "ep_size ?f \<le> ep_max (unat n)"
    using size_class_least assms(3) s by (metis mult_le_mono2 one_le_numeral power_increasing)
  then have ok: "ep_cfgok (unat n) ?f" using b by (simp add: ep_cfgok_def configured_ep_def ep_flush_def)
  have d: "ep_in ?f \<longleftrightarrow> dir \<noteq> 0" "ep_control ?f \<longleftrightarrow> ty = 0" "TXINI ?f \<longleftrightarrow> dir \<noteq> 0 \<or> ty = 0"
    using cfg0_meaning [OF assms(2), where e = ?e and dir = dir]
    by (simp_all add: configured_ep_def ep_flush_def ep_in_def ep_control_def)
  have least: "\<forall>k. unat sz \<le> 8 * 2 ^ k \<longrightarrow> ep_size ?f \<le> 8 * 2 ^ k"
    using size_class_least s by (simp add: power_increasing)
  have "Endpoint_ConfigureEndpoint n ty dir sz ENDPOINT_BANK_SINGLE u =
      Some (True, on_ep (unat n) (configured_ep ?c0 ?c1) (u\<lparr>UENUM := n\<rparr>))"
    unfolding Endpoint_ConfigureEndpoint_def m option.map configure_Prv [OF assms(1) b] using ok by blast
  then show ?thesis
    using s d least size_class_fits [OF sz]
    by (intro exI [of _ "on_ep (unat n) (configured_ep ?c0 ?c1) (u\<lparr>UENUM := n\<rparr>)"])
      (simp add: usb_simps Let_def, simp add: configured_ep_def ep_flush_def)
qed

text \<open>An idle controller, as after power-on, on a cable whose host has still to act.\<close>

definition usb_reset :: "host_ev list \<Rightarrow> usb" where
  "usb_reset h = \<lparr>I_bit = False, UENUM = 0, eps = (\<lambda>_. ep_reset), UEINT = 0, UDADDR = 0, UDFNUM = 0,
     UDCON = BV 0, UDIEN = 0, UDINT = 0, USBCON = 0, USBINT = 0, UHWCON = 0, PLLCSR = 0, PLLFRQ = 0,
     VBUS = False, USB_IsInitialized = False, USB_DeviceState = Unattached,
     USB_Device_ConfigurationNumber = 0,
     USB_ControlRequest = \<lparr>bmRequestType = 0, bRequest = 0, wValue = 0, wIndex = 0, wLength = 0\<rparr>,
     host = h, in_log = (\<lambda>_. [])\<rparr>"

theorem configure_endpoint_witness:
  "\<exists>u'. Endpoint_ConfigureEndpoint 4 2 0 16 ENDPOINT_BANK_SINGLE (usb_reset []) = Some (True, u') \<and>
    UENUM u' = 4 \<and> (\<forall>k. k \<noteq> 4 \<longrightarrow> eps u' k = ep_reset) \<and> 16 \<le> ep_size (eps u' 4) \<and>
    \<not> ep_in (eps u' 4) \<and> \<not> TXINI (eps u' 4)"
  using configure_endpoint [of 4 2 16 0 "usb_reset []"]
  by (simp add: ep_max_def usb_reset_def Let_def word_less_nat_alt) blast

text \<open>
  Bringing the USB interface up. Whatever state the controller was in, \<^verbatim>\<open>USB_Init\<close> returns with
  the device unattached and unconfigured, no interrupt flagged, exactly the interrupts for the supply
  of the bus, suspend and end of reset enabled, only the control endpoint enabled (with the eight-byte
  bank and ready), no address, full speed, the pull-up attached, the pads on, the PLL off until the
  host is seen, and the clock running.
\<close>

theorem usb_init_ready:
  "\<exists>u'. USB_Init u = Some u' \<and> USB_DeviceState u' = Unattached \<and> USB_Device_ConfigurationNumber u' = 0 \<and>
    USBINT u' = 0 \<and> UDINT u' = 0 \<and> UDIEN u' = BV 0 OR BV 3 \<and> bit (USBCON u') 0 \<and> bit (USBCON u') 4 \<and>
    bit (USBCON u') 7 \<and> \<not> bit (USBCON u') 5 \<and> UDCON u' = 0 \<and> UDADDR u' = 0 \<and> PLLCSR u' = 0 \<and>
    PLLFRQ u' = 0x4A \<and> bit (UHWCON u') 0 \<and> eps u' = (\<lambda>_. ep_reset)(0 := control_ep ep_reset) \<and>
    UENUM u' = 0 \<and> USB_IsInitialized u' \<and> host u' = host u \<and> I_bit u' = I_bit u"
  by (simp add: USB_Init_def USB_ResetInterface_def USB_Init_Device_def configure_control Let_def
      USB_REG_On_def USB_INT_ClearAllInterrupts_def USB_INT_DisableAllInterrupts_def
      USB_Controller_Reset_def USB_Controller_Disable_def USB_CLK_Unfreeze_def USB_PLL_Off_def
      USB_Device_SetFullSpeed_def USB_Attach_def USB_OTGPAD_On_def on_ep_def bit_sbi bit_cbi)
    (simp add: bit_defs)

end
