(* ===== verification/Usb_Stream.thy ===== *)
theory Usb_Stream
  imports Usb_Controller
begin

text \<open>
  The waiting parts of the endpoint layer: \<^verbatim>\<open>Endpoint_ClearStatusStage\<close> and \<^verbatim>\<open>Endpoint_WaitUntilReady\<close> of
  \<^verbatim>\<open>Endpoint_AVR8.c\<close> and the control streams that \<^verbatim>\<open>EndpointStream_AVR8.c\<close> makes of the templates
  \<^verbatim>\<open>Template_Endpoint_Control_W.c\<close> and \<^verbatim>\<open>_R.c\<close>. The buffer of a write is the list of
  its bytes in the order they are sent, so the big-endian instances are the little-endian ones on the
  reversed buffer; a read returns the bytes in the order they arrived. The loops end because every
  turn that does not move data waits for the host (\<open>poll\<close>).
\<close>

section \<open>Waiting\<close>

text \<open>The loop \<^verbatim>\<open>while (!(P)) { if (USB_DeviceState == DEVICE_STATE_Unattached) return; }\<close>; the flag of
  the result tells whether the condition was met.\<close>

function wait_or_unattached :: "('a usb_scheme \<Rightarrow> bool) \<Rightarrow> 'a usb_scheme \<Rightarrow> (bool \<times> 'a usb_scheme) option"
where
  "wait_or_unattached P u =
    (if P u then Some (True, u)
     else if USB_DeviceState u = Unattached then Some (False, u)
     else case poll u of None \<Rightarrow> None | Some u' \<Rightarrow> wait_or_unattached P u')"
  by pat_completeness auto
termination by (relation "measure (\<lambda>(P, u). length (host u))") auto

declare wait_or_unattached.simps [simp del]

text \<open>The plain loop \<^verbatim>\<open>while (!(P));\<close>.\<close>

function wait_until :: "('a usb_scheme \<Rightarrow> bool) \<Rightarrow> 'a usb_scheme \<Rightarrow> 'a usb_scheme option" where
  "wait_until P u =
    (if P u then Some u else case poll u of None \<Rightarrow> None | Some u' \<Rightarrow> wait_until P u')"
  by pat_completeness auto
termination by (relation "measure (\<lambda>(P, u). length (host u))") auto

declare wait_until.simps [simp del]

definition REQDIR_DEVICETOHOST :: u8 where "REQDIR_DEVICETOHOST = BV 7"

definition Endpoint_ClearStatusStage :: "'a usb_scheme \<Rightarrow> 'a usb_scheme option" where
  "Endpoint_ClearStatusStage u =
    (if bmRequestType (USB_ControlRequest u) AND REQDIR_DEVICETOHOST \<noteq> 0
     then map_option (\<lambda>(ok, u). if ok then Endpoint_ClearOUT u else u)
            (wait_or_unattached Endpoint_IsOUTReceived u)
     else map_option (\<lambda>(ok, u). if ok then Endpoint_ClearIN u else u)
            (wait_or_unattached Endpoint_IsINReady u))"

definition USB_STREAM_TIMEOUT_MS :: u8 where "USB_STREAM_TIMEOUT_MS = 100"

definition ep_ready :: "'a usb_scheme \<Rightarrow> bool" where
  "ep_ready u = (if Endpoint_GetEndpointDirection_IN u then Endpoint_IsINReady u
     else Endpoint_IsOUTReceived u)"

function WaitUntilReady_loop :: "u8 \<Rightarrow> u16 \<Rightarrow> 'a usb_scheme \<Rightarrow> (ep_error \<times> 'a usb_scheme) option" where
  "WaitUntilReady_loop TimeoutMSRem PreviousFrameNumber u =
    (if ep_ready u then Some (NoError, u)
     else if USB_DeviceState u = Unattached then Some (DeviceDisconnected, u)
     else if USB_DeviceState u = Suspended then Some (BusSuspended, u)
     else if Endpoint_IsStalled u then Some (EndpointStalled, u)
     else let CurrentFrameNumber = USB_Device_GetFrameNumber u in
       if CurrentFrameNumber \<noteq> PreviousFrameNumber \<and> TimeoutMSRem = 0 then Some (TimedOut, u)
       else case poll u of None \<Rightarrow> None
         | Some u' \<Rightarrow> WaitUntilReady_loop
             (if CurrentFrameNumber \<noteq> PreviousFrameNumber then TimeoutMSRem - 1 else TimeoutMSRem)
             CurrentFrameNumber u')"
  by pat_completeness auto
termination by (relation "measure (\<lambda>(t, p, u). length (host u))") auto

declare WaitUntilReady_loop.simps [simp del]

definition Endpoint_WaitUntilReady :: "'a usb_scheme \<Rightarrow> (ep_error \<times> 'a usb_scheme) option" where
  "Endpoint_WaitUntilReady u =
     WaitUntilReady_loop USB_STREAM_TIMEOUT_MS (USB_Device_GetFrameNumber u) u"

section \<open>Control streams\<close>

text \<open>The last loop of both control templates: wait for the status stage, unless the bus goes away.\<close>

function control_status_wait :: "('a usb_scheme \<Rightarrow> bool) \<Rightarrow> 'a usb_scheme \<Rightarrow> (ep_error \<times> 'a usb_scheme) option"
where
  "control_status_wait P u =
    (if P u then Some (NoError, u)
     else if USB_DeviceState u = Unattached then Some (DeviceDisconnected, u)
     else if USB_DeviceState u = Suspended then Some (BusSuspended, u)
     else case poll u of None \<Rightarrow> None | Some u' \<Rightarrow> control_status_wait P u')"
  by pat_completeness auto
termination by (relation "measure (\<lambda>(P, u). length (host u))") auto

declare control_status_wait.simps [simp del]

text \<open>The inner loop of the write: fill the bank of the control endpoint.\<close>

fun control_fill :: "u8 list \<Rightarrow> nat \<Rightarrow> 'a usb_scheme \<Rightarrow> u8 list \<times> nat \<times> 'a usb_scheme" where
  "control_fill [] BytesInEndpoint u = ([], BytesInEndpoint, u)"
| "control_fill (b # bs) BytesInEndpoint u =
    (if BytesInEndpoint < USB_Device_ControlEndpointSize
     then control_fill bs (Suc BytesInEndpoint) (Endpoint_Write_8 b u)
     else (b # bs, BytesInEndpoint, u))"

definition txini_units :: "'a usb_scheme \<Rightarrow> nat" where
  "txini_units u = (if Endpoint_IsINReady u then 1 else 0)"

lemma sel_on_sel [usb_simps]: "sel (on_sel f u) = f (sel u)"
  by (simp add: sel_def on_sel_def on_ep_def cur_def)

lemma on_sel_fields [usb_simps]:
  "I_bit (on_sel f u) = I_bit u" "UENUM (on_sel f u) = UENUM u" "UDADDR (on_sel f u) = UDADDR u"
  "UDIEN (on_sel f u) = UDIEN u" "UDINT (on_sel f u) = UDINT u" "USBCON (on_sel f u) = USBCON u"
  "USBINT (on_sel f u) = USBINT u" "VBUS (on_sel f u) = VBUS u" "host (on_sel f u) = host u"
  "USB_DeviceState (on_sel f u) = USB_DeviceState u" "in_log (on_sel f u) = in_log u"
  "USB_Device_ConfigurationNumber (on_sel f u) = USB_Device_ConfigurationNumber u"
  "USB_ControlRequest (on_sel f u) = USB_ControlRequest u" "UDFNUM (on_sel f u) = UDFNUM u"
  "usb.more (on_sel f u) = usb.more u" "cur (on_sel f u) = cur u"
  by (simp_all add: on_sel_def usb_simps cur_def)

lemma control_fill_host [usb_simps]: "host (snd (snd (control_fill bs n u))) = host u"
  by (induction bs n u rule: control_fill.induct) (simp_all add: Endpoint_Write_8_def usb_simps)

lemma TXINI_ep_write [simp]: "TXINI (ep_write b e) = TXINI e"
  by (simp add: ep_write_def)

lemma ClearIN_not_ready [simp]: "\<not> Endpoint_IsINReady (Endpoint_ClearIN u)"
  by (simp add: Endpoint_IsINReady_def Endpoint_ClearIN_def usb_simps ep_clear_in_def)

text \<open>The main loop of the write; \<open>None\<close> in the first component stands for leaving the loop.\<close>

function control_write_loop :: "u8 list \<Rightarrow> bool \<Rightarrow> 'a usb_scheme \<Rightarrow> (ep_error option \<times> 'a usb_scheme) option"
where
  "control_write_loop ds LastPacketFull u =
    (if ds = [] \<and> \<not> LastPacketFull then Some (None, u)
     else if USB_DeviceState u = Unattached then Some (Some DeviceDisconnected, u)
     else if USB_DeviceState u = Suspended then Some (Some BusSuspended, u)
     else if Endpoint_IsSETUPReceived u then Some (Some HostAborted, u)
     else if Endpoint_IsOUTReceived u then Some (None, u)
     else if Endpoint_IsINReady u
     then let r = control_fill ds (Endpoint_BytesInEndpoint u) u
          in control_write_loop (fst r) (fst (snd r) = USB_Device_ControlEndpointSize)
               (Endpoint_ClearIN (snd (snd r)))
     else case poll u of None \<Rightarrow> None | Some u' \<Rightarrow> control_write_loop ds LastPacketFull u')"
  by pat_completeness auto
termination
proof (relation "measure (\<lambda>(ds, l, u). 2 * length (host u) + txini_units u)", goal_cases)
  case 1 then show ?case by simp
next
  case (2 ds l u r)
  then show ?case by (simp add: txini_units_def Endpoint_ClearIN_def usb_simps)
      (simp add: Endpoint_ClearIN_def [symmetric])
next
  case (3 ds l u u')
  then have "length (host u') < length (host u)" by simp
  then show ?case by (simp add: txini_units_def)
qed

declare control_write_loop.simps [simp del]

definition Endpoint_Write_Control_Stream_LE :: "u8 list \<Rightarrow> 'a usb_scheme \<Rightarrow> (ep_error \<times> 'a usb_scheme) option"
where
  "Endpoint_Write_Control_Stream_LE Buffer u =
    (let len = unat (wLength (USB_ControlRequest u));
         ds = (if len < length Buffer then take len Buffer else Buffer);
         u = (if len < length Buffer \<or> Buffer \<noteq> [] then u else Endpoint_ClearIN u)
     in Option.bind (control_write_loop ds False u)
          (\<lambda>(err, u). case err of Some e \<Rightarrow> Some (e, u)
             | None \<Rightarrow> control_status_wait Endpoint_IsOUTReceived u))"

definition Endpoint_Write_Control_Stream_BE :: "u8 list \<Rightarrow> 'a usb_scheme \<Rightarrow> (ep_error \<times> 'a usb_scheme) option"
where
  "Endpoint_Write_Control_Stream_BE Buffer u = Endpoint_Write_Control_Stream_LE (rev Buffer) u"

text \<open>The read: take what is in the bank, up to the bytes still wanted, and give the bank back.\<close>

fun control_drain :: "nat \<Rightarrow> nat \<Rightarrow> u8 list \<Rightarrow> 'a usb_scheme \<Rightarrow> nat \<times> u8 list \<times> 'a usb_scheme" where
  "control_drain 0 n acc u = (n, acc, u)"
| "control_drain (Suc fuel) n acc u =
    (if n \<noteq> 0 \<and> Endpoint_BytesInEndpoint u \<noteq> 0
     then let (b, u) = Endpoint_Read_8 u in control_drain fuel (n - 1) (acc @ [b]) u
     else (n, acc, u))"

lemma ClearOUT_not_received [simp]: "\<not> Endpoint_IsOUTReceived (Endpoint_ClearOUT u)"
  by (simp add: Endpoint_IsOUTReceived_def Endpoint_ClearOUT_def usb_simps ep_clear_out_def)

definition rxouti_units :: "'a usb_scheme \<Rightarrow> nat" where
  "rxouti_units u = (if Endpoint_IsOUTReceived u then 1 else 0)"

lemma Read_8_host [usb_simps]: "host (snd (Endpoint_Read_8 u)) = host u"
  by (simp add: Endpoint_Read_8_def usb_simps split: list.splits)

lemma control_drain_host [usb_simps]: "host (snd (snd (control_drain k n acc u))) = host u"
proof (induction k arbitrary: n acc u)
  case 0
  then show ?case by simp
next
  case (Suc k)
  then show ?case using Read_8_host [of u] by (auto simp: Let_def split: prod.splits)
qed

function control_read_loop ::
    "nat \<Rightarrow> u8 list \<Rightarrow> 'a usb_scheme \<Rightarrow> (ep_error option \<times> u8 list \<times> 'a usb_scheme) option" where
  "control_read_loop n acc u =
    (if n = 0 then Some (None, acc, u)
     else if USB_DeviceState u = Unattached then Some (Some DeviceDisconnected, acc, u)
     else if USB_DeviceState u = Suspended then Some (Some BusSuspended, acc, u)
     else if Endpoint_IsSETUPReceived u then Some (Some HostAborted, acc, u)
     else if Endpoint_IsOUTReceived u
     then let r = control_drain (Endpoint_BytesInEndpoint u) n acc u
          in control_read_loop (fst r) (fst (snd r)) (Endpoint_ClearOUT (snd (snd r)))
     else case poll u of None \<Rightarrow> None | Some u' \<Rightarrow> control_read_loop n acc u')"
  by pat_completeness auto
termination
proof (relation "measure (\<lambda>(n, acc, u). 2 * length (host u) + rxouti_units u)", goal_cases)
  case 1 then show ?case by simp
next
  case (2 n acc u r)
  then show ?case by (simp add: rxouti_units_def Endpoint_ClearOUT_def usb_simps)
      (simp add: Endpoint_ClearOUT_def [symmetric])
next
  case (3 n acc u u')
  then have "length (host u') < length (host u)" by simp
  then show ?case by (simp add: rxouti_units_def)
qed

declare control_read_loop.simps [simp del]

definition Endpoint_Read_Control_Stream_LE ::
    "u16 \<Rightarrow> 'a usb_scheme \<Rightarrow> (ep_error \<times> u8 list \<times> 'a usb_scheme) option" where
  "Endpoint_Read_Control_Stream_LE Length u =
    (let u = (if Length = 0 then Endpoint_ClearOUT u else u)
     in Option.bind (control_read_loop (unat Length) [] u)
          (\<lambda>(err, acc, u). case err of Some e \<Rightarrow> Some (e, acc, u)
             | None \<Rightarrow> map_option (\<lambda>(e, u). (e, acc, u)) (control_status_wait Endpoint_IsINReady u)))"

definition Endpoint_Read_Control_Stream_BE ::
    "u16 \<Rightarrow> 'a usb_scheme \<Rightarrow> (ep_error \<times> u8 list \<times> 'a usb_scheme) option" where
  "Endpoint_Read_Control_Stream_BE Length u =
    map_option (\<lambda>(e, acc, u). (e, rev acc, u)) (Endpoint_Read_Control_Stream_LE Length u)"

section \<open>Unplugging ends every wait\<close>

lemma wait_or_unattached_leaving:
  assumes "leaving u"
  obtains ok u' where "wait_or_unattached P u = Some (ok, u')" "leaving u'"
    "ok \<Longrightarrow> P u'" "\<not> ok \<Longrightarrow> USB_DeviceState u' = Unattached"
proof -
  have "\<exists>ok u'. wait_or_unattached P u = Some (ok, u') \<and> leaving u' \<and> (ok \<longrightarrow> P u') \<and>
      (\<not> ok \<longrightarrow> USB_DeviceState u' = Unattached)"
    using assms
  proof (induction P u rule: wait_or_unattached.induct)
    case (1 P u)
    show ?case
    proof (cases "P u \<or> USB_DeviceState u = Unattached")
      case True
      then show ?thesis using 1(2) by (auto simp: wait_or_unattached.simps [of P u])
    next
      case False
      with 1(2) obtain u' where p: "poll u = Some u'" "leaving u'" by (blast elim: leaving_poll)
      with False 1(1) [of u'] show ?thesis by (simp add: wait_or_unattached.simps [of P u])
    qed
  qed
  then show thesis using that by blast
qed

lemma control_status_wait_leaving:
  assumes "leaving u"
  obtains e u' where "control_status_wait P u = Some (e, u')" "leaving u'"
proof -
  have "\<exists>e u'. control_status_wait P u = Some (e, u') \<and> leaving u'"
    using assms
  proof (induction P u rule: control_status_wait.induct)
    case (1 P u)
    show ?case
    proof (cases "P u \<or> USB_DeviceState u = Unattached \<or> USB_DeviceState u = Suspended")
      case True
      then show ?thesis using 1(2) by (auto simp: control_status_wait.simps [of P u])
    next
      case False
      with 1(2) obtain u' where p: "poll u = Some u'" "leaving u'" by (blast elim: leaving_poll)
      with False 1(1) [of u'] show ?thesis by (simp add: control_status_wait.simps [of P u])
    qed
  qed
  then show thesis using that by blast
qed

lemma leaving_cong:
  "leaving u \<Longrightarrow> I_bit v = I_bit u \<Longrightarrow> USBCON v = USBCON u \<Longrightarrow> USBINT v = USBINT u \<Longrightarrow> UDINT v = UDINT u \<Longrightarrow>
    UDIEN v = UDIEN u \<Longrightarrow> USB_DeviceState v = USB_DeviceState u \<Longrightarrow> host v = host u \<Longrightarrow> leaving v"
  by (auto simp: leaving_def calm_def)

lemma leaving_on_sel [simp]: "leaving (on_sel f u) = leaving u"
  by (auto elim!: leaving_cong simp: usb_simps)

lemma leaving_ep_ops [simp]:
  "leaving (Endpoint_ClearIN u) = leaving u" "leaving (Endpoint_ClearOUT u) = leaving u"
  "leaving (Endpoint_ClearSETUP u) = leaving u" "leaving (Endpoint_Write_8 b u) = leaving u"
  "leaving (Endpoint_SelectEndpoint n u) = leaving u" "leaving (Endpoint_StallTransaction u) = leaving u"
  "leaving (snd (Endpoint_Read_8 u)) = leaving u"
  by (auto simp: ep_ops Endpoint_Read_8_def split: list.split) (auto simp: leaving_def calm_def)

lemma leaving_control_fill [simp]: "leaving (snd (snd (control_fill bs n u))) = leaving u"
  by (induction bs n u rule: control_fill.induct) simp_all

lemma leaving_control_drain [simp]: "leaving (snd (snd (control_drain k n acc u))) = leaving u"
proof (induction k arbitrary: n acc u)
  case 0
  then show ?case by simp
next
  case (Suc k)
  then show ?case by (simp add: Let_def split_beta)
qed

lemma control_write_loop_leaving:
  "leaving u \<Longrightarrow> \<exists>e u'. control_write_loop ds l u = Some (e, u') \<and> leaving u'"
proof (induction ds l u rule: control_write_loop.induct)
  case (1 ds l u)
  consider (stop) "ds = [] \<and> \<not> l \<or> USB_DeviceState u = Unattached \<or> USB_DeviceState u = Suspended \<or>
      Endpoint_IsSETUPReceived u \<or> Endpoint_IsOUTReceived u"
    | (fill) "\<not> (ds = [] \<and> \<not> l)" "USB_DeviceState u \<noteq> Unattached" "USB_DeviceState u \<noteq> Suspended"
      "\<not> Endpoint_IsSETUPReceived u" "\<not> Endpoint_IsOUTReceived u" "Endpoint_IsINReady u"
    | (poll) "\<not> (ds = [] \<and> \<not> l)" "USB_DeviceState u \<noteq> Unattached" "USB_DeviceState u \<noteq> Suspended"
      "\<not> Endpoint_IsSETUPReceived u" "\<not> Endpoint_IsOUTReceived u" "\<not> Endpoint_IsINReady u"
    by blast
  then show ?case
  proof cases
    case stop
    then show ?thesis using 1(3) by (auto simp: control_write_loop.simps [of ds l u])
  next
    case fill
    show ?thesis
      unfolding control_write_loop.simps [of ds l u] Let_def
      using fill 1(1) [OF fill refl] 1(3) by simp
  next
    case poll
    with 1(3) obtain u' where "poll u = Some u'" "leaving u'" by (blast elim: leaving_poll)
    with poll 1(2) [OF poll, of u'] show ?thesis by (auto simp: control_write_loop.simps [of ds l u])
  qed
qed

lemma control_read_loop_leaving:
  "leaving u \<Longrightarrow> \<exists>e acc' u'. control_read_loop n acc u = Some (e, acc', u') \<and> leaving u'"
proof (induction n acc u rule: control_read_loop.induct)
  case (1 n acc u)
  consider (stop) "n = 0 \<or> USB_DeviceState u = Unattached \<or> USB_DeviceState u = Suspended \<or>
      Endpoint_IsSETUPReceived u"
    | (drain) "n \<noteq> 0" "USB_DeviceState u \<noteq> Unattached" "USB_DeviceState u \<noteq> Suspended"
      "\<not> Endpoint_IsSETUPReceived u" "Endpoint_IsOUTReceived u"
    | (poll) "n \<noteq> 0" "USB_DeviceState u \<noteq> Unattached" "USB_DeviceState u \<noteq> Suspended"
      "\<not> Endpoint_IsSETUPReceived u" "\<not> Endpoint_IsOUTReceived u"
    by blast
  then show ?case
  proof cases
    case stop
    then show ?thesis using 1(3) by (auto simp: control_read_loop.simps [of n acc u])
  next
    case drain
    show ?thesis
      unfolding control_read_loop.simps [of n acc u] Let_def
      using drain 1(1) [OF drain refl] 1(3) by simp
  next
    case poll
    with 1(3) obtain u' where "poll u = Some u'" "leaving u'" by (blast elim: leaving_poll)
    with poll 1(2) [OF poll, of u'] show ?thesis by (simp add: control_read_loop.simps [of n acc u])
  qed
qed

lemma Write_Control_Stream_leaving:
  assumes "leaving u"
  obtains e u' where "Endpoint_Write_Control_Stream_LE Buffer u = Some (e, u')" "leaving u'"
proof -
  define ds where "ds = (if unat (wLength (USB_ControlRequest u)) < length Buffer
    then take (unat (wLength (USB_ControlRequest u))) Buffer else Buffer)"
  define v where "v = (if unat (wLength (USB_ControlRequest u)) < length Buffer \<or> Buffer \<noteq> [] then u
    else Endpoint_ClearIN u)"
  have "leaving v" using assms by (simp add: v_def)
  then obtain e w where w: "control_write_loop ds False v = Some (e, w)" "leaving w"
    using control_write_loop_leaving by blast
  moreover obtain e' x where "control_status_wait Endpoint_IsOUTReceived w = Some (e', x)" "leaving x"
    using w(2) by (rule control_status_wait_leaving)
  ultimately show thesis
    using that by (cases e) (auto simp: Endpoint_Write_Control_Stream_LE_def Let_def ds_def v_def)
qed

lemma Read_Control_Stream_leaving:
  assumes "leaving u"
  obtains e acc u' where "Endpoint_Read_Control_Stream_LE n u = Some (e, acc, u')" "leaving u'"
proof -
  define v where "v = (if n = 0 then Endpoint_ClearOUT u else u)"
  have "leaving v" using assms by (simp add: v_def)
  then obtain e acc w where w: "control_read_loop (unat n) [] v = Some (e, acc, w)" "leaving w"
    using control_read_loop_leaving by blast
  moreover obtain e' x where "control_status_wait Endpoint_IsINReady w = Some (e', x)" "leaving x"
    using w(2) by (rule control_status_wait_leaving)
  ultimately show thesis
    using that by (cases e) (auto simp: Endpoint_Read_Control_Stream_LE_def Let_def v_def)
qed

lemma ClearStatusStage_leaving:
  assumes "leaving u"
  obtains u' where "Endpoint_ClearStatusStage u = Some u'" "leaving u'"
proof -
  obtain ok v where "wait_or_unattached Endpoint_IsOUTReceived u = Some (ok, v)" "leaving v"
    using assms by (rule wait_or_unattached_leaving)
  moreover obtain ok' v' where "wait_or_unattached Endpoint_IsINReady u = Some (ok', v')" "leaving v'"
    using assms by (rule wait_or_unattached_leaving)
  ultimately have "\<exists>u'. Endpoint_ClearStatusStage u = Some u' \<and> leaving u'"
    by (simp add: Endpoint_ClearStatusStage_def)
  then show thesis using that by blast
qed

section \<open>What the host receives\<close>

text \<open>The packets of a control read: full packets of eight bytes, then one that is shorter.\<close>

function packets :: "u8 list \<Rightarrow> u8 list list" where
  "packets ds = (if length ds < 8 then [ds] else take 8 ds # packets (drop 8 ds))"
  by pat_completeness auto
termination by (relation "measure length") auto

declare packets.simps [simp del]

lemma concat_packets: "concat (packets ds) = ds"
proof (induction ds rule: packets.induct)
  case (1 ds)
  then show ?case by (subst packets.simps) simp
qed

lemma packets_short: "length ds < 8 \<Longrightarrow> packets ds = [ds]"
  by (subst packets.simps) simp

lemma packets_long: "8 \<le> length ds \<Longrightarrow> packets ds = take 8 ds # packets (drop 8 ds)"
  by (subst packets.simps) simp

lemma packets_shape:
  "packets ds \<noteq> [] \<and> (\<forall>p\<in>set (butlast (packets ds)). length p = 8) \<and> length (last (packets ds)) < 8"
proof (induction ds rule: packets.induct)
  case (1 ds)
  show ?case
  proof (cases "length ds < 8")
    case True
    then show ?thesis by (simp add: packets_short)
  next
    case False
    define ps where "ps = packets (drop 8 ds)"
    have "packets ds = take 8 ds # ps" unfolding ps_def using False by (intro packets_long) simp
    moreover have "ps \<noteq> [] \<and> (\<forall>p\<in>set (butlast ps). length p = 8) \<and> length (last ps) < 8"
      unfolding ps_def by (rule 1 [OF False])
    ultimately show ?thesis using False by simp
  qed
qed

text \<open>The control endpoint as the stack leaves it after the SETUP packet is acknowledged, and the states
  a control read goes through: \<open>s\<close> is the packet that waits for an IN token.\<close>

definition control_ready :: "'a usb_scheme \<Rightarrow> bool" where
  "control_ready u \<longleftrightarrow> cur u = 0 \<and> calm u \<and> USB_DeviceState u \<notin> {Unattached, Suspended} \<and>
     EPEN (eps u 0) \<and> UECFG0X (eps u 0) = 0 \<and> UECFG1X (eps u 0) = 2 \<and> \<not> RXOUTI (eps u 0) \<and>
     \<not> RXSTPI (eps u 0) \<and> \<not> STALLRQ (eps u 0) \<and> fifo (eps u 0) = [] \<and> sent (eps u 0) = None \<and>
     TXINI (eps u 0)"

definition ctl :: "'a usb_scheme \<Rightarrow> host_ev list \<Rightarrow> u8 list list \<Rightarrow> u8 list option \<Rightarrow> 'a usb_scheme" where
  "ctl u h log s = u\<lparr>host := h, in_log := (in_log u)(0 := log),
     eps := (eps u)(0 := (eps u 0)\<lparr>sent := s, TXINI := (s = None)\<rparr>)\<rparr>"

lemma ctl_self: "control_ready u \<Longrightarrow> ctl u (host u) (in_log u 0) None = u"
  by (cases "eps u 0") (simp add: ctl_def control_ready_def fun_upd_idem)

lemma size_of_2: "UECFG1X e = 2 \<Longrightarrow> ep_size e = 8"
  by (simp add: ep_size_def)

lemma control_fill_take:
  "TXINI (sel u) \<Longrightarrow> ep_size (sel u) = 8 \<Longrightarrow> fifo (sel u) = p \<Longrightarrow> length p \<le> 8 \<Longrightarrow>
    control_fill ds (length p) u = (drop (8 - length p) ds, length p + min (length ds) (8 - length p),
      on_sel (fifo_update (\<lambda>_. p @ take (8 - length p) ds)) u)"
proof (induction ds arbitrary: p u)
  case Nil
  then show ?case by (auto simp: on_sel_def on_ep_def sel_def)
next
  case (Cons d ds)
  show ?case
  proof (cases "length p < 8")
    case True
    let ?v = "Endpoint_Write_8 d u"
    have v: "?v = on_sel (fifo_update (\<lambda>_. p @ [d])) u"
      using Cons.prems True
      by (simp add: Endpoint_Write_8_def on_sel_def on_ep_def ep_write_def sel_def)
    then have "sel ?v = (sel u)\<lparr>fifo := p @ [d]\<rparr>" by (simp add: usb_simps)
    then have "control_fill ds (length (p @ [d])) ?v =
        (drop (7 - length p) ds, Suc (length p) + min (length ds) (7 - length p),
         on_sel (fifo_update (\<lambda>_. (p @ [d]) @ take (7 - length p) ds)) ?v)"
      using Cons.IH [of ?v "p @ [d]"] Cons.prems True by (simp add: ep_size_def)
    moreover have "8 - length p = Suc (7 - length p)" using True by simp
    ultimately show ?thesis
      using True by (simp add: USB_Device_ControlEndpointSize_def v on_sel_def on_ep_def cur_def
          del: append_assoc) auto
  next
    case False
    then show ?thesis using Cons.prems
      by (auto simp: USB_Device_ControlEndpointSize_def on_sel_def on_ep_def sel_def)
  qed
qed

lemma ctl_sel: "control_ready u \<Longrightarrow> cur (ctl u h log s) = 0 \<and>
    sel (ctl u h log s) = (eps u 0)\<lparr>sent := s, TXINI := (s = None)\<rparr>"
  by (simp add: ctl_def control_ready_def sel_def cur_def)

lemma ctl_state: "control_ready u \<Longrightarrow> USB_DeviceState (ctl u h log s) \<noteq> Unattached \<and>
    USB_DeviceState (ctl u h log s) \<noteq> Suspended \<and> \<not> Endpoint_IsSETUPReceived (ctl u h log s) \<and>
    \<not> Endpoint_IsOUTReceived (ctl u h log s) \<and> (Endpoint_IsINReady (ctl u h log s) \<longleftrightarrow> s = None)"
  using ctl_sel [of u h log s]
  by (simp add: Endpoint_IsSETUPReceived_def Endpoint_IsOUTReceived_def Endpoint_IsINReady_def)
    (simp add: ctl_def control_ready_def)

lemma ctl_calm: "control_ready u \<Longrightarrow> calm (on_ep n f (ctl u h log s))"
  by (simp add: control_ready_def calm_def ctl_def on_ep_def)

lemma ctl_write_step:
  assumes "control_ready u" "\<not> (ds = [] \<and> \<not> l)"
  shows "control_write_loop ds l (ctl u h log None) =
    control_write_loop (drop 8 ds) (8 \<le> length ds) (ctl u h log (Some (take 8 ds)))"
proof -
  let ?w = "ctl u h log None"
  have e: "sel ?w = (eps u 0)\<lparr>sent := None, TXINI := True\<rparr>" "cur ?w = 0"
    using ctl_sel [OF assms(1)] by simp_all
  have f: "control_fill ds 0 ?w = (drop 8 ds, min (length ds) 8, on_sel (fifo_update (\<lambda>_. take 8 ds)) ?w)"
    using control_fill_take [of ?w "[]" ds] e assms(1) by (simp add: control_ready_def ep_size_def)
  have b: "Endpoint_BytesInEndpoint ?w = 0"
    using e assms(1) by (simp add: Endpoint_BytesInEndpoint_def control_ready_def)
  have c: "Endpoint_ClearIN (on_sel (fifo_update (\<lambda>_. take 8 ds)) ?w) = ctl u h log (Some (take 8 ds))"
    using assms(1) by (cases "eps u 0")
      (simp add: Endpoint_ClearIN_def on_sel_def on_ep_def cur_def ctl_def control_ready_def ep_clear_in_def)
  have "(min (length ds) 8 = USB_Device_ControlEndpointSize) = (8 \<le> length ds)"
    by (auto simp: USB_Device_ControlEndpointSize_def)
  then show ?thesis
    using assms(2) ctl_state [OF assms(1), of h log None]
    by (subst control_write_loop.simps) (auto simp: b f c)
qed

lemma poll_ctl: "poll (ctl u (ev # h) log s) = Some (bus_step ev (ctl u h log s))"
proof -
  have "(ctl u (ev # h) log s)\<lparr>host := h\<rparr> = ctl u h log s"
    by (rule usb.equality) (simp_all add: ctl_def)
  moreover have "host (ctl u (ev # h) log s) = ev # h" by (simp add: ctl_def)
  ultimately show ?thesis by (simp add: poll_def)
qed

lemma ctl_in:
  assumes "control_ready u"
  shows "poll (ctl u (InTok 0 # h) log (Some p)) = Some (ctl u h (log @ [p]) None)"
proof -
  have "hw_event (InTok 0) (ctl u h log (Some p)) = ctl u h (log @ [p]) None"
    using assms by (cases "eps u 0")
      (simp add: ctl_def control_ready_def on_ep_def ep_cfgok_def ep_size_def ep_max_def)
  moreover have "calm (ctl u h (log @ [p]) None)"
    using assms by (simp add: control_ready_def calm_def ctl_def)
  ultimately show ?thesis by (simp only: poll_ctl bus_step_def serve_idle)
qed

definition ctl_status :: "'a usb_scheme \<Rightarrow> host_ev list \<Rightarrow> u8 list list \<Rightarrow> u8 list option \<Rightarrow> 'a usb_scheme" where
  "ctl_status u h log s = on_ep 0 (RXOUTI_update (\<lambda>_. True)) (ctl u h log s)"

lemma ctl_out:
  assumes "control_ready u"
  shows "poll (ctl u (OutPkt 0 [] # h) log s) = Some (ctl_status u h log s)"
proof -
  have "hw_event (OutPkt 0 []) (ctl u h log s) = ctl_status u h log s"
    using assms by (cases "eps u 0") (simp add: ctl_status_def ctl_def control_ready_def on_ep_def
        accepts_out_def ep_cfgok_def ep_size_def ep_max_def ep_control_def)
  moreover have "calm (ctl_status u h log s)" unfolding ctl_status_def by (rule ctl_calm [OF assms])
  ultimately show ?thesis by (simp only: poll_ctl bus_step_def serve_idle)
qed

lemma ctl_status_sel:
  assumes "control_ready u"
  shows "Endpoint_IsOUTReceived (ctl_status u h log s)" "\<not> Endpoint_IsSETUPReceived (ctl_status u h log s)"
    "USB_DeviceState (ctl_status u h log s) \<noteq> Unattached"
    "USB_DeviceState (ctl_status u h log s) \<noteq> Suspended"
  using assms by (simp_all add: ctl_status_def Endpoint_IsOUTReceived_def Endpoint_IsSETUPReceived_def
      sel_def cur_def on_ep_def ctl_def control_ready_def)

lemma ctl_write_loop:
  assumes "control_ready u"
  shows "\<not> (ds = [] \<and> \<not> l) \<Longrightarrow>
    control_write_loop ds l (ctl u (replicate (length (packets ds) - 1) (InTok 0) @ h) log None) =
    Some (None, ctl u h (log @ butlast (packets ds)) (Some (last (packets ds))))"
proof (induction ds arbitrary: l log rule: packets.induct)
  case (1 ds)
  show ?case
  proof (cases "length ds < 8")
    case True
    then show ?thesis
      using ctl_write_step [OF assms 1(2)]
      by (simp add: packets_short control_write_loop.simps [of "[]" False])
  next
    case False
    define ps where "ps = packets (drop 8 ds)"
    have p: "packets ds = take 8 ds # ps" unfolding ps_def using False by (intro packets_long) simp
    have ne: "ps \<noteq> []" unfolding ps_def using packets_shape by blast
    let ?h = "replicate (length ps - 1) (InTok 0) @ h"
    have "control_write_loop ds l (ctl u (InTok 0 # ?h) log None) =
        control_write_loop (drop 8 ds) True (ctl u (InTok 0 # ?h) log (Some (take 8 ds)))"
      using ctl_write_step [OF assms 1(2)] False by simp
    also have "\<dots> = control_write_loop (drop 8 ds) True (ctl u ?h (log @ [take 8 ds]) None)"
      using ctl_state [OF assms, of "InTok 0 # ?h" log "Some (take 8 ds)"]
      by (subst control_write_loop.simps) (simp add: ctl_in [OF assms])
    also have "\<dots> = Some (None, ctl u h ((log @ [take 8 ds]) @ butlast ps) (Some (last ps)))"
      unfolding ps_def by (rule 1(1) [OF False]) simp
    moreover have "replicate (length (packets ds) - 1) (InTok 0) @ h = InTok 0 # ?h"
      using ne p by (cases ps) simp_all
    ultimately show ?thesis using ne p by simp
  qed
qed

lemma ctl_status_wait:
  assumes "control_ready u"
  shows "control_status_wait Endpoint_IsOUTReceived (ctl u (InTok 0 # OutPkt 0 [] # h) log (Some p)) =
    Some (NoError, ctl_status u h (log @ [p]) None)"
  using ctl_state [OF assms] ctl_status_sel [OF assms] ctl_in [OF assms] ctl_out [OF assms]
  by (simp add: control_status_wait.simps [of _ "ctl u _ _ _"] control_status_wait.simps [of _ "ctl_status u _ _ _"])

lemma Write_Control_Stream_ctl:
  assumes "control_ready u" and ds: "ds = take (unat (wLength (USB_ControlRequest u))) Buffer"
    and ne: "ds \<noteq> []" and h: "host u = replicate (length (packets ds) - 1) (InTok 0) @ h"
  shows "Endpoint_Write_Control_Stream_LE Buffer u =
    control_status_wait Endpoint_IsOUTReceived
      (ctl u h (in_log u 0 @ butlast (packets ds)) (Some (last (packets ds))))"
proof -
  have "Buffer \<noteq> []" using ds ne by auto
  moreover have "(if unat (wLength (USB_ControlRequest u)) < length Buffer
      then take (unat (wLength (USB_ControlRequest u))) Buffer else Buffer) = ds"
    using ds by simp
  moreover have "control_write_loop ds False u =
      Some (None, ctl u h (in_log u 0 @ butlast (packets ds)) (Some (last (packets ds))))"
    using ctl_write_loop [OF assms(1), of ds False h "in_log u 0"] ctl_self [OF assms(1)] h ne by simp
  ultimately show ?thesis by (simp add: Endpoint_Write_Control_Stream_LE_def)
qed

text \<open>The host collects every packet, the short one at the end included, and acknowledges.\<close>

lemma Write_Control_Stream_full:
  assumes "control_ready u" and ds: "ds = take (unat (wLength (USB_ControlRequest u))) Buffer"
    and ne: "ds \<noteq> []" and h: "host u = replicate (length (packets ds)) (InTok 0) @ OutPkt 0 [] # h"
  shows "Endpoint_Write_Control_Stream_LE Buffer u =
    Some (NoError, ctl_status u h (in_log u 0 @ packets ds) None)"
proof -
  have p: "packets ds \<noteq> []" using packets_shape by blast
  then have "replicate (length (packets ds)) (InTok 0) =
      replicate (length (packets ds) - 1) (InTok 0) @ [InTok 0]"
    by (metis Suc_diff_1 length_greater_0_conv replicate_Suc replicate_append_same)
  then show ?thesis
    using Write_Control_Stream_ctl [OF assms(1) ds ne, of "InTok 0 # OutPkt 0 [] # h"] h p
    by (simp add: ctl_status_wait [OF assms(1)])
qed

text \<open>The host has all the bytes it asked for and acknowledges without collecting the empty packet.\<close>

lemma Write_Control_Stream_exact:
  assumes "control_ready u" and ds: "ds = take (unat (wLength (USB_ControlRequest u))) Buffer"
    and ne: "ds \<noteq> []" and l: "last (packets ds) = []"
    and h: "host u = replicate (length (packets ds) - 1) (InTok 0) @ OutPkt 0 [] # h"
  shows "Endpoint_Write_Control_Stream_LE Buffer u =
    Some (NoError, ctl_status u h (in_log u 0 @ butlast (packets ds)) (Some []))"
proof -
  have "control_status_wait Endpoint_IsOUTReceived (ctl u (OutPkt 0 [] # h) log (Some [])) =
      Some (NoError, ctl_status u h log (Some []))" for log
    using ctl_state [OF assms(1)] ctl_status_sel [OF assms(1)] ctl_out [OF assms(1)]
    by (simp add: control_status_wait.simps [of _ "ctl u _ _ _"]
        control_status_wait.simps [of _ "ctl_status u _ _ _"])
  then show ?thesis using Write_Control_Stream_ctl [OF assms(1) ds ne h] l by simp
qed

lemma last_packet_empty_concat: "last (packets ds) = [] \<Longrightarrow> concat (butlast (packets ds)) = ds"
  using concat_packets [of ds] packets_shape [of ds]
  by (metis append_Nil2 append_butlast_last_id concat.simps concat_append)

end
