(* ===== verification/Usb_Descriptors.thy ===== *)
theory Usb_Descriptors
  imports Usb_Endpoint
begin

text \<open>
  The USB descriptors of the boot loader (\<^verbatim>\<open>caterina/Descriptors.c/.h\<close>) and the walk through a
  configuration descriptor (\<^verbatim>\<open>Core/ConfigDescriptor.c/.h\<close>). The packed structures of
  \<^verbatim>\<open>StdDescriptors.h\<close> and \<^verbatim>\<open>Class/Common/CDC.h\<close> are records; the function \<open>..._bytes\<close> of each gives its
  object representation, little-endian and without padding.
\<close>

section \<open>Descriptor structures\<close>

record USB_Descriptor_Header =
  Size :: u8
  Type :: u8

record USB_Descriptor_Device =
  d_Header :: USB_Descriptor_Header
  USBSpecification :: u16
  d_Class :: u8
  d_SubClass :: u8
  d_Protocol :: u8
  Endpoint0Size :: u8
  VendorID :: u16
  ProductID :: u16
  ReleaseNumber :: u16
  ManufacturerStrIndex :: u8
  ProductStrIndex :: u8
  SerialNumStrIndex :: u8
  NumberOfConfigurations :: u8

record USB_Descriptor_Configuration_Header =
  c_Header :: USB_Descriptor_Header
  TotalConfigurationSize :: u16
  TotalInterfaces :: u8
  ConfigurationNumber :: u8
  ConfigurationStrIndex :: u8
  ConfigAttributes :: u8
  MaxPowerConsumption :: u8

record USB_Descriptor_Interface =
  i_Header :: USB_Descriptor_Header
  InterfaceNumber :: u8
  AlternateSetting :: u8
  TotalEndpoints :: u8
  i_Class :: u8
  i_SubClass :: u8
  i_Protocol :: u8
  InterfaceStrIndex :: u8

record USB_CDC_FunctionalHeader =
  fh_Header :: USB_Descriptor_Header
  fh_Subtype :: u8
  CDCSpecification :: u16

record USB_CDC_FunctionalACM =
  acm_Header :: USB_Descriptor_Header
  acm_Subtype :: u8
  Capabilities :: u8

record USB_CDC_FunctionalUnion =
  un_Header :: USB_Descriptor_Header
  un_Subtype :: u8
  MasterInterfaceNumber :: u8
  SlaveInterfaceNumber :: u8

record USB_Descriptor_Endpoint =
  e_Header :: USB_Descriptor_Header
  EndpointAddress :: u8
  Attributes :: u8
  EndpointSize :: u16
  PollingIntervalMS :: u8

record USB_Descriptor_String =
  s_Header :: USB_Descriptor_Header
  UnicodeString :: "u16 list"

definition header_bytes :: "USB_Descriptor_Header \<Rightarrow> u8 list" where
  "header_bytes h = [Size h, Type h]"

definition device_bytes :: "USB_Descriptor_Device \<Rightarrow> u8 list" where
  "device_bytes d = header_bytes (d_Header d) @ le_bytes 2 (USBSpecification d) @
     [d_Class d, d_SubClass d, d_Protocol d, Endpoint0Size d] @ le_bytes 2 (VendorID d) @
     le_bytes 2 (ProductID d) @ le_bytes 2 (ReleaseNumber d) @
     [ManufacturerStrIndex d, ProductStrIndex d, SerialNumStrIndex d, NumberOfConfigurations d]"

definition config_header_bytes :: "USB_Descriptor_Configuration_Header \<Rightarrow> u8 list" where
  "config_header_bytes c = header_bytes (c_Header c) @ le_bytes 2 (TotalConfigurationSize c) @
     [TotalInterfaces c, ConfigurationNumber c, ConfigurationStrIndex c, ConfigAttributes c,
      MaxPowerConsumption c]"

definition interface_bytes :: "USB_Descriptor_Interface \<Rightarrow> u8 list" where
  "interface_bytes i = header_bytes (i_Header i) @ [InterfaceNumber i, AlternateSetting i,
     TotalEndpoints i, i_Class i, i_SubClass i, i_Protocol i, InterfaceStrIndex i]"

definition functional_header_bytes :: "USB_CDC_FunctionalHeader \<Rightarrow> u8 list" where
  "functional_header_bytes f = header_bytes (fh_Header f) @ [fh_Subtype f] @ le_bytes 2 (CDCSpecification f)"

definition acm_bytes :: "USB_CDC_FunctionalACM \<Rightarrow> u8 list" where
  "acm_bytes f = header_bytes (acm_Header f) @ [acm_Subtype f, Capabilities f]"

definition union_bytes :: "USB_CDC_FunctionalUnion \<Rightarrow> u8 list" where
  "union_bytes f = header_bytes (un_Header f) @
     [un_Subtype f, MasterInterfaceNumber f, SlaveInterfaceNumber f]"

definition endpoint_bytes :: "USB_Descriptor_Endpoint \<Rightarrow> u8 list" where
  "endpoint_bytes e = header_bytes (e_Header e) @ [EndpointAddress e, Attributes e] @
     le_bytes 2 (EndpointSize e) @ [PollingIntervalMS e]"

definition string_bytes :: "USB_Descriptor_String \<Rightarrow> u8 list" where
  "string_bytes s = header_bytes (s_Header s) @ concat (map (le_bytes 2) (UnicodeString s))"

lemmas layout_defs = header_bytes_def device_bytes_def config_header_bytes_def interface_bytes_def
  functional_header_bytes_def acm_bytes_def union_bytes_def endpoint_bytes_def string_bytes_def

section \<open>The descriptors of the boot loader\<close>

definition DTYPE_Device :: u8 where "DTYPE_Device = 0x01"
definition DTYPE_Configuration :: u8 where "DTYPE_Configuration = 0x02"
definition DTYPE_String :: u8 where "DTYPE_String = 0x03"
definition DTYPE_Interface :: u8 where "DTYPE_Interface = 0x04"
definition DTYPE_Endpoint :: u8 where "DTYPE_Endpoint = 0x05"
definition DTYPE_CSInterface :: u8 where "DTYPE_CSInterface = 0x24"

definition NO_DESCRIPTOR :: "'a::zero" where "NO_DESCRIPTOR = 0"

definition CDC_NOTIFICATION_EPNUM :: u8 where "CDC_NOTIFICATION_EPNUM = 2"
definition CDC_TX_EPNUM :: u8 where "CDC_TX_EPNUM = 3"
definition CDC_RX_EPNUM :: u8 where "CDC_RX_EPNUM = 4"
definition CDC_TXRX_EPSIZE :: u16 where "CDC_TXRX_EPSIZE = 16"
definition CDC_NOTIFICATION_EPSIZE :: u16 where "CDC_NOTIFICATION_EPSIZE = 8"

definition USB_STRING_LEN :: "nat \<Rightarrow> u8" where "USB_STRING_LEN n = of_nat (2 + 2 * n)"

text \<open>The build defines the vendor \<^verbatim>\<open>0x2341\<close> and the product \<^verbatim>\<open>0x0037\<close>.\<close>

definition DEVICE_VID :: u16 where "DEVICE_VID = 0x2341"
definition DEVICE_PID :: u16 where "DEVICE_PID = 0x0037"

definition DeviceDescriptor :: USB_Descriptor_Device where
  "DeviceDescriptor = \<lparr>d_Header = \<lparr>Size = 18, Type = DTYPE_Device\<rparr>, USBSpecification = 0x0110,
     d_Class = 0x02, d_SubClass = 0x00, d_Protocol = 0x00,
     Endpoint0Size = of_nat USB_Device_ControlEndpointSize,
     VendorID = DEVICE_VID, ProductID = DEVICE_PID, ReleaseNumber = 0x0001,
     ManufacturerStrIndex = 0x02, ProductStrIndex = 0x01, SerialNumStrIndex = NO_DESCRIPTOR,
     NumberOfConfigurations = 1\<rparr>"

record USB_Descriptor_Configuration =
  Config :: USB_Descriptor_Configuration_Header
  CDC_CCI_Interface :: USB_Descriptor_Interface
  CDC_Functional_Header :: USB_CDC_FunctionalHeader
  CDC_Functional_ACM :: USB_CDC_FunctionalACM
  CDC_Functional_Union :: USB_CDC_FunctionalUnion
  CDC_NotificationEndpoint :: USB_Descriptor_Endpoint
  CDC_DCI_Interface :: USB_Descriptor_Interface
  CDC_DataOutEndpoint :: USB_Descriptor_Endpoint
  CDC_DataInEndpoint :: USB_Descriptor_Endpoint

definition configuration_bytes :: "USB_Descriptor_Configuration \<Rightarrow> u8 list" where
  "configuration_bytes c = config_header_bytes (Config c) @ interface_bytes (CDC_CCI_Interface c) @
     functional_header_bytes (CDC_Functional_Header c) @ acm_bytes (CDC_Functional_ACM c) @
     union_bytes (CDC_Functional_Union c) @ endpoint_bytes (CDC_NotificationEndpoint c) @
     interface_bytes (CDC_DCI_Interface c) @ endpoint_bytes (CDC_DataOutEndpoint c) @
     endpoint_bytes (CDC_DataInEndpoint c)"

definition ConfigurationDescriptor :: USB_Descriptor_Configuration where
  "ConfigurationDescriptor = \<lparr>
     Config = \<lparr>c_Header = \<lparr>Size = 9, Type = DTYPE_Configuration\<rparr>, TotalConfigurationSize = 62,
       TotalInterfaces = 2, ConfigurationNumber = 1, ConfigurationStrIndex = NO_DESCRIPTOR,
       ConfigAttributes = 0x80, MaxPowerConsumption = drop_bit 1 100\<rparr>,
     CDC_CCI_Interface = \<lparr>i_Header = \<lparr>Size = 9, Type = DTYPE_Interface\<rparr>, InterfaceNumber = 0,
       AlternateSetting = 0, TotalEndpoints = 1, i_Class = 0x02, i_SubClass = 0x02, i_Protocol = 0x01,
       InterfaceStrIndex = NO_DESCRIPTOR\<rparr>,
     CDC_Functional_Header = \<lparr>fh_Header = \<lparr>Size = 5, Type = DTYPE_CSInterface\<rparr>, fh_Subtype = 0x00,
       CDCSpecification = 0x0110\<rparr>,
     CDC_Functional_ACM = \<lparr>acm_Header = \<lparr>Size = 4, Type = DTYPE_CSInterface\<rparr>, acm_Subtype = 0x02,
       Capabilities = 0x04\<rparr>,
     CDC_Functional_Union = \<lparr>un_Header = \<lparr>Size = 5, Type = DTYPE_CSInterface\<rparr>, un_Subtype = 0x06,
       MasterInterfaceNumber = 0, SlaveInterfaceNumber = 1\<rparr>,
     CDC_NotificationEndpoint = \<lparr>e_Header = \<lparr>Size = 7, Type = DTYPE_Endpoint\<rparr>,
       EndpointAddress = ENDPOINT_DIR_IN OR CDC_NOTIFICATION_EPNUM, Attributes = EP_TYPE_INTERRUPT,
       EndpointSize = CDC_NOTIFICATION_EPSIZE, PollingIntervalMS = 0xFF\<rparr>,
     CDC_DCI_Interface = \<lparr>i_Header = \<lparr>Size = 9, Type = DTYPE_Interface\<rparr>, InterfaceNumber = 1,
       AlternateSetting = 0, TotalEndpoints = 2, i_Class = 0x0A, i_SubClass = 0x00, i_Protocol = 0x00,
       InterfaceStrIndex = NO_DESCRIPTOR\<rparr>,
     CDC_DataOutEndpoint = \<lparr>e_Header = \<lparr>Size = 7, Type = DTYPE_Endpoint\<rparr>,
       EndpointAddress = ENDPOINT_DIR_OUT OR CDC_RX_EPNUM, Attributes = EP_TYPE_BULK,
       EndpointSize = CDC_TXRX_EPSIZE, PollingIntervalMS = 0x01\<rparr>,
     CDC_DataInEndpoint = \<lparr>e_Header = \<lparr>Size = 7, Type = DTYPE_Endpoint\<rparr>,
       EndpointAddress = ENDPOINT_DIR_IN OR CDC_TX_EPNUM, Attributes = EP_TYPE_BULK,
       EndpointSize = CDC_TXRX_EPSIZE, PollingIntervalMS = 0x01\<rparr>\<rparr>"

definition wide_chars :: "string \<Rightarrow> u16 list" where
  "wide_chars s = map (\<lambda>c. of_nat (of_char c)) s"

definition LanguageString :: USB_Descriptor_String where
  "LanguageString = \<lparr>s_Header = \<lparr>Size = USB_STRING_LEN 1, Type = DTYPE_String\<rparr>, UnicodeString = [0x0409]\<rparr>"

definition ProductString :: USB_Descriptor_String where
  "ProductString = \<lparr>s_Header = \<lparr>Size = USB_STRING_LEN 16, Type = DTYPE_String\<rparr>,
     UnicodeString = wide_chars ''Arduino Micro   ''\<rparr>"

definition ManufNameString :: USB_Descriptor_String where
  "ManufNameString = \<lparr>s_Header = \<lparr>Size = USB_STRING_LEN 11, Type = DTYPE_String\<rparr>,
     UnicodeString = wide_chars ''Arduino LLC''\<rparr>"

text \<open>The callback returns the first \<open>Size\<close> bytes at the address it gives; \<open>None\<close> stands for the size
  \<^verbatim>\<open>NO_DESCRIPTOR\<close>.\<close>

definition CALLBACK_USB_GetDescriptor :: "u16 \<Rightarrow> u8 \<Rightarrow> u8 list option" where
  "CALLBACK_USB_GetDescriptor v ix =
    (let DescriptorType = ucast (drop_bit 8 v);
         DescriptorNumber = (ucast (v AND 0xFF) :: u8)
     in if DescriptorType = DTYPE_Device then Some (device_bytes DeviceDescriptor)
        else if DescriptorType = DTYPE_Configuration then Some (configuration_bytes ConfigurationDescriptor)
        else if DescriptorType = DTYPE_String then
          if DescriptorNumber = 0
          then Some (take (unat (Size (s_Header LanguageString))) (string_bytes LanguageString))
          else if DescriptorNumber = ProductStrIndex DeviceDescriptor
          then Some (take (unat (Size (s_Header ProductString))) (string_bytes ProductString))
          else if DescriptorNumber = ManufacturerStrIndex DeviceDescriptor
          then Some (take (unat (Size (s_Header ManufNameString))) (string_bytes ManufNameString))
          else None
        else None)"

section \<open>Walking a configuration descriptor\<close>

text \<open>
  The search functions of \<^verbatim>\<open>ConfigDescriptor.c\<close> over the memory that holds the descriptor: \<open>loc\<close> is
  \<^verbatim>\<open>*CurrConfigLoc\<close> and \<open>rem\<close> is \<^verbatim>\<open>*BytesRem\<close>. A descriptor whose size byte is 0 keeps the loops
  running, so they are partial.
\<close>

definition DESCRIPTOR_SIZE :: "mem \<Rightarrow> nat \<Rightarrow> u8" where
  "DESCRIPTOR_SIZE m loc = m loc"

definition DESCRIPTOR_TYPE :: "mem \<Rightarrow> nat \<Rightarrow> u8" where
  "DESCRIPTOR_TYPE m loc = m (loc + 1)"

definition USB_GetNextDescriptor :: "mem \<Rightarrow> u16 \<times> nat \<Rightarrow> u16 \<times> nat" where
  "USB_GetNextDescriptor m = (\<lambda>(rem, loc).
     let CurrDescriptorSize = (ucast (DESCRIPTOR_SIZE m loc) :: u16);
         CurrDescriptorSize = (if rem < CurrDescriptorSize then rem else CurrDescriptorSize)
     in (rem - CurrDescriptorSize, loc + unat CurrDescriptorSize))"

partial_function (option) USB_GetNextDescriptorOfType :: "mem \<Rightarrow> u8 \<Rightarrow> u16 \<times> nat \<Rightarrow> (u16 \<times> nat) option" where
  "USB_GetNextDescriptorOfType m ty p =
    (if fst p = 0 then Some p
     else let p' = USB_GetNextDescriptor m p
          in if DESCRIPTOR_TYPE m (snd p') = ty then Some p'
             else USB_GetNextDescriptorOfType m ty p')"

partial_function (option) USB_GetNextDescriptorOfTypeBefore ::
    "mem \<Rightarrow> u8 \<Rightarrow> u8 \<Rightarrow> u16 \<times> nat \<Rightarrow> (u16 \<times> nat) option" where
  "USB_GetNextDescriptorOfTypeBefore m ty before p =
    (if fst p = 0 then Some p
     else let p' = USB_GetNextDescriptor m p
          in if DESCRIPTOR_TYPE m (snd p') = ty then Some p'
             else if DESCRIPTOR_TYPE m (snd p') = before then Some (0, snd p')
             else USB_GetNextDescriptorOfTypeBefore m ty before p')"

definition USB_GetNextDescriptorOfTypeAfter :: "mem \<Rightarrow> u8 \<Rightarrow> u8 \<Rightarrow> u16 \<times> nat \<Rightarrow> (u16 \<times> nat) option" where
  "USB_GetNextDescriptorOfTypeAfter m ty after p =
    Option.bind (USB_GetNextDescriptorOfType m after p)
      (\<lambda>p. if fst p \<noteq> 0 then USB_GetNextDescriptorOfType m ty p else Some p)"

datatype search_result = Search_Found | Search_Fail | Search_NotFound

partial_function (option) USB_GetNextDescriptorComp ::
    "mem \<Rightarrow> (nat \<Rightarrow> search_result) \<Rightarrow> u16 \<times> nat \<Rightarrow> (search_result \<times> u16 \<times> nat) option" where
  "USB_GetNextDescriptorComp m cmp p =
    (if fst p = 0 then Some (Search_NotFound, p)
     else let p' = USB_GetNextDescriptor m p
          in case cmp (snd p') of
               Search_Found \<Rightarrow> Some (Search_Found, p')
             | Search_Fail \<Rightarrow> Some (Search_Fail, p)
             | Search_NotFound \<Rightarrow> USB_GetNextDescriptorComp m cmp p')"

section \<open>The walk finds the next descriptor\<close>

text \<open>A sequence of descriptors: each starts with its own length, which is at least 2.\<close>

definition wf_desc :: "u8 list \<Rightarrow> bool" where
  "wf_desc d \<longleftrightarrow> 2 \<le> length d \<and> unat (d ! 0) = length d"

definition laid_out :: "mem \<Rightarrow> nat \<Rightarrow> u8 list list \<Rightarrow> bool" where
  "laid_out m a ds \<longleftrightarrow> read_block m a (length (concat ds)) = concat ds"

lemma laid_out_Cons:
  "laid_out m a (d # ds) \<longleftrightarrow> read_block m a (length d) = d \<and> laid_out m (a + length d) ds"
proof -
  have "read_block m a (k + n) = read_block m a k @ read_block m (a + k) n" for k n
    by (induction k arbitrary: a) simp_all
  then show ?thesis by (simp add: laid_out_def)
qed

lemma laid_out_hd:
  assumes "laid_out m a (d # ds)" "wf_desc d"
  shows "DESCRIPTOR_SIZE m a = d ! 0" "DESCRIPTOR_TYPE m a = d ! 1"
proof -
  have r: "read_block m a (length d) = d" using assms(1) by (simp add: laid_out_Cons)
  have "0 < length d" using assms(2) by (auto simp: wf_desc_def)
  then have "m a = d ! 0" using nth_read_block [of 0 "length d" m a] r by simp
  moreover have "m (a + 1) = d ! 1"
    using nth_read_block [of 1 "length d" m a] r assms(2) by (simp add: wf_desc_def)
  ultimately show "DESCRIPTOR_SIZE m a = d ! 0" "DESCRIPTOR_TYPE m a = d ! 1"
    by (simp_all add: DESCRIPTOR_SIZE_def DESCRIPTOR_TYPE_def)
qed

lemma u16_of_nat_neq_0: "0 < n \<Longrightarrow> n < 65536 \<Longrightarrow> (of_nat n :: u16) \<noteq> 0"
proof
  assume n: "0 < n" "n < 65536" and "(of_nat n :: u16) = 0"
  then have "unat (of_nat n :: u16) = 0" by simp
  with n show False by (simp add: unat_of_nat)
qed

lemma GetNext_wf:
  assumes "laid_out m a (d # ds)" "wf_desc d" "length (concat (d # ds)) < 65536"
  shows "USB_GetNextDescriptor m (of_nat (length (concat (d # ds))), a) =
    (of_nat (length (concat ds)), a + length d)"
proof -
  have s: "(ucast (DESCRIPTOR_SIZE m a) :: u16) = of_nat (length d)"
    using laid_out_hd(1) [OF assms(1,2)] assms(2) by (metis of_nat_unat wf_desc_def)
  have "\<not> (of_nat (length (concat (d # ds))) :: u16) < of_nat (length d)"
    using assms(3) by (simp add: word_less_nat_alt unat_of_nat del: of_nat_add)
  moreover have "unat (of_nat (length d) :: u16) = length d"
    using assms(3) by (simp add: unat_of_nat)
  ultimately show ?thesis by (simp add: USB_GetNextDescriptor_def s Let_def)
qed

lemma GetNextOfType_wf:
  assumes "\<forall>d\<in>set ds. wf_desc d"
  shows "wf_desc d \<Longrightarrow> laid_out m a (d # ds) \<Longrightarrow> length (concat (d # ds)) < 65536 \<Longrightarrow>
    USB_GetNextDescriptorOfType m ty (of_nat (length (concat (d # ds))), a) =
      (let rest = dropWhile (\<lambda>d. d ! 1 \<noteq> ty) ds
       in Some (of_nat (length (concat rest)), a + length (concat (d # ds)) - length (concat rest)))"
  using assms
proof (induction ds arbitrary: d a)
  case Nil
  note step = GetNext_wf [OF Nil(2,1,3)]
  have ne: "(of_nat (length (concat [d])) :: u16) \<noteq> 0"
    by (rule u16_of_nat_neq_0) (use Nil(1,3) in \<open>auto simp: wf_desc_def\<close>)
  show ?case
    by (subst USB_GetNextDescriptorOfType.simps)
      (use step ne in \<open>simp add: Let_def USB_GetNextDescriptorOfType.simps [of m ty "(0, _)"]\<close>)
next
  case (Cons e ds)
  note step = GetNext_wf [OF Cons.prems(2,1,3)]
  have e: "wf_desc e" and l: "laid_out m (a + length d) (e # ds)"
    using Cons.prems by (simp_all add: laid_out_Cons)
  have ne: "(of_nat (length (concat (d # e # ds))) :: u16) \<noteq> 0"
    by (rule u16_of_nat_neq_0) (use Cons.prems(1,3) in \<open>auto simp: wf_desc_def\<close>)
  have ih: "USB_GetNextDescriptorOfType m ty (of_nat (length (concat (e # ds))), a + length d) =
      (let rest = dropWhile (\<lambda>d. d ! 1 \<noteq> ty) ds
       in Some (of_nat (length (concat rest)), a + length d + length (concat (e # ds)) - length (concat rest)))"
    using Cons.prems by (intro Cons.IH e l) simp_all
  show ?case
    by (subst USB_GetNextDescriptorOfType.simps)
      (use step ne ih laid_out_hd(2) [OF l e] in \<open>simp add: Let_def add.assoc\<close>)
qed

section \<open>The descriptors are well formed\<close>

lemma le_bytes_2: "le_bytes 2 w = [ucast w, ucast (drop_bit 8 w)]"
  by (simp add: numeral_2_eq_2)

lemma device_bytes_value: "device_bytes DeviceDescriptor =
    [18, 1, 0x10, 0x01, 2, 0, 0, 8, 0x41, 0x23, 0x37, 0, 1, 0, 2, 1, 0, 1]"
  by (simp add: layout_defs DeviceDescriptor_def DTYPE_Device_def DEVICE_VID_def DEVICE_PID_def
      NO_DESCRIPTOR_def USB_Device_ControlEndpointSize_def le_bytes_2)

lemmas config_values = ConfigurationDescriptor_def DTYPE_Configuration_def DTYPE_Interface_def
  DTYPE_CSInterface_def DTYPE_Endpoint_def ENDPOINT_DIR_IN_def ENDPOINT_DIR_OUT_def
  CDC_NOTIFICATION_EPNUM_def CDC_TX_EPNUM_def CDC_RX_EPNUM_def CDC_TXRX_EPSIZE_def
  CDC_NOTIFICATION_EPSIZE_def EP_TYPE_INTERRUPT_def EP_TYPE_BULK_def NO_DESCRIPTOR_def

text \<open>The parts of the configuration descriptor, in the order they are sent.\<close>

definition config_parts :: "u8 list list" where
  "config_parts =
    (let c = ConfigurationDescriptor in
     [config_header_bytes (Config c), interface_bytes (CDC_CCI_Interface c),
      functional_header_bytes (CDC_Functional_Header c), acm_bytes (CDC_Functional_ACM c),
      union_bytes (CDC_Functional_Union c), endpoint_bytes (CDC_NotificationEndpoint c),
      interface_bytes (CDC_DCI_Interface c), endpoint_bytes (CDC_DataOutEndpoint c),
      endpoint_bytes (CDC_DataInEndpoint c)])"

lemma concat_config_parts: "concat config_parts = configuration_bytes ConfigurationDescriptor"
  by (simp add: config_parts_def configuration_bytes_def Let_def)

lemma config_parts_value: "config_parts =
    [[9, 2, 62, 0, 2, 1, 0, 0x80, 50], [9, 4, 0, 0, 1, 2, 2, 1, 0], [5, 0x24, 0, 0x10, 0x01],
     [4, 0x24, 2, 4], [5, 0x24, 6, 0, 1], [7, 5, 0x82, 3, 8, 0, 0xFF], [9, 4, 1, 0, 2, 0x0A, 0, 0, 0],
     [7, 5, 4, 2, 16, 0, 1], [7, 5, 0x83, 2, 16, 0, 1]]"
  by (simp add: config_parts_def Let_def layout_defs config_values le_bytes_2)

lemma length_wide_chars [simp]: "length (concat (map (le_bytes 2) (ws :: u16 list))) = 2 * length ws"
  by (induction ws) simp_all

lemma laid_out_write: "laid_out (write_block m a (concat ds)) a ds"
  by (simp add: laid_out_def read_write_block)

lemma config_parts_wf: "list_all wf_desc config_parts"
  by (simp add: config_parts_value wf_desc_def)

text \<open>
  Walking a configuration descriptor. In every sequence of descriptors that each start with their
  own length, wherever it lies in memory and whatever follows it, \<^verbatim>\<open>USB_GetNextDescriptorOfType\<close>
  called on the first descriptor returns, and stops at the first later descriptor of the type asked
  for with the number of bytes from there to the end, or at the end with no bytes left if there is
  none: exactly what dropping the descriptors of other types from the list gives.
\<close>

theorem next_descriptor_search:
  assumes "wf_desc d" "list_all wf_desc ds" "laid_out m a (d # ds)" "length (concat (d # ds)) < 65536"
  shows "USB_GetNextDescriptorOfType m ty (of_nat (length (concat (d # ds))), a) =
      (let rest = dropWhile (\<lambda>d. d ! 1 \<noteq> ty) ds
       in Some (of_nat (length (concat rest)), a + length (concat (d # ds)) - length (concat rest)))"
  using assms by (intro GetNextOfType_wf) (auto simp: list_all_iff)

theorem next_descriptor_search_witness:
  "USB_GetNextDescriptorOfType (write_block (\<lambda>_. 5) 100 (concat config_parts)) DTYPE_Endpoint (62, 100) =
     Some (30, 132)"
proof -
  have "wf_desc (hd config_parts)" "list_all wf_desc (tl config_parts)"
    using config_parts_wf by (simp_all add: config_parts_value)
  moreover have "laid_out (write_block (\<lambda>_. 5) 100 (concat config_parts)) 100
      (hd config_parts # tl config_parts)"
    using laid_out_write [of "\<lambda>_. 5" 100 config_parts] by (simp add: config_parts_value)
  ultimately show ?thesis
    using next_descriptor_search [of "hd config_parts" "tl config_parts"
        "write_block (\<lambda>_. 5) 100 (concat config_parts)" 100 DTYPE_Endpoint]
    by (simp add: config_parts_value DTYPE_Endpoint_def)
qed

text \<open>
  C40. The descriptors the boot loader offers. \<^verbatim>\<open>CALLBACK_USB_GetDescriptor\<close> answers exactly the
  requests for the device descriptor, the configuration descriptor and the strings 0, 1 and 2. What it
  gives has the requested type in its second byte and its length, which fits a byte, in its first; the
  configuration descriptor gives its total size in bytes two and three and is the sequence of its
  parts, each of which starts with its own length.
\<close>

theorem descriptors_wellformed:
  "let ty = (ucast (drop_bit 8 v) :: u8); num = (ucast (v AND 0xFF) :: u8) in
    case CALLBACK_USB_GetDescriptor v ix of
      None \<Rightarrow> (if ty = DTYPE_String then num \<notin> {0, 1, 2} else ty \<notin> {DTYPE_Device, DTYPE_Configuration})
    | Some ds \<Rightarrow> ds ! 1 = ty \<and> length ds < 256 \<and>
        (if ty = DTYPE_Configuration
         then unat (of_le (take 2 (drop 2 ds)) :: u16) = length ds \<and> ds = concat config_parts \<and>
           list_all wf_desc config_parts
         else wf_desc ds)"
proof -
  have dev: "wf_desc (device_bytes DeviceDescriptor)" by (simp add: wf_desc_def device_bytes_value)
  have str: "wf_desc (take (unat (Size (s_Header s))) (string_bytes s)) \<and>
      take (unat (Size (s_Header s))) (string_bytes s) ! 1 = 3 \<and>
      length (take (unat (Size (s_Header s))) (string_bytes s)) < 256"
    if "s \<in> {LanguageString, ProductString, ManufNameString}" for s
    using that by (auto simp: wf_desc_def string_bytes_def header_bytes_def LanguageString_def
        ProductString_def ManufNameString_def USB_STRING_LEN_def wide_chars_def DTYPE_String_def)
  have cfg: "length (concat config_parts) = 62" "concat config_parts ! 1 = 2"
      "(of_le (take 2 (drop 2 (concat config_parts))) :: u16) = 62"
    by (simp_all add: config_parts_value)
  have "ProductStrIndex DeviceDescriptor = 1" "ManufacturerStrIndex DeviceDescriptor = 2"
    by (simp_all add: DeviceDescriptor_def)
  then show ?thesis
    using dev str cfg config_parts_wf
    unfolding CALLBACK_USB_GetDescriptor_def Let_def concat_config_parts [symmetric]
    by (simp add: device_bytes_value DTYPE_Device_def DTYPE_Configuration_def DTYPE_String_def)
qed

end
