(* ===== verification/Usb_Device.thy ===== *)
theory Usb_Device
  imports Usb_Stream Usb_Descriptors
begin

text \<open>
  The standard requests of a USB device (\<^verbatim>\<open>Core/DeviceStandardReq.c\<close>) and the USB task
  (\<^verbatim>\<open>Core/USBTask.c\<close>). The library calls the application back; what the application provides is the
  record \<open>usb_app\<close>: its handlers for control requests and for a change of the configuration, and its
  descriptors. The boot loader's instance is in the theory \<open>Caterina_Usb\<close>. With the options of the build
  (no self power, no remote wake-up, no internal serial number) the cases for the device recipient of
  \<^verbatim>\<open>USB_Device_GetStatus\<close> and \<^verbatim>\<open>USB_Device_ClearSetFeature\<close> are not compiled.
\<close>

record 'a usb_app =
  on_ControlRequest :: "'a usb_scheme \<Rightarrow> 'a usb_scheme option"
  on_ConfigurationChanged :: "'a usb_scheme \<Rightarrow> 'a usb_scheme option"
  get_descriptor :: "u16 \<Rightarrow> u8 \<Rightarrow> u8 list option"

definition REQ_GetStatus :: u8 where "REQ_GetStatus = 0"
definition REQ_ClearFeature :: u8 where "REQ_ClearFeature = 1"
definition REQ_SetFeature :: u8 where "REQ_SetFeature = 3"
definition REQ_SetAddress :: u8 where "REQ_SetAddress = 5"
definition REQ_GetDescriptor :: u8 where "REQ_GetDescriptor = 6"
definition REQ_GetConfiguration :: u8 where "REQ_GetConfiguration = 8"
definition REQ_SetConfiguration :: u8 where "REQ_SetConfiguration = 9"

definition IN_DEVICE :: u8 where "IN_DEVICE = 0x80"
definition IN_INTERFACE :: u8 where "IN_INTERFACE = 0x81"
definition IN_ENDPOINT :: u8 where "IN_ENDPOINT = 0x82"
definition OUT_DEVICE :: u8 where "OUT_DEVICE = 0x00"
definition OUT_ENDPOINT :: u8 where "OUT_ENDPOINT = 0x02"

lemmas req_codes = REQ_GetStatus_def REQ_ClearFeature_def REQ_SetFeature_def REQ_SetAddress_def
  REQ_GetDescriptor_def REQ_GetConfiguration_def REQ_SetConfiguration_def
lemmas req_types = IN_DEVICE_def IN_INTERFACE_def IN_ENDPOINT_def OUT_DEVICE_def OUT_ENDPOINT_def

section \<open>Standard requests\<close>

text \<open>The library disables interrupts while the address is set; what became pending meanwhile is served
  when the old interrupt mask is put back.\<close>

definition USB_Device_SetAddress :: "'a usb_scheme \<Rightarrow> 'a usb_scheme option" where
  "USB_Device_SetAddress u = do {
     let DeviceAddress = (ucast (wValue (USB_ControlRequest u)) AND 0x7F :: u8);
     let CurrentGlobalInt = I_bit u;
     let u = u\<lparr>I_bit := False\<rparr>;
     let u = Endpoint_ClearSETUP u;
     u \<leftarrow> Endpoint_ClearStatusStage u;
     u \<leftarrow> wait_until Endpoint_IsINReady u;
     let u = USB_Device_SetDeviceAddress DeviceAddress u;
     let u = u\<lparr>USB_DeviceState := (if DeviceAddress \<noteq> 0 then Addressed else Default)\<rparr>;
     Some (serve (u\<lparr>I_bit := CurrentGlobalInt\<rparr>))
   }"

definition FIXED_NUM_CONFIGURATIONS :: u8 where "FIXED_NUM_CONFIGURATIONS = 1"

definition USB_Device_SetConfiguration :: "'a usb_app \<Rightarrow> 'a usb_scheme \<Rightarrow> 'a usb_scheme option" where
  "USB_Device_SetConfiguration app u =
    (let number = (ucast (wValue (USB_ControlRequest u)) :: u8)
     in if FIXED_NUM_CONFIGURATIONS < number then Some u
        else do {
          let u = Endpoint_ClearSETUP u;
          let u = u\<lparr>USB_Device_ConfigurationNumber := number\<rparr>;
          u \<leftarrow> Endpoint_ClearStatusStage u;
          let u = u\<lparr>USB_DeviceState := configured_or_powered u\<rparr>;
          on_ConfigurationChanged app u
        })"

definition USB_Device_GetConfiguration :: "'a usb_scheme \<Rightarrow> 'a usb_scheme option" where
  "USB_Device_GetConfiguration u =
    (let u = Endpoint_ClearSETUP u;
         u = Endpoint_Write_8 (USB_Device_ConfigurationNumber u) u;
         u = Endpoint_ClearIN u
     in Endpoint_ClearStatusStage u)"

definition USB_Device_GetDescriptor :: "'a usb_app \<Rightarrow> 'a usb_scheme \<Rightarrow> 'a usb_scheme option" where
  "USB_Device_GetDescriptor app u =
    (case get_descriptor app (wValue (USB_ControlRequest u)) (ucast (wIndex (USB_ControlRequest u))) of
       None \<Rightarrow> Some u
     | Some Descriptor \<Rightarrow> map_option (\<lambda>(e, u). Endpoint_ClearOUT u)
         (Endpoint_Write_Control_Stream_LE Descriptor (Endpoint_ClearSETUP u)))"

definition USB_Device_GetStatus :: "'a usb_scheme \<Rightarrow> 'a usb_scheme option" where
  "USB_Device_GetStatus u =
    (if bmRequestType (USB_ControlRequest u) = IN_ENDPOINT
     then let u = Endpoint_SelectEndpoint (ucast (wIndex (USB_ControlRequest u)) AND 0x07) u;
              CurrentStatus = (if Endpoint_IsStalled u then 1 else 0);
              u = Endpoint_SelectEndpoint ENDPOINT_CONTROLEP u;
              u = Endpoint_ClearSETUP u;
              u = Endpoint_Write_16_LE CurrentStatus u;
              u = Endpoint_ClearIN u
          in Endpoint_ClearStatusStage u
     else Some u)"

definition set_halt :: "u8 \<Rightarrow> 'a usb_scheme \<Rightarrow> 'a usb_scheme" where
  "set_halt EndpointIndex u =
    (let u = Endpoint_SelectEndpoint EndpointIndex u
     in if Endpoint_IsEnabled u
        then if bRequest (USB_ControlRequest u) = REQ_SetFeature then Endpoint_StallTransaction u
             else Endpoint_ResetDataToggle (Endpoint_ResetEndpoint EndpointIndex (Endpoint_ClearStall u))
        else u)"

definition USB_Device_ClearSetFeature :: "'a usb_scheme \<Rightarrow> 'a usb_scheme option" where
  "USB_Device_ClearSetFeature u =
    (if bmRequestType (USB_ControlRequest u) AND 0x1F = 2
     then let halt = (ucast (wValue (USB_ControlRequest u)) = (0 :: u8));
              EndpointIndex = (ucast (wIndex (USB_ControlRequest u)) AND 0x07 :: u8)
          in if halt \<and> EndpointIndex = ENDPOINT_CONTROLEP then Some u
             else let u = (if halt then set_halt EndpointIndex u else u);
                      u = Endpoint_SelectEndpoint ENDPOINT_CONTROLEP u
                  in Endpoint_ClearStatusStage (Endpoint_ClearSETUP u)
     else Some u)"

section \<open>Dispatch\<close>

text \<open>The request header is read byte by byte into the structure, which has no padding.\<close>

fun read_bytes :: "nat \<Rightarrow> 'a usb_scheme \<Rightarrow> u8 list \<times> 'a usb_scheme" where
  "read_bytes 0 u = ([], u)"
| "read_bytes (Suc n) u =
    (let (b, u) = Endpoint_Read_8 u; (bs, u) = read_bytes n u in (b # bs, u))"

definition request_of :: "u8 list \<Rightarrow> USB_Request_Header" where
  "request_of bs = \<lparr>bmRequestType = bs ! 0, bRequest = bs ! 1, wValue = of_le (take 2 (drop 2 bs)),
     wIndex = of_le (take 2 (drop 4 bs)), wLength = of_le (take 2 (drop 6 bs))\<rparr>"

definition standard_request :: "'a usb_app \<Rightarrow> 'a usb_scheme \<Rightarrow> 'a usb_scheme option" where
  "standard_request app u =
    (let ty = bmRequestType (USB_ControlRequest u); r = bRequest (USB_ControlRequest u)
     in if r = REQ_GetStatus then if ty = IN_DEVICE \<or> ty = IN_ENDPOINT then USB_Device_GetStatus u else Some u
        else if r = REQ_ClearFeature \<or> r = REQ_SetFeature
        then if ty = OUT_DEVICE \<or> ty = OUT_ENDPOINT then USB_Device_ClearSetFeature u else Some u
        else if r = REQ_SetAddress then if ty = OUT_DEVICE then USB_Device_SetAddress u else Some u
        else if r = REQ_GetDescriptor
        then if ty = IN_DEVICE \<or> ty = IN_INTERFACE then USB_Device_GetDescriptor app u else Some u
        else if r = REQ_GetConfiguration then if ty = IN_DEVICE then USB_Device_GetConfiguration u else Some u
        else if r = REQ_SetConfiguration
        then if ty = OUT_DEVICE then USB_Device_SetConfiguration app u else Some u
        else Some u)"

definition USB_Device_ProcessControlRequest :: "'a usb_app \<Rightarrow> 'a usb_scheme \<Rightarrow> 'a usb_scheme option" where
  "USB_Device_ProcessControlRequest app u = do {
     let (bs, u) = read_bytes 8 u;
     let u = u\<lparr>USB_ControlRequest := request_of bs\<rparr>;
     u \<leftarrow> on_ControlRequest app u;
     u \<leftarrow> (if Endpoint_IsSETUPReceived u then standard_request app u else Some u);
     Some (if Endpoint_IsSETUPReceived u then Endpoint_ClearSETUP (Endpoint_StallTransaction u) else u)
   }"

definition USB_DeviceTask :: "'a usb_app \<Rightarrow> 'a usb_scheme \<Rightarrow> 'a usb_scheme option" where
  "USB_DeviceTask app u =
    (if USB_DeviceState u \<noteq> Unattached
     then do {
       let PrevEndpoint = Endpoint_GetCurrentEndpoint u;
       let u = Endpoint_SelectEndpoint ENDPOINT_CONTROLEP u;
       u \<leftarrow> (if Endpoint_IsSETUPReceived u then USB_Device_ProcessControlRequest app u else Some u);
       Some (Endpoint_SelectEndpoint PrevEndpoint u)
     }
     else Some u)"

definition USB_USBTask :: "'a usb_app \<Rightarrow> 'a usb_scheme \<Rightarrow> 'a usb_scheme option" where
  "USB_USBTask app u = USB_DeviceTask app u"

section \<open>Reading the request\<close>

lemma read_bytes_fifo:
  "fifo (sel u) = bs @ rest \<Longrightarrow> read_bytes (length bs) u = (bs, on_sel (fifo_update (\<lambda>_. rest)) u)"
proof (induction bs arbitrary: u)
  case Nil
  then have "on_sel (fifo_update (\<lambda>_. rest)) u = u"
    by (cases "sel u") (simp add: on_sel_def on_ep_def sel_def fun_upd_idem)
  then show ?case by simp
next
  case (Cons b bs)
  let ?v = "on_sel (fifo_update (\<lambda>_. bs @ rest)) u"
  have "Endpoint_Read_8 u = (b, ?v)" using Cons.prems by (simp add: Endpoint_Read_8_def)
  moreover have "read_bytes (length bs) ?v = (bs, on_sel (fifo_update (\<lambda>_. rest)) ?v)"
    by (rule Cons.IH) (simp add: usb_simps)
  moreover have "on_sel (fifo_update (\<lambda>_. rest)) ?v = on_sel (fifo_update (\<lambda>_. rest)) u"
    by (simp add: on_sel_def on_ep_def cur_def)
  ultimately show ?case by simp
qed

text \<open>A SETUP packet \<open>bs\<close> waits in the control endpoint of an attached device.\<close>

definition setup_pending :: "u8 list \<Rightarrow> 'a usb_scheme \<Rightarrow> bool" where
  "setup_pending bs u \<longleftrightarrow> cur u = 0 \<and> calm u \<and> USB_DeviceState u \<notin> {Unattached, Suspended} \<and>
     EPEN (eps u 0) \<and> UECFG0X (eps u 0) = 0 \<and> UECFG1X (eps u 0) = 2 \<and> RXSTPI (eps u 0) \<and>
     \<not> RXOUTI (eps u 0) \<and> \<not> STALLRQ (eps u 0) \<and> fifo (eps u 0) = bs \<and> sent (eps u 0) = None \<and>
     TXINI (eps u 0) \<and> length bs = 8"

lemma setup_packet_pending:
  assumes "EPEN (eps u 0)" "UECFG0X (eps u 0) = 0" "UECFG1X (eps u 0) = 2" "length bs = 8"
    "cur u = 0" "calm u" "USB_DeviceState u \<notin> {Unattached, Suspended}"
  shows "setup_pending bs (bus_step (SetupPkt bs) u)"
proof -
  let ?v = "hw_event (SetupPkt bs) u"
  have v: "?v = on_ep 0 (\<lambda>e. (ep_flush e)\<lparr>fifo := bs, RXSTPI := True, STALLRQ := False\<rparr>) u"
    using assms by (simp add: ep_cfgok_def ep_size_def ep_max_def)
  then have "calm ?v" using assms(6) by (simp add: calm_def usb_simps)
  then show ?thesis
    using assms v by (simp add: bus_step_def serve_idle setup_pending_def usb_simps ep_flush_def cur_def
        ep_in_def ep_control_def)
qed

definition header_read :: "u8 list \<Rightarrow> 'a usb_scheme \<Rightarrow> 'a usb_scheme" where
  "header_read bs u = (on_sel (fifo_update (\<lambda>_. [])) u)\<lparr>USB_ControlRequest := request_of bs\<rparr>"

lemma read_header:
  assumes "setup_pending bs u"
  shows "read_bytes 8 u = (bs, on_sel (fifo_update (\<lambda>_. [])) u)"
  using read_bytes_fifo [of u bs "[]"] assms by (simp add: setup_pending_def sel_def)

lemma header_read_setup:
  "setup_pending bs u \<Longrightarrow> Endpoint_IsSETUPReceived (header_read bs u)"
  by (simp add: setup_pending_def header_read_def Endpoint_IsSETUPReceived_def sel_def on_sel_def
      on_ep_def cur_def)

lemma header_read_ready:
  "setup_pending bs u \<Longrightarrow> control_ready (Endpoint_ClearSETUP (header_read bs u))"
  by (simp add: setup_pending_def header_read_def Endpoint_ClearSETUP_def on_sel_def on_ep_def cur_def
      control_ready_def ep_clear_setup_def calm_def)

lemma header_read_fields [usb_simps]:
  "USB_ControlRequest (header_read bs u) = request_of bs" "host (header_read bs u) = host u"
  "in_log (header_read bs u) = in_log u" "cur (header_read bs u) = cur u"
  "USB_ControlRequest (Endpoint_ClearSETUP v) = USB_ControlRequest v"
  "host (Endpoint_ClearSETUP v) = host v" "in_log (Endpoint_ClearSETUP v) = in_log v"
  by (simp_all add: header_read_def Endpoint_ClearSETUP_def usb_simps cur_def)

lemma Process_pending:
  assumes "setup_pending bs u"
  shows "USB_Device_ProcessControlRequest app u = Option.bind (on_ControlRequest app (header_read bs u))
    (\<lambda>u. Option.bind (if Endpoint_IsSETUPReceived u then standard_request app u else Some u)
      (\<lambda>u. Some (if Endpoint_IsSETUPReceived u then Endpoint_ClearSETUP (Endpoint_StallTransaction u) else u)))"
  by (simp add: USB_Device_ProcessControlRequest_def read_header [OF assms] header_read_def)

text \<open>A request that no handler takes is refused: the control endpoint is stalled and nothing else
  changes.\<close>

definition refused :: "u8 list \<Rightarrow> 'a usb_scheme \<Rightarrow> 'a usb_scheme" where
  "refused bs u = on_ep 0 (\<lambda>e. e\<lparr>STALLRQ := True, RXSTPI := False, fifo := []\<rparr>)
     (u\<lparr>USB_ControlRequest := request_of bs\<rparr>)"

lemma Process_refused:
  assumes "setup_pending bs u" "on_ControlRequest app (header_read bs u) = Some (header_read bs u)"
    "standard_request app (header_read bs u) = Some (header_read bs u)"
  shows "USB_Device_ProcessControlRequest app u = Some (refused bs u)"
proof -
  have "Endpoint_ClearSETUP (Endpoint_StallTransaction (header_read bs u)) = refused bs u"
    using assms(1) by (simp add: setup_pending_def header_read_def Endpoint_ClearSETUP_def refused_def
        Endpoint_StallTransaction_def on_sel_def on_ep_def cur_def ep_clear_setup_def)
  then show ?thesis
    using header_read_setup [OF assms(1)] by (simp add: Process_pending [OF assms(1)] assms(2,3))
qed

section \<open>Requests end when the host leaves\<close>

lemma if_not_None: "(c \<Longrightarrow> x \<noteq> None) \<Longrightarrow> (\<not> c \<Longrightarrow> y \<noteq> None) \<Longrightarrow> (if c then x else y) \<noteq> None"
  by simp

lemma leaving_on_ep [simp]: "leaving (on_ep n f u) = leaving u"
  by (auto elim!: leaving_cong simp: usb_simps)

lemma leaving_set_halt [simp]: "leaving (set_halt n u) = leaving u"
  by (simp add: set_halt_def Let_def Endpoint_ResetDataToggle_def Endpoint_ResetEndpoint_def
      Endpoint_ClearStall_def)

lemma leaving_request [simp]:
  "leaving (u\<lparr>USB_ControlRequest := r\<rparr>) = leaving u"
  "leaving (u\<lparr>USB_Device_ConfigurationNumber := c\<rparr>) = leaving u"
  by (simp_all add: leaving_def calm_def)

lemma ClearStatusStage_ends: "leaving u \<Longrightarrow> \<exists>u'. Endpoint_ClearStatusStage u = Some u' \<and> leaving u'"
  by (blast elim: ClearStatusStage_leaving)

lemma GetStatus_ends: "leaving u \<Longrightarrow> \<exists>u'. USB_Device_GetStatus u = Some u' \<and> leaving u'"
  unfolding USB_Device_GetStatus_def Let_def Endpoint_Write_16_LE_def
  by (auto intro!: ClearStatusStage_ends)

lemma GetConfiguration_ends: "leaving u \<Longrightarrow> \<exists>u'. USB_Device_GetConfiguration u = Some u' \<and> leaving u'"
  unfolding USB_Device_GetConfiguration_def Let_def by (auto intro!: ClearStatusStage_ends)

lemma ClearSetFeature_ends: "leaving u \<Longrightarrow> \<exists>u'. USB_Device_ClearSetFeature u = Some u' \<and> leaving u'"
  unfolding USB_Device_ClearSetFeature_def Let_def by (auto intro!: ClearStatusStage_ends)

lemma GetDescriptor_ends:
  assumes "leaving u"
  shows "\<exists>u'. USB_Device_GetDescriptor app u = Some u' \<and> leaving u'"
proof (cases "get_descriptor app (wValue (USB_ControlRequest u)) (ucast (wIndex (USB_ControlRequest u)))")
  case None
  with assms show ?thesis by (simp add: USB_Device_GetDescriptor_def)
next
  case (Some d)
  have "leaving (Endpoint_ClearSETUP u)" using assms by simp
  then obtain e v where "Endpoint_Write_Control_Stream_LE d (Endpoint_ClearSETUP u) = Some (e, v)" "leaving v"
    by (rule Write_Control_Stream_leaving)
  with Some show ?thesis by (simp add: USB_Device_GetDescriptor_def)
qed

lemma leaving_read_bytes [simp]: "leaving (snd (read_bytes n u)) = leaving u"
  by (induction n arbitrary: u) (simp_all add: Let_def split_beta)

section \<open>What the library promises an application that keeps its part\<close>

text \<open>
  The contract between the library and the application: the application leaves standard requests alone,
  its control handler returns when the host goes away, and its handler for a new configuration
  returns.
\<close>

locale usb_application =
  fixes app :: "'a usb_app"
  assumes standard_untouched:
    "bmRequestType (USB_ControlRequest u) AND 0x60 = 0 \<Longrightarrow> on_ControlRequest app u = Some u"
    and control_leaving: "leaving u \<Longrightarrow> \<exists>u'. on_ControlRequest app u = Some u' \<and> leaving u'"
    and configuration_ends: "\<exists>u'. on_ConfigurationChanged app u = Some u'"
begin

lemma process_standard:
  assumes "setup_pending bs u" "bs ! 0 AND 0x60 = 0"
  shows "USB_Device_ProcessControlRequest app u =
    map_option (\<lambda>u. if Endpoint_IsSETUPReceived u then Endpoint_ClearSETUP (Endpoint_StallTransaction u) else u)
      (standard_request app (header_read bs u))"
proof -
  have "on_ControlRequest app (header_read bs u) = Some (header_read bs u)"
    by (rule standard_untouched) (simp add: usb_simps request_of_def assms(2))
  then show ?thesis
    using header_read_setup [OF assms(1)]
    by (cases "standard_request app (header_read bs u)") (simp_all add: Process_pending [OF assms(1)])
qed

lemma process_descriptor:
  assumes "setup_pending bs u" "bs ! 0 = IN_DEVICE \<or> bs ! 0 = IN_INTERFACE" "bs ! 1 = REQ_GetDescriptor"
    and d: "get_descriptor app (wValue (request_of bs)) (ucast (wIndex (request_of bs))) = Some d"
    and w: "Endpoint_Write_Control_Stream_LE d (Endpoint_ClearSETUP (header_read bs u)) =
      Some (NoError, ctl_status (Endpoint_ClearSETUP (header_read bs u)) h log s)"
  shows "USB_Device_ProcessControlRequest app u =
    Some (ctl (Endpoint_ClearSETUP (header_read bs u)) h log s)"
proof -
  let ?v = "Endpoint_ClearSETUP (header_read bs u)"
  let ?c = "ctl ?v h log s"
  have ready: "control_ready ?v" by (rule header_read_ready [OF assms(1)])
  have "Endpoint_ClearOUT (ctl_status ?v h log s) = ?c"
    using ready by (cases "eps ?v 0") (simp add: Endpoint_ClearOUT_def ctl_status_def ctl_def on_sel_def
        on_ep_def cur_def ep_clear_out_def control_ready_def)
  then have "standard_request app (header_read bs u) = Some ?c"
    using assms(2,3) d w by (auto simp: standard_request_def Let_def USB_Device_GetDescriptor_def usb_simps
        request_of_def req_codes)
  moreover have "\<not> Endpoint_IsSETUPReceived ?c" using ctl_state [OF ready] by blast
  moreover have "bs ! 0 AND 0x60 = 0" using assms(2) by (auto simp: req_types)
  ultimately show ?thesis by (simp add: process_standard [OF assms(1)])
qed

lemma SetConfiguration_ends:
  assumes "leaving u"
  shows "\<exists>u'. USB_Device_SetConfiguration app u = Some u'"
proof -
  have "leaving ((Endpoint_ClearSETUP u)\<lparr>USB_Device_ConfigurationNumber := ucast (wValue (USB_ControlRequest u))\<rparr>)"
    using assms by simp
  from ClearStatusStage_ends [OF this] show ?thesis
    using configuration_ends by (auto simp: USB_Device_SetConfiguration_def Let_def)
qed

lemma standard_request_ends:
  assumes "leaving u" "bRequest (USB_ControlRequest u) \<noteq> REQ_SetAddress"
  shows "\<exists>u'. standard_request app u = Some u'"
proof -
  obtain a b c d e where "USB_Device_GetStatus u = Some a" "USB_Device_ClearSetFeature u = Some b"
      "USB_Device_GetDescriptor app u = Some c" "USB_Device_GetConfiguration u = Some d"
      "USB_Device_SetConfiguration app u = Some e"
    using GetStatus_ends [OF assms(1)] ClearSetFeature_ends [OF assms(1)] GetDescriptor_ends [OF assms(1)]
      GetConfiguration_ends [OF assms(1)] SetConfiguration_ends [OF assms(1)] by metis
  with assms(2) have "standard_request app u \<noteq> None"
    unfolding standard_request_def Let_def by (intro if_not_None) simp_all
  then show ?thesis by simp
qed

lemma process_ends:
  assumes "leaving u" "fst (read_bytes 8 u) ! 1 \<noteq> REQ_SetAddress"
    and keeps: "\<And>v w. on_ControlRequest app v = Some w \<Longrightarrow>
      bRequest (USB_ControlRequest w) = bRequest (USB_ControlRequest v)"
  shows "\<exists>u'. USB_Device_ProcessControlRequest app u = Some u'"
proof -
  obtain bs v where r: "read_bytes 8 u = (bs, v)" by fastforce
  then have "leaving v" using leaving_read_bytes [of 8 u] assms(1) by simp
  then have "leaving (v\<lparr>USB_ControlRequest := request_of bs\<rparr>)" by simp
  from control_leaving [OF this] obtain w
    where w: "on_ControlRequest app (v\<lparr>USB_ControlRequest := request_of bs\<rparr>) = Some w" "leaving w" by blast
  moreover have "bRequest (USB_ControlRequest w) \<noteq> REQ_SetAddress"
    using keeps [OF w(1)] assms(2) r by (simp add: request_of_def)
  then obtain x where "standard_request app w = Some x" using standard_request_ends w(2) by blast
  ultimately show ?thesis by (auto simp: USB_Device_ProcessControlRequest_def r)
qed

end

end
