(* ===== verification/Caterina_Memory.thy ===== *)
theory Caterina_Memory
  imports Usb_Device Record_Store
begin

text \<open>
  The state of the boot loader (\<^verbatim>\<open>caterina/Caterina.c\<close>) and the memories it programs. The state
  extends the state of the USB stack with the variables of \<^verbatim>\<open>Caterina.c\<close>, the registers it uses, the
  flash memory with its temporary page buffer, the EEPROM and the trace of the writes to port D and of
  the delays, from which the pulses on the relay lines can be read.

  The self-programming instructions of \<^verbatim>\<open>avr/boot.h\<close> follow the data sheet of the ATmega32U4: pages of
  128 bytes; erasing a page sets it to \<open>0xFF\<close>; a word of the page buffer can be filled once; writing a
  page clears bits and empties the buffer; both leave the read-while-write section (below \<open>0x7000\<close>)
  unreadable, which is modelled as reading \<open>0xFF\<close>, until it is enabled again; enabling it discards the
  page buffer. The address is the 16-bit Z pointer, of which the part decodes 15 bits.
\<close>

record CDC_LineEncoding =
  BaudRateBPS :: u32
  CharFormat :: u8
  ParityType :: u8
  DataBits :: u8

datatype trace = PortD u8 | Delay_ms nat

record cat = usb +
  LineEncoding :: CDC_LineEncoding
  CurrAddress :: u32
  RunBootloader :: bool
  TxLEDPulse :: u16
  RxLEDPulse :: u16
  Timeout :: u16
  LLEDPulse :: u16
  bootKey_mem :: u16
  flash :: mem
  page_buf :: "nat \<Rightarrow> u16 option"
  RWWSB :: bool
  eeprom_mem :: eeprom
  lock_fuse_bits :: "u8 \<Rightarrow> u8"
  PORTB :: u8
  PORTC :: u8
  PORTD :: u8
  DDRB :: u8
  DDRC :: u8
  DDRD :: u8
  TIMSK1 :: u8
  TCCR1B :: u8
  TCNT1 :: u16
  OCR1A :: u16
  MCUCR_r :: u8
  MCUSR :: u8
  CLKPR :: u8
  WDE :: bool
  nc_trace :: "trace list"
  sketch_started :: bool

section \<open>Self-programming\<close>

definition SPM_PAGESIZE :: nat where "SPM_PAGESIZE = 128"
definition BOOT_START_ADDR :: nat where "BOOT_START_ADDR = 0x7000"
definition FLASH_SIZE :: nat where "FLASH_SIZE = 0x8000"

definition z_addr :: "u32 \<Rightarrow> nat" where
  "z_addr a = unat (ucast a :: u16) mod FLASH_SIZE"

definition page_of :: "nat \<Rightarrow> nat" where
  "page_of a = a - a mod SPM_PAGESIZE"

definition in_rww :: "nat \<Rightarrow> bool" where
  "in_rww a \<longleftrightarrow> a < BOOT_START_ADDR"

definition boot_page_erase :: "u32 \<Rightarrow> cat \<Rightarrow> cat" where
  "boot_page_erase a c =
    (let p = page_of (z_addr a)
     in c\<lparr>flash := (\<lambda>x. if p \<le> x \<and> x < p + SPM_PAGESIZE then 0xFF else flash c x),
          RWWSB := RWWSB c \<or> in_rww p\<rparr>)"

definition boot_page_fill :: "u32 \<Rightarrow> u16 \<Rightarrow> cat \<Rightarrow> cat" where
  "boot_page_fill a w c =
    (let i = (z_addr a mod SPM_PAGESIZE) div 2
     in c\<lparr>page_buf := (case page_buf c i of None \<Rightarrow> (page_buf c)(i := Some w) | Some _ \<Rightarrow> page_buf c)\<rparr>)"

definition buf_byte :: "(nat \<Rightarrow> u16 option) \<Rightarrow> nat \<Rightarrow> u8" where
  "buf_byte pb k = (case pb (k div 2) of None \<Rightarrow> 0xFF
     | Some w \<Rightarrow> if even k then ucast w else ucast (drop_bit 8 w))"

definition boot_page_write :: "u32 \<Rightarrow> cat \<Rightarrow> cat" where
  "boot_page_write a c =
    (let p = page_of (z_addr a)
     in c\<lparr>flash := (\<lambda>x. if p \<le> x \<and> x < p + SPM_PAGESIZE then flash c x AND buf_byte (page_buf c) (x - p)
            else flash c x),
          page_buf := (\<lambda>_. None), RWWSB := RWWSB c \<or> in_rww p\<rparr>)"

definition boot_rww_enable :: "cat \<Rightarrow> cat" where
  "boot_rww_enable c = c\<lparr>RWWSB := False, page_buf := (\<lambda>_. None)\<rparr>"

definition pgm_read_byte :: "u32 \<Rightarrow> cat \<Rightarrow> u8" where
  "pgm_read_byte a c = (if RWWSB c \<and> in_rww (z_addr a) then 0xFF else flash c (z_addr a))"

definition pgm_read_word :: "u32 \<Rightarrow> cat \<Rightarrow> u16" where
  "pgm_read_word a c = of_le [pgm_read_byte a c, pgm_read_byte (a + 1) c]"

text \<open>The EEPROM is addressed with the low 16 bits of \<^verbatim>\<open>CurrAddress >> 1\<close>.\<close>

definition ee_addr :: "u32 \<Rightarrow> nat" where
  "ee_addr a = unat (ucast (drop_bit 1 a) :: u16)"

section \<open>Lights\<close>

definition L_LED_OFF :: "cat \<Rightarrow> cat" where "L_LED_OFF c = c\<lparr>PORTC := cbi (PORTC c) 7\<rparr>"
definition L_LED_ON :: "cat \<Rightarrow> cat" where "L_LED_ON c = c\<lparr>PORTC := sbi (PORTC c) 7\<rparr>"

definition set_PORTD :: "u8 \<Rightarrow> cat \<Rightarrow> cat" where
  "set_PORTD v c = c\<lparr>PORTD := v, nc_trace := nc_trace c @ [PortD v]\<rparr>"

definition delay_ms :: "nat \<Rightarrow> cat \<Rightarrow> cat" where
  "delay_ms n c = c\<lparr>nc_trace := nc_trace c @ [Delay_ms n]\<rparr>"

definition TX_LED_OFF :: "cat \<Rightarrow> cat" where "TX_LED_OFF c = set_PORTD (cbi (PORTD c) 5) c"
definition TX_LED_ON :: "cat \<Rightarrow> cat" where "TX_LED_ON c = set_PORTD (sbi (PORTD c) 5) c"
definition RX_LED_OFF :: "cat \<Rightarrow> cat" where "RX_LED_OFF c = c\<lparr>PORTB := cbi (PORTB c) 0\<rparr>"
definition RX_LED_ON :: "cat \<Rightarrow> cat" where "RX_LED_ON c = c\<lparr>PORTB := sbi (PORTB c) 0\<rparr>"

lemmas led_defs = L_LED_OFF_def L_LED_ON_def TX_LED_OFF_def TX_LED_ON_def RX_LED_OFF_def RX_LED_ON_def
  set_PORTD_def delay_ms_def

section \<open>Page programming\<close>

text \<open>Filling a page buffer with a list of bytes, low byte first, from the start of a page.\<close>

definition buf_of :: "u8 list \<Rightarrow> nat \<Rightarrow> u16 option" where
  "buf_of bs i = (if 2 * i + 1 < length bs then Some (of_le [bs ! (2 * i), bs ! (2 * i + 1)]) else None)"

lemma of_le_pair: "ucast (of_le [a, b] :: u16) = (a :: u8)" "ucast (drop_bit 8 (of_le [a, b] :: u16)) = (b :: u8)"
proof -
  have "le_bytes 2 (of_le [a, b] :: u16) = [a, b]"
    using le_bytes_of_le [of "[a, b]", where 'a = 16] by (simp add: numeral_2_eq_2)
  then show "ucast (of_le [a, b] :: u16) = a" "ucast (drop_bit 8 (of_le [a, b] :: u16)) = b"
    unfolding le_bytes_2 by simp_all
qed

lemma buf_byte_buf_of:
  assumes "even (length bs)" "k < length bs"
  shows "buf_byte (buf_of bs) k = bs ! k"
proof -
  have "2 * (k div 2) + 1 < length bs" using assms by presburger
  moreover have "even k \<Longrightarrow> 2 * (k div 2) = k" "odd k \<Longrightarrow> 2 * (k div 2) + 1 = k" by simp_all
  ultimately show ?thesis by (auto simp: buf_byte_def buf_of_def of_le_pair simp del: of_le.simps)
qed

lemma page_of_aligned: "a mod SPM_PAGESIZE = 0 \<Longrightarrow> page_of a = a"
  by (simp add: page_of_def)

end
