(* ===== verification/Caterina.thy ===== *)
theory Caterina
  imports Caterina_Memory
begin

text \<open>
  The boot loader proper: the endpoints and class requests it gives the USB stack, the AVR910
  programming protocol on the CDC data endpoints, the timer interrupt and the main program
  (\<^verbatim>\<open>caterina/Caterina.c\<close>). A function that waits for the host returns \<open>None\<close> if the host stays silent
  for ever. The part of \<^verbatim>\<open>CDC_Task\<close> for the command \<^verbatim>\<open>l\<close> is not compiled
  (\<^verbatim>\<open>NO_LOCK_BYTE_WRITE_SUPPORT\<close>).
\<close>

section \<open>USB callbacks\<close>

definition configure_ignoring :: "u8 \<Rightarrow> u8 \<Rightarrow> u8 \<Rightarrow> u16 \<Rightarrow> 'a usb_scheme \<Rightarrow> 'a usb_scheme option" where
  "configure_ignoring n ty dir sz u =
     map_option snd (Endpoint_ConfigureEndpoint n ty dir sz ENDPOINT_BANK_SINGLE u)"

definition EVENT_USB_Device_ConfigurationChanged :: "'a usb_scheme \<Rightarrow> 'a usb_scheme option" where
  "EVENT_USB_Device_ConfigurationChanged u = do {
     u \<leftarrow> configure_ignoring CDC_NOTIFICATION_EPNUM EP_TYPE_INTERRUPT ENDPOINT_DIR_IN CDC_NOTIFICATION_EPSIZE u;
     u \<leftarrow> configure_ignoring CDC_TX_EPNUM EP_TYPE_BULK ENDPOINT_DIR_IN CDC_TXRX_EPSIZE u;
     configure_ignoring CDC_RX_EPNUM EP_TYPE_BULK ENDPOINT_DIR_OUT CDC_TXRX_EPSIZE u
   }"

definition line_bytes :: "CDC_LineEncoding \<Rightarrow> u8 list" where
  "line_bytes l = le_bytes 4 (BaudRateBPS l) @ [CharFormat l, ParityType l, DataBits l]"

definition line_of :: "u8 list \<Rightarrow> CDC_LineEncoding" where
  "line_of bs = \<lparr>BaudRateBPS = of_le (take 4 bs), CharFormat = bs ! 4, ParityType = bs ! 5, DataBits = bs ! 6\<rparr>"

definition CDC_REQ_SetLineEncoding :: u8 where "CDC_REQ_SetLineEncoding = 0x20"
definition CDC_REQ_GetLineEncoding :: u8 where "CDC_REQ_GetLineEncoding = 0x21"

text \<open>A read that ends early has overwritten only the bytes that arrived.\<close>

definition EVENT_USB_Device_ControlRequest :: "cat \<Rightarrow> cat option" where
  "EVENT_USB_Device_ControlRequest c =
    (let ty = bmRequestType (USB_ControlRequest c); r = bRequest (USB_ControlRequest c)
     in if ty AND (0x60 OR 0x1F) \<noteq> 0x21 then Some c
        else if r = CDC_REQ_GetLineEncoding \<and> ty = 0xA1
        then map_option (\<lambda>(e, c). Endpoint_ClearOUT c)
               (Endpoint_Write_Control_Stream_LE (line_bytes (LineEncoding c)) (Endpoint_ClearSETUP c))
        else if r = CDC_REQ_SetLineEncoding \<and> ty = 0x21
        then map_option (\<lambda>(e, bs, c). Endpoint_ClearIN
                 (c\<lparr>LineEncoding := line_of (bs @ drop (length bs) (line_bytes (LineEncoding c)))\<rparr>))
               (Endpoint_Read_Control_Stream_LE 7 (Endpoint_ClearSETUP c))
        else Some c)"

definition caterina_app :: "unit cat_ext usb_app" where
  "caterina_app = \<lparr>on_ControlRequest = EVENT_USB_Device_ControlRequest,
     on_ConfigurationChanged = EVENT_USB_Device_ConfigurationChanged,
     get_descriptor = CALLBACK_USB_GetDescriptor\<rparr>"

section \<open>Command and response bytes\<close>

lemma wait_progress:
  "wait_or_unattached P u = Some (True, u') \<Longrightarrow> \<not> P u \<Longrightarrow> length (host u') < length (host u)"
proof (induction P u rule: wait_or_unattached.induct)
  case (1 P u)
  from 1(2,3) obtain v where v: "poll u = Some v" "wait_or_unattached P v = Some (True, u')"
      "USB_DeviceState u \<noteq> Unattached"
    by (auto simp: wait_or_unattached.simps [of P u] split: if_splits option.splits)
  show ?case
  proof (cases "P v")
    case True
    then have "u' = v" using v(2) by (simp add: wait_or_unattached.simps)
    with v(1) show ?thesis by simp
  next
    case False
    with 1(1) [OF 1(3) v(3) v(1) v(2)] v(1) show ?thesis using poll_shorter by (metis less_trans)
  qed
qed

lemma host_ClearOUT [usb_simps]: "host (Endpoint_ClearOUT u) = host u"
  by (simp add: Endpoint_ClearOUT_def usb_simps)

function Fetch_wait :: "cat \<Rightarrow> (bool \<times> cat) option" where
  "Fetch_wait c =
    (if Endpoint_IsReadWriteAllowed c then Some (True, c)
     else case wait_or_unattached Endpoint_IsOUTReceived (Endpoint_ClearOUT c) of
            None \<Rightarrow> None
          | Some r \<Rightarrow> if fst r then Fetch_wait (snd r) else Some r)"
  by pat_completeness auto
termination
proof (relation "measure (\<lambda>c. length (host c))", goal_cases)
  case 1 then show ?case by simp
next
  case (2 c r)
  then have "wait_or_unattached Endpoint_IsOUTReceived (Endpoint_ClearOUT c) = Some (True, snd r)"
    by (cases r) auto
  then have "length (host (snd r)) < length (host (Endpoint_ClearOUT c))"
    by (rule wait_progress) simp
  then show ?case by (simp add: usb_simps)
qed

declare Fetch_wait.simps [simp del]

definition FetchNextCommandByte :: "cat \<Rightarrow> (u8 \<times> cat) option" where
  "FetchNextCommandByte c =
     map_option (\<lambda>(ok, c). if ok then Endpoint_Read_8 c else (0, c))
       (Fetch_wait (Endpoint_SelectEndpoint CDC_RX_EPNUM c))"

definition TX_RX_LED_PULSE_PERIOD :: u16 where "TX_RX_LED_PULSE_PERIOD = 100"

definition WriteNextResponseByte :: "u8 \<Rightarrow> cat \<Rightarrow> cat option" where
  "WriteNextResponseByte Response c =
    (let c = Endpoint_SelectEndpoint CDC_TX_EPNUM c;
         waited = (if Endpoint_IsReadWriteAllowed c then Some (True, c)
                   else wait_or_unattached Endpoint_IsINReady (Endpoint_ClearIN c))
     in map_option (\<lambda>(ok, c). if ok
          then (TX_LED_ON (Endpoint_Write_8 Response c))\<lparr>TxLEDPulse := TX_RX_LED_PULSE_PERIOD\<rparr>
          else c) waited)"

fun WriteResponses :: "u8 list \<Rightarrow> cat \<Rightarrow> cat option" where
  "WriteResponses [] c = Some c"
| "WriteResponses (b # bs) c = Option.bind (WriteNextResponseByte b c) (WriteResponses bs)"

section \<open>Blocks\<close>

definition chr_of :: "char \<Rightarrow> u8" where "chr_of ch = of_nat (of_char ch)"

definition OCIE1A :: u8 where "OCIE1A = BV 1"

fun block_read_flash :: "nat \<Rightarrow> bool \<Rightarrow> cat \<Rightarrow> cat option" where
  "block_read_flash 0 HighByte c = Some c"
| "block_read_flash (Suc n) HighByte c = do {
     c \<leftarrow> WriteNextResponseByte (pgm_read_byte (CurrAddress c OR (if HighByte then 1 else 0)) c) c;
     let c = (if HighByte then c\<lparr>CurrAddress := CurrAddress c + 2\<rparr> else c);
     block_read_flash n (\<not> HighByte) c
   }"

fun block_read_eeprom :: "nat \<Rightarrow> cat \<Rightarrow> cat option" where
  "block_read_eeprom 0 c = Some c"
| "block_read_eeprom (Suc n) c = do {
     c \<leftarrow> WriteNextResponseByte (ee_read (eeprom_mem c) (ee_addr (CurrAddress c))) c;
     block_read_eeprom n (c\<lparr>CurrAddress := CurrAddress c + 2\<rparr>)
   }"

fun block_write_flash :: "nat \<Rightarrow> bool \<Rightarrow> u8 \<Rightarrow> cat \<Rightarrow> cat option" where
  "block_write_flash 0 HighByte LowByte c = Some c"
| "block_write_flash (Suc n) HighByte LowByte c = do {
     (b, c') \<leftarrow> FetchNextCommandByte c;
     if HighByte
     then let c' = boot_page_fill (CurrAddress c') (push_bit 8 (ucast b) OR ucast LowByte) c'
          in block_write_flash n (\<not> HighByte) LowByte (c'\<lparr>CurrAddress := CurrAddress c' + 2\<rparr>)
     else block_write_flash n (\<not> HighByte) b c'
   }"

fun block_write_eeprom :: "nat \<Rightarrow> cat \<Rightarrow> cat option" where
  "block_write_eeprom 0 c = Some c"
| "block_write_eeprom (Suc n) c = do {
     (b, c) \<leftarrow> FetchNextCommandByte c;
     let c = c\<lparr>eeprom_mem := ee_write (eeprom_mem c) (ee_addr (CurrAddress c)) b\<rparr>;
     block_write_eeprom n (c\<lparr>CurrAddress := CurrAddress c + 2\<rparr>)
   }"

definition memory_read :: "nat \<Rightarrow> u8 \<Rightarrow> cat \<Rightarrow> cat option" where
  "memory_read n MemoryType c =
    (let c = boot_rww_enable c
     in if MemoryType = chr_of CHR ''F'' then block_read_flash n False c else block_read_eeprom n c)"

definition memory_write :: "nat \<Rightarrow> u8 \<Rightarrow> cat \<Rightarrow> cat option" where
  "memory_write n MemoryType c =
    (let PageStartAddress = CurrAddress c
     in if MemoryType = chr_of CHR ''F''
        then do {
          c \<leftarrow> block_write_flash n False 0 (boot_page_erase PageStartAddress c);
          WriteNextResponseByte 13 (boot_page_write PageStartAddress c)
        }
        else do {
          c \<leftarrow> block_write_eeprom n c;
          WriteNextResponseByte 13 c
        })"

definition ReadWriteMemoryBlock :: "u8 \<Rightarrow> cat \<Rightarrow> cat option" where
  "ReadWriteMemoryBlock Command c = do {
     (hi, c) \<leftarrow> FetchNextCommandByte c;
     (lo, c) \<leftarrow> FetchNextCommandByte c;
     let BlockSize = (push_bit 8 (ucast hi) OR ucast lo :: u16);
     (MemoryType, c) \<leftarrow> FetchNextCommandByte c;
     if MemoryType \<noteq> chr_of CHR ''E'' \<and> MemoryType \<noteq> chr_of CHR ''F''
     then WriteNextResponseByte (chr_of CHR ''?'') c
     else do {
       let c = c\<lparr>TIMSK1 := 0\<rparr>;
       c \<leftarrow> (if Command = chr_of CHR ''g'' then memory_read (unat BlockSize) MemoryType c
             else memory_write (unat BlockSize) MemoryType c);
       Some (c\<lparr>TIMSK1 := OCIE1A\<rparr>)
     }
   }"

section \<open>Commands\<close>

definition TIMEOUT_PERIOD :: u16 where "TIMEOUT_PERIOD = 8000"
definition SOFTWARE_IDENTIFIER :: string where "SOFTWARE_IDENTIFIER = ''CATERINA''"
definition AVR_SIGNATURE_1 :: u8 where "AVR_SIGNATURE_1 = 0x1E"
definition AVR_SIGNATURE_2 :: u8 where "AVR_SIGNATURE_2 = 0x95"
definition AVR_SIGNATURE_3 :: u8 where "AVR_SIGNATURE_3 = 0x87"

text \<open>The shift \<^verbatim>\<open>FetchNextCommandByte() << 9\<close> is done in the 16-bit \<^verbatim>\<open>int\<close> of the compiler and its
  result is sign-extended to the 32 bits of \<^verbatim>\<open>CurrAddress\<close>.\<close>

definition set_address :: "u8 \<Rightarrow> u8 \<Rightarrow> u32" where
  "set_address hi lo = scast (push_bit 9 (ucast hi) :: u16) OR ucast (push_bit 1 (ucast lo) :: u16)"

fun erase_pages :: "nat \<Rightarrow> nat \<Rightarrow> cat \<Rightarrow> cat" where
  "erase_pages 0 a c = c"
| "erase_pages (Suc left) a c = erase_pages left (a + SPM_PAGESIZE)
     (boot_page_write (of_nat a) (boot_page_erase (of_nat a) c))"

definition erase_application :: "cat \<Rightarrow> cat" where
  "erase_application c = erase_pages (BOOT_START_ADDR div SPM_PAGESIZE) 0 c"

definition CDC_Command_session :: "u8 \<Rightarrow> cat \<Rightarrow> cat option" where
  "CDC_Command_session Command c =
    (if Command = chr_of CHR ''E''
     then WriteNextResponseByte 13 (boot_rww_enable (c\<lparr>Timeout := TIMEOUT_PERIOD - 500\<rparr>))
     else if Command = chr_of CHR ''T''
     then Option.bind (FetchNextCommandByte c) (\<lambda>(b, c). WriteNextResponseByte 13 c)
     else if Command = chr_of CHR ''L'' \<or> Command = chr_of CHR ''P'' then WriteNextResponseByte 13 c
     else if Command = chr_of CHR ''t'' then WriteResponses [0x44, 0x00] c
     else if Command = chr_of CHR ''a'' then WriteNextResponseByte (chr_of CHR ''Y'') c
     else if Command = chr_of CHR ''A''
     then do {
       (hi, c) \<leftarrow> FetchNextCommandByte c;
       (lo, c) \<leftarrow> FetchNextCommandByte c;
       WriteNextResponseByte 13 (c\<lparr>CurrAddress := set_address hi lo\<rparr>)
     }
     else if Command = chr_of CHR ''p'' then WriteNextResponseByte (chr_of CHR ''S'') c
     else if Command = chr_of CHR ''S'' then WriteResponses (map chr_of (take 7 SOFTWARE_IDENTIFIER)) c
     else if Command = chr_of CHR ''V''
     then WriteResponses [chr_of CHR ''0'' + 0x01, chr_of CHR ''0'' + 0x00] c
     else if Command = chr_of CHR ''s'' then WriteResponses [AVR_SIGNATURE_3, AVR_SIGNATURE_2, AVR_SIGNATURE_1] c
     else WriteNextResponseByte 13 (erase_application c))"

definition CDC_Command_memory :: "u8 \<Rightarrow> cat \<Rightarrow> cat option" where
  "CDC_Command_memory Command c =
    (if Command = chr_of CHR ''r'' then WriteNextResponseByte (lock_fuse_bits c 1) c
     else if Command = chr_of CHR ''F'' then WriteNextResponseByte (lock_fuse_bits c 0) c
     else if Command = chr_of CHR ''N'' then WriteNextResponseByte (lock_fuse_bits c 3) c
     else if Command = chr_of CHR ''Q'' then WriteNextResponseByte (lock_fuse_bits c 2) c
     else if Command = chr_of CHR ''b''
     then WriteResponses [chr_of CHR ''Y'', ucast (drop_bit 8 (of_nat SPM_PAGESIZE :: u16)),
            ucast (of_nat SPM_PAGESIZE AND 0xFF :: u16)] c
     else if Command = chr_of CHR ''B'' \<or> Command = chr_of CHR ''g''
     then ReadWriteMemoryBlock Command (c\<lparr>Timeout := 0\<rparr>)
     else if Command = chr_of CHR ''C''
     then Option.bind (FetchNextCommandByte c)
            (\<lambda>(b, c). WriteNextResponseByte 13 (boot_page_fill (CurrAddress c) (ucast b) c))
     else if Command = chr_of CHR ''c''
     then Option.bind (FetchNextCommandByte c)
            (\<lambda>(b, c). let c = boot_page_fill (CurrAddress c OR 1) (ucast b) c
               in WriteNextResponseByte 13 (c\<lparr>CurrAddress := CurrAddress c + 2\<rparr>))
     else if Command = chr_of CHR ''m''
     then WriteNextResponseByte 13 (boot_page_write (CurrAddress c) c)
     else if Command = chr_of CHR ''R''
     then let ProgramWord = pgm_read_word (CurrAddress c) c
          in WriteResponses [ucast (drop_bit 8 ProgramWord), ucast ProgramWord] c
     else if Command = chr_of CHR ''D''
     then Option.bind (FetchNextCommandByte c)
            (\<lambda>(b, c). let c = c\<lparr>eeprom_mem := ee_write (eeprom_mem c) (ee_addr (CurrAddress c)) b\<rparr>
               in WriteNextResponseByte 13 (c\<lparr>CurrAddress := CurrAddress c + 2\<rparr>))
     else if Command = chr_of CHR ''d''
     then map_option (\<lambda>c. c\<lparr>CurrAddress := CurrAddress c + 2\<rparr>)
            (WriteNextResponseByte (ee_read (eeprom_mem c) (ee_addr (CurrAddress c))) c)
     else if Command \<noteq> 27 then WriteNextResponseByte (chr_of CHR ''?'') c
     else Some c)"

definition session_commands :: "u8 set" where
  "session_commands = chr_of ` set ''ETLPtaApSVse''"

definition CDC_Command :: "u8 \<Rightarrow> cat \<Rightarrow> cat option" where
  "CDC_Command Command c = (if Command \<in> session_commands then CDC_Command_session Command c
     else CDC_Command_memory Command c)"

definition CDC_Finish :: "cat \<Rightarrow> cat option" where
  "CDC_Finish c = do {
     let c = Endpoint_SelectEndpoint CDC_TX_EPNUM c;
     let IsEndpointFull = (\<not> Endpoint_IsReadWriteAllowed c);
     let c = Endpoint_ClearIN c;
     (ok, c) \<leftarrow> (if IsEndpointFull then wait_or_unattached Endpoint_IsINReady c else Some (True, c));
     if \<not> ok then Some c
     else do {
       let c = (if IsEndpointFull then Endpoint_ClearIN c else c);
       (ok, c) \<leftarrow> wait_or_unattached Endpoint_IsINReady c;
       if \<not> ok then Some c
       else Some (Endpoint_ClearOUT (Endpoint_SelectEndpoint CDC_RX_EPNUM c))
     }
   }"

definition CDC_Task :: "cat \<Rightarrow> cat option" where
  "CDC_Task c =
    (let c = Endpoint_SelectEndpoint CDC_RX_EPNUM c
     in if \<not> Endpoint_IsOUTReceived c then Some c
        else do {
          let c = (RX_LED_ON c)\<lparr>RxLEDPulse := TX_RX_LED_PULSE_PERIOD\<rparr>;
          (Command, c) \<leftarrow> FetchNextCommandByte c;
          c \<leftarrow> CDC_Command Command c;
          CDC_Finish c
        })"

section \<open>Timer interrupt and lights\<close>

definition tx_pulse :: "cat \<Rightarrow> cat" where
  "tx_pulse c =
    (if TxLEDPulse c \<noteq> 0
     then let c = c\<lparr>TxLEDPulse := TxLEDPulse c - 1\<rparr> in if TxLEDPulse c = 0 then TX_LED_OFF c else c
     else c)"

definition rx_pulse :: "cat \<Rightarrow> cat" where
  "rx_pulse c =
    (if RxLEDPulse c \<noteq> 0
     then let c = c\<lparr>RxLEDPulse := RxLEDPulse c - 1\<rparr> in if RxLEDPulse c = 0 then RX_LED_OFF c else c
     else c)"

definition TIMER1_COMPA_vect :: "cat \<Rightarrow> cat" where
  "TIMER1_COMPA_vect c =
    (let c = rx_pulse (tx_pulse (c\<lparr>TCNT1 := 0\<rparr>))
     in if pgm_read_word 0 c \<noteq> 0xFFFF then c\<lparr>Timeout := Timeout c + 1\<rparr> else c)"

definition LEDPulse :: "cat \<Rightarrow> cat" where
  "LEDPulse c =
    (let c = c\<lparr>LLEDPulse := LLEDPulse c + 1\<rparr>;
         p = (ucast (drop_bit 8 (LLEDPulse c)) :: u8);
         p = (if 127 < p then 254 - p else p);
         p = p + p
     in if p < ucast (LLEDPulse c) then L_LED_OFF c else L_LED_ON c)"

section \<open>Main program\<close>

definition NC_LATCH_OFF :: "cat \<Rightarrow> cat" where "NC_LATCH_OFF c = set_PORTD (cbi (PORTD c) 2) c"
definition NC_LATCH_ON :: "cat \<Rightarrow> cat" where "NC_LATCH_ON c = set_PORTD (sbi (PORTD c) 2) c"
definition NC_POW_ON :: "cat \<Rightarrow> cat" where "NC_POW_ON c = set_PORTD (sbi (PORTD c) 4) c"
definition NC_eMMC :: "cat \<Rightarrow> cat" where "NC_eMMC c = set_PORTD (sbi (PORTD c) 3) c"
definition NC_uSD :: "cat \<Rightarrow> cat" where "NC_uSD c = set_PORTD (cbi (PORTD c) 3) c"

definition NC_BOOT_PINS_SETUP :: "cat \<Rightarrow> cat" where
  "NC_BOOT_PINS_SETUP c = c\<lparr>DDRD := sbi (sbi (sbi (DDRD c) 3) 4) 2\<rparr>"

definition TURN_ON_NC :: "cat \<Rightarrow> cat" where
  "TURN_ON_NC c =
    (let c = NC_POW_ON (NC_LATCH_OFF c);
         c = delay_ms 6 c;
         c = NC_LATCH_ON c;
         c = delay_ms 6 c
     in NC_LATCH_OFF c)"

definition wdt_disable :: "cat \<Rightarrow> cat" where "wdt_disable c = c\<lparr>WDE := False\<rparr>"

definition SetupHardware :: "cat \<Rightarrow> cat option" where
  "SetupHardware c =
    (let c = wdt_disable (c\<lparr>MCUSR := cbi (MCUSR c) 3\<rparr>);
         c = c\<lparr>CLKPR := 0\<rparr>;
         c = c\<lparr>MCUCR_r := BV 0\<rparr>;
         c = c\<lparr>MCUCR_r := BV 1\<rparr>;
         c = c\<lparr>DDRC := sbi (DDRC c) 7, DDRB := sbi (DDRB c) 0, DDRD := sbi (DDRD c) 5\<rparr>;
         c = c\<lparr>CLKPR := 0\<rparr>;
         c = RX_LED_OFF (TX_LED_OFF (L_LED_OFF c));
         c = c\<lparr>OCR1A := 250, TIMSK1 := OCIE1A, TCCR1B := BV 1 OR BV 0\<rparr>
     in USB_Init c)"

definition start_nc :: "u8 \<Rightarrow> cat \<Rightarrow> cat" where
  "start_nc boot_setting_nc c =
    (if boot_setting_nc = 0x01 then TURN_ON_NC (delay_ms 100 (NC_uSD (NC_BOOT_PINS_SETUP c)))
     else if boot_setting_nc = 0x02 then TURN_ON_NC (delay_ms 100 (NC_eMMC (NC_BOOT_PINS_SETUP c)))
     else c)"

definition main_init :: "cat \<Rightarrow> cat option" where
  "main_init c = do {
     let c = c\<lparr>DDRD := 0xFF\<rparr>;
     let c = c\<lparr>bootKey_mem := 0\<rparr>;
     let mcusr_state = MCUSR c;
     let c = wdt_disable (c\<lparr>MCUSR := 0\<rparr>);
     let c = c\<lparr>eeprom_mem := ee_write (eeprom_mem c) 0x41 mcusr_state\<rparr>;
     c \<leftarrow> SetupHardware c;
     let c = start_nc (ee_read (eeprom_mem c) 0x40) c;
     let c = delay_ms 4000 c;
     let c = serve (c\<lparr>I_bit := True\<rparr>);
     Some (c\<lparr>Timeout := 0\<rparr>)
   }"

definition main_iteration :: "cat \<Rightarrow> cat option" where
  "main_iteration c = do {
     let c = set_PORTD 0x10 (NC_eMMC c);
     c \<leftarrow> CDC_Task c;
     c \<leftarrow> USB_USBTask caterina_app c;
     let c = (if TIMEOUT_PERIOD < Timeout c then c\<lparr>RunBootloader := False\<rparr> else c);
     Some (LEDPulse c)
   }"

definition StartSketch :: "cat \<Rightarrow> cat" where
  "StartSketch c =
    (let c = c\<lparr>I_bit := False\<rparr>;
         c = set_PORTD 0x00 c;
         c = c\<lparr>TIMSK1 := 0, TCCR1B := 0, TCNT1 := 0\<rparr>;
         c = c\<lparr>MCUCR_r := BV 0\<rparr>;
         c = c\<lparr>MCUCR_r := 0\<rparr>;
         c = RX_LED_OFF (TX_LED_OFF (L_LED_OFF c))
     in c\<lparr>sketch_started := True\<rparr>)"

definition main_exit :: "cat \<Rightarrow> cat" where
  "main_exit c = StartSketch (USB_Detach c)"

end
