(* ===== verification/Caterina_Usb.thy ===== *)
theory Caterina_Usb
  imports Caterina
begin

text \<open>
  The boot loader as an application of the USB stack: what the waits of the stack leave alone, the
  contract \<open>usb_application\<close> for the boot loader's callbacks, and the properties of its control
  endpoint: enumeration, refused requests, the address, the endpoints it announces and configures.
\<close>

section \<open>The USB stack leaves the rest of the state alone\<close>

lemma more_usb [usb_simps]:
  "usb.more (gen_vbus u) = usb.more u" "usb.more (gen_suspend u) = usb.more u"
  "usb.more (gen_wakeup u) = usb.more u" "usb.more (gen_reset u) = usb.more u"
  by (simp_all add: gen_vbus_def gen_suspend_def gen_wakeup_def gen_reset_def Let_def USB_PLL_On_def
      USB_PLL_Off_def USB_CLK_Freeze_def USB_CLK_Unfreeze_def configure_control usb_simps)

lemma more_bus_step [usb_simps]: "usb.more (bus_step ev u) = usb.more u"
proof -
  have "usb.more (hw_event ev u) = usb.more u"
    by (cases ev) (simp_all add: usb_simps split: option.splits)
  then show ?thesis by (simp add: bus_step_def serve_def USB_GEN_vect_def usb_simps)
qed

lemma more_poll: "poll u = Some v \<Longrightarrow> usb.more v = usb.more u"
  by (erule poll_SomeE) (metis more_bus_step usb.select_convs(22) usb.surjective usb.update_convs(20))

lemma more_wait: "wait_or_unattached P u = Some (ok, v) \<Longrightarrow> usb.more v = usb.more u"
proof (induction P u arbitrary: ok rule: wait_or_unattached.induct)
  case (1 P u)
  then show ?case
    by (auto simp: wait_or_unattached.simps [of P u] more_poll split: if_splits option.splits)
qed

text \<open>The streams of the control endpoint change neither that nor the request being processed.\<close>

definition kept :: "'a usb_scheme \<Rightarrow> 'a \<times> USB_Request_Header" where
  "kept u = (usb.more u, USB_ControlRequest u)"

lemma kept_on_sel [simp]: "kept (on_sel f u) = kept u"
  by (simp add: kept_def usb_simps)

lemma kept_ep_ops [simp]:
  "kept (Endpoint_ClearIN u) = kept u" "kept (Endpoint_ClearOUT u) = kept u"
  "kept (Endpoint_ClearSETUP u) = kept u" "kept (Endpoint_Write_8 b u) = kept u"
  "kept (snd (Endpoint_Read_8 u)) = kept u"
  by (simp_all add: Endpoint_ClearIN_def Endpoint_ClearOUT_def Endpoint_ClearSETUP_def Endpoint_Write_8_def
      Endpoint_Read_8_def split: list.split)

lemma kept_poll: "poll u = Some v \<Longrightarrow> kept v = kept u"
proof -
  have "USB_ControlRequest (bus_step ev w) = USB_ControlRequest w" for ev and w :: "'a usb_scheme"
  proof -
    have "USB_ControlRequest (hw_event ev w) = USB_ControlRequest w"
      by (cases ev) (simp_all add: usb_simps split: option.splits)
    moreover have "USB_ControlRequest (USB_GEN_vect x) = USB_ControlRequest x" for x :: "'a usb_scheme"
      by (simp add: USB_GEN_vect_def gen_vbus_def gen_suspend_def gen_wakeup_def gen_reset_def Let_def
          USB_PLL_On_def USB_PLL_Off_def USB_CLK_Freeze_def USB_CLK_Unfreeze_def configure_control usb_simps)
    ultimately show ?thesis by (simp add: bus_step_def serve_def)
  qed
  then show "poll u = Some v \<Longrightarrow> kept v = kept u"
    using more_poll [of u v] by (auto simp: kept_def poll_def split: list.splits)
qed

lemma kept_status_wait: "control_status_wait P u = Some (e, v) \<Longrightarrow> kept v = kept u"
proof (induction P u arbitrary: e rule: control_status_wait.induct)
  case (1 P u)
  then show ?case
    by (auto simp: control_status_wait.simps [of P u] kept_poll split: if_splits option.splits)
qed

lemma kept_control_fill [simp]: "kept (snd (snd (control_fill bs n u))) = kept u"
  by (induction bs n u rule: control_fill.induct) simp_all

lemma kept_control_drain [simp]: "kept (snd (snd (control_drain k n acc u))) = kept u"
  by (induction k arbitrary: n acc u) (simp_all add: Let_def split_beta)

lemma kept_write_loop: "control_write_loop ds l u = Some (e, v) \<Longrightarrow> kept v = kept u"
proof (induction ds l u arbitrary: e rule: control_write_loop.induct)
  case (1 ds l u)
  then show ?case
    by (auto simp: control_write_loop.simps [of ds l u] Let_def kept_poll split: if_splits option.splits)
qed

lemma kept_read_loop: "control_read_loop n acc u = Some (e, bs, v) \<Longrightarrow> kept v = kept u"
proof (induction n acc u arbitrary: e rule: control_read_loop.induct)
  case (1 n acc u)
  then show ?case
    by (auto simp: control_read_loop.simps [of n acc u] Let_def kept_poll split: if_splits option.splits)
qed

lemma kept_Write_Control_Stream:
  assumes "Endpoint_Write_Control_Stream_LE bs u = Some (e, v)"
  shows "kept v = kept u"
proof -
  define w where "w = (if unat (wLength (USB_ControlRequest u)) < length bs \<or> bs \<noteq> [] then u
    else Endpoint_ClearIN u)"
  obtain ds e' x where x: "control_write_loop ds False w = Some (e', x)"
      "(case e' of Some e \<Rightarrow> Some (e, x) | None \<Rightarrow> control_status_wait Endpoint_IsOUTReceived x) = Some (e, v)"
    using assms unfolding Endpoint_Write_Control_Stream_LE_def Let_def w_def
    by (auto simp: Option.bind_eq_Some_conv)
  have "kept w = kept u" by (simp add: w_def)
  moreover have "kept v = kept x" using x(2) by (auto split: option.splits dest: kept_status_wait)
  ultimately show ?thesis using kept_write_loop [OF x(1)] by simp
qed

lemma kept_Read_Control_Stream:
  assumes "Endpoint_Read_Control_Stream_LE n u = Some (e, bs, v)"
  shows "kept v = kept u"
proof -
  define w where "w = (if n = 0 then Endpoint_ClearOUT u else u)"
  obtain e' acc x where x: "control_read_loop (unat n) [] w = Some (e', acc, x)"
      "(case e' of Some e \<Rightarrow> Some (e, acc, x)
        | None \<Rightarrow> map_option (\<lambda>(e, u). (e, acc, u)) (control_status_wait Endpoint_IsINReady x)) = Some (e, bs, v)"
    using assms unfolding Endpoint_Read_Control_Stream_LE_def Let_def w_def
    by (auto simp: Option.bind_eq_Some_conv)
  have "kept w = kept u" by (simp add: w_def)
  moreover have "kept v = kept x" using x(2) by (auto split: option.splits dest: kept_status_wait)
  ultimately show ?thesis using kept_read_loop [OF x(1)] by simp
qed

lemma cat_more_eqD:
  fixes c d :: cat
  assumes "usb.more c = usb.more d"
  shows "LineEncoding c = LineEncoding d" "CurrAddress c = CurrAddress d" "flash c = flash d"
    "page_buf c = page_buf d" "RWWSB c = RWWSB d" "eeprom_mem c = eeprom_mem d" "TIMSK1 c = TIMSK1 d"
    "Timeout c = Timeout d" "RunBootloader c = RunBootloader d" "lock_fuse_bits c = lock_fuse_bits d"
    "sketch_started c = sketch_started d"
  using assms by (cases c; cases d; simp)+

section \<open>The boot loader keeps the contract\<close>

lemma class_not_standard:
  assumes "ty AND 0x60 = (0 :: u8)"
  shows "ty AND (0x60 OR 0x1F) \<noteq> 0x21"
proof
  assume "ty AND (0x60 OR 0x1F) = 0x21"
  then have "(ty AND (0x60 OR 0x1F)) AND 0x60 = 0x20" by simp
  moreover have "(ty AND (0x60 OR 0x1F)) AND 0x60 = ty AND 0x60" by (simp add: and.assoc)
  ultimately show False using assms by simp
qed

lemma leaving_LineEncoding [simp]: "leaving (c\<lparr>LineEncoding := l\<rparr>) = leaving (c :: cat)"
  by (simp add: leaving_def calm_def)

lemma ControlRequest_ends:
  assumes "leaving c"
  shows "\<exists>c'. EVENT_USB_Device_ControlRequest c = Some c' \<and> leaving c'"
proof -
  have l: "leaving (Endpoint_ClearSETUP c)" using assms by simp
  obtain e v where "Endpoint_Write_Control_Stream_LE (line_bytes (LineEncoding c)) (Endpoint_ClearSETUP c) = Some (e, v)"
      "leaving v" using l by (rule Write_Control_Stream_leaving)
  moreover obtain e' bs w where "Endpoint_Read_Control_Stream_LE 7 (Endpoint_ClearSETUP c) = Some (e', bs, w)"
      "leaving w" using l by (rule Read_Control_Stream_leaving)
  ultimately show ?thesis using assms by (simp add: EVENT_USB_Device_ControlRequest_def Let_def)
qed

lemma ControlRequest_request:
  assumes "EVENT_USB_Device_ControlRequest c = Some c'"
  shows "bRequest (USB_ControlRequest c') = bRequest (USB_ControlRequest c)"
proof -
  have r: "USB_ControlRequest v = USB_ControlRequest w" if "kept v = kept w" for v w :: cat
    using that by (simp add: kept_def)
  from assms have "USB_ControlRequest c' = USB_ControlRequest c"
    unfolding EVENT_USB_Device_ControlRequest_def Let_def
    by (auto split: if_splits dest!: kept_Write_Control_Stream kept_Read_Control_Stream
        simp: Endpoint_ClearIN_def Endpoint_ClearOUT_def usb_simps dest: r)
  then show ?thesis by simp
qed

lemma configure_cdc:
  assumes "n \<in> {2, 3, 4}" "sz = 8 \<or> sz = 16"
  shows "configure_ignoring n ty dir sz u = Some (on_ep (unat n)
    (configured_ep (push_bit 6 ty OR (if dir \<noteq> 0 then BV 0 else 0)) (if sz = 8 then 2 else 0x12)) (u\<lparr>UENUM := n\<rparr>))"
proof -
  have n: "n < 7" using assms(1) by auto
  have "Endpoint_BytesToEPSizeMask sz = Some (if sz = 8 then 0 else 0x10)" using assms(2) by auto
  moreover have "BV 1 OR ENDPOINT_BANK_SINGLE OR (if sz = 8 then 0 else 0x10) = (if sz = 8 then 2 else 0x12 :: u8)"
    by (simp add: BV_def ENDPOINT_BANK_SINGLE_def)
  moreover have "bit (if sz = 8 then 2 else 0x12 :: u8) 1" by (simp add: bit_simps)
  ultimately show ?thesis
    by (simp add: configure_ignoring_def Endpoint_ConfigureEndpoint_def configure_Prv [OF n])
qed

lemma ConfigurationChanged_value:
  "EVENT_USB_Device_ConfigurationChanged u = Some
    (on_ep 4 (configured_ep 0x80 0x12) (on_ep 3 (configured_ep 0x81 0x12)
      (on_ep 2 (configured_ep 0xC1 2) (u\<lparr>UENUM := 4\<rparr>))))"
  by (simp add: EVENT_USB_Device_ConfigurationChanged_def configure_cdc config_values)
    (simp add: BV_def on_ep_def)

interpretation cat: usb_application caterina_app
proof (unfold_locales, goal_cases)
  case (1 u)
  then show ?case using class_not_standard
    by (simp add: caterina_app_def EVENT_USB_Device_ControlRequest_def Let_def)
next
  case (2 u)
  then show ?case using ControlRequest_ends by (simp add: caterina_app_def)
next
  case (3 u)
  show ?case by (simp add: caterina_app_def ConfigurationChanged_value)
qed

section \<open>Enumeration\<close>

text \<open>The boot loader after a power-on reset, and attached to a host that has reset the bus.\<close>

definition cat_reset :: "host_ev list \<Rightarrow> cat" where
  "cat_reset h = usb.extend (usb_reset h)
     \<lparr>LineEncoding = \<lparr>BaudRateBPS = 0, CharFormat = 0, ParityType = 0, DataBits = 8\<rparr>, CurrAddress = 0,
      RunBootloader = True, TxLEDPulse = 0, RxLEDPulse = 0, Timeout = 0, LLEDPulse = 0, bootKey_mem = 0,
      flash = (\<lambda>_. 0xFF), page_buf = (\<lambda>_. None), RWWSB = False, eeprom_mem = (\<lambda>_. 0xFF),
      lock_fuse_bits = (\<lambda>_. 0xFF), PORTB = 0, PORTC = 0, PORTD = 0, DDRB = 0, DDRC = 0, DDRD = 0,
      TIMSK1 = 0, TCCR1B = 0, TCNT1 = 0, OCR1A = 0, MCUCR_r = 0, MCUSR = 1, CLKPR = 0, WDE = False,
      nc_trace = [], sketch_started = False\<rparr>"

definition cat_attached :: "host_ev list \<Rightarrow> cat" where
  "cat_attached h = on_ep 0 control_ep
     ((cat_reset h)\<lparr>USB_DeviceState := Default, I_bit := True, USBCON := 0x91, UDIEN := 0x19\<rparr>)"

lemma cat_attached_pending:
  "length bs = 8 \<Longrightarrow> setup_pending bs (bus_step (SetupPkt bs) (cat_attached h))"
  by (rule setup_packet_pending)
    (simp_all add: cat_attached_def cat_reset_def usb_reset_def usb.defs usb_simps control_ep_def calm_def
      cur_def on_ep_def)

lemma bus_step_setup_fields:
  assumes "calm u"
  shows "in_log (bus_step (SetupPkt bs) u) = in_log u"
proof -
  let ?v = "hw_event (SetupPkt bs) u"
  have "calm ?v" using assms by (simp add: calm_def usb_simps)
  then show ?thesis by (simp add: bus_step_def serve_idle usb_simps)
qed

lemma ctl_fields:
  "in_log (ctl u h log s) 0 = log" "host (ctl u h log s) = h" "usb.more (ctl u h log s) = usb.more u"
  "USB_DeviceState (ctl u h log s) = USB_DeviceState u" "sent (eps (ctl u h log s) 0) = s"
  "STALLRQ (eps (ctl u h log s) 0) = STALLRQ (eps u 0)" "RXSTPI (eps (ctl u h log s) 0) = RXSTPI (eps u 0)"
  by (simp_all add: ctl_def)

lemma header_read_more:
  "usb.more (Endpoint_ClearSETUP (header_read bs u)) = usb.more u"
  "USB_DeviceState (Endpoint_ClearSETUP (header_read bs u)) = USB_DeviceState u"
  by (simp_all add: header_read_def Endpoint_ClearSETUP_def usb_simps on_sel_def on_ep_def)

lemma take_packets: "k = length (packets ds) \<or> last (packets ds) = [] \<and> k = length (packets ds) - 1 \<Longrightarrow>
    concat (take k (packets ds)) = ds \<and> list_all (\<lambda>p. length p \<le> 8) (take k (packets ds))"
proof -
  assume k: "k = length (packets ds) \<or> last (packets ds) = [] \<and> k = length (packets ds) - 1"
  obtain ps l where "packets ds = ps @ [l]" "\<forall>p\<in>set ps. length p = 8" "length l < 8"
    using packets_shape [of ds] by (metis append_butlast_last_id)
  then have "list_all (\<lambda>p. length p \<le> 8) (packets ds)" by (auto simp: list_all_iff)
  then have "list_all (\<lambda>p. length p \<le> 8) (take k (packets ds))"
    by (auto simp: list_all_iff dest: in_set_takeD)
  moreover have "concat (take k (packets ds)) = ds"
    using k last_packet_empty_concat [of ds] concat_packets [of ds] by (auto simp: butlast_conv_take)
  ultimately show ?thesis by simp
qed

text \<open>
  C33. Descriptors reach the host. Whenever a request for a descriptor the boot loader has is pending,
  and the host collects the packets and then acknowledges (it may leave out the empty packet that ends
  a transfer of whole packets), \<^verbatim>\<open>USB_Device_ProcessControlRequest\<close> returns, and the host has received
  exactly the descriptor, cut to the length it asked for, in packets of at most eight bytes. The
  control endpoint is neither stalled nor busy with the SETUP packet, the device state and everything
  outside the USB stack are as before, and the rest of what the host does is still to come.
\<close>

theorem get_descriptor_delivers:
  fixes c :: cat
  assumes "setup_pending bs c" "bs ! 0 = IN_DEVICE \<or> bs ! 0 = IN_INTERFACE" "bs ! 1 = REQ_GetDescriptor"
    and "CALLBACK_USB_GetDescriptor (wValue (request_of bs)) (ucast (wIndex (request_of bs))) = Some d"
    and ds: "ds = take (unat (wLength (request_of bs))) d" "ds \<noteq> []"
    and k: "k = length (packets ds) \<or> last (packets ds) = [] \<and> k = length (packets ds) - 1"
    and h: "host c = replicate k (InTok 0) @ OutPkt 0 [] # h"
  shows "\<exists>c'. USB_Device_ProcessControlRequest caterina_app c = Some c' \<and>
    in_log c' 0 = in_log c 0 @ take k (packets ds) \<and> concat (take k (packets ds)) = ds \<and>
    list_all (\<lambda>p. length p \<le> 8) (take k (packets ds)) \<and> \<not> RXSTPI (eps c' 0) \<and> \<not> STALLRQ (eps c' 0) \<and>
    USB_DeviceState c' = USB_DeviceState c \<and> usb.more c' = usb.more c \<and> host c' = h"
proof -
  let ?v = "Endpoint_ClearSETUP (header_read bs c)"
  have ready: "control_ready ?v" by (rule header_read_ready [OF assms(1)])
  have g: "get_descriptor caterina_app (wValue (request_of bs)) (ucast (wIndex (request_of bs))) = Some d"
    using assms(4) by (simp add: caterina_app_def)
  have ds': "ds = take (unat (wLength (USB_ControlRequest ?v))) d" using ds(1) by (simp add: usb_simps)
  have "\<exists>s. Endpoint_Write_Control_Stream_LE d ?v =
      Some (NoError, ctl_status ?v h (in_log c 0 @ take k (packets ds)) s)"
    using k
  proof
    assume "k = length (packets ds)"
    then show ?thesis using Write_Control_Stream_full [OF ready ds' ds(2), of h] h by (auto simp: usb_simps)
  next
    assume "last (packets ds) = [] \<and> k = length (packets ds) - 1"
    then show ?thesis using Write_Control_Stream_exact [OF ready ds' ds(2) _, of h] h
      by (auto simp: usb_simps butlast_conv_take)
  qed
  then obtain s where "USB_Device_ProcessControlRequest caterina_app c =
      Some (ctl ?v h (in_log c 0 @ take k (packets ds)) s)"
    using cat.process_descriptor [OF assms(1-3) g] by blast
  then show ?thesis
    using take_packets [OF k] ready by (simp add: ctl_fields header_read_more control_ready_def)
qed

theorem get_descriptor_delivers_witness:
  "\<exists>c'. USB_Device_ProcessControlRequest caterina_app (bus_step (SetupPkt [0x80, 6, 0, 1, 0, 0, 18, 0])
      (cat_attached [InTok 0, InTok 0, InTok 0, OutPkt 0 [], Sof])) = Some c' \<and>
    in_log c' 0 = [[18, 1, 0x10, 0x01, 2, 0, 0, 8], [0x41, 0x23, 0x37, 0, 1, 0, 2, 1], [0, 1]] \<and>
    host c' = [Sof]"
proof -
  let ?bs = "[0x80, 6, 0, 1, 0, 0, 18, 0] :: u8 list"
  let ?u = "cat_attached [InTok 0, InTok 0, InTok 0, OutPkt 0 [], Sof]"
  let ?c = "bus_step (SetupPkt ?bs) ?u"
  let ?d = "device_bytes DeviceDescriptor"
  have p: "packets ?d = [[18, 1, 0x10, 0x01, 2, 0, 0, 8], [0x41, 0x23, 0x37, 0, 1, 0, 2, 1], [0, 1]]"
    by (simp add: device_bytes_value packets.simps)
  have q: "wValue (request_of ?bs) = 0x100" "wLength (request_of ?bs) = 18"
    by (simp_all add: request_of_def)
  have l: "in_log ?c 0 = []" "host ?c = replicate 3 (InTok 0) @ OutPkt 0 [] # [Sof]"
    by (simp_all add: bus_step_setup_fields usb_simps)
      (simp_all add: cat_attached_def cat_reset_def usb_reset_def usb.defs usb_simps calm_def
        numeral_3_eq_3 bus_step_setup_fields)
  have g: "CALLBACK_USB_GetDescriptor (wValue (request_of ?bs)) (ucast (wIndex (request_of ?bs))) = Some ?d"
    by (simp add: q CALLBACK_USB_GetDescriptor_def DTYPE_Device_def)
  have t: "?d = take (unat (wLength (request_of ?bs))) ?d" "?d \<noteq> []" "3 = length (packets ?d)"
    unfolding p by (simp_all add: q device_bytes_value)
  have "setup_pending ?bs ?c" by (rule cat_attached_pending) simp
  from get_descriptor_delivers [OF this _ _ g t(1,2) disjI1 [OF t(3)] l(2)]
  show ?thesis unfolding p l(1) by (simp add: req_types req_codes) blast
qed

section \<open>Refused requests\<close>

text \<open>The requests the device answers, by the bytes of their header.\<close>

definition answered :: "u8 list \<Rightarrow> bool" where
  "answered bs =
    (let t = bs ! 0; r = bs ! 1; v = (ucast (wValue (request_of bs)) :: u8);
         ep = (ucast (wIndex (request_of bs)) AND 7 :: u8)
     in t = 0x21 \<and> r = CDC_REQ_SetLineEncoding \<or> t = 0xA1 \<and> r = CDC_REQ_GetLineEncoding \<or>
        t = IN_ENDPOINT \<and> r = REQ_GetStatus \<or>
        t = OUT_ENDPOINT \<and> (r = REQ_ClearFeature \<or> r = REQ_SetFeature) \<and> \<not> (v = 0 \<and> ep = 0) \<or>
        t = OUT_DEVICE \<and> r = REQ_SetAddress \<or>
        (t = IN_DEVICE \<or> t = IN_INTERFACE) \<and> r = REQ_GetDescriptor \<and>
          CALLBACK_USB_GetDescriptor (wValue (request_of bs)) (ucast (wIndex (request_of bs))) \<noteq> None \<or>
        t = IN_DEVICE \<and> r = REQ_GetConfiguration \<or>
        t = OUT_DEVICE \<and> r = REQ_SetConfiguration \<and> v \<le> FIXED_NUM_CONFIGURATIONS)"

lemma if_same: "(c \<Longrightarrow> x = z) \<Longrightarrow> (\<not> c \<Longrightarrow> y = z) \<Longrightarrow> (if c then x else y) = z"
  by simp

lemma request_of_bytes: "bmRequestType (request_of bs) = bs ! 0" "bRequest (request_of bs) = bs ! 1"
  by (simp_all add: request_of_def)

lemma control_not_answered:
  assumes "\<not> answered bs"
  shows "EVENT_USB_Device_ControlRequest (header_read bs c) = Some (header_read bs c)"
  unfolding EVENT_USB_Device_ControlRequest_def Let_def usb_simps request_of_bytes
  by (intro if_same refl) (use assms in \<open>auto simp: answered_def Let_def\<close>)

lemma standard_not_answered:
  assumes "\<not> answered bs"
  shows "standard_request caterina_app (header_read bs c) = Some (header_read bs c)"
proof -
  let ?u = "header_read bs c"
  have gs: "bs ! 1 = REQ_GetStatus \<Longrightarrow> USB_Device_GetStatus ?u = Some ?u"
    using assms by (auto simp: USB_Device_GetStatus_def answered_def usb_simps request_of_bytes Let_def)
  have cf: "USB_Device_ClearSetFeature ?u = Some ?u"
    if "bs ! 1 = REQ_ClearFeature \<or> bs ! 1 = REQ_SetFeature" "bs ! 0 = OUT_DEVICE \<or> bs ! 0 = OUT_ENDPOINT"
    using that(2)
  proof
    assume "bs ! 0 = OUT_DEVICE"
    then show ?thesis by (simp add: USB_Device_ClearSetFeature_def usb_simps request_of_bytes OUT_DEVICE_def)
  next
    assume o: "bs ! 0 = OUT_ENDPOINT"
    have "(ucast (wValue (request_of bs)) :: u8) = 0 \<and> (ucast (wIndex (request_of bs)) AND 7 :: u8) = 0"
      using assms that(1) o unfolding answered_def Let_def by blast
    then show ?thesis by (simp add: USB_Device_ClearSetFeature_def usb_simps ENDPOINT_CONTROLEP_def Let_def)
  qed
  have gd: "bs ! 1 = REQ_GetDescriptor \<Longrightarrow> bs ! 0 = IN_DEVICE \<or> bs ! 0 = IN_INTERFACE \<Longrightarrow>
      USB_Device_GetDescriptor caterina_app ?u = Some ?u"
    using assms by (auto simp: USB_Device_GetDescriptor_def answered_def usb_simps caterina_app_def Let_def)
  have sc: "bs ! 1 = REQ_SetConfiguration \<Longrightarrow> bs ! 0 = OUT_DEVICE \<Longrightarrow>
      USB_Device_SetConfiguration caterina_app ?u = Some ?u"
    using assms by (auto simp: USB_Device_SetConfiguration_def answered_def usb_simps Let_def)
  have sa: "bs ! 1 = REQ_SetAddress \<Longrightarrow> bs ! 0 = OUT_DEVICE \<Longrightarrow> USB_Device_SetAddress ?u = Some ?u"
    and gc: "bs ! 1 = REQ_GetConfiguration \<Longrightarrow> bs ! 0 = IN_DEVICE \<Longrightarrow> USB_Device_GetConfiguration ?u = Some ?u"
    using assms by (simp_all add: answered_def Let_def)
  show ?thesis
    unfolding standard_request_def Let_def usb_simps request_of_bytes
    by (intro if_same refl gs cf gd sc sa gc; assumption)
qed

text \<open>
  Requests the device does not support. Every SETUP packet outside the set of requests that the
  boot loader answers (among them the status request for the whole device, vendor requests, the
  control-line request of the CDC class and every configuration but 0 and 1) is refused: the control
  endpoint is stalled, the packet is acknowledged, the request is remembered, and nothing else in the
  state of the boot loader changes.
\<close>

theorem unsupported_request_stalls:
  fixes c :: cat
  assumes "setup_pending bs c" "\<not> answered bs"
  shows "USB_Device_ProcessControlRequest caterina_app c =
    Some (on_ep 0 (\<lambda>e. e\<lparr>STALLRQ := True, RXSTPI := False, fifo := []\<rparr>)
      (c\<lparr>USB_ControlRequest := request_of bs\<rparr>))"
proof -
  have "on_ControlRequest caterina_app (header_read bs c) = Some (header_read bs c)"
    using control_not_answered [OF assms(2)] by (simp add: caterina_app_def)
  then show ?thesis
    using Process_refused [OF assms(1) _ standard_not_answered [OF assms(2)]] by (simp add: refused_def)
qed

theorem unsupported_request_stalls_witness:
  "\<exists>c'. USB_Device_ProcessControlRequest caterina_app
      (bus_step (SetupPkt [0x80, 0, 0, 0, 0, 0, 2, 0]) (cat_attached [])) = Some c' \<and> STALLRQ (eps c' 0)"
proof -
  let ?bs = "[0x80, 0, 0, 0, 0, 0, 2, 0] :: u8 list"
  have "setup_pending ?bs (bus_step (SetupPkt ?bs) (cat_attached []))"
    by (rule cat_attached_pending) simp
  moreover have "\<not> answered ?bs"
    by (simp add: answered_def req_types req_codes CDC_REQ_SetLineEncoding_def CDC_REQ_GetLineEncoding_def)
  ultimately show ?thesis by (subst unsupported_request_stalls) (simp_all add: usb_simps)
qed

section \<open>Address and configuration\<close>

lemma ctl_ClearIN:
  "control_ready u \<Longrightarrow> Endpoint_ClearIN u = ctl u (host u) (in_log u 0) (Some [])"
  by (cases "eps u 0") (simp add: Endpoint_ClearIN_def on_sel_def on_ep_def cur_def ctl_def control_ready_def
      ep_clear_in_def fun_upd_idem)

lemma control_ready_INReady: "control_ready u \<Longrightarrow> Endpoint_IsINReady u"
  using ctl_state [of u "host u" "in_log u 0" None] by (simp add: ctl_self)

lemma status_stage_in:
  assumes "control_ready u" "bit (bmRequestType (USB_ControlRequest u)) 7 = False" "host u = InTok 0 # h"
  shows "Endpoint_ClearStatusStage u = Some (ctl u (InTok 0 # h) (in_log u 0) (Some []))"
    "wait_until Endpoint_IsINReady (ctl u (InTok 0 # h) (in_log u 0) (Some [])) =
      Some (ctl u h (in_log u 0 @ [[]]) None)"
proof -
  show "Endpoint_ClearStatusStage u = Some (ctl u (InTok 0 # h) (in_log u 0) (Some []))"
    using assms control_ready_INReady [OF assms(1)] ctl_ClearIN [OF assms(1)]
    by (simp add: Endpoint_ClearStatusStage_def REQDIR_DEVICETOHOST_def wait_or_unattached.simps [of _ u])
  show "wait_until Endpoint_IsINReady (ctl u (InTok 0 # h) (in_log u 0) (Some [])) =
      Some (ctl u h (in_log u 0 @ [[]]) None)"
    using ctl_state [OF assms(1)] ctl_in [OF assms(1)]
    by (simp add: wait_until.simps [of _ "ctl u _ _ _"])
qed

lemma SetAddress_value:
  assumes "control_ready (Endpoint_ClearSETUP (u\<lparr>I_bit := False\<rparr>))" "host u = InTok 0 # h"
    and b: "bit (bmRequestType (USB_ControlRequest u)) 7 = False"
    and a: "a = (ucast (wValue (USB_ControlRequest u)) AND 0x7F :: u8)"
  shows "USB_Device_SetAddress u = Some
    ((ctl (Endpoint_ClearSETUP (u\<lparr>I_bit := False\<rparr>)) h (in_log u 0 @ [[]]) None)
       \<lparr>UDADDR := 0x80 OR a, USB_DeviceState := (if a \<noteq> 0 then Addressed else Default), I_bit := I_bit u\<rparr>)"
proof -
  let ?w = "Endpoint_ClearSETUP (u\<lparr>I_bit := False\<rparr>)"
  let ?x = "ctl ?w h (in_log u 0 @ [[]]) None"
  have w: "host ?w = InTok 0 # h" "USB_ControlRequest ?w = USB_ControlRequest u" "in_log ?w = in_log u"
    using assms(2) by (simp_all add: Endpoint_ClearSETUP_def usb_simps)
  note s = status_stage_in [OF assms(1) _ w(1)]
  have t: "(x AND BV 7 OR a AND 0x7F) OR BV 7 = 0x80 OR a" for x :: u8
  proof -
    have "a AND 0x7F = a" "(0x80 :: u8) = BV 7" by (simp_all add: a and.assoc BV_def)
    then show ?thesis by (simp only:) (rule bit_word_eqI, auto simp: bit_simps)
  qed
  have c: "calm (?x\<lparr>UDADDR := 0x80 OR a, USB_DeviceState := s, I_bit := I_bit u\<rparr>)" for s
    using assms(1) by (simp add: control_ready_def calm_def ctl_def)
  show ?thesis
    using s b by (simp add: USB_Device_SetAddress_def Let_def w USB_Device_SetDeviceAddress_def t
        serve_idle [OF c] flip: a)
qed

text \<open>
  Setting the address. When a request to set the address is pending and the host collects the
  empty packet of the status stage, the request is completed: the status packet goes out first, then
  the controller has the seven-bit address of the request, enabled, the device is addressed (or, for
  address 0, back in the default state), and the interrupt flag is as it was.
\<close>

theorem set_address_completes:
  fixes c :: cat
  assumes "setup_pending bs c" "bs ! 0 = OUT_DEVICE" "bs ! 1 = REQ_SetAddress" "host c = InTok 0 # h"
  shows "\<exists>c'. USB_Device_ProcessControlRequest caterina_app c = Some c' \<and>
    UDADDR c' = 0x80 OR (bs ! 2 AND 0x7F) \<and>
    USB_DeviceState c' = (if bs ! 2 AND 0x7F \<noteq> 0 then Addressed else Default) \<and>
    in_log c' 0 = in_log c 0 @ [[]] \<and> I_bit c' = I_bit c \<and> host c' = h \<and>
    \<not> STALLRQ (eps c' 0) \<and> usb.more c' = usb.more c"
proof -
  let ?u = "header_read bs c"
  let ?w = "Endpoint_ClearSETUP (?u\<lparr>I_bit := False\<rparr>)"
  have ready: "control_ready ?w"
    using assms(1) by (simp add: setup_pending_def header_read_def Endpoint_ClearSETUP_def on_sel_def on_ep_def
        cur_def control_ready_def ep_clear_setup_def calm_def)
  have "wValue (request_of bs) = of_le [bs ! 2, bs ! 3]"
  proof -
    have "take 2 (drop 2 bs) = [bs ! 2, bs ! 3]"
      using assms(1) by (intro nth_equalityI) (auto simp: setup_pending_def nth_Cons' less_Suc_eq numeral_2_eq_2 numeral_3_eq_3)
    then show ?thesis by (simp add: request_of_def)
  qed
  then have a: "bs ! 2 AND 0x7F = (ucast (wValue (USB_ControlRequest ?u)) AND 0x7F :: u8)"
    by (simp add: usb_simps of_le_pair del: of_le.simps)
  let ?r = "(ctl ?w h (in_log c 0 @ [[]]) None)\<lparr>UDADDR := 0x80 OR (bs ! 2 AND 0x7F),
      USB_DeviceState := (if bs ! 2 AND 0x7F \<noteq> 0 then Addressed else Default), I_bit := I_bit c\<rparr>"
  have i: "I_bit ?u = I_bit c" by (simp add: header_read_def usb_simps)
  have "USB_Device_SetAddress ?u = Some ?r"
    using SetAddress_value [OF ready _ _ a] assms i by (simp add: usb_simps request_of_bytes req_types)
  then have "standard_request caterina_app ?u = Some ?r"
    using assms(2,3) by (simp add: standard_request_def Let_def usb_simps request_of_bytes req_codes)
  moreover have "\<not> Endpoint_IsSETUPReceived ?r"
    using ready by (simp add: Endpoint_IsSETUPReceived_def sel_def cur_def ctl_def control_ready_def)
  moreover have "bs ! 0 AND 0x60 = 0" using assms(2) by (simp add: req_types)
  ultimately have "USB_Device_ProcessControlRequest caterina_app c = Some ?r"
    by (simp add: cat.process_standard [OF assms(1)])
  moreover have "usb.more ?r = usb.more c"
    by (simp add: ctl_def header_read_def Endpoint_ClearSETUP_def on_sel_def on_ep_def)
  ultimately show ?thesis using ready by (simp add: ctl_fields) (simp add: ctl_def control_ready_def)
qed

theorem set_address_completes_witness:
  "\<exists>c'. USB_Device_ProcessControlRequest caterina_app
      (bus_step (SetupPkt [0, 5, 23, 0, 0, 0, 0, 0]) (cat_attached [InTok 0])) = Some c' \<and>
    UDADDR c' = 0x97 \<and> USB_DeviceState c' = Addressed"
proof -
  let ?bs = "[0, 5, 23, 0, 0, 0, 0, 0] :: u8 list"
  let ?c = "bus_step (SetupPkt ?bs) (cat_attached [InTok 0])"
  have "setup_pending ?bs ?c" by (rule cat_attached_pending) simp
  moreover have "host ?c = [InTok 0]"
    by (simp add: usb_simps cat_attached_def cat_reset_def usb_reset_def usb.defs)
  ultimately show ?thesis
    using set_address_completes [of ?bs ?c "[]"] by (simp add: req_types req_codes) blast
qed

text \<open>
  C34. Unplugging during a control request. If interrupts are on, no interrupt is pending and the host
  unplugs the device at any later moment, whatever it does before, then processing any control request
  other than setting the address returns.
\<close>

theorem control_request_ends:
  fixes c :: cat
  assumes "leaving c" "fst (read_bytes 8 c) ! 1 \<noteq> REQ_SetAddress"
  shows "\<exists>c'. USB_Device_ProcessControlRequest caterina_app c = Some c'"
  using assms ControlRequest_request by (intro cat.process_ends) (simp_all add: caterina_app_def)

theorem control_request_ends_witness:
  "\<exists>c'. USB_Device_ProcessControlRequest caterina_app
      (bus_step (SetupPkt [0x80, 6, 0, 1, 0, 0, 18, 0]) (cat_attached [InTok 0, Unplug])) = Some c'"
proof (rule control_request_ends)
  let ?bs = "[0x80, 6, 0, 1, 0, 0, 18, 0] :: u8 list"
  let ?u = "cat_attached [InTok 0, Unplug]"
  have "setup_pending ?bs (bus_step (SetupPkt ?bs) ?u)" by (rule cat_attached_pending) simp
  then show "fst (read_bytes 8 (bus_step (SetupPkt ?bs) ?u)) ! 1 \<noteq> REQ_SetAddress"
    by (simp add: read_header req_codes)
  have u: "I_bit ?u" "bit (USBCON ?u) 0" "host ?u = [InTok 0, Unplug]"
    by (simp_all add: cat_attached_def cat_reset_def usb_reset_def usb.defs usb_simps bit_simps)
  then show "leaving (bus_step (SetupPkt ?bs) ?u)"
    by (simp add: leaving_def usb_simps) (simp add: bus_step_def serve_calm usb_simps)
qed

text \<open>
  C35. The endpoints are those the descriptors announce. After a configuration is set, each of the three
  endpoint descriptors sent to the host describes an enabled, empty endpoint of the controller with
  the same number, direction, transfer type and packet size; the other endpoints are untouched, and
  the IN endpoints are ready to be filled.
\<close>

theorem endpoints_as_announced:
  "\<exists>u'. EVENT_USB_Device_ConfigurationChanged u = Some u' \<and>
    list_all (\<lambda>d. let e = eps u' (unat (EndpointAddress d AND 7)) in
        EPEN e \<and> (ep_in e \<longleftrightarrow> bit (EndpointAddress d) 7) \<and> drop_bit 6 (UECFG0X e) = Attributes d \<and>
        ep_size e = unat (EndpointSize d) \<and> fifo e = [] \<and> sent e = None \<and> \<not> RXOUTI e \<and> TXINI e = ep_in e)
      [CDC_NotificationEndpoint ConfigurationDescriptor, CDC_DataOutEndpoint ConfigurationDescriptor,
       CDC_DataInEndpoint ConfigurationDescriptor] \<and>
    (\<forall>k. k \<in> {2, 3, 4} \<or> eps u' k = eps u k)"
  by (simp add: ConfigurationChanged_value config_values Let_def usb_simps configured_ep_def ep_flush_def
      ep_in_def ep_control_def ep_size_def)

end
