(* ===== verification/Caterina_Protocol.thy ===== *)
theory Caterina_Protocol
  imports Caterina_Usb
begin

text \<open>
  The byte streams of the programming protocol: every command ends when the host leaves; fetching
  command bytes and writing response bytes, described by the predicates \<open>rx_stream\<close> and \<open>tx_stream\<close>,
  which abstract from the boundaries of packets; and the frame of a command, from its first byte to
  the delivery of its answer (\<open>CDC_Task_answers\<close>).
\<close>

section \<open>Commands end when the host leaves\<close>

definition returns_leaving :: "cat option \<Rightarrow> bool" where
  "returns_leaving r = (case r of None \<Rightarrow> False | Some c \<Rightarrow> leaving c)"

lemma returns_leaving_simps [simp]: "returns_leaving (Some c) = leaving c" "\<not> returns_leaving None"
  by (simp_all add: returns_leaving_def)

lemma returns_leaving_if:
  "(b \<Longrightarrow> returns_leaving x) \<Longrightarrow> (\<not> b \<Longrightarrow> returns_leaving y) \<Longrightarrow> returns_leaving (if b then x else y)"
  by simp

lemma returns_leaving_bind:
  "returns_leaving x \<Longrightarrow> (\<And>c. leaving c \<Longrightarrow> returns_leaving (f c)) \<Longrightarrow> returns_leaving (Option.bind x f)"
  by (cases x) simp_all

lemma returns_leaving_map:
  "returns_leaving x \<Longrightarrow> (\<And>c. leaving c \<Longrightarrow> leaving (f c)) \<Longrightarrow> returns_leaving (map_option f x)"
  by (cases x) simp_all

lemma leaving_cat [simp]:
  fixes c :: cat
  shows "leaving (c\<lparr>CurrAddress := a\<rparr>) = leaving c" "leaving (c\<lparr>Timeout := t\<rparr>) = leaving c"
    "leaving (c\<lparr>TIMSK1 := v\<rparr>) = leaving c" "leaving (c\<lparr>TxLEDPulse := t\<rparr>) = leaving c"
    "leaving (c\<lparr>RxLEDPulse := t\<rparr>) = leaving c" "leaving (c\<lparr>eeprom_mem := m\<rparr>) = leaving c"
    "leaving (c\<lparr>flash := f, page_buf := p, RWWSB := b\<rparr>) = leaving c"
  by (simp_all add: leaving_def calm_def)

lemma leaving_spm [simp]:
  "leaving (boot_page_erase a c) = leaving c" "leaving (boot_page_fill a w c) = leaving c"
  "leaving (boot_page_write a c) = leaving c" "leaving (boot_rww_enable c) = leaving c"
  "leaving (TX_LED_ON c) = leaving c" "leaving (RX_LED_ON c) = leaving c"
  "leaving (erase_application c) = leaving c"
proof -
  show e: "leaving (boot_page_erase a c) = leaving c" "leaving (boot_page_fill a w c) = leaving c"
      "leaving (boot_page_write a c) = leaving c" "leaving (boot_rww_enable c) = leaving c"
      "leaving (TX_LED_ON c) = leaving c" "leaving (RX_LED_ON c) = leaving c" for a w c
    by (simp_all add: leaving_def calm_def boot_page_erase_def boot_page_fill_def boot_page_write_def
        boot_rww_enable_def led_defs Let_def)
  have "leaving (erase_pages n x c) = leaving c" for n x
    by (induction n arbitrary: x c) (simp_all add: e)
  then show "leaving (erase_application c) = leaving c" by (simp add: erase_application_def)
qed

lemma Fetch_wait_leaving: "leaving c \<Longrightarrow> \<exists>ok c'. Fetch_wait c = Some (ok, c') \<and> leaving c'"
proof (induction c rule: Fetch_wait.induct)
  case (1 c)
  show ?case
  proof (cases "Endpoint_IsReadWriteAllowed c")
    case True
    with 1(2) show ?thesis by (auto simp: Fetch_wait.simps)
  next
    case False
    have "leaving (Endpoint_ClearOUT c)" using 1(2) by simp
    then obtain ok v where v: "wait_or_unattached Endpoint_IsOUTReceived (Endpoint_ClearOUT c) = Some (ok, v)"
        "leaving v" by (rule wait_or_unattached_leaving)
    show ?thesis
    proof (cases ok)
      case True
      with False v 1(1) [OF False v(1)] show ?thesis by (simp add: Fetch_wait.simps [of c])
    next
      case f: False
      with False v show ?thesis by (auto simp: Fetch_wait.simps [of c])
    qed
  qed
qed

lemma Fetch_leaving:
  assumes "leaving c" and f: "\<And>b c'. leaving c' \<Longrightarrow> returns_leaving (f (b, c'))"
  shows "returns_leaving (Option.bind (FetchNextCommandByte c) f)"
proof -
  have "leaving (Endpoint_SelectEndpoint CDC_RX_EPNUM c)" using assms(1) by simp
  then obtain ok v where v: "Fetch_wait (Endpoint_SelectEndpoint CDC_RX_EPNUM c) = Some (ok, v)" "leaving v"
    using Fetch_wait_leaving by blast
  have "leaving (snd (if ok then Endpoint_Read_8 v else (0, v)))" using v(2) by simp
  then show ?thesis using f [of "snd (if ok then Endpoint_Read_8 v else (0, v))"]
    by (simp add: FetchNextCommandByte_def v split: if_splits) (metis prod.collapse)+
qed

lemma Write_leaving: "leaving c \<Longrightarrow> returns_leaving (WriteNextResponseByte b c)"
proof -
  assume l: "leaving c"
  let ?c = "Endpoint_SelectEndpoint CDC_TX_EPNUM c"
  have "leaving (Endpoint_ClearIN ?c)" using l by simp
  then obtain ok v where "wait_or_unattached Endpoint_IsINReady (Endpoint_ClearIN ?c) = Some (ok, v)" "leaving v"
    by (rule wait_or_unattached_leaving)
  with l show ?thesis by (simp add: WriteNextResponseByte_def Let_def)
qed

lemma WriteResponses_leaving: "leaving c \<Longrightarrow> returns_leaving (WriteResponses bs c)"
  by (induction bs arbitrary: c) (simp_all add: returns_leaving_bind Write_leaving)

lemma blocks_leaving:
  "leaving c \<Longrightarrow> returns_leaving (block_read_flash n hb c)"
  "leaving c \<Longrightarrow> returns_leaving (block_read_eeprom n c)"
  "leaving c \<Longrightarrow> returns_leaving (block_write_flash n hb lb c)"
  "leaving c \<Longrightarrow> returns_leaving (block_write_eeprom n c)"
proof -
  show "leaving c \<Longrightarrow> returns_leaving (block_read_flash n hb c)"
    by (induction n arbitrary: hb c) (simp_all add: returns_leaving_bind Write_leaving Let_def)
  show "leaving c \<Longrightarrow> returns_leaving (block_read_eeprom n c)"
    by (induction n arbitrary: c) (simp_all add: returns_leaving_bind Write_leaving Let_def)
  show "leaving c \<Longrightarrow> returns_leaving (block_write_flash n hb lb c)"
    by (induction n arbitrary: hb lb c) (simp_all add: Fetch_leaving Let_def)
  show "leaving c \<Longrightarrow> returns_leaving (block_write_eeprom n c)"
    by (induction n arbitrary: c) (simp_all add: Fetch_leaving Let_def)
qed

lemma ReadWriteMemoryBlock_leaving: "leaving c \<Longrightarrow> returns_leaving (ReadWriteMemoryBlock cmd c)"
  unfolding ReadWriteMemoryBlock_def Let_def memory_read_def memory_write_def
  by (intro Fetch_leaving returns_leaving_if returns_leaving_bind Write_leaving blocks_leaving
      | simp only: prod.case returns_leaving_simps leaving_cat leaving_spm)+

lemma CDC_Command_leaving:
  assumes "leaving c"
  shows "returns_leaving (CDC_Command cmd c)"
proof -
  have "returns_leaving (CDC_Command_session cmd c)"
    unfolding CDC_Command_session_def using assms
    by (intro Fetch_leaving returns_leaving_if Write_leaving WriteResponses_leaving
        | simp only: prod.case leaving_cat leaving_spm)+
  moreover have "returns_leaving (CDC_Command_memory cmd c)"
    unfolding CDC_Command_memory_def Let_def using assms
    by (intro Fetch_leaving returns_leaving_if returns_leaving_map Write_leaving WriteResponses_leaving
        ReadWriteMemoryBlock_leaving
        | simp only: prod.case leaving_cat leaving_spm returns_leaving_simps)+
  ultimately show ?thesis by (simp add: CDC_Command_def)
qed

lemma CDC_Finish_leaving:
  assumes "leaving c"
  shows "returns_leaving (CDC_Finish c)"
proof -
  let ?c = "Endpoint_ClearIN (Endpoint_SelectEndpoint CDC_TX_EPNUM c)"
  have tail: "returns_leaving (Option.bind (wait_or_unattached Endpoint_IsINReady v)
      (\<lambda>(ok, c). if \<not> ok then Some c else Some (Endpoint_ClearOUT (Endpoint_SelectEndpoint CDC_RX_EPNUM c))))"
    if l: "leaving v" for v
  proof -
    from l obtain ok w where "wait_or_unattached Endpoint_IsINReady v = Some (ok, w)" "leaving w"
      by (rule wait_or_unattached_leaving)
    then show ?thesis by simp
  qed
  have "leaving ?c" using assms by simp
  then obtain ok v where v: "wait_or_unattached Endpoint_IsINReady ?c = Some (ok, v)" "leaving v"
    by (rule wait_or_unattached_leaving)
  have "leaving (Endpoint_ClearIN v)" using v(2) by simp
  from tail [OF this] tail [OF \<open>leaving ?c\<close>] show ?thesis
    using v by (simp add: CDC_Finish_def Let_def)
qed

text \<open>
  C32. The programming task ends when the host leaves. If interrupts are on, none is pending and the
  host unplugs the device at any later moment, then \<^verbatim>\<open>CDC_Task\<close> returns, whatever command it is
  executing, whatever bytes the host sent before and however long the block it announced.
\<close>

theorem cdc_task_ends:
  assumes "leaving c"
  shows "\<exists>c'. CDC_Task c = Some c' \<and> leaving c'"
proof -
  have "returns_leaving (CDC_Task c)"
    unfolding CDC_Task_def Let_def using assms
    by (intro returns_leaving_if Fetch_leaving)
      (simp_all add: returns_leaving_bind CDC_Command_leaving CDC_Finish_leaving)
  then show ?thesis by (cases "CDC_Task c") simp_all
qed

text \<open>A configured boot loader with a command in the receive bank.\<close>

definition cat_configured :: "u8 list \<Rightarrow> host_ev list \<Rightarrow> cat" where
  "cat_configured bs h = on_ep 4 (\<lambda>e. (configured_ep 0x80 0x12 e)\<lparr>fifo := bs, RXOUTI := True\<rparr>)
     (on_ep 3 (configured_ep 0x81 0x12) ((cat_attached h)\<lparr>USB_DeviceState := Configured\<rparr>))"

lemma cat_configured_fields:
  "I_bit (cat_configured bs h)" "bit (USBCON (cat_configured bs h)) 0" "calm (cat_configured bs h)"
  "host (cat_configured bs h) = h" "USB_DeviceState (cat_configured bs h) = Configured"
  "in_log (cat_configured bs h) = (\<lambda>_. [])" "flash (cat_configured bs h) = (\<lambda>_. 0xFF)"
  "page_buf (cat_configured bs h) = (\<lambda>_. None)" "CurrAddress (cat_configured bs h) = 0"
  "eeprom_mem (cat_configured bs h) = (\<lambda>_. 0xFF)"
  by (simp_all add: cat_configured_def cat_attached_def cat_reset_def usb_reset_def usb.defs usb_simps
      bit_simps calm_def on_ep_def)

theorem cdc_task_ends_witness:
  "\<exists>c'. CDC_Task (cat_configured [66, 0, 128, 70, 1, 2, 3] [Sof, OutPkt 4 [4, 5], Unplug]) = Some c'"
proof -
  have "leaving (cat_configured [66, 0, 128, 70, 1, 2, 3] [Sof, OutPkt 4 [4, 5], Unplug])"
    by (simp add: leaving_def cat_configured_fields)
  then show ?thesis using cdc_task_ends by blast
qed

section \<open>The receive stream\<close>

text \<open>Both data endpoints are configured, the receive bank belongs to the processor and the transmit bank
  is free.\<close>

definition cdc_on :: "cat \<Rightarrow> bool" where
  "cdc_on c \<longleftrightarrow> calm c \<and> USB_DeviceState c \<noteq> Unattached \<and>
     EPEN (eps c 4) \<and> UECFG0X (eps c 4) = 0x80 \<and> UECFG1X (eps c 4) = 0x12 \<and> \<not> STALLRQ (eps c 4) \<and>
     \<not> RXSTPI (eps c 4) \<and> RXOUTI (eps c 4) \<and>
     EPEN (eps c 3) \<and> UECFG0X (eps c 3) = 0x81 \<and> UECFG1X (eps c 3) = 0x12 \<and> \<not> STALLRQ (eps c 3) \<and>
     TXINI (eps c 3) \<and> sent (eps c 3) = None"

text \<open>The host sends the bytes \<open>bs\<close>, in non-empty packets of any size up to the bank, before it goes on
  with \<open>h\<close>.\<close>

definition rx_stream :: "u8 list \<Rightarrow> host_ev list \<Rightarrow> cat \<Rightarrow> bool" where
  "rx_stream bs h c \<longleftrightarrow> cdc_on c \<and> (\<exists>pks. fifo (eps c 4) @ concat pks = bs \<and>
     host c = map (OutPkt 4) pks @ h \<and> list_all (\<lambda>p. p \<noteq> [] \<and> length p \<le> 16) pks)"

definition rxs :: "cat \<Rightarrow> u8 list \<Rightarrow> host_ev list \<Rightarrow> cat" where
  "rxs c f h = c\<lparr>UENUM := 4, host := h, eps := (eps c)(4 := (eps c 4)\<lparr>fifo := f\<rparr>)\<rparr>"

lemma rxs_sel: "cur (rxs c f h) = 4" "sel (rxs c f h) = (eps c 4)\<lparr>fifo := f\<rparr>"
  by (simp_all add: rxs_def cur_def sel_def)

lemma rxs_rwal: "cdc_on c \<Longrightarrow> Endpoint_IsReadWriteAllowed (rxs c f h) \<longleftrightarrow> f \<noteq> []"
  by (simp add: Endpoint_IsReadWriteAllowed_def rxs_sel cdc_on_def ep_in_def Let_def)

lemma rxs_next_packet:
  assumes "cdc_on c" "length p \<le> 16"
  shows "wait_or_unattached Endpoint_IsOUTReceived (Endpoint_ClearOUT (rxs c [] (OutPkt 4 p # h))) =
    Some (True, rxs c p h)"
proof -
  let ?y = "Endpoint_ClearOUT (rxs c [] (OutPkt 4 p # h))"
  let ?z = "rxs c p h"
  have "hw_event (OutPkt 4 p) (?y\<lparr>host := h\<rparr>) = ?z"
  proof (rule usb.equality)
    show "eps (hw_event (OutPkt 4 p) (?y\<lparr>host := h\<rparr>)) = eps ?z"
      using assms by (cases "eps c 4") (simp add: Endpoint_ClearOUT_def on_sel_def on_ep_def rxs_def cur_def
          accepts_out_def ep_cfgok_def ep_size_def ep_max_def ep_in_def ep_clear_out_def cdc_on_def)
  qed (simp_all add: Endpoint_ClearOUT_def on_sel_def on_ep_def rxs_def)
  moreover have "calm ?z" using assms(1) by (simp add: cdc_on_def calm_def rxs_def)
  ultimately have "bus_step (OutPkt 4 p) (?y\<lparr>host := h\<rparr>) = ?z"
    by (simp only: bus_step_def serve_idle)
  moreover have "host ?y = OutPkt 4 p # h" by (simp add: usb_simps) (simp add: rxs_def)
  ultimately have "poll ?y = Some ?z" by (simp add: poll_def)
  moreover have "USB_DeviceState ?y \<noteq> Unattached"
    using assms(1) by (simp add: Endpoint_ClearOUT_def usb_simps rxs_def cdc_on_def on_sel_def on_ep_def)
  moreover have "Endpoint_IsOUTReceived ?z" using assms(1) by (simp add: Endpoint_IsOUTReceived_def rxs_sel cdc_on_def)
  ultimately show ?thesis
    by (simp add: wait_or_unattached.simps [of _ ?y] wait_or_unattached.simps [of _ ?z])
qed

lemma Fetch_rxs:
  assumes "cdc_on c" "f @ concat pks = b # bs" "list_all (\<lambda>p. p \<noteq> [] \<and> length p \<le> 16) pks"
  shows "\<exists>f' pks'. FetchNextCommandByte (rxs c f (map (OutPkt 4) pks @ h)) =
      Some (b, rxs c f' (map (OutPkt 4) pks' @ h)) \<and> f' @ concat pks' = bs \<and>
      list_all (\<lambda>p. p \<noteq> [] \<and> length p \<le> 16) pks'"
proof -
  have sel: "Endpoint_SelectEndpoint CDC_RX_EPNUM (rxs c f h') = rxs c f h'" for f h'
    by (simp add: Endpoint_SelectEndpoint_def CDC_RX_EPNUM_def rxs_def)
  have read: "Endpoint_Read_8 (rxs c (b # g) h') = (b, rxs c g h')" for g h'
    by (simp add: Endpoint_Read_8_def rxs_sel on_sel_def on_ep_def) (simp add: rxs_def)
  have now: "FetchNextCommandByte (rxs c (b # g) h') = Some (b, rxs c g h')" for g h'
    using rxs_rwal [OF assms(1)] by (simp add: FetchNextCommandByte_def sel Fetch_wait.simps [of "rxs c (b # g) h'"] read)
  show ?thesis
  proof (cases f)
    case (Cons x g)
    with assms(2) have "x = b" "g @ concat pks = bs" by simp_all
    with Cons now assms(3) show ?thesis by blast
  next
    case Nil
    with assms(2,3) obtain p ps where pk: "pks = p # ps" "p \<noteq> []" "length p \<le> 16"
      by (cases pks) auto
    with assms(2) Nil obtain g where p: "p = b # g" "g @ concat ps = bs" by (cases p) auto
    let ?h = "map (OutPkt 4) ps @ h"
    have "Fetch_wait (rxs c [] (OutPkt 4 p # ?h)) = Fetch_wait (rxs c p ?h)"
      using rxs_next_packet [OF assms(1) pk(3), of ?h] rxs_rwal [OF assms(1)]
      by (subst Fetch_wait.simps) simp
    then have "FetchNextCommandByte (rxs c [] (OutPkt 4 p # ?h)) = FetchNextCommandByte (rxs c p ?h)"
      by (simp add: FetchNextCommandByte_def sel)
    then show ?thesis using Nil pk p now [of g ?h] assms(3) by auto
  qed
qed

definition rx_only :: "cat \<Rightarrow> cat \<Rightarrow> bool" where
  "rx_only c c' \<longleftrightarrow> usb.more c' = usb.more c \<and> in_log c' = in_log c \<and> eps c' 3 = eps c 3"

lemma Fetch_stream:
  assumes "rx_stream (b # bs) h c"
  obtains c' where "FetchNextCommandByte c = Some (b, c')" "rx_stream bs h c'" "rx_only c c'"
proof -
  from assms obtain pks where o: "cdc_on c" and p: "fifo (eps c 4) @ concat pks = b # bs"
      "host c = map (OutPkt 4) pks @ h" "list_all (\<lambda>p. p \<noteq> [] \<and> length p \<le> 16) pks"
    unfolding rx_stream_def by blast
  have "Endpoint_SelectEndpoint CDC_RX_EPNUM c = rxs c (fifo (eps c 4)) (host c)"
    by (cases "eps c 4") (simp add: Endpoint_SelectEndpoint_def CDC_RX_EPNUM_def rxs_def fun_upd_idem)
  then have e: "FetchNextCommandByte c = FetchNextCommandByte (rxs c (fifo (eps c 4)) (host c))"
    by (simp add: FetchNextCommandByte_def Endpoint_SelectEndpoint_def CDC_RX_EPNUM_def rxs_def)
  obtain f' pks' where f: "FetchNextCommandByte c = Some (b, rxs c f' (map (OutPkt 4) pks' @ h))"
      "f' @ concat pks' = bs" "list_all (\<lambda>p. p \<noteq> [] \<and> length p \<le> 16) pks'"
    using Fetch_rxs [OF o p(1,3), of h] e p(2) by auto
  moreover have "rx_stream bs h (rxs c f' (map (OutPkt 4) pks' @ h))"
    using o f unfolding rx_stream_def by (auto simp: rxs_def cdc_on_def calm_def)
  moreover have "rx_only c (rxs c f' (map (OutPkt 4) pks' @ h))" by (simp add: rx_only_def rxs_def)
  ultimately show thesis using that by blast
qed

section \<open>The transmit stream\<close>

text \<open>The boot loader has written the bytes \<open>out\<close>; all but the last 16 at most have been collected, in full
  packets, after those in \<open>l0\<close>. The host collects \<open>K\<close> packets in all and goes on with \<open>h\<close>.\<close>

definition tx_stream :: "u8 list list \<Rightarrow> u8 list \<Rightarrow> nat \<Rightarrow> host_ev list \<Rightarrow> cat \<Rightarrow> bool" where
  "tx_stream l0 out K h c \<longleftrightarrow> cdc_on c \<and> (\<exists>ps. in_log c 3 = l0 @ ps \<and> concat ps @ fifo (eps c 3) = out \<and>
     list_all (\<lambda>p. length p = 16) ps \<and> length (fifo (eps c 3)) \<le> 16 \<and> (fifo (eps c 3) = [] \<longrightarrow> ps = []) \<and>
     length ps \<le> K \<and> host c = replicate (K - length ps) (InTok 3) @ h)"

definition txs :: "cat \<Rightarrow> u8 list \<Rightarrow> u8 list list \<Rightarrow> host_ev list \<Rightarrow> cat" where
  "txs c f l h = c\<lparr>UENUM := 3, host := h, in_log := (in_log c)(3 := l),
     eps := (eps c)(3 := (eps c 3)\<lparr>fifo := f\<rparr>)\<rparr>"

lemma txs_sel: "cur (txs c f l h) = 3" "sel (txs c f l h) = (eps c 3)\<lparr>fifo := f\<rparr>"
  by (simp_all add: txs_def cur_def sel_def)

lemma txs_rwal: "cdc_on c \<Longrightarrow> Endpoint_IsReadWriteAllowed (txs c f l h) \<longleftrightarrow> length f < 16"
  by (simp add: Endpoint_IsReadWriteAllowed_def txs_sel cdc_on_def ep_in_def ep_size_def Let_def)

lemma txs_select: "Endpoint_SelectEndpoint CDC_TX_EPNUM c = txs c (fifo (eps c 3)) (in_log c 3) (host c)"
  by (cases "eps c 3") (simp add: Endpoint_SelectEndpoint_def CDC_TX_EPNUM_def txs_def fun_upd_idem)

lemma txs_collect:
  assumes "cdc_on c"
  shows "wait_or_unattached Endpoint_IsINReady (Endpoint_ClearIN (txs c f l (InTok 3 # h))) =
    Some (True, txs c [] (l @ [f]) h)"
proof -
  let ?y = "Endpoint_ClearIN (txs c f l (InTok 3 # h))"
  let ?z = "txs c [] (l @ [f]) h"
  have "sent (eps (?y\<lparr>host := h\<rparr>) 3) = Some f"
    using assms by (simp add: Endpoint_ClearIN_def on_sel_def on_ep_def txs_def cur_def ep_clear_in_def cdc_on_def)
  moreover have "ep_cfgok 3 (eps (?y\<lparr>host := h\<rparr>) 3) \<and> \<not> STALLRQ (eps (?y\<lparr>host := h\<rparr>) 3)"
    using assms by (simp add: Endpoint_ClearIN_def on_sel_def on_ep_def txs_def cur_def ep_clear_in_def cdc_on_def
        ep_cfgok_def ep_size_def ep_max_def)
  ultimately have "hw_event (InTok 3) (?y\<lparr>host := h\<rparr>) =
      (on_ep 3 (\<lambda>e. e\<lparr>sent := None, TXINI := True\<rparr>) (?y\<lparr>host := h\<rparr>))
        \<lparr>in_log := (in_log (?y\<lparr>host := h\<rparr>))(3 := in_log (?y\<lparr>host := h\<rparr>) 3 @ [f])\<rparr>" by simp
  also have "\<dots> = ?z"
  proof (rule usb.equality)
    show "eps ((on_ep 3 (\<lambda>e. e\<lparr>sent := None, TXINI := True\<rparr>) (?y\<lparr>host := h\<rparr>))
        \<lparr>in_log := (in_log (?y\<lparr>host := h\<rparr>))(3 := in_log (?y\<lparr>host := h\<rparr>) 3 @ [f])\<rparr>) = eps ?z"
      using assms by (cases "eps c 3") (simp add: Endpoint_ClearIN_def on_sel_def on_ep_def txs_def cur_def
          ep_clear_in_def cdc_on_def)
  qed (simp_all add: Endpoint_ClearIN_def on_sel_def on_ep_def txs_def)
  moreover have "calm ?z" using assms by (simp add: cdc_on_def calm_def txs_def)
  ultimately have "bus_step (InTok 3) (?y\<lparr>host := h\<rparr>) = ?z" by (simp only: bus_step_def serve_idle)
  moreover have "host ?y = InTok 3 # h" by (simp add: Endpoint_ClearIN_def usb_simps) (simp add: txs_def)
  ultimately have "poll ?y = Some ?z" by (simp add: poll_def)
  moreover have "USB_DeviceState ?y \<noteq> Unattached"
    using assms by (simp add: Endpoint_ClearIN_def usb_simps txs_def cdc_on_def on_sel_def on_ep_def)
  moreover have "Endpoint_IsINReady ?z" using assms by (simp add: Endpoint_IsINReady_def txs_sel cdc_on_def)
  ultimately show ?thesis
    by (simp add: wait_or_unattached.simps [of _ ?y] wait_or_unattached.simps [of _ ?z])
qed

definition tx_light :: "cat \<Rightarrow> cat" where
  "tx_light c = (TX_LED_ON c)\<lparr>TxLEDPulse := TX_RX_LED_PULSE_PERIOD\<rparr>"

lemma Write_txs_room:
  assumes "cdc_on c" "length f < 16"
  shows "WriteNextResponseByte b (txs c f l h) = Some (tx_light (txs c (f @ [b]) l h))"
proof -
  have "Endpoint_SelectEndpoint CDC_TX_EPNUM (txs c f l h) = txs c f l h"
    by (simp add: Endpoint_SelectEndpoint_def CDC_TX_EPNUM_def txs_def)
  moreover have "Endpoint_Write_8 b (txs c f l h) = txs c (f @ [b]) l h"
    using assms by (simp add: Endpoint_Write_8_def on_sel_def txs_sel on_ep_def)
      (simp add: txs_def ep_write_def cdc_on_def ep_size_def)
  ultimately show ?thesis
    using txs_rwal [OF assms(1)] assms(2) by (simp add: WriteNextResponseByte_def tx_light_def)
qed

lemma Write_txs_full:
  assumes "cdc_on c" "length f = 16"
  shows "WriteNextResponseByte b (txs c f l (InTok 3 # h)) = Some (tx_light (txs c [b] (l @ [f]) h))"
proof -
  have "Endpoint_SelectEndpoint CDC_TX_EPNUM (txs c f l (InTok 3 # h)) = txs c f l (InTok 3 # h)"
    by (simp add: Endpoint_SelectEndpoint_def CDC_TX_EPNUM_def txs_def)
  moreover have "Endpoint_Write_8 b (txs c [] (l @ [f]) h) = txs c [b] (l @ [f]) h"
    using assms(1) by (simp add: Endpoint_Write_8_def on_sel_def txs_sel on_ep_def)
      (simp add: txs_def ep_write_def cdc_on_def ep_size_def)
  ultimately show ?thesis
    using txs_rwal [OF assms(1)] assms(2) txs_collect [OF assms(1)]
    by (simp add: WriteNextResponseByte_def tx_light_def)
qed

text \<open>What the transfers leave alone.\<close>

definition core :: "cat \<Rightarrow> mem \<times> (nat \<Rightarrow> u16 option) \<times> bool \<times> eeprom \<times> u32 \<times> u16 \<times> bool \<times> CDC_LineEncoding" where
  "core c = (flash c, page_buf c, RWWSB c, eeprom_mem c, CurrAddress c, Timeout c, RunBootloader c, LineEncoding c)"

lemma core_txs [simp]: "core (tx_light (txs c f l h)) = core c" "core (txs c f l h) = core c"
  by (simp_all add: core_def tx_light_def txs_def led_defs)

lemma core_rx: "rx_only c c' \<Longrightarrow> core c' = core c"
  by (simp add: rx_only_def core_def cat_more_eqD [of c' c])

lemma tx_light_fields [simp]:
  "eps (tx_light c) = eps c" "in_log (tx_light c) = in_log c" "host (tx_light c) = host c"
  "cdc_on (tx_light c) = cdc_on c"
  by (simp_all add: tx_light_def led_defs cdc_on_def calm_def)

lemma cdc_on_txs: "cdc_on c \<Longrightarrow> cdc_on (txs c f l h)"
  by (simp add: cdc_on_def calm_def txs_def)

lemma txs_fields [simp]:
  "in_log (txs c f l h) 3 = l" "host (txs c f l h) = h" "fifo (eps (txs c f l h) 3) = f"
  "eps (txs c f l h) 4 = eps c 4"
  by (simp_all add: txs_def)

lemma WriteNext_select: "WriteNextResponseByte b c =
    WriteNextResponseByte b (txs c (fifo (eps c 3)) (in_log c 3) (host c))"
proof -
  have "Endpoint_SelectEndpoint CDC_TX_EPNUM (txs c f l h) = txs c f l h" for f l h
    by (simp add: Endpoint_SelectEndpoint_def CDC_TX_EPNUM_def txs_def)
  then show ?thesis by (simp add: WriteNextResponseByte_def txs_select [of c])
qed

lemma Write_stream:
  assumes "tx_stream l0 out K h c" "length out div 16 \<le> K"
  obtains c' where "WriteNextResponseByte b c = Some c'" "tx_stream l0 (out @ [b]) K h c'"
    "core c' = core c" "eps c' 4 = eps c 4"
proof -
  let ?f = "fifo (eps c 3)"
  from assms(1) obtain ps where o: "cdc_on c" and p: "in_log c 3 = l0 @ ps" "concat ps @ ?f = out"
      "list_all (\<lambda>p. length p = 16) ps" "length ?f \<le> 16" "?f = [] \<longrightarrow> ps = []" "length ps \<le> K"
      "host c = replicate (K - length ps) (InTok 3) @ h"
    unfolding tx_stream_def by blast
  have n: "length (concat ps) = 16 * length ps" using p(3) by (induction ps) simp_all
  show thesis
  proof (cases "length ?f < 16")
    case True
    let ?c = "tx_light (txs c (?f @ [b]) (l0 @ ps) (host c))"
    have "tx_stream l0 (out @ [b]) K h ?c"
      using o p True unfolding tx_stream_def by (simp add: cdc_on_txs)
    moreover have "WriteNextResponseByte b c = Some ?c"
      using Write_txs_room [OF o True, of b] WriteNext_select [of b c] p(1) by simp
    ultimately show thesis using that by simp
  next
    case False
    then have full: "length ?f = 16" using p(4) by simp
    have "length out = 16 * length ps + 16" using p(2) n full by auto
    then have "Suc (length ps) \<le> K" using assms(2) by simp
    then have hh: "host c = InTok 3 # replicate (K - Suc (length ps)) (InTok 3) @ h"
      using p(7) by (metis Suc_diff_le append_Cons diff_Suc_Suc replicate_Suc)
    let ?h = "replicate (K - Suc (length ps)) (InTok 3) @ h"
    let ?c = "tx_light (txs c [b] ((l0 @ ps) @ [?f]) ?h)"
    have "tx_stream l0 (out @ [b]) K h ?c"
      unfolding tx_stream_def
      by (intro conjI exI [of _ "ps @ [?f]"])
        (use o p full \<open>Suc (length ps) \<le> K\<close> in \<open>simp_all add: cdc_on_txs\<close>)
    moreover have "WriteNextResponseByte b c = Some ?c"
      using Write_txs_full [OF o full, of b "l0 @ ps" ?h] WriteNext_select [of b c] p(1) hh by simp
    ultimately show thesis using that by simp
  qed
qed

lemma txs_again: "Endpoint_SelectEndpoint CDC_TX_EPNUM (txs c f l h) = txs c f l h"
  by (simp add: Endpoint_SelectEndpoint_def CDC_TX_EPNUM_def txs_def)

definition acknowledge :: "cat \<Rightarrow> cat" where
  "acknowledge c = Endpoint_ClearOUT (Endpoint_SelectEndpoint CDC_RX_EPNUM c)"

lemma core_acknowledge [simp]: "core (acknowledge c) = core c"
  "host (acknowledge c) = host c" "in_log (acknowledge c) = in_log c"
  by (simp_all add: acknowledge_def Endpoint_ClearOUT_def usb_simps core_def
      Endpoint_SelectEndpoint_def on_sel_def on_ep_def)

lemma Finish_room:
  assumes "cdc_on c" "length f < 16"
  shows "CDC_Finish (txs c f l (InTok 3 # h)) = Some (acknowledge (txs c [] (l @ [f]) h))"
  using txs_rwal [OF assms(1)] assms(2)
  by (simp add: CDC_Finish_def txs_again txs_collect [OF assms(1)] acknowledge_def)

lemma Finish_full:
  assumes "cdc_on c" "length f = 16"
  shows "CDC_Finish (txs c f l (InTok 3 # InTok 3 # h)) = Some (acknowledge (txs c [] (l @ [f, []]) h))"
  using txs_rwal [OF assms(1)] assms(2)
  by (simp add: CDC_Finish_def txs_again txs_collect [OF assms(1)] acknowledge_def)

lemma Finish_select: "CDC_Finish c = CDC_Finish (txs c (fifo (eps c 3)) (in_log c 3) (host c))"
  by (simp add: CDC_Finish_def txs_select [of c] txs_again)

lemma Finish_stream:
  assumes "tx_stream l0 out (length out div 16 + 1) h c"
  obtains c' ps where "CDC_Finish c = Some c'" "in_log c' 3 = l0 @ ps" "concat ps = out"
    "host c' = h" "core c' = core c"
proof -
  let ?f = "fifo (eps c 3)" and ?K = "length out div 16 + 1"
  from assms obtain ps where o: "cdc_on c" and p: "in_log c 3 = l0 @ ps" "concat ps @ ?f = out"
      "list_all (\<lambda>p. length p = 16) ps" "length ?f \<le> 16" "length ps \<le> ?K"
      "host c = replicate (?K - length ps) (InTok 3) @ h"
    unfolding tx_stream_def by blast
  have n: "length (concat ps) = 16 * length ps" using p(3) by (induction ps) simp_all
  have len: "length out = 16 * length ps + length ?f" using p(2) n by (metis length_append)
  show thesis
  proof (cases "length ?f < 16")
    case True
    then have "?K - length ps = 1" using len by simp
    then have "CDC_Finish c = Some (acknowledge (txs c [] ((l0 @ ps) @ [?f]) h))"
      using Finish_room [OF o True, of "l0 @ ps" h] Finish_select [of c] p(1,6) by simp
    then show thesis using that [of _ "ps @ [?f]"] p(2) by simp
  next
    case False
    then have full: "length ?f = 16" using p(4) by simp
    then have "?K - length ps = 2" using len by simp
    then have "CDC_Finish c = Some (acknowledge (txs c [] ((l0 @ ps) @ [?f, []]) h))"
      using Finish_full [OF o full, of "l0 @ ps" h] Finish_select [of c] p(1,6)
      by (simp add: numeral_2_eq_2)
    then show thesis using that [of _ "ps @ [?f, []]"] p(2) by simp
  qed
qed

section \<open>A command and its answer\<close>

text \<open>The host has sent the bytes \<open>bs\<close> and then collects \<open>K\<close> packets; the boot loader has not begun to
  answer.\<close>

definition command_stream :: "u8 list \<Rightarrow> u8 list list \<Rightarrow> nat \<Rightarrow> host_ev list \<Rightarrow> cat \<Rightarrow> bool" where
  "command_stream bs l0 K h c \<longleftrightarrow> rx_stream bs (replicate K (InTok 3) @ h) c \<and> fifo (eps c 3) = [] \<and> in_log c 3 = l0"

lemma stream_updates [simp]:
  fixes c :: cat
  shows "cdc_on (c\<lparr>CurrAddress := a\<rparr>) = cdc_on c" "cdc_on (c\<lparr>Timeout := t\<rparr>) = cdc_on c"
    "cdc_on (c\<lparr>TIMSK1 := v\<rparr>) = cdc_on c" "cdc_on (c\<lparr>RxLEDPulse := t\<rparr>) = cdc_on c"
    "cdc_on (c\<lparr>eeprom_mem := m\<rparr>) = cdc_on c" "cdc_on (boot_page_erase a c) = cdc_on c"
    "cdc_on (boot_page_fill a w c) = cdc_on c" "cdc_on (boot_page_write a c) = cdc_on c"
    "cdc_on (boot_rww_enable c) = cdc_on c" "cdc_on (RX_LED_ON c) = cdc_on c"
    "cdc_on (c\<lparr>UENUM := e\<rparr>) = cdc_on c"
  by (simp_all add: cdc_on_def calm_def boot_page_erase_def boot_page_fill_def boot_page_write_def
      boot_rww_enable_def led_defs Let_def)

lemma spm_usb [simp]:
  "eps (boot_page_erase a c) = eps c" "eps (boot_page_fill a w c) = eps c"
  "eps (boot_page_write a c) = eps c" "eps (boot_rww_enable c) = eps c" "eps (RX_LED_ON c) = eps c"
  "host (boot_page_erase a c) = host c" "host (boot_page_fill a w c) = host c"
  "host (boot_page_write a c) = host c" "host (boot_rww_enable c) = host c" "host (RX_LED_ON c) = host c"
  "in_log (boot_page_erase a c) = in_log c" "in_log (boot_page_fill a w c) = in_log c"
  "in_log (boot_page_write a c) = in_log c" "in_log (boot_rww_enable c) = in_log c"
  "in_log (RX_LED_ON c) = in_log c"
  by (simp_all add: boot_page_erase_def boot_page_fill_def boot_page_write_def boot_rww_enable_def
      led_defs Let_def)

lemmas stream_defs = command_stream_def rx_stream_def tx_stream_def

lemma stream_cong:
  assumes "cdc_on c' = cdc_on c" "eps c' = eps c" "host c' = host c" "in_log c' = in_log c"
  shows "command_stream bs l0 K h c' = command_stream bs l0 K h c" "tx_stream l0 out K h c' = tx_stream l0 out K h c"
  by (simp_all only: stream_defs assms)

lemma command_updates [simp]:
  "command_stream bs l0 K h (c\<lparr>CurrAddress := a\<rparr>) = command_stream bs l0 K h c"
  "command_stream bs l0 K h (c\<lparr>Timeout := t\<rparr>) = command_stream bs l0 K h c"
  "command_stream bs l0 K h (c\<lparr>TIMSK1 := v\<rparr>) = command_stream bs l0 K h c"
  "command_stream bs l0 K h (c\<lparr>RxLEDPulse := t\<rparr>) = command_stream bs l0 K h c"
  "command_stream bs l0 K h (c\<lparr>eeprom_mem := m\<rparr>) = command_stream bs l0 K h c"
  "command_stream bs l0 K h (c\<lparr>UENUM := e\<rparr>) = command_stream bs l0 K h c"
  "command_stream bs l0 K h (boot_page_erase b c) = command_stream bs l0 K h c"
  "command_stream bs l0 K h (boot_page_fill b w c) = command_stream bs l0 K h c"
  "command_stream bs l0 K h (boot_page_write b c) = command_stream bs l0 K h c"
  "command_stream bs l0 K h (boot_rww_enable c) = command_stream bs l0 K h c"
  "command_stream bs l0 K h (RX_LED_ON c) = command_stream bs l0 K h c"
  "tx_stream l0 out K h (c\<lparr>CurrAddress := a\<rparr>) = tx_stream l0 out K h c"
  "tx_stream l0 out K h (c\<lparr>TIMSK1 := v\<rparr>) = tx_stream l0 out K h c"
  by (rule stream_cong; simp)+

lemma command_fetch:
  assumes "command_stream (b # bs) l0 K h c"
  obtains c' where "FetchNextCommandByte c = Some (b, c')" "command_stream bs l0 K h c'" "core c' = core c"
proof -
  from assms have "rx_stream (b # bs) (replicate K (InTok 3) @ h) c" by (simp add: command_stream_def)
  then obtain c' where c': "FetchNextCommandByte c = Some (b, c')"
      "rx_stream bs (replicate K (InTok 3) @ h) c'" "rx_only c c'" by (rule Fetch_stream)
  then have "command_stream bs l0 K h c'" using assms by (simp add: command_stream_def rx_only_def)
  from that [OF c'(1) this core_rx [OF c'(3)]] show thesis .
qed

lemma command_answer:
  assumes "command_stream [] l0 K h c"
  shows "tx_stream l0 [] K h c"
proof -
  from assms obtain pks where "cdc_on c" "concat pks = []" "list_all (\<lambda>p. p \<noteq> [] \<and> length p \<le> 16) pks"
      "host c = map (OutPkt 4) pks @ replicate K (InTok 3) @ h" "fifo (eps c 3) = []" "in_log c 3 = l0"
    unfolding stream_defs by auto
  moreover from this have "pks = []" by (cases pks) auto
  ultimately show ?thesis by (simp add: tx_stream_def)
qed

lemma Write_byte:
  assumes "tx_stream l0 [] 1 h c"
  obtains c' where "WriteNextResponseByte b c = Some c'" "tx_stream l0 [b] 1 h c'" "core c' = core c"
proof -
  obtain c' where "WriteNextResponseByte b c = Some c'" "tx_stream l0 ([] @ [b]) 1 h c'" "core c' = core c"
    by (rule Write_stream [OF assms]) simp_all
  then show thesis using that by simp
qed

text \<open>A command that reads its arguments and answers \<open>out\<close>: the packet count is what \<^verbatim>\<open>CDC_Task\<close> needs to
  deliver the answer, an empty packet included when the last one is full.\<close>

lemma CDC_Task_answers:
  assumes "command_stream (cmd # bs) l0 (length out div 16 + 1) h c"
    and "\<And>c1. command_stream bs l0 (length out div 16 + 1) h c1 \<Longrightarrow> core c1 = core c \<Longrightarrow>
      \<exists>c2. CDC_Command cmd c1 = Some c2 \<and> tx_stream l0 out (length out div 16 + 1) h c2 \<and> core c2 = k"
  obtains c' where "CDC_Task c = Some c'" "concat (in_log c' 3) = concat l0 @ out" "host c' = h" "core c' = k"
proof -
  let ?c = "(RX_LED_ON (c\<lparr>UENUM := 4\<rparr>))\<lparr>RxLEDPulse := TX_RX_LED_PULSE_PERIOD\<rparr>"
  have "command_stream (cmd # bs) l0 (length out div 16 + 1) h ?c" using assms(1) by simp
  then obtain c1 where c1: "FetchNextCommandByte ?c = Some (cmd, c1)"
      "command_stream bs l0 (length out div 16 + 1) h c1" "core c1 = core ?c" by (rule command_fetch)
  have "core ?c = core c" by (simp add: core_def led_defs)
  with c1 assms(2) [of c1] obtain c2 where c2: "CDC_Command cmd c1 = Some c2"
      "tx_stream l0 out (length out div 16 + 1) h c2" "core c2 = k" by auto
  from c2(2) obtain c' ps where c': "CDC_Finish c2 = Some c'" "in_log c' 3 = l0 @ ps" "concat ps = out"
      "host c' = h" "core c' = core c2" by (rule Finish_stream)
  have "Endpoint_IsOUTReceived (c\<lparr>UENUM := 4\<rparr>)"
    using assms(1) by (simp add: stream_defs cdc_on_def Endpoint_IsOUTReceived_def sel_def cur_def)
  then have "CDC_Task c = Some c'"
    using c1(1) c2(1) c'(1) by (simp add: CDC_Task_def Endpoint_SelectEndpoint_def CDC_RX_EPNUM_def Let_def)
  with c' c2(3) show thesis using that by simp
qed

end
