(* ===== verification/Caterina_Programming.thy ===== *)
theory Caterina_Programming
  imports Caterina_Protocol
begin

text \<open>
  What the programming commands of the boot loader do to flash memory and EEPROM and what the host
  receives, for whole commands (\<^verbatim>\<open>CDC_Task\<close>), over the byte streams of \<^verbatim>\<open>Caterina_Protocol\<close>.
\<close>

lemma coreD:
  assumes "core c' = core c"
  shows "flash c' = flash c" "page_buf c' = page_buf c" "RWWSB c' = RWWSB c" "eeprom_mem c' = eeprom_mem c"
    "CurrAddress c' = CurrAddress c" "Timeout c' = Timeout c" "RunBootloader c' = RunBootloader c"
    "LineEncoding c' = LineEncoding c"
  using assms by (simp_all add: core_def)

lemma core_upd:
  assumes "core c' = core c"
  shows "core (c'\<lparr>CurrAddress := a\<rparr>) = core (c\<lparr>CurrAddress := a\<rparr>)"
    "core (c'\<lparr>eeprom_mem := m\<rparr>) = core (c\<lparr>eeprom_mem := m\<rparr>)" "core (c'\<lparr>Timeout := t\<rparr>) = core (c\<lparr>Timeout := t\<rparr>)"
    "core (boot_page_erase b c') = core (boot_page_erase b c)"
    "core (boot_page_fill b w c') = core (boot_page_fill b w c)"
    "core (boot_page_write b c') = core (boot_page_write b c)"
    "core (boot_rww_enable c') = core (boot_rww_enable c)" "core (c'\<lparr>TIMSK1 := v\<rparr>) = core c"
  by (simp_all add: core_def boot_page_erase_def boot_page_fill_def boot_page_write_def
      boot_rww_enable_def Let_def coreD [OF assms] cong: if_cong option.case_cong)

lemma core_TIMSK1 [simp]: "core (c\<lparr>TIMSK1 := v\<rparr>) = core c"
  by (simp add: core_def)

section \<open>Addresses\<close>

lemma unat_add_of_nat_mod:
  "unat (a + of_nat k :: u32) mod SPM_PAGESIZE = (unat a + k) mod SPM_PAGESIZE"
proof -
  have "unat (a + of_nat k) = (unat a + k) mod 2 ^ 32" by (simp add: unat_word_ariths unat_of_nat mod_simps)
  then show ?thesis by (simp add: SPM_PAGESIZE_def mod_mod_cancel)
qed

lemma z_addr_mod: "z_addr a mod SPM_PAGESIZE = unat a mod SPM_PAGESIZE"
proof -
  have "unat (ucast a :: u16) = unat a mod 2 ^ 16" by (simp add: unsigned_ucast_eq take_bit_eq_mod)
  then show ?thesis by (simp add: z_addr_def FLASH_SIZE_def SPM_PAGESIZE_def mod_mod_cancel)
qed

lemma word_in_page:
  "z_addr (a + of_nat (2 * m)) mod SPM_PAGESIZE div 2 = (unat a mod SPM_PAGESIZE div 2 + m) mod 64"
proof -
  have h: "n mod 128 div 2 = n div 2 mod 64" for n :: nat using mod_mult2_eq [of n 2 64] by simp
  have "(unat a + 2 * m) div 2 = unat a div 2 + m" by simp
  then show ?thesis unfolding z_addr_mod unat_add_of_nat_mod by (simp add: SPM_PAGESIZE_def h mod_simps ac_simps)
qed

section \<open>Writing a block of flash memory\<close>

lemma be_word_eq: "push_bit 8 (ucast (b :: u8)) OR ucast (a :: u8) = (of_le [a, b] :: u16)"
  by (simp add: or.commute)

text \<open>The page buffer after a block: a word that was filled before stays; otherwise the word \<open>i\<close> holds the pair of
  bytes that comes first to this place when the block starts at the word \<open>a\<close> and goes on at the start of the
  page after its end. A last single byte has no effect.\<close>

definition block_buf :: "(nat \<Rightarrow> u16 option) \<Rightarrow> nat \<Rightarrow> u8 list \<Rightarrow> nat \<Rightarrow> u16 option" where
  "block_buf pb a ds i = (case pb i of Some w \<Rightarrow> Some w | None \<Rightarrow>
     (let j = (i + 64 - a) mod 64
      in if i < 64 \<and> 2 * j + 1 < length ds then Some (of_le [ds ! (2 * j), ds ! (2 * j + 1)]) else None))"

lemma block_buf_Nil [simp]: "block_buf pb a [] = pb"
  by (simp add: fun_eq_iff block_buf_def split: option.split)

lemma block_buf_single:
  assumes "even (length pre)"
  shows "block_buf pb a (pre @ [x]) = block_buf pb a pre"
proof -
  from assms obtain m where m: "length pre = 2 * m" by (rule evenE)
  have "2 * j + 1 < length (pre @ [x]) \<longleftrightarrow> 2 * j + 1 < length pre" for j unfolding length_append m by simp presburger
  then show ?thesis by (auto simp: fun_eq_iff block_buf_def nth_append Let_def simp del: of_le.simps split: option.split)
qed

lemma place_of_word:
  assumes "a < 64" "i < 64"
  shows "(i + 64 - a) mod 64 = m mod 64 \<longleftrightarrow> i = (a + m) mod (64 :: nat)"
proof -
  define r where "r = m mod 64"
  have "r < 64" "(a + m) mod 64 = (a + r) mod 64" by (simp_all add: r_def mod_simps)
  moreover have "(a + r) mod 64 = (if a + r < 64 then a + r else a + r - 64)"
    using assms(1) \<open>r < 64\<close> by (simp add: le_mod_geq)
  moreover have "(i + 64 - a) mod 64 = (if a \<le> i then i - a else i + 64 - a)"
    using assms by (simp add: le_mod_geq)
  ultimately show ?thesis unfolding r_def [symmetric] using assms by auto
qed

lemma block_buf_pair:
  assumes "length pre = 2 * m" "a < 64" "i = (a + m) mod 64"
  shows "block_buf pb a (pre @ [x, y]) = (case block_buf pb a pre i of
      None \<Rightarrow> (block_buf pb a pre)(i := Some (of_le [x, y])) | Some _ \<Rightarrow> block_buf pb a pre)"
proof -
  have i: "i < 64" "(i + 64 - a) mod 64 = m mod 64" using place_of_word [OF assms(2), of i m] assms(3) by simp_all
  have old: "block_buf pb a (pre @ [x, y]) k = block_buf pb a pre k" if "(k + 64 - a) mod 64 < m \<or> k \<noteq> i" for k
  proof -
    have "\<not> 64 \<le> k \<Longrightarrow> (k + 64 - a) mod 64 \<noteq> m" if "k \<noteq> i"
      using place_of_word [OF assms(2), of k m] assms(3) that by auto
    with that have "64 \<le> k \<or> (k + 64 - a) mod 64 \<noteq> m" by linarith
    then show ?thesis by (auto simp: block_buf_def nth_append assms(1) Let_def simp del: of_le.simps split: option.split)
  qed
  show ?thesis
  proof (cases "block_buf pb a pre i")
    case None
    then have n: "pb i = None" "\<not> m mod 64 < m"
      using i by (auto simp: block_buf_def assms(1) Let_def simp del: of_le.simps split: option.splits if_splits)
    then have "m mod 64 = m" using mod_less_eq_dividend [of m 64] by linarith
    then have "block_buf pb a (pre @ [x, y]) i = Some (of_le [x, y])"
      using n(1) i by (simp add: block_buf_def nth_append assms(1) del: of_le.simps)
    then show ?thesis using None old by (simp add: fun_eq_iff del: of_le.simps)
  next
    case (Some w)
    have "block_buf pb a (pre @ [x, y]) i = block_buf pb a pre i"
      using Some i by (auto simp: block_buf_def nth_append assms(1) Let_def simp del: of_le.simps split: option.splits if_splits)
    then have "block_buf pb a (pre @ [x, y]) k = block_buf pb a pre k" for k using old [of k] by (cases "k = i") simp_all
    then have "block_buf pb a (pre @ [x, y]) = block_buf pb a pre" by (rule ext)
    then show ?thesis using Some by simp
  qed
qed

lemma fill_next:
  assumes "even (length pre)" "page_buf c = block_buf pb (unat A mod SPM_PAGESIZE div 2) pre"
    "CurrAddress c = A + of_nat (length pre)"
  shows "page_buf (boot_page_fill (CurrAddress c) (of_le [x, y]) c) = block_buf pb (unat A mod SPM_PAGESIZE div 2) (pre @ [x, y])"
proof -
  from assms(1) obtain m where m: "length pre = 2 * m" by (rule evenE)
  have "unat A mod SPM_PAGESIZE < 64 * 2" by (simp add: SPM_PAGESIZE_def)
  then have "unat A mod SPM_PAGESIZE div 2 < 64" by (rule less_mult_imp_div_less)
  from block_buf_pair [OF m this refl, of pb x y] show ?thesis
    using word_in_page [of A m] assms(2,3) by (simp add: boot_page_fill_def Let_def m del: of_le.simps of_nat_mult split: option.split)
qed

lemma block_write_flash_pair:
  "block_write_flash (Suc (Suc n)) False lb c = do {
     (a, c) \<leftarrow> FetchNextCommandByte c;
     (b, c) \<leftarrow> FetchNextCommandByte c;
     let c = boot_page_fill (CurrAddress c) (of_le [a, b]) c;
     block_write_flash n False a (c\<lparr>CurrAddress := CurrAddress c + 2\<rparr>)
   }"
  by (simp add: Let_def be_word_eq del: of_le.simps)

lemma block_write_flash_stream:
  assumes "command_stream (ds @ rest) l0 K h c" "even (length pre)" "a = unat A mod SPM_PAGESIZE div 2"
    "page_buf c = block_buf pb a pre" "CurrAddress c = A + of_nat (length pre)"
  shows "\<exists>c'. block_write_flash (length ds) False lb c = Some c' \<and> command_stream rest l0 K h c' \<and>
    core c' = core (c\<lparr>page_buf := block_buf pb a (pre @ ds), CurrAddress := A + of_nat (2 * (length (pre @ ds) div 2))\<rparr>)"
  using assms
proof (induction ds arbitrary: c pre lb rule: induct_list012)
  case 1
  then have "core c = core (c\<lparr>page_buf := block_buf pb a pre, CurrAddress := A + of_nat (length pre)\<rparr>)" by (simp add: core_def)
  with 1 show ?case by simp
next
  case (2 x)
  then have "command_stream (x # rest) l0 K h c" by simp
  then obtain c1 where c1: "FetchNextCommandByte c = Some (x, c1)" "command_stream rest l0 K h c1" "core c1 = core c"
    by (rule command_fetch)
  have "2 * (length (pre @ [x]) div 2) = length pre" using 2(2) by simp
  moreover have "core c = core (c\<lparr>page_buf := block_buf pb a pre, CurrAddress := A + of_nat (length pre)\<rparr>)"
    using 2(4,5) by (simp add: core_def)
  ultimately show ?case using c1 block_buf_single [OF 2(2), of pb a x] by (simp del: of_nat_mult)
next
  case (3 x y ds)
  from 3(3) have "command_stream (x # y # ds @ rest) l0 K h c" by simp
  then obtain c1 where c1: "FetchNextCommandByte c = Some (x, c1)"
      "command_stream (y # ds @ rest) l0 K h c1" "core c1 = core c" by (rule command_fetch)
  from c1(2) obtain c2 where c2: "FetchNextCommandByte c1 = Some (y, c2)"
      "command_stream (ds @ rest) l0 K h c2" "core c2 = core c1" by (rule command_fetch)
  define d where "d = boot_page_fill (CurrAddress c2) (of_le [x, y]) c2"
  have k: "core c2 = core c" using c1(3) c2(3) by simp
  have buf: "page_buf d = block_buf pb a (pre @ [x, y])"
    unfolding d_def 3(5) using fill_next [of pre c2 pb A x y] 3(4-7) coreD [OF k] by (simp del: of_le.simps)
  have d: "flash d = flash c" "RWWSB d = RWWSB c" "eeprom_mem d = eeprom_mem c" "CurrAddress d = CurrAddress c"
      "Timeout d = Timeout c" "RunBootloader d = RunBootloader c" "LineEncoding d = LineEncoding c"
    by (simp_all add: d_def boot_page_fill_def Let_def coreD [OF k])
  let ?d = "d\<lparr>CurrAddress := CurrAddress d + 2\<rparr>"
  have "\<exists>c'. block_write_flash (length ds) False x ?d = Some c' \<and> command_stream rest l0 K h c' \<and>
    core c' = core (?d\<lparr>page_buf := block_buf pb a ((pre @ [x, y]) @ ds),
      CurrAddress := A + of_nat (2 * (length ((pre @ [x, y]) @ ds) div 2))\<rparr>)"
    by (rule 3(1)) (use 3(4-7) c2(2) buf d in \<open>simp_all add: d_def\<close>)
  then show ?case
    using c1(1) c2(1) by (simp add: block_write_flash_pair d_def [symmetric] Let_def del: of_le.simps block_write_flash.simps of_nat_mult)
      (simp add: core_def d)
qed

text \<open>The content of a page after a block has been written to it: the data, then erased bytes.\<close>

definition programmed :: "nat \<Rightarrow> u8 list \<Rightarrow> mem \<Rightarrow> mem" where
  "programmed p ds m x = (if p \<le> x \<and> x < p + length ds then ds ! (x - p)
     else if p \<le> x \<and> x < p + SPM_PAGESIZE then 0xFF else m x)"

lemma buf_byte_past: "even (length bs) \<Longrightarrow> length bs \<le> k \<Longrightarrow> buf_byte (buf_of bs) k = 0xFF"
  by (auto simp: buf_byte_def buf_of_def)

lemma erased_and: "(255 :: u8) AND w = w"
proof -
  have "(255 :: u8) = - 1" by simp
  then show ?thesis by (simp only: and.left_neutral)
qed

text \<open>A page written from the buffer after it has been erased.\<close>

definition page_written :: "nat \<Rightarrow> (nat \<Rightarrow> u16 option) \<Rightarrow> mem \<Rightarrow> mem" where
  "page_written p pb m x = (if p \<le> x \<and> x < p + SPM_PAGESIZE then buf_byte pb (x - p) else m x)"

lemma flash_page_written:
  assumes "flash c = flash (boot_page_erase A d)"
  shows "flash (boot_page_write A c) = page_written (page_of (z_addr A)) (page_buf c) (flash d)"
  using assms by (auto simp: fun_eq_iff boot_page_write_def boot_page_erase_def Let_def page_written_def erased_and)

lemma block_buf_aligned: "length ds \<le> SPM_PAGESIZE \<Longrightarrow> block_buf (\<lambda>_. None) 0 ds = buf_of ds"
  by (auto simp: fun_eq_iff block_buf_def buf_of_def SPM_PAGESIZE_def Let_def simp del: of_le.simps)

lemma page_programmed:
  assumes "even (length ds)" "length ds \<le> SPM_PAGESIZE"
  shows "page_written p (block_buf (\<lambda>_. None) 0 ds) m = programmed p ds m"
proof
  fix x
  show "page_written p (block_buf (\<lambda>_. None) 0 ds) m x = programmed p ds m x"
    unfolding block_buf_aligned [OF assms(2)]
    using assms buf_byte_buf_of [OF assms(1), of "x - p"] buf_byte_past [OF assms(1), of "x - p"]
    by (auto simp: page_written_def programmed_def)
qed

lemma block_size:
  assumes "n < 65536"
  shows "unat (push_bit 8 (ucast (of_nat (n div 256) :: u8)) OR ucast (of_nat n :: u8) :: u16) = n"
proof -
  have "of_nat (n div 256) = (ucast (drop_bit 8 (of_nat n :: u16)) :: u8)"
    using drop_bit_eq_div [of 8 n] by (simp add: bit_eq_iff bit_simps flip: drop_bit_eq_div)
  moreover have "of_nat n = (ucast (of_nat n :: u16) :: u8)" by (simp add: bit_eq_iff bit_simps)
  ultimately have "[of_nat n, of_nat (n div 256)] = le_bytes 2 (of_nat n :: u16)" unfolding le_bytes_2 by simp
  then have "(of_le [of_nat n, of_nat (n div 256)] :: u16) = of_nat n" by (simp only:) (rule of_le_le_bytes; simp)
  then show ?thesis using assms by (simp only: be_word_eq) (simp add: unat_of_nat)
qed

text \<open>The four bytes that introduce a block of \<open>n\<close> bytes of memory type \<open>ty\<close>.\<close>

definition block_header :: "char \<Rightarrow> nat \<Rightarrow> char \<Rightarrow> u8 list" where
  "block_header cmd n ty = [chr_of cmd, of_nat (n div 256), of_nat n, chr_of ty]"

lemma block_command:
  assumes "n < 65536" "ty = CHR ''E'' \<or> ty = CHR ''F''"
    "command_stream (of_nat (n div 256) # of_nat n # chr_of ty # bs) l0 K h c"
  obtains c1 where "command_stream bs l0 K h c1" "core c1 = core c"
    "ReadWriteMemoryBlock cmd c = map_option (\<lambda>c. c\<lparr>TIMSK1 := OCIE1A\<rparr>)
       (if cmd = chr_of CHR ''g'' then memory_read n (chr_of ty) c1 else memory_write n (chr_of ty) c1)"
proof -
  from assms(3) obtain c1 where c1: "FetchNextCommandByte c = Some (of_nat (n div 256), c1)"
      "command_stream (of_nat n # chr_of ty # bs) l0 K h c1" "core c1 = core c" by (rule command_fetch)
  from c1(2) obtain c2 where c2: "FetchNextCommandByte c1 = Some (of_nat n, c2)"
      "command_stream (chr_of ty # bs) l0 K h c2" "core c2 = core c1" by (rule command_fetch)
  from c2(2) obtain c3 where c3: "FetchNextCommandByte c2 = Some (chr_of ty, c3)"
      "command_stream bs l0 K h c3" "core c3 = core c2" by (rule command_fetch)
  let ?c = "c3\<lparr>TIMSK1 := 0\<rparr>"
  have "ReadWriteMemoryBlock cmd c = map_option (\<lambda>c. c\<lparr>TIMSK1 := OCIE1A\<rparr>)
       (if cmd = chr_of CHR ''g'' then memory_read n (chr_of ty) ?c else memory_write n (chr_of ty) ?c)"
    using c1(1) c2(1) c3(1) assms(2) block_size [OF assms(1)]
    by (auto simp: ReadWriteMemoryBlock_def Let_def map_conv_bind_option comp_def simp del: push_bit_of_nat)
  then show thesis using that [of ?c] c1(3) c2(3) c3 by simp
qed

lemma memory_command:
  "cmd = CHR ''B'' \<or> cmd = CHR ''g'' \<Longrightarrow>
    CDC_Command (chr_of cmd) c = ReadWriteMemoryBlock (chr_of cmd) (c\<lparr>Timeout := 0\<rparr>)"
  by (auto simp: CDC_Command_def session_commands_def CDC_Command_memory_def chr_of_def)

lemma erase_fields [simp]:
  "page_buf (boot_page_erase a c) = page_buf c" "CurrAddress (boot_page_erase a c) = CurrAddress c"
  by (simp_all add: boot_page_erase_def Let_def)

lemma buf_of_Nil [simp]: "buf_of [] = (\<lambda>_. None)"
  by (simp add: fun_eq_iff buf_of_def)

lemma memory_write_flash_stream:
  assumes "command_stream ds l0 1 h c" "A = CurrAddress c"
  shows "\<exists>c'. memory_write (length ds) (chr_of CHR ''F'') c = Some c' \<and> tx_stream l0 [13] 1 h c' \<and>
    core c' = core (c\<lparr>flash := page_written (page_of (z_addr A)) (block_buf (page_buf c) (unat A mod SPM_PAGESIZE div 2) ds) (flash c),
      page_buf := (\<lambda>_. None), RWWSB := RWWSB c \<or> in_rww (page_of (z_addr A)), CurrAddress := A + of_nat (2 * (length ds div 2))\<rparr>)"
proof -
  let ?d = "boot_page_erase A c" and ?b = "block_buf (page_buf c) (unat A mod SPM_PAGESIZE div 2)"
  have "\<exists>c1. block_write_flash (length ds) False 0 ?d = Some c1 \<and> command_stream [] l0 1 h c1 \<and>
      core c1 = core (?d\<lparr>page_buf := ?b ([] @ ds), CurrAddress := A + of_nat (2 * (length ([] @ ds) div 2))\<rparr>)"
    by (rule block_write_flash_stream) (use assms in simp_all)
  then obtain c1 where c1: "block_write_flash (length ds) False 0 ?d = Some c1" "command_stream [] l0 1 h c1"
      "core c1 = core (?d\<lparr>page_buf := ?b ds, CurrAddress := A + of_nat (2 * (length ds div 2))\<rparr>)" by auto
  let ?e = "boot_page_write A c1"
  have "tx_stream l0 [] 1 h ?e" using c1(2) by (intro command_answer) simp
  then obtain c' where c': "WriteNextResponseByte 13 ?e = Some c'" "tx_stream l0 [13] 1 h c'" "core c' = core ?e"
    by (rule Write_byte)
  have "flash ?e = page_written (page_of (z_addr A)) (?b ds) (flash c)"
    using flash_page_written [of c1 A c] coreD [OF c1(3)] by simp
  then have "core ?e = core (c\<lparr>flash := page_written (page_of (z_addr A)) (?b ds) (flash c), page_buf := (\<lambda>_. None),
      RWWSB := RWWSB c \<or> in_rww (page_of (z_addr A)), CurrAddress := A + of_nat (2 * (length ds div 2))\<rparr>)"
    using coreD [OF c1(3)] by (simp add: core_def) (auto simp: boot_page_write_def boot_page_erase_def Let_def)
  with c' c1(1) assms(2) show ?thesis by (simp add: memory_write_def Let_def)
qed

lemma command_block:
  assumes "n < 65536" "cmd = CHR ''B'' \<or> cmd = CHR ''g''" "ty = CHR ''E'' \<or> ty = CHR ''F''"
    "command_stream (block_header cmd n ty @ bs) l0 (length out div 16 + 1) h c"
    and "\<And>c1. command_stream bs l0 (length out div 16 + 1) h c1 \<Longrightarrow> core c1 = core (c\<lparr>Timeout := 0\<rparr>) \<Longrightarrow>
      \<exists>c2. (if cmd = CHR ''g'' then memory_read n (chr_of ty) c1 else memory_write n (chr_of ty) c1) = Some c2 \<and>
        tx_stream l0 out (length out div 16 + 1) h c2 \<and> core c2 = k"
  obtains c' where "CDC_Task c = Some c'" "concat (in_log c' 3) = concat l0 @ out" "host c' = h" "core c' = k"
proof -
  let ?bs = "of_nat (n div 256) # of_nat n # chr_of ty # bs" and ?K = "length out div 16 + 1"
  have g: "(chr_of cmd = chr_of CHR ''g'') = (cmd = CHR ''g'')" using assms(2) by (auto simp: chr_of_def)
  have "\<exists>c2. CDC_Command (chr_of cmd) c1 = Some c2 \<and> tx_stream l0 out ?K h c2 \<and> core c2 = k"
    if c1: "command_stream ?bs l0 ?K h c1" "core c1 = core c" for c1
  proof -
    from c1(1) have "command_stream ?bs l0 ?K h (c1\<lparr>Timeout := 0\<rparr>)" by simp
    from block_command [OF assms(1,3) this, where cmd = "chr_of cmd"]
    obtain c2 where c2: "command_stream bs l0 ?K h c2" "core c2 = core (c1\<lparr>Timeout := 0\<rparr>)"
        "ReadWriteMemoryBlock (chr_of cmd) (c1\<lparr>Timeout := 0\<rparr>) = map_option (\<lambda>c. c\<lparr>TIMSK1 := OCIE1A\<rparr>)
          (if cmd = CHR ''g'' then memory_read n (chr_of ty) c2 else memory_write n (chr_of ty) c2)"
      unfolding g by blast
    have "core c2 = core (c\<lparr>Timeout := 0\<rparr>)" using c2(2) core_upd(3) [OF c1(2)] by simp
    from assms(5) [OF c2(1) this] c2(3) show ?thesis by (auto simp: memory_command [OF assms(2)])
  qed
  then show thesis
    using CDC_Task_answers [of "chr_of cmd" ?bs l0 out h c k] assms(4) that by (auto simp: block_header_def)
qed

text \<open>
  C27. Writing a block of flash memory. When the host sends \<^verbatim>\<open>B\<close>, the size, \<^verbatim>\<open>F\<close> and that many bytes, split into
  packets in any way, and then collects one packet, \<^verbatim>\<open>CDC_Task\<close> returns, whatever the size, the address and the
  page buffer are. Only the page of the address has changed, the EEPROM has not, the address has
  advanced by the whole words of the block, the page buffer is empty, and the host has received a carriage
  return. The page holds the page buffer after the block (\<open>block_buf\<close>): words left in the buffer by
  earlier commands are not overwritten, a block that does not start at the start of the page goes on at
  the start of the same page, what exceeds the page is lost, and so is the last byte of an odd number.
  For an even number of at most 128 bytes, an address at the start of a page and an empty buffer this is
  what the host means: the page holds the bytes followed by \<open>0xFF\<close>.
\<close>

theorem flash_block_write:
  assumes "command_stream (block_header CHR ''B'' (length ds) CHR ''F'' @ ds) (in_log c 3) 1 h c" "length ds < 65536"
    "A = CurrAddress c"
  shows "\<exists>c'. CDC_Task c = Some c' \<and>
    flash c' = page_written (page_of (z_addr A)) (block_buf (page_buf c) (unat A mod SPM_PAGESIZE div 2) ds) (flash c) \<and>
    (even (length ds) \<and> length ds \<le> SPM_PAGESIZE \<and> unat A mod SPM_PAGESIZE = 0 \<and> page_buf c = (\<lambda>_. None) \<longrightarrow>
      flash c' = programmed (z_addr A) ds (flash c)) \<and>
    page_buf c' = (\<lambda>_. None) \<and> eeprom_mem c' = eeprom_mem c \<and> CurrAddress c' = A + of_nat (2 * (length ds div 2)) \<and>
    Timeout c' = 0 \<and> concat (in_log c' 3) = concat (in_log c 3) @ [13] \<and> host c' = h"
proof -
  let ?f = "page_written (page_of (z_addr A)) (block_buf (page_buf c) (unat A mod SPM_PAGESIZE div 2) ds) (flash c)"
  let ?k = "core (c\<lparr>flash := ?f, page_buf := (\<lambda>_. None), RWWSB := RWWSB c \<or> in_rww (page_of (z_addr A)),
      CurrAddress := A + of_nat (2 * (length ds div 2)), Timeout := 0\<rparr>)"
  have "\<exists>c2. memory_write (length ds) (chr_of CHR ''F'') c1 = Some c2 \<and> tx_stream (in_log c 3) [13] 1 h c2 \<and> core c2 = ?k"
    if c1: "command_stream ds (in_log c 3) 1 h c1" "core c1 = core (c\<lparr>Timeout := 0\<rparr>)" for c1
    using memory_write_flash_stream [OF c1(1), of A] assms(3) coreD [OF c1(2)] by (auto simp: core_def)
  then obtain c' where c': "CDC_Task c = Some c'" "concat (in_log c' 3) = concat (in_log c 3) @ [13]" "host c' = h"
      "core c' = ?k"
    using command_block [OF assms(2), of "CHR ''B''" "CHR ''F''" ds "in_log c 3" "[13]" h c ?k] assms(1) by auto
  have "?f = programmed (z_addr A) ds (flash c)"
    if "even (length ds) \<and> length ds \<le> SPM_PAGESIZE \<and> unat A mod SPM_PAGESIZE = 0 \<and> page_buf c = (\<lambda>_. None)"
    using that page_programmed [of ds "z_addr A" "flash c"] by (simp add: page_of_aligned z_addr_mod)
  then show ?thesis using c' coreD [OF c'(4)] by simp
qed

lemma cat_configured_stream:
  assumes "list_all (\<lambda>p. p \<noteq> [] \<and> length p \<le> 16) pks"
  shows "command_stream (bs @ concat pks) [] K h (cat_configured bs (map (OutPkt 4) pks @ replicate K (InTok 3) @ h))"
proof -
  let ?c = "cat_configured bs (map (OutPkt 4) pks @ replicate K (InTok 3) @ h)"
  have "eps ?c 4 = (configured_ep 0x80 0x12 ep_reset)\<lparr>fifo := bs, RXOUTI := True\<rparr>"
    "eps ?c 3 = configured_ep 0x81 0x12 ep_reset"
    by (simp_all add: cat_configured_def on_ep_def cat_attached_def cat_reset_def usb_reset_def usb.defs usb_simps)
  then have "cdc_on ?c" "fifo (eps ?c 4) = bs" "fifo (eps ?c 3) = []"
    by (simp_all add: cdc_on_def cat_configured_fields configured_ep_def ep_flush_def ep_reset_def ep_in_def)
  then show ?thesis using assms unfolding command_stream_def rx_stream_def
    by (auto simp: cat_configured_fields)
qed

theorem flash_block_write_witness:
  "(\<exists>c'. CDC_Task (cat_configured [66, 0, 4, 70, 1, 2] (map (OutPkt 4) [[3, 4]] @ replicate 1 (InTok 3) @ [Sof])) = Some c' \<and>
     flash c' 2 = 3 \<and> flash c' 4 = 0xFF \<and> concat (in_log c' 3) = [13]) \<and>
   (\<exists>c'. CDC_Task (cat_configured [66, 0, 3, 70, 1, 2, 3] (map (OutPkt 4) [] @ replicate 1 (InTok 3) @ [Sof])) = Some c' \<and>
     flash c' 0 = 1 \<and> flash c' 2 = 0xFF)"
proof
  let ?c = "cat_configured [66, 0, 4, 70, 1, 2] (map (OutPkt 4) [[3, 4]] @ replicate 1 (InTok 3) @ [Sof])"
  have "command_stream ([66, 0, 4, 70, 1, 2] @ concat [[3, 4]]) [] 1 [Sof] ?c"
    by (rule cat_configured_stream) simp
  then have "command_stream (block_header CHR ''B'' (length [1, 2, 3, 4 :: u8]) CHR ''F'' @ [1, 2, 3, 4]) (in_log ?c 3) 1 [Sof] ?c"
    by (simp add: block_header_def chr_of_def cat_configured_fields)
  from flash_block_write [OF this _ refl] show "\<exists>c'. CDC_Task ?c = Some c' \<and>
     flash c' 2 = 3 \<and> flash c' 4 = 0xFF \<and> concat (in_log c' 3) = [13]"
    by (auto simp: cat_configured_fields SPM_PAGESIZE_def page_written_def page_of_def z_addr_def block_buf_def buf_byte_def
        of_le_pair simp del: of_le.simps)
next
  let ?c = "cat_configured [66, 0, 3, 70, 1, 2, 3] (map (OutPkt 4) [] @ replicate 1 (InTok 3) @ [Sof])"
  have "command_stream ([66, 0, 3, 70, 1, 2, 3] @ concat []) [] 1 [Sof] ?c" by (rule cat_configured_stream) simp
  then have "command_stream (block_header CHR ''B'' (length [1, 2, 3 :: u8]) CHR ''F'' @ [1, 2, 3]) (in_log ?c 3) 1 [Sof] ?c"
    by (simp add: block_header_def chr_of_def cat_configured_fields)
  from flash_block_write [OF this _ refl] show "\<exists>c'. CDC_Task ?c = Some c' \<and> flash c' 0 = 1 \<and> flash c' 2 = 0xFF"
    by (auto simp: cat_configured_fields SPM_PAGESIZE_def page_written_def page_of_def z_addr_def block_buf_def buf_byte_def
        of_le_pair simp del: of_le.simps)
qed

section \<open>Reading flash memory\<close>

lemma pgm_core: "core c' = core c \<Longrightarrow> pgm_read_byte a c' = pgm_read_byte a c"
  by (simp add: pgm_read_byte_def coreD [of c' c])

lemma even_or_1: "even a \<Longrightarrow> a OR 1 = (a + 1 :: u32)"
  using or_one_eq [of a] by simp

lemma block_read_flash_stream:
  assumes "tx_stream l0 out K h c" "even (CurrAddress c)" "(length out + n) div 16 \<le> K"
  shows "\<exists>c'. block_read_flash n hb c = Some c' \<and>
    tx_stream l0 (out @ map (\<lambda>i. pgm_read_byte (CurrAddress c + of_nat (i + of_bool hb)) c) [0..<n]) K h c' \<and>
    core c' = core (c\<lparr>CurrAddress := CurrAddress c + of_nat (2 * ((n + of_bool hb) div 2))\<rparr>)"
  using assms
proof (induction n arbitrary: hb out c)
  case 0
  then show ?case by (cases hb) simp_all
next
  case (Suc n)
  let ?a = "CurrAddress c OR (if hb then 1 else 0)"
  have a: "?a = CurrAddress c + of_nat (of_bool hb)" using even_or_1 [OF Suc(3)] by simp
  have "length out div 16 \<le> K" using Suc(4) div_le_mono [of "length out" "length out + Suc n" 16] by linarith
  with Suc(2) obtain c1 where c1: "WriteNextResponseByte (pgm_read_byte ?a c) c = Some c1"
      "tx_stream l0 (out @ [pgm_read_byte ?a c]) K h c1" "core c1 = core c" by (rule Write_stream)
  define d where "d = (if hb then c1\<lparr>CurrAddress := CurrAddress c1 + 2\<rparr> else c1)"
  have tx: "tx_stream l0 (out @ [pgm_read_byte ?a c]) K h d" using c1(2) by (cases hb) (simp_all add: d_def)
  have k: "core d = core (c\<lparr>CurrAddress := CurrAddress c + of_nat (2 * of_bool hb)\<rparr>)"
    using c1(3) by (simp add: core_def d_def)
  have "\<exists>c'. block_read_flash n (\<not> hb) d = Some c' \<and>
    tx_stream l0 ((out @ [pgm_read_byte ?a c]) @ map (\<lambda>i. pgm_read_byte (CurrAddress d + of_nat (i + of_bool (\<not> hb))) d) [0..<n]) K h c' \<and>
    core c' = core (d\<lparr>CurrAddress := CurrAddress d + of_nat (2 * ((n + of_bool (\<not> hb)) div 2))\<rparr>)"
    by (rule Suc(1)) (use tx Suc(3,4) coreD(5) [OF k] in simp_all)
  then obtain c' where c': "block_read_flash n (\<not> hb) d = Some c'"
      "tx_stream l0 ((out @ [pgm_read_byte ?a c]) @ map (\<lambda>i. pgm_read_byte (CurrAddress d + of_nat (i + of_bool (\<not> hb))) d) [0..<n]) K h c'"
      "core c' = core (d\<lparr>CurrAddress := CurrAddress d + of_nat (2 * ((n + of_bool (\<not> hb)) div 2))\<rparr>)"
    by blast
  have "pgm_read_byte x d = pgm_read_byte x c" for x
    using coreD [OF k] by (simp add: pgm_read_byte_def)
  moreover have "CurrAddress d + of_nat (i + of_bool (\<not> hb)) = CurrAddress c + of_nat (Suc i + of_bool hb)" for i
    using coreD(5) [OF k] by (cases hb) (simp_all add: ac_simps)
  ultimately have out: "[pgm_read_byte ?a c] @ map (\<lambda>i. pgm_read_byte (CurrAddress d + of_nat (i + of_bool (\<not> hb))) d) [0..<n] =
      map (\<lambda>i. pgm_read_byte (CurrAddress c + of_nat (i + of_bool hb)) c) [0..<Suc n]"
    using a by (simp only: map_upt_Suc) simp
  have "CurrAddress d + of_nat (2 * ((n + of_bool (\<not> hb)) div 2)) =
      CurrAddress c + of_nat (2 * ((Suc n + of_bool hb) div 2))"
    using coreD(5) [OF k] by (cases hb) (simp_all add: ac_simps)
  then have "core c' = core (c\<lparr>CurrAddress := CurrAddress c + of_nat (2 * ((Suc n + of_bool hb) div 2))\<rparr>)"
    using c'(3) coreD [OF k] by (simp add: core_def)
  with c'(1,2) c1(1) out show ?case by (auto simp: Let_def d_def [symmetric])
qed

text \<open>
  C28. Reading back. When the host sends \<^verbatim>\<open>g\<close>, the size \<open>n\<close> and \<^verbatim>\<open>F\<close> at an even address and then collects
  \<open>n div 16 + 1\<close> packets, \<^verbatim>\<open>CDC_Task\<close> delivers exactly the \<open>n\<close> bytes of flash memory from that address, for
  every \<open>n\<close> that fits the 16-bit size, and changes neither memory. The read-while-write section is
  readable even when a page has just been written.
\<close>

theorem flash_block_read:
  assumes "command_stream (block_header CHR ''g'' n CHR ''F'') (in_log c 3) (n div 16 + 1) h c"
    "n < 65536" "even (CurrAddress c)"
  shows "\<exists>c'. CDC_Task c = Some c' \<and> flash c' = flash c \<and> eeprom_mem c' = eeprom_mem c \<and>
    concat (in_log c' 3) = concat (in_log c 3) @ map (\<lambda>i. flash c (z_addr (CurrAddress c + of_nat i))) [0..<n] \<and>
    CurrAddress c' = CurrAddress c + of_nat (2 * (n div 2)) \<and> host c' = h"
proof -
  let ?out = "map (\<lambda>i. flash c (z_addr (CurrAddress c + of_nat i))) [0..<n]" and ?K = "n div 16 + 1"
  let ?k = "core (c\<lparr>page_buf := (\<lambda>_. None), RWWSB := False, Timeout := 0,
      CurrAddress := CurrAddress c + of_nat (2 * (n div 2))\<rparr>)"
  have "\<exists>c2. memory_read n (chr_of CHR ''F'') c1 = Some c2 \<and> tx_stream (in_log c 3) ?out ?K h c2 \<and> core c2 = ?k"
    if c1: "command_stream [] (in_log c 3) ?K h c1" "core c1 = core (c\<lparr>Timeout := 0\<rparr>)" for c1
  proof -
    let ?d = "boot_rww_enable c1"
    have d: "core ?d = core (c\<lparr>page_buf := (\<lambda>_. None), RWWSB := False, Timeout := 0\<rparr>)"
      using coreD [OF c1(2)] by (simp add: core_def boot_rww_enable_def)
    have "tx_stream (in_log c 3) [] ?K h ?d" using c1(1) by (intro command_answer) simp
    from block_read_flash_stream [OF this, of n False] assms(3) coreD [OF d]
    obtain c2 where "block_read_flash n False ?d = Some c2"
      "tx_stream (in_log c 3) (map (\<lambda>i. pgm_read_byte (CurrAddress c + of_nat i) ?d) [0..<n]) ?K h c2"
      "core c2 = core (?d\<lparr>CurrAddress := CurrAddress c + of_nat (2 * (n div 2))\<rparr>)" by auto
    moreover have "pgm_read_byte x ?d = flash c (z_addr x)" for x
      using coreD [OF d] by (simp add: pgm_read_byte_def)
    ultimately show ?thesis using coreD [OF d] by (simp add: memory_read_def) (simp add: core_def)
  qed
  then obtain c' where "CDC_Task c = Some c'" "concat (in_log c' 3) = concat (in_log c 3) @ ?out" "host c' = h"
      "core c' = ?k"
    using command_block [of n "CHR ''g''" "CHR ''F''" "[]" "in_log c 3" ?out h c ?k] assms(1,2) by auto
  then show ?thesis using coreD [of c'] by auto
qed

theorem flash_block_read_witness:
  "\<exists>c'. CDC_Task (cat_configured [103, 0] (map (OutPkt 4) [[18], [70]] @ replicate 2 (InTok 3) @ [])) = Some c' \<and>
     concat (in_log c' 3) = replicate 18 0xFF"
proof -
  let ?c = "cat_configured [103, 0] (map (OutPkt 4) [[18], [70]] @ replicate 2 (InTok 3) @ [])"
  have "command_stream ([103, 0] @ concat [[18], [70]]) [] 2 [] ?c" by (rule cat_configured_stream) simp
  then have "command_stream (block_header CHR ''g'' 18 CHR ''F'') (in_log ?c 3) (18 div 16 + 1) [] ?c"
    by (simp add: block_header_def chr_of_def cat_configured_fields numeral_2_eq_2)
  from flash_block_read [OF this] obtain c' where "CDC_Task ?c = Some c'"
      "concat (in_log c' 3) = concat (in_log ?c 3) @ map (\<lambda>i. flash ?c (z_addr (CurrAddress ?c + of_nat i))) [0..<18]"
    by (auto simp: cat_configured_fields)
  then show ?thesis by (auto simp: cat_configured_fields map_replicate_const)
qed

section \<open>Writing the EEPROM\<close>

lemma ee_addr_eq: "ee_addr a = unat a div 2 mod 65536"
proof -
  have "unat (ucast (drop_bit 1 a) :: u16) = unat (drop_bit 1 a) mod 2 ^ 16"
    by (simp add: unsigned_ucast_eq take_bit_eq_mod)
  moreover have "unat (drop_bit 1 a) = unat a div 2" by (simp add: drop_bit_eq_div unat_div)
  ultimately show ?thesis by (simp add: ee_addr_def)
qed

lemma ee_addr_next: "ee_addr a < 65535 \<Longrightarrow> ee_addr (a + 2) = Suc (ee_addr a)"
proof -
  assume less: "ee_addr a < 65535"
  have "(m mod 4294967296) div 2 mod 65536 = m div 2 mod 65536" for m :: nat
    using mod_mult2_eq [of m 2 2147483648] by (simp add: mod_mod_cancel)
  then have "unat (a + 2) div 2 mod 65536 = (unat a div 2 + 1) mod 65536" by (simp add: unat_word_ariths)
  then show ?thesis using less by (simp add: ee_addr_eq mod_Suc)
qed

lemma block_write_eeprom_stream:
  assumes "command_stream (ds @ rest) l0 K h c" "ee_addr (CurrAddress c) + length ds \<le> 65535"
  shows "\<exists>c'. block_write_eeprom (length ds) c = Some c' \<and> command_stream rest l0 K h c' \<and>
    core c' = core (c\<lparr>eeprom_mem := ee_put (eeprom_mem c) (ee_addr (CurrAddress c)) ds,
      CurrAddress := CurrAddress c + of_nat (2 * length ds)\<rparr>)"
  using assms
proof (induction ds arbitrary: c)
  case Nil
  then show ?case by simp
next
  case (Cons b ds)
  from Cons(2) have "command_stream (b # ds @ rest) l0 K h c" by simp
  then obtain c1 where c1: "FetchNextCommandByte c = Some (b, c1)" "command_stream (ds @ rest) l0 K h c1"
      "core c1 = core c" by (rule command_fetch)
  define d where "d = c1\<lparr>eeprom_mem := ee_update (eeprom_mem c) (ee_addr (CurrAddress c)) b, CurrAddress := CurrAddress c + 2\<rparr>"
  have upd: "ee_update (eeprom_mem c) x b = ee_write (eeprom_mem c) x b" for x
    by (simp add: ee_update_write ee_write_def)
  have "\<exists>c'. block_write_eeprom (length ds) d = Some c' \<and> command_stream rest l0 K h c' \<and>
    core c' = core (d\<lparr>eeprom_mem := ee_put (eeprom_mem d) (ee_addr (CurrAddress d)) ds,
      CurrAddress := CurrAddress d + of_nat (2 * length ds)\<rparr>)"
    by (rule Cons(1)) (use c1(2) Cons(3) in \<open>simp_all add: d_def ee_addr_next\<close>)
  moreover have "block_write_eeprom (length (b # ds)) c = block_write_eeprom (length ds) d"
    using c1(1) by (simp add: Let_def d_def upd coreD [OF c1(3)])
  moreover have "ee_addr (CurrAddress d) = Suc (ee_addr (CurrAddress c))" using Cons(3) by (simp add: d_def ee_addr_next)
  ultimately show ?case by (simp add: core_def d_def coreD [OF c1(3)] ac_simps)
qed

text \<open>
  C29. Writing the EEPROM. When the host sends \<^verbatim>\<open>B\<close>, the size, \<^verbatim>\<open>E\<close> and bytes that fit into the EEPROM
  and then collects one packet, \<^verbatim>\<open>CDC_Task\<close> leaves them in the EEPROM, from half the current address on, in the way the
  firmware's \<^verbatim>\<open>EEPROM.put\<close> would have written them; flash memory is as before and the host has received a
  carriage return.
\<close>

theorem eeprom_block_write:
  assumes "command_stream (block_header CHR ''B'' (length ds) CHR ''E'' @ ds) (in_log c 3) 1 h c"
    "ee_addr (CurrAddress c) + length ds \<le> E2SIZE"
  shows "\<exists>c'. CDC_Task c = Some c' \<and>
    eeprom_mem c' = ee_put (eeprom_mem c) (ee_addr (CurrAddress c)) ds \<and>
    flash c' = flash c \<and> page_buf c' = page_buf c \<and> CurrAddress c' = CurrAddress c + of_nat (2 * length ds) \<and>
    concat (in_log c' 3) = concat (in_log c 3) @ [13] \<and> host c' = h"
proof -
  have fits: "ee_addr (CurrAddress c) + length ds \<le> 65535" using assms(2) by (simp add: E2SIZE_def)
  let ?k = "core (c\<lparr>eeprom_mem := ee_put (eeprom_mem c) (ee_addr (CurrAddress c)) ds, Timeout := 0,
      CurrAddress := CurrAddress c + of_nat (2 * length ds)\<rparr>)"
  have "\<exists>c2. memory_write (length ds) (chr_of CHR ''E'') c1 = Some c2 \<and> tx_stream (in_log c 3) [13] 1 h c2 \<and> core c2 = ?k"
    if c1: "command_stream ds (in_log c 3) 1 h c1" "core c1 = core (c\<lparr>Timeout := 0\<rparr>)" for c1
  proof -
    from block_write_eeprom_stream [of ds "[]" "in_log c 3" 1 h c1] c1(1) fits coreD [OF c1(2)]
    obtain c2 where c2: "block_write_eeprom (length ds) c1 = Some c2" "command_stream [] (in_log c 3) 1 h c2"
        "core c2 = core (c1\<lparr>eeprom_mem := ee_put (eeprom_mem c) (ee_addr (CurrAddress c)) ds,
          CurrAddress := CurrAddress c + of_nat (2 * length ds)\<rparr>)" by auto
    from command_answer [OF c2(2)] obtain c3 where "WriteNextResponseByte 13 c2 = Some c3"
        "tx_stream (in_log c 3) [13] 1 h c3" "core c3 = core c2" by (rule Write_byte)
    with c2 coreD [OF c1(2)] show ?thesis by (simp add: memory_write_def chr_of_def) (simp add: core_def)
  qed
  moreover have "length ds < 65536" using fits by simp
  ultimately obtain c' where "CDC_Task c = Some c'" "concat (in_log c' 3) = concat (in_log c 3) @ [13]" "host c' = h"
      "core c' = ?k"
    using command_block [of "length ds" "CHR ''B''" "CHR ''E''" ds "in_log c 3" "[13]" h c ?k] assms(1) by auto
  then show ?thesis using coreD [of c'] by auto
qed

theorem eeprom_block_write_witness:
  "\<exists>c'. CDC_Task (cat_configured [66, 0, 2] (map (OutPkt 4) [[69, 7], [9]] @ replicate 1 (InTok 3) @ [])) = Some c' \<and>
     eeprom_mem c' 0 = 7 \<and> eeprom_mem c' 1 = 9 \<and> eeprom_mem c' 2 = 0xFF"
proof -
  let ?c = "cat_configured [66, 0, 2] (map (OutPkt 4) [[69, 7], [9]] @ replicate 1 (InTok 3) @ [])"
  have "command_stream ([66, 0, 2] @ concat [[69, 7], [9]]) [] 1 [] ?c" by (rule cat_configured_stream) simp
  then have "command_stream (block_header CHR ''B'' (length [7, 9 :: u8]) CHR ''E'' @ [7, 9]) (in_log ?c 3) 1 [] ?c"
    by (simp add: block_header_def chr_of_def cat_configured_fields)
  from eeprom_block_write [OF this] show ?thesis
    by (auto simp: cat_configured_fields ee_addr_def ee_update_write E2SIZE_def)
qed

section \<open>Other commands\<close>

definition known_commands :: "u8 list" where
  "known_commands = map chr_of ''ETLPtaApSVserFNQbBgCcmRDd''"

text \<open>
  C30. Unknown commands. A byte that is no command of the protocol changes neither memory nor the
  address; the host receives a question mark, or nothing but an empty packet for the escape byte, which
  the programming tools send to resynchronise.
\<close>

theorem unknown_command_refused:
  assumes "command_stream [cmd] (in_log c 3) 1 h c" "cmd \<notin> set known_commands"
  shows "\<exists>c'. CDC_Task c = Some c' \<and> flash c' = flash c \<and> eeprom_mem c' = eeprom_mem c \<and>
    page_buf c' = page_buf c \<and> CurrAddress c' = CurrAddress c \<and> Timeout c' = Timeout c \<and>
    concat (in_log c' 3) = concat (in_log c 3) @ (if cmd = 27 then [] else [chr_of CHR ''?'']) \<and> host c' = h"
proof -
  let ?out = "if cmd = 27 then [] else [chr_of CHR ''?'']"
  have "CDC_Command cmd c1 = (if cmd \<noteq> 27 then WriteNextResponseByte (chr_of CHR ''?'') c1 else Some c1)" for c1
    using assms(2) by (simp add: CDC_Command_def CDC_Command_memory_def session_commands_def known_commands_def)
  then have "\<exists>c2. CDC_Command cmd c1 = Some c2 \<and> tx_stream (in_log c 3) ?out 1 h c2 \<and> core c2 = core c"
    if c1: "command_stream [] (in_log c 3) 1 h c1" "core c1 = core c" for c1
    using c1(2) Write_byte [OF command_answer [OF c1(1)], of "chr_of CHR ''?''"] command_answer [OF c1(1)] by fastforce
  then obtain c' where "CDC_Task c = Some c'" "concat (in_log c' 3) = concat (in_log c 3) @ ?out" "host c' = h"
      "core c' = core c"
    using CDC_Task_answers [of cmd "[]" "in_log c 3" ?out h c "core c"] assms(1) by auto
  then show ?thesis using coreD [of c' c] by auto
qed

theorem unknown_command_refused_witness:
  "\<exists>c'. CDC_Task (cat_configured [0x7A] (map (OutPkt 4) [] @ replicate 1 (InTok 3) @ [])) = Some c' \<and>
     concat (in_log c' 3) = [63]"
proof -
  let ?c = "cat_configured [0x7A] (map (OutPkt 4) [] @ replicate 1 (InTok 3) @ [])"
  have "command_stream ([0x7A] @ concat []) [] 1 [] ?c" by (rule cat_configured_stream) simp
  then have "command_stream [0x7A] (in_log ?c 3) 1 [] ?c" by (simp add: cat_configured_fields)
  from unknown_command_refused [OF this] show ?thesis
    by (auto simp: cat_configured_fields known_commands_def chr_of_def)
qed

lemma erase_page:
  assumes "a mod SPM_PAGESIZE = 0" "a < BOOT_START_ADDR"
  shows "core (boot_page_write (of_nat a) (boot_page_erase (of_nat a) c)) =
    core (c\<lparr>flash := (\<lambda>x. if a \<le> x \<and> x < a + SPM_PAGESIZE then buf_byte (page_buf c) (x - a) else flash c x),
      page_buf := (\<lambda>_. None), RWWSB := True\<rparr>)"
proof -
  have "unat (of_nat a :: u16) = a" using assms(2) by (simp add: unat_of_nat BOOT_START_ADDR_def)
  moreover have "ucast (of_nat a :: u32) = (of_nat a :: u16)" by (simp add: bit_eq_iff bit_simps)
  ultimately have "z_addr (of_nat a) = a"
    using assms(2) by (simp add: z_addr_def FLASH_SIZE_def BOOT_START_ADDR_def)
  then show ?thesis using assms
    by (auto simp: core_def boot_page_write_def boot_page_erase_def Let_def page_of_aligned in_rww_def erased_and fun_eq_iff)
qed

lemma buf_byte_empty [simp]: "buf_byte (\<lambda>_. None) k = 0xFF"
  by (simp add: buf_byte_def)

lemma erase_pages_core:
  assumes "a mod SPM_PAGESIZE = 0" "a + n * SPM_PAGESIZE \<le> BOOT_START_ADDR" "page_buf c = (\<lambda>_. None)"
  shows "core (erase_pages n a c) = core (c\<lparr>flash := (\<lambda>x. if a \<le> x \<and> x < a + n * SPM_PAGESIZE then 0xFF else flash c x),
    RWWSB := RWWSB c \<or> 0 < n\<rparr>)"
  using assms
proof (induction n arbitrary: a c)
  case 0
  then show ?case by (auto simp: core_def fun_eq_iff)
next
  case (Suc n)
  let ?d = "boot_page_write (of_nat a) (boot_page_erase (of_nat a) c)"
  have "a < BOOT_START_ADDR" using Suc(3) by (simp add: SPM_PAGESIZE_def)
  note d = erase_page [OF Suc(2) this, of c]
  have e: "buf_byte (page_buf c) k = 0xFF" for k using Suc(4) by simp
  have "core (erase_pages n (a + SPM_PAGESIZE) ?d) = core (?d\<lparr>flash := (\<lambda>x. if a + SPM_PAGESIZE \<le> x \<and>
      x < a + SPM_PAGESIZE + n * SPM_PAGESIZE then 0xFF else flash ?d x), RWWSB := RWWSB ?d \<or> 0 < n\<rparr>)"
    by (rule Suc(1)) (use Suc(2,3,4) coreD(2) [OF d] in simp_all)
  moreover have "(\<lambda>x. if a + SPM_PAGESIZE \<le> x \<and> x < a + SPM_PAGESIZE + n * SPM_PAGESIZE then 0xFF else flash ?d x) =
      (\<lambda>x. if a \<le> x \<and> x < a + Suc n * SPM_PAGESIZE then 0xFF else flash c x)"
    using coreD(1) [OF d] by (auto simp: fun_eq_iff e)
  ultimately show ?case using coreD [OF d] Suc(4) by (simp add: core_def)
qed

lemma erase_pages_streams: "command_stream bs l0 K h (erase_pages n a c) = command_stream bs l0 K h c"
  by (induction n arbitrary: a c) simp_all

lemma erase_application_core:
  "core (erase_application c) = core (c\<lparr>flash := (\<lambda>x. if x < SPM_PAGESIZE then buf_byte (page_buf c) x
     else if x < BOOT_START_ADDR then 0xFF else flash c x), page_buf := (\<lambda>_. None), RWWSB := True\<rparr>)"
proof -
  define n where "n = BOOT_START_ADDR div SPM_PAGESIZE - 1"
  let ?d = "boot_page_write (of_nat 0) (boot_page_erase (of_nat 0) c)"
  have s: "BOOT_START_ADDR div SPM_PAGESIZE = Suc n" by (simp add: n_def BOOT_START_ADDR_def SPM_PAGESIZE_def)
  have m: "SPM_PAGESIZE + n * SPM_PAGESIZE = BOOT_START_ADDR" by (simp add: n_def BOOT_START_ADDR_def SPM_PAGESIZE_def)
  have d: "core ?d = core (c\<lparr>flash := (\<lambda>x. if x < SPM_PAGESIZE then buf_byte (page_buf c) x else flash c x),
      page_buf := (\<lambda>_. None), RWWSB := True\<rparr>)"
    using erase_page [of 0 c] by (simp add: BOOT_START_ADDR_def cong: if_cong)
  have "core (erase_application c) = core (erase_pages n SPM_PAGESIZE ?d)"
    unfolding erase_application_def s by simp
  also have "\<dots> = core (?d\<lparr>flash := (\<lambda>x. if SPM_PAGESIZE \<le> x \<and> x < SPM_PAGESIZE + n * SPM_PAGESIZE then 0xFF
      else flash ?d x), RWWSB := RWWSB ?d \<or> 0 < n\<rparr>)"
    using coreD(2) [OF d] m by (intro erase_pages_core) simp_all
  also have "\<dots> = core (c\<lparr>flash := (\<lambda>x. if x < SPM_PAGESIZE then buf_byte (page_buf c) x
     else if x < BOOT_START_ADDR then 0xFF else flash c x), page_buf := (\<lambda>_. None), RWWSB := True\<rparr>)"
    unfolding m using coreD [OF d] by (auto simp: core_def fun_eq_iff)
  finally show ?thesis .
qed

text \<open>
  C31. Erasing the application. The command \<^verbatim>\<open>e\<close>, in every state of the boot loader, leaves its own section
  from \<open>0x7000\<close> on and the EEPROM untouched, sets everything from the second page up to there to \<open>0xFF\<close>
  and answers with a carriage return. The first page holds what the page buffer held: the words that a
  command \<^verbatim>\<open>C\<close> or \<^verbatim>\<open>c\<close> has filled before and that were not written are programmed into it, since the code writes
  every page after it has erased it; if the buffer was empty, the first page is erased too and the whole
  application is gone. The buffer is empty afterwards.
\<close>

theorem erase_command:
  assumes "command_stream [chr_of CHR ''e''] (in_log c 3) 1 h c"
  shows "\<exists>c'. CDC_Task c = Some c' \<and>
    flash c' = (\<lambda>x. if x < SPM_PAGESIZE then buf_byte (page_buf c) x else if x < BOOT_START_ADDR then 0xFF else flash c x) \<and>
    (page_buf c = (\<lambda>_. None) \<longrightarrow> flash c' = (\<lambda>x. if x < BOOT_START_ADDR then 0xFF else flash c x)) \<and>
    page_buf c' = (\<lambda>_. None) \<and> eeprom_mem c' = eeprom_mem c \<and> CurrAddress c' = CurrAddress c \<and>
    concat (in_log c' 3) = concat (in_log c 3) @ [13] \<and> host c' = h"
proof -
  let ?f = "\<lambda>x. if x < SPM_PAGESIZE then buf_byte (page_buf c) x else if x < BOOT_START_ADDR then 0xFF else flash c x"
  let ?k = "core (c\<lparr>flash := ?f, page_buf := (\<lambda>_. None), RWWSB := True\<rparr>)"
  have "\<exists>c2. CDC_Command (chr_of CHR ''e'') c1 = Some c2 \<and> tx_stream (in_log c 3) [13] 1 h c2 \<and> core c2 = ?k"
    if c1: "command_stream [] (in_log c 3) 1 h c1" "core c1 = core c" for c1
  proof -
    have "CDC_Command (chr_of CHR ''e'') c1 = WriteNextResponseByte 13 (erase_application c1)"
      by (simp add: CDC_Command_def CDC_Command_session_def session_commands_def chr_of_def)
    moreover have "core (erase_application c1) = ?k"
      unfolding erase_application_core using coreD [OF c1(2)] by (simp add: core_def cong: if_cong)
    moreover have "tx_stream (in_log c 3) [] 1 h (erase_application c1)"
      using c1(1) by (intro command_answer) (simp add: erase_application_def erase_pages_streams)
    ultimately show ?thesis using Write_byte [of "in_log c 3" h "erase_application c1" 13] by fastforce
  qed
  then obtain c' where c': "CDC_Task c = Some c'" "concat (in_log c' 3) = concat (in_log c 3) @ [13]" "host c' = h"
      "core c' = ?k"
    using CDC_Task_answers [of "chr_of CHR ''e''" "[]" "in_log c 3" "[13]" h c ?k] assms by auto
  moreover have "?f = (\<lambda>x. if x < BOOT_START_ADDR then 0xFF else flash c x)" if "page_buf c = (\<lambda>_. None)"
    unfolding that by (simp add: fun_eq_iff SPM_PAGESIZE_def BOOT_START_ADDR_def)
  ultimately show ?thesis using coreD [OF c'(4)] by auto
qed

lemma command_stream_flash [simp]:
  "command_stream bs l0 K h (c\<lparr>flash := m\<rparr>) = command_stream bs l0 K h c"
  "command_stream bs l0 K h (c\<lparr>page_buf := pb\<rparr>) = command_stream bs l0 K h c"
  by (rule stream_cong, simp_all add: cdc_on_def calm_def)+

theorem erase_command_witness:
  "\<exists>c'. CDC_Task ((cat_configured [101] (map (OutPkt 4) [] @ replicate 1 (InTok 3) @ []))\<lparr>flash := (\<lambda>_. 7),
       page_buf := (\<lambda>_. None)(0 := Some 0x1234)\<rparr>) = Some c' \<and>
     flash c' 0 = 0x34 \<and> flash c' 2 = 0xFF \<and> flash c' 0x6FFF = 0xFF \<and> flash c' 0x7000 = 7"
proof -
  let ?c = "(cat_configured [101] (map (OutPkt 4) [] @ replicate 1 (InTok 3) @ []))\<lparr>flash := (\<lambda>_. 7),
    page_buf := (\<lambda>_. None)(0 := Some 0x1234)\<rparr>"
  have "command_stream ([101] @ concat []) [] 1 [] ?c" using cat_configured_stream [of "[]" "[101]" 1 "[]"] by simp
  then have "command_stream [chr_of CHR ''e''] (in_log ?c 3) 1 [] ?c" by (simp add: cat_configured_fields chr_of_def)
  from erase_command [OF this] show ?thesis
    by (auto simp: cat_configured_fields BOOT_START_ADDR_def SPM_PAGESIZE_def buf_byte_def)
qed

end
