(* ===== verification/Caterina_Boot.thy ===== *)
theory Caterina_Boot
  imports Caterina_Programming
begin

text \<open>
  The main loop of the boot loader under the timer interrupt: a schedule says when the timer interrupt
  comes and when the loop goes round; after the loop, the sketch is started. An unattended boot loader
  refines a machine of three phases.
\<close>

section \<open>Schedules\<close>











section \<open>Steps\<close>














section \<open>Starting\<close>

lemma USB_Init_more: "\<exists>u'. USB_Init u = Some u' \<and> usb.more u' = usb.more u \<and> I_bit u' = I_bit u"
  by (simp add: USB_Init_def USB_ResetInterface_def USB_Init_Device_def configure_control Let_def
      USB_REG_On_def USB_INT_ClearAllInterrupts_def USB_INT_DisableAllInterrupts_def
      USB_Controller_Reset_def USB_Controller_Disable_def USB_CLK_Unfreeze_def USB_PLL_Off_def
      USB_Device_SetFullSpeed_def USB_Attach_def USB_OTGPAD_On_def on_ep_def)

lemma more_serve: "usb.more (serve u) = usb.more u"
  by (simp add: serve_def USB_GEN_vect_def usb_simps)

lemma cat_more_registers:
  fixes c d :: cat
  assumes "usb.more c = usb.more d"
  shows "PORTD c = PORTD d" "nc_trace c = nc_trace d" "DDRD c = DDRD d" "MCUCR_r c = MCUCR_r d" "PORTB c = PORTB d"
    "PORTC c = PORTC d" "TCCR1B c = TCCR1B d" "bootKey_mem c = bootKey_mem d" "MCUSR c = MCUSR d" "WDE c = WDE d"
  using assms by (cases c; cases d; simp)+

text \<open>The pulse on the latch line of the node controller's relay, with the boot medium selected before.\<close>

definition nc_pulse :: "u8 \<Rightarrow> trace list" where
  "nc_pulse p = (let q = cbi p 2; r = sbi q 4 in
     [PortD p, Delay_ms 100, PortD q, PortD r, Delay_ms 6, PortD (sbi r 2), Delay_ms 6, PortD (cbi (sbi r 2) 2)])"

lemma start_nc_trace:
  "nc_trace (start_nc m c) = nc_trace c @ (if m = 1 then nc_pulse (cbi (PORTD c) 3)
     else if m = 2 then nc_pulse (sbi (PORTD c) 3) else [])"
  "eeprom_mem (start_nc m c) = eeprom_mem c" "TIMSK1 (start_nc m c) = TIMSK1 c"
  "RunBootloader (start_nc m c) = RunBootloader c" "sketch_started (start_nc m c) = sketch_started c"
  by (simp_all add: start_nc_def TURN_ON_NC_def NC_uSD_def NC_eMMC_def NC_LATCH_OFF_def NC_LATCH_ON_def
      NC_POW_ON_def NC_BOOT_PINS_SETUP_def led_defs nc_pulse_def Let_def)

lemma SetupHardware_runs:
  "\<exists>c'. SetupHardware c = Some c' \<and> nc_trace c' = nc_trace c @ [PortD (cbi (PORTD c) 5)] \<and>
    PORTD c' = cbi (PORTD c) 5 \<and> eeprom_mem c' = eeprom_mem c \<and> RunBootloader c' = RunBootloader c \<and>
    sketch_started c' = sketch_started c \<and> TIMSK1 c' = OCIE1A"
proof -
  have "\<exists>d. SetupHardware c = USB_Init d \<and> nc_trace d = nc_trace c @ [PortD (cbi (PORTD c) 5)] \<and>
    PORTD d = cbi (PORTD c) 5 \<and> eeprom_mem d = eeprom_mem c \<and> RunBootloader d = RunBootloader c \<and>
    sketch_started d = sketch_started c \<and> TIMSK1 d = OCIE1A"
    unfolding SetupHardware_def Let_def by (rule exI, rule conjI, rule refl) (simp add: wdt_disable_def led_defs)
  then obtain d where d: "SetupHardware c = USB_Init d" "nc_trace d = nc_trace c @ [PortD (cbi (PORTD c) 5)]"
    "PORTD d = cbi (PORTD c) 5" "eeprom_mem d = eeprom_mem c" "RunBootloader d = RunBootloader c"
    "sketch_started d = sketch_started c" "TIMSK1 d = OCIE1A" by blast
  obtain c' where "USB_Init d = Some c'" "usb.more c' = usb.more d" using USB_Init_more [of d] by blast
  then show ?thesis using d cat_more_eqD [of c' d] cat_more_registers [of c' d] by simp
qed

lemma main_init_runs:
  "\<exists>c'. main_init c = Some c' \<and> Timeout c' = 0 \<and> RunBootloader c' = RunBootloader c \<and>
    sketch_started c' = sketch_started c \<and> TIMSK1 c' = OCIE1A \<and>
    eeprom_mem c' = ee_write (eeprom_mem c) 0x41 (MCUSR c) \<and>
    (let p = cbi (PORTD c) 5; m = ee_read (eeprom_mem c) 0x40 in
     nc_trace c' = nc_trace c @ [PortD p] @ (if m = 1 then nc_pulse (cbi p 3)
       else if m = 2 then nc_pulse (sbi p 3) else []) @ [Delay_ms 4000])"
proof -
  let ?d = "(wdt_disable (c\<lparr>DDRD := 0xFF, bootKey_mem := 0, MCUSR := 0\<rparr>))
    \<lparr>eeprom_mem := ee_write (eeprom_mem c) 0x41 (MCUSR c)\<rparr>"
  obtain e where e: "SetupHardware ?d = Some e" "nc_trace e = nc_trace c @ [PortD (cbi (PORTD c) 5)]"
      "PORTD e = cbi (PORTD c) 5" "eeprom_mem e = ee_write (eeprom_mem c) 0x41 (MCUSR c)"
      "RunBootloader e = RunBootloader c" "sketch_started e = sketch_started c" "TIMSK1 e = OCIE1A"
    using SetupHardware_runs [of ?d] by (auto simp: wdt_disable_def)
  define f where "f = delay_ms 4000 (start_nc (ee_read (eeprom_mem e) 0x40) e)"
  define g where "g = serve (f\<lparr>I_bit := True\<rparr>)"
  have "main_init c = Some (g\<lparr>Timeout := 0\<rparr>)"
    using e(1) by (simp add: main_init_def Let_def wdt_disable_def f_def g_def)
  moreover have k: "usb.more g = usb.more f" by (simp add: more_serve g_def)
  moreover have "ee_read (eeprom_mem e) 0x40 = ee_read (eeprom_mem c) 0x40" by (simp add: e(4) ee_read_def ee_write_def)
  then have "RunBootloader f = RunBootloader c" "sketch_started f = sketch_started c" "TIMSK1 f = OCIE1A"
      "eeprom_mem f = ee_write (eeprom_mem c) 0x41 (MCUSR c)"
      "nc_trace f = nc_trace c @ [PortD (cbi (PORTD c) 5)] @ (if ee_read (eeprom_mem c) 0x40 = 1
        then nc_pulse (cbi (cbi (PORTD c) 5) 3) else if ee_read (eeprom_mem c) 0x40 = 2
        then nc_pulse (sbi (cbi (PORTD c) 5) 3) else []) @ [Delay_ms 4000]"
    using e by (simp_all add: f_def delay_ms_def start_nc_trace)
  ultimately show ?thesis using cat_more_eqD [OF k] cat_more_registers [OF k] by (simp add: Let_def)
qed

end
