(* ===== verification/Spec2Isabelle.thy ===== *)
theory Spec2Isabelle
  imports Serial_Commands Print_Numbers Boot_History Relay_Journal System_Time Clock_Chip Sensors Wiring_Analog Wiring_Interrupts Caterina_Boot
begin

text \<open>
  A verification library of the software of the Wagman v3 board. The board supervises the computers of a
  sensor node: it switches their power, selects their boot media, watches their heartbeats and keeps a
  record of all this in its EEPROM. Its processor is an ATmega32U4. Three programs run on it, all under
  \<^verbatim>\<open>src/boards/v3\<close>:

  \<^item> the boot loader Caterina (\<^verbatim>\<open>bootloader/src/caterina\<close>) with the USB stack LUFA
    (\<^verbatim>\<open>bootloader/LUFA-111009/LUFA/Drivers/USB\<close>): after every reset it starts the node controller if the
    EEPROM says so, offers a serial port over USB on which the processor can be programmed, and starts
    the sketch when nobody does;
  \<^item> the firmware (\<^verbatim>\<open>firmware\<close>): the sketch with the device supervision and the record in the EEPROM;
  \<^item> the Arduino core and the Wire library (\<^verbatim>\<open>utils/Arduino/hardware/waggle/avr\<close>), on which the sketch runs.

  The programs meet in the EEPROM: the firmware writes the boot mode of the node controller at \<open>0x40\<close>,
  the boot loader obeys it and writes the cause of the reset at \<open>0x41\<close>.

  \<^bold>\<open>Theories.\<close>

  \<^descr> \<^verbatim>\<open>Wagman_Prelude\<close>: words as C integers, bit macros, little-endian representation, byte memories.

  \<^descr> \<^verbatim>\<open>Record_Store\<close>: \<^verbatim>\<open>EEPROM.h\<close> and \<^verbatim>\<open>Record.cpp\<close>, one definition for each setter, getter and method. The
    setters refine updates of an abstract device record and leave all other regions alone; the
    boot log, an instance of the locale \<open>bounded_log\<close>, keeps the last eight times; \<^verbatim>\<open>Record::init\<close>.

  \<^descr> \<^verbatim>\<open>Device_Control\<close>: \<^verbatim>\<open>Timer.cpp\<close>, the relays and selectors of \<^verbatim>\<open>Wagman.cpp\<close>, \<^verbatim>\<open>Device.cpp\<close>. Timers across the
    wrap-around of the clock; the effects of the methods.

  \<^descr> \<^verbatim>\<open>Firmware\<close>: the device table of \<^verbatim>\<open>firmware.ino\<close>, its commands and loop, as a step relation. Every method
    of a device is an instance of the locale \<open>device_method\<close>; a disabled device is never powered and
    the state STARTING is never reached, in all reachable states.

  \<^descr> \<^verbatim>\<open>Command_Line\<close>, \<^verbatim>\<open>Calendar\<close>, \<^verbatim>\<open>Sketch\<close>: the rest of \<^verbatim>\<open>firmware.ino\<close>. The cut of a command line into words,
    \<^verbatim>\<open>breakTime\<close> and \<^verbatim>\<open>makeTime\<close> of \<^verbatim>\<open>Time.cpp\<close>, which are inverse for all 32-bit times, the dispatch and the
    handlers, each an instance of the locale \<open>command_handler\<close>, the serial buffer, \<^verbatim>\<open>setup\<close> and \<^verbatim>\<open>loop\<close>. No input
    leaves the buffer; a line that fits runs its command; a disabled device is never powered in all
    states that the sketch can reach.

  \<^descr> \<^verbatim>\<open>Boot_History\<close>: the timer interrupt of \<^verbatim>\<open>Wagman.cpp\<close> that counts the changes of the heartbeat lines, and
    the evaluation of the boot logs. A device is taken for alive exactly if its line has changed eight times,
    modulo 256, since it was last taken for alive, over however many updates.

  \<^descr> \<^verbatim>\<open>Relay_Journal\<close>: \<^verbatim>\<open>Device::start\<close> and \<^verbatim>\<open>Device::kill\<close> as series of steps that a failure of the supply can cut. At
    every cut the journal in the EEPROM is true of the relay, and the next start acts on it.

  \<^descr> \<^verbatim>\<open>Usb_Core\<close>, \<^verbatim>\<open>Usb_Requests\<close>, \<^verbatim>\<open>Usb_Serial\<close>: the USB device of the sketch (\<^verbatim>\<open>USBCore.cpp\<close>, \<^verbatim>\<open>CDC.cpp\<close>,
    \<^verbatim>\<open>PluggableUSB.cpp\<close>): both interrupt handlers, the control pipe, descriptors, and the class \<^verbatim>\<open>Serial_\<close>. Requests
    for descriptors are answered; the requests of the port drive the watchdog and the boot key; sending
    ends, keeps the order under any interrupts but control requests and resets, and succeeds while the host collects. The locale
    \<open>byte_source\<close> states what a reader of the port relies on; \<^verbatim>\<open>Serial_Commands\<close> proves in it that the command loop
    of the sketch on a port is the loop on the list of the characters sent, and applies that to the USB port.

  \<^descr> \<^verbatim>\<open>Print_Numbers\<close> (\<^verbatim>\<open>Print.cpp\<close>, \<^verbatim>\<open>Logger.cpp\<close>): text output through a write method; numbers read back.

  \<^descr> \<^verbatim>\<open>System_Time\<close>: the running clock of \<^verbatim>\<open>Time.cpp\<close>, which loses no second, and its cache.

  \<^descr> \<^verbatim>\<open>Wire\<close> (\<^verbatim>\<open>Wire.cpp\<close>): the buffers of the class \<^verbatim>\<open>TwoWire\<close> over the interface of \<^verbatim>\<open>twi.h\<close>. The locale \<open>wire_bus\<close>
    says what a bus with devices promises; it is interpreted on the module of \<^verbatim>\<open>Twi\<close> with any devices behind it.
    \<^verbatim>\<open>Clock_Chip\<close> (\<^verbatim>\<open>MCP79412RTC.cpp\<close>) extends it to a chip of registers: a time that is set is read back.
    \<^verbatim>\<open>Check_Sum\<close> and \<^verbatim>\<open>Sensors\<close> (\<^verbatim>\<open>HTU21D.cpp\<close>, \<^verbatim>\<open>MCP342X.cpp\<close>, \<^verbatim>\<open>getAddressCurrent\<close>): the check sum is the one of the data
    sheet and finds errors of one and two bits; readings end and their error values are told apart.

  \<^descr> \<^verbatim>\<open>Avr_Io\<close>: registers of the AVR parts; a part is an argument of the core's functions, as the source
    chooses by \<^verbatim>\<open>#if defined\<close>. \<^verbatim>\<open>Wiring_Time\<close> (\<^verbatim>\<open>wiring.c\<close>): time does not drift, register set-up,
    delays. \<^verbatim>\<open>Wiring_Pins\<close> (\<^verbatim>\<open>wiring_digital.c\<close>, \<^verbatim>\<open>wiring_shift.c\<close>, pin tables): one pin per
    write, shift registers. \<^verbatim>\<open>Wiring_Analog\<close> (\<^verbatim>\<open>wiring_analog.c\<close>, \<^verbatim>\<open>wiring_pulse.c/.S\<close>): PWM,
    converter, pulses. \<^verbatim>\<open>Wiring_Interrupts\<close> (\<^verbatim>\<open>WInterrupts.c\<close>): handlers of the external lines.
    The locale \<open>microclock\<close> states what \<^verbatim>\<open>delay\<close> and \<^verbatim>\<open>pulseInLong\<close> need of \<^verbatim>\<open>micros\<close>.

  \<^descr> \<^verbatim>\<open>Twi\<close> (\<^verbatim>\<open>Wire/src/utility/twi.c\<close>): the interrupt handler as a state machine; the outcome of transfers,
    no access outside the buffer but for a read of zero bytes.

  \<^descr> \<^verbatim>\<open>Usb_Endpoint\<close>, \<^verbatim>\<open>Usb_Controller\<close>, \<^verbatim>\<open>Usb_Stream\<close>, \<^verbatim>\<open>Usb_Descriptors\<close>, \<^verbatim>\<open>Usb_Device\<close>: the device side of
    LUFA as the boot loader's Makefile builds it. Configuration of endpoints and controller,
    descriptors, standard requests. The application's callbacks are the record \<open>usb_app\<close>; the
    locale \<open>usb_application\<close> holds the lemmas about control requests for every application that keeps its
    contract.

  \<^descr> \<^verbatim>\<open>Caterina_Memory\<close>, \<^verbatim>\<open>Caterina\<close>: the boot loader's state, its memories and all its functions.
    \<^verbatim>\<open>Caterina_Usb\<close> interprets \<open>usb_application\<close>: enumeration, refused requests, requests end
    when the host leaves, the endpoints are those announced. \<^verbatim>\<open>Caterina_Protocol\<close> and
    \<^verbatim>\<open>Caterina_Programming\<close>: the programming commands end when the host leaves, write and read flash
    memory and EEPROM exactly, refuse unknown bytes and erase; what a block of an odd size, at any address or with words left in
    the page buffer does, and what the erase command does with such words, is stated in full.
    \<^verbatim>\<open>Caterina_Boot\<close>: the main loop under the timer interrupt and the start of the sketch.

  \<^bold>\<open>State and control.\<close> Objects and variables are records; functions take and return them. A loop whose
  end depends on the outside runs over an explicit list of what happens there: the bus events of
  \<^verbatim>\<open>Twi\<close>, and for USB the field \<open>host\<close> of the state, the remaining actions of the host, of which a waiting
  loop consumes one for each of its turns (\<open>poll\<close>). These recursions terminate on the length of the list;
  a wait that exhausts it returns \<open>None\<close>, so that a theorem with a result \<open>Some\<close> says that the code
  returns. No bound on the length is assumed. \<^verbatim>\<open>delay\<close> and \<^verbatim>\<open>pulseInLong\<close> are partial functions over the
  readings of the clock. Interrupts are taken when the code polls the hardware (\<open>serve\<close>), when interrupts
  are enabled (\<^verbatim>\<open>sei\<close>) and between the rounds of a main loop; they are not interleaved with single
  assignments. The environment of the processor (what the USB controller, the two-wire hardware, timer 0
  and the self-programming unit do) follows the data sheet and is defined next to the code that meets it.

  In the sketch's USB code the interrupts strike at every point of \<^verbatim>\<open>USB_Send\<close> that is not locked; what happens
  there is the argument \<open>ahead\<close>, a finite list, and the loop ends because the code counts its waits.

  \<^bold>\<open>Not modelled.\<close> The text that each command prints; the chips on the two-wire bus, which are parameters with
  the behaviour of their data sheets; the delays of the drivers; printing of floating-point numbers; the classes
  of the Arduino core the sketch does not use (hardware serial ports, strings, tones); class drivers and the
  host mode of LUFA, which the boot loader does not link, with its demos and projects; the other boards,
  build output and scripts. The lock-byte command of the boot loader is not compiled.
\<close>

text \<open>
  C26. The firmware's choice of boot medium reaches the boot loader. After the firmware has stored a
  mode with \<^verbatim>\<open>setBootloaderNodeController\<close>, the next start of the boot loader pulses the latch of the node
  controller's relay exactly once, with the selector line on the micro SD card for the modes 1 and above 2
  and on the eMMC for mode 2, and not at all for mode 0; then it waits four seconds. It leaves the
  stored mode in place and records the cause of the reset beside it.
\<close>

theorem boot_medium_selected:
  "\<exists>c'. main_init (c\<lparr>eeprom_mem := setBootloaderNodeController mode m\<rparr>) = Some c' \<and>
    nc_trace c' = nc_trace c @ [PortD (cbi (PORTD c) 5)] @
      (if mode = 0 then [] else if mode = 2 then nc_pulse (sbi (cbi (PORTD c) 5) 3)
       else nc_pulse (cbi (cbi (PORTD c) 5) 3)) @ [Delay_ms 4000] \<and>
    getBootloaderNodeController (eeprom_mem c') = (if 2 < mode then 1 else mode) \<and>
    ee_read (eeprom_mem c') 0x41 = MCUSR c"
proof -
  let ?m = "setBootloaderNodeController mode m"
  have m: "ee_read ?m 0x40 = (if 2 < mode then 1 else mode)"
    by (simp add: setBootloaderNodeController_def ee_read_def ee_write_def)
  have "mode = 0 \<or> mode = 1 \<or> mode = 2 \<or> 2 < mode" by unat_arith
  then show ?thesis
    using main_init_runs [of "c\<lparr>eeprom_mem := ?m\<rparr>"] m
    by (auto simp: Let_def getBootloaderNodeController_def ee_read_def ee_write_def)
qed

end
